(* ===== verification/Prelude.thy ===== *)
theory Prelude
  imports Main "HOL-Library.AList" "HOL-Library.Sublist" "HOL-Library.Word"
begin

section \<open>Shared vocabulary of the Remotish model\<close>

text \<open>
  What every component shares: the error values of the adapter SDK, the result type of fallible
  code, the state-and-exception computations of code that mutates an object and may throw half
  way, and the pieces of the JavaScript standard library the sources use: insertion-ordered
  \<open>Map\<close> and \<open>Set\<close>, stable \<open>Array.prototype.sort\<close>, and string functions.

  Strings are lists of code units; byte strings are lists of 8-bit words. The text of an error
  message is not modelled, its code is.
\<close>

named_theorems pure_form \<open>equations that turn a fallible call on valid arguments into its value\<close>

type_synonym byte = "8 word"
type_synonym bytes = "byte list"

subsection \<open>Errors and results\<close>

datatype error_code =
    NOT_FOUND
  | UNAUTHORIZED
  | FORBIDDEN
  | RATE_LIMITED
  | OFFLINE
  | UNSUPPORTED
  | INVALID_REQUEST
  | CANCELLED
  | UNKNOWN

text \<open>
  A thrown value is a \<open>RemotishError\<close> with its code, the \<open>FileSystemError\<close> of the editor with the code
  \<open>FileNotFound\<close>, or any other exception.
\<close>

datatype err = RemotishError error_code | FileNotFound | OtherError

type_synonym 'a res = "err + 'a"

definition andThen :: "'a res \<Rightarrow> ('a \<Rightarrow> 'b res) \<Rightarrow> 'b res" where
  "andThen m f = (case m of Inl e \<Rightarrow> Inl e | Inr x \<Rightarrow> f x)"

lemma andThen_simps [simp]:
  "andThen (Inl e) f = Inl e"
  "andThen (Inr x) f = f x"
  by (simp_all add: andThen_def)

lemma andThen_Inr_iff [simp]: "andThen m f = Inr y \<longleftrightarrow> (\<exists>x. m = Inr x \<and> f x = Inr y)"
  by (cases m) auto

lemma andThen_Inl_iff: "andThen m f = Inl e \<longleftrightarrow> m = Inl e \<or> (\<exists>x. m = Inr x \<and> f x = Inl e)"
  by (cases m) auto

lemma andThen_assoc: "andThen (andThen m f) g = andThen m (\<lambda>x. andThen (f x) g)"
  by (cases m) auto

lemma andThen_cong [fundef_cong]:
  "m = m' \<Longrightarrow> (\<And>x. m' = Inr x \<Longrightarrow> f x = f' x) \<Longrightarrow> andThen m f = andThen m' f'"
  by (cases m') auto

text \<open>The \<open>for .. of\<close> loop that builds a list, stopping at the first exception.\<close>

fun map_res :: "('a \<Rightarrow> 'b res) \<Rightarrow> 'a list \<Rightarrow> 'b list res" where
  "map_res f [] = Inr []"
| "map_res f (x # xs) = andThen (f x) (\<lambda>y. andThen (map_res f xs) (\<lambda>ys. Inr (y # ys)))"

text \<open>The \<open>for .. of\<close> loop that keeps the elements with a property.\<close>

fun filter_res :: "('a \<Rightarrow> bool res) \<Rightarrow> 'a list \<Rightarrow> 'a list res" where
  "filter_res p [] = Inr []"
| "filter_res p (x # xs) =
     andThen (p x) (\<lambda>b. andThen (filter_res p xs) (\<lambda>ys. Inr (if b then x # ys else ys)))"

text \<open>\<open>Array.prototype.some\<close>, which stops at the first hit.\<close>

fun some_res :: "('a \<Rightarrow> bool res) \<Rightarrow> 'a list \<Rightarrow> bool res" where
  "some_res p [] = Inr False"
| "some_res p (x # xs) = andThen (p x) (\<lambda>b. if b then Inr True else some_res p xs)"

text \<open>A loop that threads an accumulator.\<close>

fun fold_res :: "('a \<Rightarrow> 's \<Rightarrow> 's res) \<Rightarrow> 'a list \<Rightarrow> 's \<Rightarrow> 's res" where
  "fold_res f [] s = Inr s"
| "fold_res f (x # xs) s = andThen (f x s) (fold_res f xs)"

lemma filter_res_pure [pure_form]:
  "(\<And>x. x \<in> set xs \<Longrightarrow> p x = Inr (q x)) \<Longrightarrow> filter_res p xs = Inr (filter q xs)"
  by (induction xs) auto

lemma some_res_pure [pure_form]:
  "(\<And>x. x \<in> set xs \<Longrightarrow> p x = Inr (q x)) \<Longrightarrow> some_res p xs = Inr (\<exists>x \<in> set xs. q x)"
  by (induction xs) auto

lemma map_res_pure [pure_form]:
  "(\<And>x. x \<in> set xs \<Longrightarrow> f x = Inr (g x)) \<Longrightarrow> map_res f xs = Inr (map g xs)"
  by (induction xs) auto

lemma map_res_Inr_iff: "map_res f xs = Inr ys \<longleftrightarrow> list_all2 (\<lambda>x y. f x = Inr y) xs ys"
  by (induction xs arbitrary: ys) (auto simp: list_all2_Cons1)

lemma map_res_length: "map_res f xs = Inr ys \<Longrightarrow> length ys = length xs"
  by (auto simp: map_res_Inr_iff dest: list_all2_lengthD)

lemma map_res_cong [fundef_cong]:
  "xs = ys \<Longrightarrow> (\<And>x. x \<in> set ys \<Longrightarrow> f x = g x) \<Longrightarrow> map_res f xs = map_res g ys"
  by (induction ys arbitrary: xs) auto

lemma fold_res_append:
  "fold_res f (xs @ ys) s = andThen (fold_res f xs s) (fold_res f ys)"
proof (induction xs arbitrary: s)
  case (Cons x xs)
  then show ?case by (cases "f x s") simp_all
qed simp

text \<open>An invariant every step of a loop keeps holds of its result.\<close>

lemma fold_res_invariant:
  assumes "fold_res f xs s = Inr t" and "P s"
    and "\<And>x s t. x \<in> set xs \<Longrightarrow> P s \<Longrightarrow> f x s = Inr t \<Longrightarrow> P t"
  shows "P t"
  using assms
proof (induction xs arbitrary: s)
  case Nil
  then show ?case by simp
next
  case (Cons x xs)
  from Cons.prems(1) obtain s' where s': "f x s = Inr s'" and rest: "fold_res f xs s' = Inr t"
    by auto
  have "P s'" using Cons.prems(2) s' by (rule Cons.prems(3) [rotated]) simp
  with rest show ?case
    by (rule Cons.IH) (metis Cons.prems(3) list.set_intros(2))
qed

subsection \<open>Computations that mutate a state and may throw\<close>

text \<open>
  An exception does not undo what was mutated before it: the state comes back either way.
\<close>

type_synonym ('s, 'a) st = "'s \<Rightarrow> 'a res \<times> 's"

definition returnS :: "'a \<Rightarrow> ('s, 'a) st" where
  "returnS x = (\<lambda>s. (Inr x, s))"

definition throwS :: "err \<Rightarrow> ('s, 'a) st" where
  "throwS e = (\<lambda>s. (Inl e, s))"

definition bindS :: "('s, 'a) st \<Rightarrow> ('a \<Rightarrow> ('s, 'b) st) \<Rightarrow> ('s, 'b) st" where
  "bindS m f = (\<lambda>s. case m s of (r, s') \<Rightarrow> (case r of Inl e \<Rightarrow> (Inl e, s') | Inr x \<Rightarrow> f x s'))"

text \<open>Reading from the state with a function that may throw.\<close>

definition askS :: "('s \<Rightarrow> 'a res) \<Rightarrow> ('s, 'a) st" where
  "askS f = (\<lambda>s. (f s, s))"

text \<open>A mutation that may throw, in which case it leaves the state as it is.\<close>

definition modifyS :: "('s \<Rightarrow> 's res) \<Rightarrow> ('s, unit) st" where
  "modifyS f = (\<lambda>s. case f s of Inl e \<Rightarrow> (Inl e, s) | Inr s' \<Rightarrow> (Inr (), s'))"

fun forS :: "'a list \<Rightarrow> ('a \<Rightarrow> ('s, unit) st) \<Rightarrow> ('s, unit) st" where
  "forS [] f = returnS ()"
| "forS (x # xs) f = bindS (f x) (\<lambda>_. forS xs f)"

text \<open>A loop that builds a list, and \<open>Promise.all\<close>: every computation runs, the first exception wins.\<close>

fun mapS :: "('a \<Rightarrow> ('s, 'b) st) \<Rightarrow> 'a list \<Rightarrow> ('s, 'b list) st" where
  "mapS f [] = returnS []"
| "mapS f (x # xs) = bindS (f x) (\<lambda>y. bindS (mapS f xs) (\<lambda>ys. returnS (y # ys)))"

fun allS :: "('s, 'a) st list \<Rightarrow> ('s, 'a list) st" where
  "allS [] = returnS []"
| "allS (m # ms) = (\<lambda>s. case m s of (r, s1) \<Rightarrow> (case allS ms s1 of (rs, s2) \<Rightarrow>
     (andThen r (\<lambda>x. andThen rs (\<lambda>xs. Inr (x # xs))), s2)))"

text \<open>\<open>try m catch (error) handler(error)\<close>.\<close>

definition catchS :: "('s, 'a) st \<Rightarrow> (err \<Rightarrow> ('s, 'a) st) \<Rightarrow> ('s, 'a) st" where
  "catchS m handler = (\<lambda>s. case m s of (Inr x, s') \<Rightarrow> (Inr x, s') | (Inl e, s') \<Rightarrow> handler e s')"

lemma returnS_apply [simp]: "returnS x s = (Inr x, s)"
  by (simp add: returnS_def)

lemma throwS_apply [simp]: "throwS e s = (Inl e, s)"
  by (simp add: throwS_def)

lemma askS_apply [simp]: "askS f s = (f s, s)"
  by (simp add: askS_def)

lemma bindS_apply:
  "bindS m f s = (case m s of (Inl e, s') \<Rightarrow> (Inl e, s') | (Inr x, s') \<Rightarrow> f x s')"
  by (auto simp: bindS_def split: prod.splits sum.splits)

lemma modifyS_apply:
  "modifyS f s = (case f s of Inl e \<Rightarrow> (Inl e, s) | Inr s' \<Rightarrow> (Inr (), s'))"
  by (simp add: modifyS_def)

lemma bindS_Inr_iff:
  "bindS m f s = (Inr y, t) \<longleftrightarrow> (\<exists>x s'. m s = (Inr x, s') \<and> f x s' = (Inr y, t))"
  by (auto simp: bindS_apply split: prod.splits sum.splits)

lemma modifyS_Inr_iff: "modifyS f s = (Inr u, t) \<longleftrightarrow> f s = Inr t"
  by (auto simp: modifyS_apply split: sum.splits)

lemma askS_Inr_iff: "askS f s = (Inr x, t) \<longleftrightarrow> f s = Inr x \<and> t = s"
  by auto

lemma throwS_Inr_iff: "throwS e s = (Inr x, t) \<longleftrightarrow> False"
  by simp

lemma returnS_Inr_iff: "returnS x s = (Inr y, t) \<longleftrightarrow> y = x \<and> t = s"
  by auto

lemma bindS_ask_Inr_iff:
  "bindS (askS f) g s = (Inr y, t) \<longleftrightarrow> (\<exists>x. f s = Inr x \<and> g x s = (Inr y, t))"
  by (auto simp: bindS_Inr_iff)

lemma throw_if_Inr_iff:
  "(if b then throwS e else m) s = (Inr x, t) \<longleftrightarrow> \<not> b \<and> m s = (Inr x, t)"
  by simp

lemmas st_Inr_iffs = bindS_Inr_iff modifyS_Inr_iff askS_Inr_iff throwS_Inr_iff returnS_Inr_iff
  throw_if_Inr_iff

text \<open>The rule of a loop that finishes: an invariant indexed by what is left to do.\<close>

lemma forS_Inr_induct:
  assumes "forS xs f s = (Inr u, t)" and "P xs s"
    and "\<And>x ys s t. P (x # ys) s \<Longrightarrow> f x s = (Inr (), t) \<Longrightarrow> P ys t"
  shows "P [] t"
  using assms(1,2)
proof (induction xs arbitrary: s)
  case Nil
  then show ?case by simp
next
  case (Cons x xs)
  then obtain s' where "f x s = (Inr (), s')" and "forS xs f s' = (Inr u, t)"
    by (auto simp: bindS_Inr_iff)
  with Cons assms(3) show ?case by blast
qed

text \<open>A loop does not throw when no step throws in a state with the invariant.\<close>

lemma forS_total:
  assumes "\<And>x s. x \<in> set xs \<Longrightarrow> P s \<Longrightarrow> \<exists>s'. f x s = (Inr (), s') \<and> P s'"
  shows "P s \<Longrightarrow> \<exists>s'. forS xs f s = (Inr (), s') \<and> P s'"
  using assms
proof (induction xs arbitrary: s)
  case (Cons x xs)
  then obtain s1 where "f x s = (Inr (), s1)" "P s1" by force
  with Cons.IH [of s1] Cons.prems(2) show ?case by (auto simp: bindS_apply)
qed simp

text \<open>A computation keeps a property of the state, whether it throws or not.\<close>

named_theorems preserves_intro \<open>rules to show that a computation keeps a property\<close>

definition preserves :: "('s \<Rightarrow> bool) \<Rightarrow> ('s, 'a) st \<Rightarrow> bool" where
  "preserves P m \<longleftrightarrow> (\<forall>s r t. P s \<longrightarrow> m s = (r, t) \<longrightarrow> P t)"

lemma preservesD: "preserves P m \<Longrightarrow> m s = (r, t) \<Longrightarrow> P s \<Longrightarrow> P t"
  by (auto simp: preserves_def)

lemma preserves_returnS [preserves_intro]: "preserves P (returnS x)"
  by (simp add: preserves_def)

lemma preserves_throwS [preserves_intro]: "preserves P (throwS e)"
  by (simp add: preserves_def)

lemma preserves_askS [preserves_intro]: "preserves P (askS f)"
  by (simp add: preserves_def)

lemma preserves_bindS [preserves_intro]:
  "preserves P m \<Longrightarrow> (\<And>x. preserves P (f x)) \<Longrightarrow> preserves P (bindS m f)"
proof -
  assume m: "preserves P m" and f: "\<And>x. preserves P (f x)"
  have "P t" if "P s" and run: "bindS m f s = (r, t)" for s r t
  proof -
    obtain r' s' where s': "m s = (r', s')" by (cases "m s")
    have "P s'" using preservesD [OF m s' that(1)] .
    then show ?thesis using run s' f preservesD [of P "f (projr r')" s' r t]
      by (cases r') (auto simp: bindS_apply)
  qed
  then show ?thesis by (auto simp: preserves_def)
qed

lemma preserves_modifyS:
  "(\<And>s t. P s \<Longrightarrow> f s = Inr t \<Longrightarrow> P t) \<Longrightarrow> preserves P (modifyS f)"
  by (auto simp: preserves_def modifyS_apply split: sum.splits)

lemma preserves_if [preserves_intro]:
  "(b \<Longrightarrow> preserves P m) \<Longrightarrow> (\<not> b \<Longrightarrow> preserves P n) \<Longrightarrow> preserves P (if b then m else n)"
  by simp

lemma preserves_forS [preserves_intro]:
  "(\<And>x. preserves P (f x)) \<Longrightarrow> preserves P (forS xs f)"
proof (induction xs)
  case (Cons x xs)
  then show ?case by (simp add: preserves_bindS)
qed (simp add: preserves_returnS)

lemma preserves_mapS [preserves_intro]:
  "(\<And>x. preserves P (f x)) \<Longrightarrow> preserves P (mapS f xs)"
  by (induction xs) (simp_all add: preserves_returnS preserves_bindS)

lemma preserves_allS:
  "(\<And>m. m \<in> set ms \<Longrightarrow> preserves P m) \<Longrightarrow> preserves P (allS ms)"
proof (induction ms)
  case (Cons m ms)
  then have m: "preserves P m" and ms: "preserves P (allS ms)" by simp_all
  have "P t" if "P s" and run: "allS (m # ms) s = (r, t)" for s r t
  proof -
    obtain r1 s1 rs s2 where s1: "m s = (r1, s1)" and s2: "allS ms s1 = (rs, s2)" by fastforce
    then have "t = s2" using run by simp
    then show ?thesis using preservesD [OF ms s2 preservesD [OF m s1 that(1)]] by simp
  qed
  then show ?case by (simp add: preserves_def)
qed (simp add: preserves_returnS)

lemma preserves_catchS [preserves_intro]:
  "preserves P m \<Longrightarrow> (\<And>e. preserves P (handler e)) \<Longrightarrow> preserves P (catchS m handler)"
proof -
  assume m: "preserves P m" and handler: "\<And>e. preserves P (handler e)"
  have "P t" if "P s" and run: "catchS m handler s = (r, t)" for s r t
  proof -
    obtain r' s' where s': "m s = (r', s')" by fastforce
    have "P s'" using preservesD [OF m s' that(1)] .
    then show ?thesis using run s' preservesD [OF handler]
      by (cases r') (auto simp: catchS_def)
  qed
  then show ?thesis by (simp add: preserves_def)
qed

lemma preserves_case_option [preserves_intro]:
  "(\<And>x. preserves P (f x)) \<Longrightarrow> preserves P m \<Longrightarrow> preserves P (case o' of None \<Rightarrow> m | Some x \<Rightarrow> f x)"
  by (cases o') auto

lemma preserves_case_prod [preserves_intro]:
  "(\<And>x y. preserves P (f x y)) \<Longrightarrow> preserves P (case p of (x, y) \<Rightarrow> f x y)"
  by (cases p) auto

lemma preserves_ask_bind:
  "(\<And>x s. f s = Inr x \<Longrightarrow> preserves P (g x)) \<Longrightarrow> preserves P (bindS (askS f) g)"
  by (auto simp: preserves_def bindS_apply split: sum.splits)

subsection \<open>Sets and maps in insertion order\<close>

text \<open>
  A JavaScript \<open>Set\<close> is a list without duplicates in insertion order and a \<open>Map\<close> an association
  list with distinct keys; \<open>Map.prototype.set\<close> keeps the position of a key that is present, as
  \<^const>\<open>AList.update\<close> does.
\<close>

definition set_add :: "'a \<Rightarrow> 'a list \<Rightarrow> 'a list" where
  "set_add x xs = (if x \<in> set xs then xs else xs @ [x])"

definition set_remove :: "'a \<Rightarrow> 'a list \<Rightarrow> 'a list" where
  "set_remove x xs = filter (\<lambda>y. y \<noteq> x) xs"

lemma set_set_add [simp]: "set (set_add x xs) = insert x (set xs)"
  by (auto simp: set_add_def)

lemma distinct_set_add [simp]: "distinct (set_add x xs) = distinct xs"
  by (simp add: set_add_def)

lemma set_set_remove [simp]: "set (set_remove x xs) = set xs - {x}"
  by (auto simp: set_remove_def)

lemma distinct_set_remove [simp]: "distinct xs \<Longrightarrow> distinct (set_remove x xs)"
  by (simp add: set_remove_def)

abbreviation keys :: "('k \<times> 'v) list \<Rightarrow> 'k list" where
  "keys m \<equiv> map fst m"

lemma map_of_update [simp]: "map_of (AList.update k v m) = (map_of m)(k \<mapsto> v)"
  by (rule update_conv')

lemma map_of_delete [simp]: "map_of (AList.delete k m) = (map_of m)(k := None)"
  by (rule delete_conv')

lemma fst_set_update [simp]: "fst ` set (AList.update k v m) = insert k (fst ` set m)"
  by (simp add: dom_update)

lemma distinct_keys_update [simp]:
  "distinct (keys m) \<Longrightarrow> distinct (keys (AList.update k v m))"
  by (rule distinct_update)

lemma distinct_keys_delete [simp]:
  "distinct (keys m) \<Longrightarrow> distinct (keys (AList.delete k m))"
  by (rule distinct_delete)

lemma fst_set_delete [simp]: "fst ` set (AList.delete k m) = fst ` set m - {k}"
  by (metis delete_keys image_set set_removeAll)

lemma update_fresh: "k \<notin> fst ` set m \<Longrightarrow> AList.update k v m = m @ [(k, v)]"
  by (induction m) auto

lemma map_of_filter_key:
  "map_of (filter (\<lambda>(k, v). P k) m) = (\<lambda>k. if P k then map_of m k else None)"
  by (induction m) (auto simp: fun_eq_iff)

lemma distinct_keys_filter: "distinct (keys m) \<Longrightarrow> distinct (keys (filter P m))"
  by (induction m) auto

end
