(* ===== verification/JsText.thy ===== *)
theory JsText
  imports Prelude "HOL-Library.Multiset"
begin

section \<open>Strings and sorting of the JavaScript standard library\<close>

text \<open>
  The string methods the sources call (\<open>split\<close>, \<open>join\<close>, \<open>startsWith\<close>, \<open>lastIndexOf\<close>, \<open>slice\<close>,
  \<open>trim\<close>, \<open>replaceAll\<close>) on lists of code units, and \<open>Array.prototype.sort\<close>, which is stable.
  The comparison by code units is the default of \<open>sort\<close>; \<open>localeCompare\<close> depends on the host's
  collation data and is therefore a parameter of the definitions that use it, never defined here.
\<close>

subsection \<open>Splitting and joining\<close>

fun split_on :: "char \<Rightarrow> string \<Rightarrow> string list" where
  "split_on c [] = [[]]"
| "split_on c (x # xs) =
     (if x = c then [] # split_on c xs
      else (case split_on c xs of [] \<Rightarrow> [[x]] | w # ws \<Rightarrow> (x # w) # ws))"

fun join_with :: "char \<Rightarrow> string list \<Rightarrow> string" where
  "join_with c [] = []"
| "join_with c [w] = w"
| "join_with c (w # ws) = w @ c # join_with c ws"

lemma split_on_not_Nil [simp]: "split_on c s \<noteq> []"
  by (cases s) (auto split: list.splits)

lemma split_on_no_sep: "w \<in> set (split_on c s) \<Longrightarrow> c \<notin> set w"
  by (induction s arbitrary: w) (auto split: list.splits if_splits)

lemma split_on_subset: "w \<in> set (split_on c s) \<Longrightarrow> set w \<subseteq> set s"
  by (induction s arbitrary: w) (fastforce split: list.splits if_splits)+

lemma join_with_Cons: "ws \<noteq> [] \<Longrightarrow> join_with c (w # ws) = w @ c # join_with c ws"
  by (cases ws) auto

lemma join_split [simp]: "join_with c (split_on c s) = s"
proof (induction s)
  case (Cons x xs)
  then show ?case
    by (cases "split_on c xs"; cases "tl (split_on c xs)")
      (auto simp: join_with_Cons split: list.splits)
qed simp

lemma split_on_append:
  "split_on c (a @ c # b) = split_on c a @ split_on c b"
  by (induction a) (auto split: list.splits)

lemma split_on_word: "c \<notin> set w \<Longrightarrow> split_on c w = [w]"
  by (induction w) auto

lemma split_join:
  "ws \<noteq> [] \<Longrightarrow> (\<And>w. w \<in> set ws \<Longrightarrow> c \<notin> set w) \<Longrightarrow> split_on c (join_with c ws) = ws"
proof (induction ws rule: join_with.induct)
  case (3 c w v vs)
  then show ?case by (simp add: split_on_append split_on_word)
qed (auto simp: split_on_word)

lemma set_join_with: "set (join_with c ws) \<subseteq> insert c (\<Union>w \<in> set ws. set w)"
  by (induction ws rule: join_with.induct) auto

lemma join_with_eq_Nil: "join_with c ws = [] \<longleftrightarrow> ws = [] \<or> ws = [[]]"
  by (induction ws rule: join_with.induct) auto

subsection \<open>Positions, prefixes and white space\<close>

text \<open>\<open>lastIndexOf\<close> of one code unit, \<open>-1\<close> when there is none.\<close>

fun lastIndexOf :: "char \<Rightarrow> string \<Rightarrow> int" where
  "lastIndexOf c [] = -1"
| "lastIndexOf c (x # xs) =
     (let i = lastIndexOf c xs in if 0 \<le> i then i + 1 else if x = c then 0 else -1)"

definition startsWith :: "string \<Rightarrow> string \<Rightarrow> bool" where
  "startsWith s p \<longleftrightarrow> prefix p s"

definition replaceAll :: "char \<Rightarrow> char \<Rightarrow> string \<Rightarrow> string" where
  "replaceAll a b s = map (\<lambda>x. if x = a then b else x) s"

lemma lastIndexOf_ge: "-1 \<le> lastIndexOf c s"
  by (induction s) (auto simp: Let_def)

lemma lastIndexOf_neg: "lastIndexOf c s < 0 \<longleftrightarrow> c \<notin> set s"
  by (induction s) (auto simp: Let_def)

lemma lastIndexOf_append:
  "c \<notin> set w \<Longrightarrow> lastIndexOf c (a @ c # w) = int (length a)"
proof (induction a)
  case Nil
  then show ?case using lastIndexOf_neg [of c w] lastIndexOf_ge [of c w] by simp
qed (simp add: Let_def)

text \<open>\<open>String.prototype.trim\<close> removes white space and line terminators at both ends.\<close>

definition js_space :: "char \<Rightarrow> bool" where
  "js_space c \<longleftrightarrow> (let n = of_char c :: nat in (9 \<le> n \<and> n \<le> 13) \<or> n = 32 \<or> n = 160)"

definition trim_ends :: "('a \<Rightarrow> bool) \<Rightarrow> 'a list \<Rightarrow> 'a list" where
  "trim_ends P s = rev (dropWhile P (rev (dropWhile P s)))"

definition js_trim :: "string \<Rightarrow> string" where
  "js_trim s = trim_ends js_space s"

lemma trim_ends_Nil [simp]: "trim_ends P [] = []"
  by (simp add: trim_ends_def)

lemma trim_ends_unchanged:
  "s = [] \<or> (\<not> P (hd s) \<and> \<not> P (last s)) \<Longrightarrow> trim_ends P s = s"
  by (cases "s = []") (simp_all add: trim_ends_def dropWhile_eq_self_iff [THEN iffD2] hd_rev)

lemma trim_ends_hd_last:
  assumes "trim_ends P s \<noteq> []"
  shows "\<not> P (hd (trim_ends P s)) \<and> \<not> P (last (trim_ends P s))"
proof -
  let ?d = "dropWhile P s" and ?e = "dropWhile P (rev (dropWhile P s))"
  have e: "?e \<noteq> []" using assms by (simp add: trim_ends_def)
  then have "\<not> P (hd ?e)" by (metis hd_dropWhile)
  moreover obtain pre where pre: "rev ?d = pre @ ?e"
    by (metis takeWhile_dropWhile_id)
  have d: "?d \<noteq> []" using e by (metis dropWhile.simps(1) rev.simps(1))
  then have "\<not> P (hd ?d)" by (metis hd_dropWhile)
  moreover have "last ?e = hd ?d"
    using pre e d by (metis last_appendR last_rev)
  ultimately show ?thesis using e by (simp add: trim_ends_def hd_rev last_rev)
qed

lemma trim_ends_idem [simp]: "trim_ends P (trim_ends P s) = trim_ends P s"
  by (metis trim_ends_hd_last trim_ends_unchanged)

lemma set_trim_ends: "set (trim_ends P s) \<subseteq> set s"
  by (auto simp: trim_ends_def dest!: set_dropWhileD)

subsection \<open>Stable sorting with a comparator\<close>

type_synonym 'a comparator = "'a \<Rightarrow> 'a \<Rightarrow> int"

fun insert_by :: "'a comparator \<Rightarrow> 'a \<Rightarrow> 'a list \<Rightarrow> 'a list" where
  "insert_by cmp x [] = [x]"
| "insert_by cmp x (y # ys) = (if cmp x y \<le> 0 then x # y # ys else y # insert_by cmp x ys)"

fun sort_by :: "'a comparator \<Rightarrow> 'a list \<Rightarrow> 'a list" where
  "sort_by cmp [] = []"
| "sort_by cmp (x # xs) = insert_by cmp x (sort_by cmp xs)"

fun code_unit_compare :: "string comparator" where
  "code_unit_compare [] [] = 0"
| "code_unit_compare [] (y # ys) = -1"
| "code_unit_compare (x # xs) [] = 1"
| "code_unit_compare (x # xs) (y # ys) =
     (if (of_char x :: nat) < of_char y then -1
      else if (of_char y :: nat) < of_char x then 1
      else code_unit_compare xs ys)"

lemma mset_insert_by [simp]: "mset (insert_by cmp x xs) = add_mset x (mset xs)"
  by (induction xs) auto

lemma mset_sort_by [simp]: "mset (sort_by cmp xs) = mset xs"
  by (induction xs) auto

lemma set_sort_by [simp]: "set (sort_by cmp xs) = set xs"
  by (metis mset_sort_by set_mset_mset)

lemma length_sort_by [simp]: "length (sort_by cmp xs) = length xs"
  by (metis mset_sort_by size_mset)

lemma distinct_map_sort_by [simp]: "distinct (map f (sort_by cmp xs)) = distinct (map f xs)"
  by (metis mset_eq_imp_distinct_iff mset_map mset_sort_by)

lemma distinct_sort_by [simp]: "distinct (sort_by cmp xs) = distinct xs"
  using distinct_map_sort_by [of "\<lambda>x. x" cmp xs] by simp

text \<open>A consistent comparator, as the specification of \<open>sort\<close> requires, gives a sorted array.\<close>

definition consistent_comparator :: "'a comparator \<Rightarrow> bool" where
  "consistent_comparator cmp \<longleftrightarrow>
     (\<forall>x y. 0 < cmp x y \<longrightarrow> cmp y x \<le> 0) \<and>
     (\<forall>x y z. cmp x y \<le> 0 \<longrightarrow> cmp y z \<le> 0 \<longrightarrow> cmp x z \<le> 0)"

lemma sorted_insert_by:
  assumes "consistent_comparator cmp" and "sorted_wrt (\<lambda>x y. cmp x y \<le> 0) xs"
  shows "sorted_wrt (\<lambda>x y. cmp x y \<le> 0) (insert_by cmp a xs)"
  using assms(2)
proof (induction xs)
  case (Cons y ys)
  have in_set: "set (insert_by cmp a ys) = insert a (set ys)"
    by (metis mset_insert_by set_mset_add_mset_insert set_mset_mset)
  show ?case
  proof (cases "cmp a y \<le> 0")
    case True
    with Cons.prems assms(1) show ?thesis by (auto simp: consistent_comparator_def)
  next
    case False
    with assms(1) have "cmp y a \<le> 0"
      by (metis consistent_comparator_def linorder_not_le)
    with False Cons in_set show ?thesis by auto
  qed
qed simp

lemma sorted_sort_by:
  "consistent_comparator cmp \<Longrightarrow> sorted_wrt (\<lambda>x y. cmp x y \<le> 0) (sort_by cmp xs)"
  by (induction xs) (auto intro: sorted_insert_by)

subsection \<open>Decimal numbers\<close>

fun string_of_nat :: "nat \<Rightarrow> string" where
  "string_of_nat n = (if n < 10 then [char_of (48 + n)]
     else string_of_nat (n div 10) @ [char_of (48 + n mod 10)])"

declare string_of_nat.simps [simp del]

end
