(* ===== verification/RepoPath.thy ===== *)
theory RepoPath
  imports JsText
begin

section \<open>Repository paths\<close>

text \<open>
  Repository-relative paths: \<open>normalizeRepoPath\<close> of \<open>packages/adapter-sdk/src/path.ts\<close> and the
  path helpers of \<open>packages/core/src/util/path.ts\<close>. A path is canonical when normalising it
  returns it unchanged; on canonical paths the helpers have the pure forms \<open>same_or_child\<close> and
  \<open>child_of\<close>, and the lemmas here give the order they induce.
\<close>

type_synonym path = string

definition strip_slashes :: "string \<Rightarrow> string" where
  "strip_slashes s = trim_ends (\<lambda>c. c = CHR ''/'') s"

definition bad_segment :: "string \<Rightarrow> bool" where
  "bad_segment part \<longleftrightarrow> part = [] \<or> part = ''.'' \<or> part = ''..''"

definition normalizeRepoPath :: "string \<Rightarrow> path res" where
  "normalizeRepoPath path =
     (let normalized = strip_slashes (replaceAll CHR 0x5C CHR ''/'' path);
          parts = (if normalized = [] then [] else split_on CHR ''/'' normalized)
      in if list_ex bad_segment parts then Inl (RemotishError INVALID_REQUEST)
         else Inr (join_with CHR ''/'' parts))"

definition parentPath :: "string \<Rightarrow> path option res" where
  "parentPath path = andThen (normalizeRepoPath path) (\<lambda>normalized.
     if normalized = [] then Inr None
     else let index = lastIndexOf CHR ''/'' normalized in
       Inr (Some (if index < 0 then [] else take (nat index) normalized)))"

definition baseName :: "string \<Rightarrow> string res" where
  "baseName path = andThen (normalizeRepoPath path) (\<lambda>normalized.
     let index = lastIndexOf CHR ''/'' normalized in
       Inr (if index < 0 then normalized else drop (nat (index + 1)) normalized))"

definition same_or_child :: "path \<Rightarrow> path \<Rightarrow> bool" where
  "same_or_child path parent \<longleftrightarrow> path = parent \<or> startsWith path (parent @ ''/'')"

definition isSameOrChild :: "string \<Rightarrow> string \<Rightarrow> bool res" where
  "isSameOrChild path parent =
     andThen (normalizeRepoPath path) (\<lambda>normalizedPath.
     andThen (normalizeRepoPath parent) (\<lambda>normalizedParent.
       Inr (same_or_child normalizedPath normalizedParent)))"

definition isDirectChild :: "string \<Rightarrow> string \<Rightarrow> bool res" where
  "isDirectChild path parent =
     andThen (parentPath path) (\<lambda>p.
     andThen (normalizeRepoPath parent) (\<lambda>q. Inr (p = Some q)))"

subsection \<open>Canonical paths\<close>

text \<open>A canonical path is the root or a sequence of proper segments joined by single slashes.\<close>

definition segment :: "string \<Rightarrow> bool" where
  "segment s \<longleftrightarrow> \<not> bad_segment s \<and> CHR ''/'' \<notin> set s \<and> CHR 0x5C \<notin> set s"

definition canonical :: "path \<Rightarrow> bool" where
  "canonical p \<longleftrightarrow> p = [] \<or> list_all segment (split_on CHR ''/'' p)"

lemma segment_not_Nil [simp]: "segment s \<Longrightarrow> s \<noteq> []"
  by (auto simp: segment_def bad_segment_def)

lemma canonical_Nil [simp, intro]: "canonical []"
  by (simp add: canonical_def)

lemma canonical_segment [intro]: "segment s \<Longrightarrow> canonical s"
  by (simp add: canonical_def segment_def split_on_word)

lemma canonical_append_iff:
  "canonical (p @ CHR ''/'' # q) \<longleftrightarrow>
     list_all segment (split_on CHR ''/'' p) \<and> list_all segment (split_on CHR ''/'' q)"
  by (simp add: canonical_def split_on_append)

lemma segments_not_Nil: "list_all segment (split_on CHR ''/'' p) \<Longrightarrow> p \<noteq> []"
  by (auto simp: segment_def bad_segment_def)

lemma canonical_child_iff:
  "p \<noteq> [] \<Longrightarrow> q \<noteq> [] \<Longrightarrow> canonical (p @ CHR ''/'' # q) \<longleftrightarrow> canonical p \<and> canonical q"
  by (auto simp: canonical_def split_on_append)

lemma split_hd_last:
  "p \<noteq> [] \<Longrightarrow> hd p = CHR ''/'' \<or> last p = CHR ''/'' \<Longrightarrow> [] \<in> set (split_on CHR ''/'' p)"
proof -
  assume ne: "p \<noteq> []" and "hd p = CHR ''/'' \<or> last p = CHR ''/''"
  then consider r where "p = [] @ CHR ''/'' # r" | r where "p = r @ CHR ''/'' # []"
    by (metis append_Nil append_butlast_last_id list.collapse)
  then show ?thesis by cases (simp_all only: split_on_append, simp_all)
qed

lemma canonical_ends:
  assumes "canonical p" shows "strip_slashes p = p"
proof (cases "p = []")
  case False
  with assms have "[] \<notin> set (split_on CHR ''/'' p)"
    by (auto simp: canonical_def list_all_iff dest: segment_not_Nil)
  with False split_hd_last show ?thesis
    unfolding strip_slashes_def by (intro trim_ends_unchanged) blast
qed (simp add: strip_slashes_def)

lemma canonical_no_backslash: "canonical p \<Longrightarrow> CHR 0x5C \<notin> set p"
proof -
  assume "canonical p"
  moreover have "set p \<subseteq> insert CHR ''/'' (\<Union>w \<in> set (split_on CHR ''/'' p). set w)"
    using set_join_with [of "CHR ''/''" "split_on CHR ''/'' p"] by simp
  ultimately show ?thesis
    by (cases "p = []") (fastforce simp: canonical_def list_all_iff segment_def)+
qed

lemma replaceAll_id: "a \<notin> set s \<Longrightarrow> replaceAll a b s = s"
  by (auto simp: replaceAll_def intro: map_idI)

lemma replaceAll_gone: "a \<noteq> b \<Longrightarrow> a \<notin> set (replaceAll a b s)"
  by (auto simp: replaceAll_def)

lemma normalize_canonical [pure_form]:
  "canonical p \<Longrightarrow> normalizeRepoPath p = Inr p"
proof -
  assume p: "canonical p"
  then have "\<not> list_ex bad_segment (split_on CHR ''/'' p)" if "p \<noteq> []"
    using that by (auto simp: canonical_def list_all_iff list_ex_iff segment_def)
  with p show ?thesis
    by (auto simp: normalizeRepoPath_def replaceAll_id canonical_no_backslash canonical_ends
        Let_def)
qed

lemma normalize_result:
  assumes "normalizeRepoPath p = Inr q"
  shows "canonical q"
proof -
  let ?n = "strip_slashes (replaceAll CHR 0x5C CHR ''/'' p)"
  have no_back: "CHR 0x5C \<notin> set ?n"
    using set_trim_ends [of "\<lambda>c. c = CHR ''/''"] replaceAll_gone [of "CHR 0x5C" "CHR ''/''" p]
    unfolding strip_slashes_def by auto
  show ?thesis
  proof (cases "?n = []")
    case True
    with assms show ?thesis by (simp add: normalizeRepoPath_def)
  next
    case False
    with assms have good: "\<not> list_ex bad_segment (split_on CHR ''/'' ?n)" and q: "q = ?n"
      by (auto simp: normalizeRepoPath_def Let_def split: if_splits)
    have "list_all segment (split_on CHR ''/'' ?n)"
      unfolding list_all_iff segment_def
      using good no_back by (auto simp: list_ex_iff dest: split_on_no_sep split_on_subset)
    then show ?thesis by (simp add: q canonical_def)
  qed
qed

lemma normalize_fixpoint_iff: "normalizeRepoPath p = Inr p \<longleftrightarrow> canonical p"
  using normalize_canonical normalize_result by blast

lemma normalize_error: "normalizeRepoPath p = Inl e \<Longrightarrow> e = RemotishError INVALID_REQUEST"
  by (auto simp: normalizeRepoPath_def Let_def split: if_splits)

lemma isSameOrChild_canonical [pure_form]:
  "canonical p \<Longrightarrow> canonical q \<Longrightarrow> isSameOrChild p q = Inr (same_or_child p q)"
  by (simp add: isSameOrChild_def pure_form)

subsection \<open>Paths as lists of segments\<close>

definition segs :: "path \<Rightarrow> string list" where
  "segs p = (if p = [] then [] else split_on CHR ''/'' p)"

definition child_path :: "path \<Rightarrow> string \<Rightarrow> path" where
  "child_path d n = (if d = [] then n else d @ ''/'' @ n)"

definition parent_of :: "path \<Rightarrow> path" where
  "parent_of p = (let i = lastIndexOf CHR ''/'' p in if i < 0 then [] else take (nat i) p)"

definition base_of :: "path \<Rightarrow> string" where
  "base_of p = (let i = lastIndexOf CHR ''/'' p in if i < 0 then p else drop (nat (i + 1)) p)"

lemma segs_Nil [simp]: "segs [] = []"
  by (simp add: segs_def)

lemma segs_eq_Nil [simp]: "segs p = [] \<longleftrightarrow> p = []"
  by (simp add: segs_def)

lemma join_segs [simp]: "join_with CHR ''/'' (segs p) = p"
  by (simp add: segs_def)

lemma segs_inject [simp]: "segs p = segs q \<longleftrightarrow> p = q"
  by (metis join_segs)

lemma canonical_segs: "canonical p \<longleftrightarrow> list_all segment (segs p)"
  by (auto simp: canonical_def segs_def)

lemma segs_join:
  assumes "list_all segment ws" shows "segs (join_with CHR ''/'' ws) = ws"
proof (cases "ws = []")
  case False
  moreover from assms have "w \<in> set ws \<Longrightarrow> CHR ''/'' \<notin> set w" for w
    by (auto simp: list_all_iff segment_def)
  moreover from assms have "[] \<notin> set ws"
    by (auto simp: list_all_iff dest: segment_not_Nil)
  ultimately show ?thesis
    by (auto simp: segs_def split_join join_with_eq_Nil)
qed simp

lemma canonical_join: "list_all segment ws \<Longrightarrow> canonical (join_with CHR ''/'' ws)"
  by (simp add: canonical_segs segs_join)

lemma join_with_append:
  "xs \<noteq> [] \<Longrightarrow> ys \<noteq> [] \<Longrightarrow>
     join_with c (xs @ ys) = join_with c xs @ c # join_with c ys"
  by (induction xs rule: join_with.induct) (auto simp: join_with_Cons)

lemma join_with_snoc: "join_with CHR ''/'' (ws @ [n]) = child_path (join_with CHR ''/'' ws) n"
  if "[] \<notin> set ws"
  using that by (cases "ws = []") (auto simp: join_with_append child_path_def join_with_eq_Nil)

lemma child_path_not_Nil [simp]: "segment n \<Longrightarrow> child_path d n \<noteq> []"
  by (auto simp: child_path_def)

lemma segs_child_path [simp]: "segment n \<Longrightarrow> segs (child_path d n) = segs d @ [n]"
  by (auto simp: child_path_def segs_def split_on_append split_on_word segment_def)

lemma canonical_child_path [simp]: "segment n \<Longrightarrow> canonical (child_path d n) \<longleftrightarrow> canonical d"
  by (simp add: canonical_segs)

lemma child_path_inject:
  "segment m \<Longrightarrow> segment n \<Longrightarrow> child_path d m = child_path e n \<longleftrightarrow> d = e \<and> m = n"
  by (metis butlast_snoc last_snoc segs_child_path segs_inject)

lemma canonical_cases:
  assumes "canonical p" and "p \<noteq> []"
  obtains d n where "canonical d" and "segment n" and "p = child_path d n"
proof -
  have ne: "segs p \<noteq> []" using assms(2) by simp
  then have split: "segs p = butlast (segs p) @ [last (segs p)]" by simp
  have all: "list_all segment (butlast (segs p) @ [last (segs p)])"
    using assms(1) ne by (simp add: canonical_segs)
  then have parts: "list_all segment (butlast (segs p))" "segment (last (segs p))"
    by (simp_all only: list_all_append list.pred_inject)
  then have "[] \<notin> set (butlast (segs p))" by (auto simp: list_all_iff dest: segment_not_Nil)
  then have "p = child_path (join_with CHR ''/'' (butlast (segs p))) (last (segs p))"
    using split join_segs join_with_snoc by metis
  with parts show ?thesis by (blast intro: that canonical_join)
qed

text \<open>Induction from the root downwards.\<close>

lemma canonical_induct [consumes 1, case_names root child]:
  assumes "canonical p" and "P []"
    and "\<And>d n. canonical d \<Longrightarrow> segment n \<Longrightarrow> P d \<Longrightarrow> P (child_path d n)"
  shows "P p"
  using assms(1)
proof (induction "length (segs p)" arbitrary: p)
  case 0
  then show ?case using assms(2) by simp
next
  case (Suc k)
  then have "p \<noteq> []" by auto
  with Suc.prems obtain d n where "canonical d" "segment n" "p = child_path d n"
    by (rule canonical_cases)
  with Suc.hyps assms(3) show ?case by simp
qed

lemma lastIndexOf_child_path:
  "segment n \<Longrightarrow>
     lastIndexOf CHR ''/'' (child_path d n) = (if d = [] then -1 else int (length d))"
  using lastIndexOf_ge [of "CHR ''/''" n] lastIndexOf_neg [of "CHR ''/''" n]
  by (auto simp: child_path_def segment_def lastIndexOf_append)

lemma parent_of_child_path [simp]: "segment n \<Longrightarrow> parent_of (child_path d n) = d"
  by (simp add: parent_of_def lastIndexOf_child_path) (simp add: child_path_def)

lemma base_of_child_path [simp]: "segment n \<Longrightarrow> base_of (child_path d n) = n"
  by (simp add: base_of_def lastIndexOf_child_path) (simp add: child_path_def nat_add_distrib)

lemma parentPath_canonical [pure_form]:
  "canonical p \<Longrightarrow> parentPath p = Inr (if p = [] then None else Some (parent_of p))"
  by (simp add: parentPath_def parent_of_def pure_form Let_def)

lemma baseName_canonical [pure_form]: "canonical p \<Longrightarrow> baseName p = Inr (base_of p)"
  by (simp add: baseName_def base_of_def pure_form Let_def)

lemma isDirectChild_canonical [pure_form]:
  "canonical p \<Longrightarrow> canonical q \<Longrightarrow> isDirectChild p q = Inr (p \<noteq> [] \<and> parent_of p = q)"
  by (auto simp: isDirectChild_def pure_form)

lemma canonical_parent_of [simp, intro]: "canonical p \<Longrightarrow> canonical (parent_of p)"
proof (cases "p = []")
  case False
  assume "canonical p"
  then show ?thesis using False by (rule canonical_cases) simp
qed (simp add: parent_of_def)

lemma child_path_parent_base:
  "canonical p \<Longrightarrow> p \<noteq> [] \<Longrightarrow> child_path (parent_of p) (base_of p) = p \<and> segment (base_of p)"
  by (erule canonical_cases) auto

subsection \<open>The order of paths\<close>

lemma same_or_child_segs:
  assumes "canonical p" and "canonical q" and "q \<noteq> []"
  shows "same_or_child p q \<longleftrightarrow> prefix (segs q) (segs p)"
proof
  assume "same_or_child p q"
  then consider "p = q" | r where "p = q @ CHR ''/'' # r"
    by (auto simp: same_or_child_def startsWith_def prefix_def)
  then show "prefix (segs q) (segs p)"
    by cases (use assms(3) in \<open>auto simp: segs_def split_on_append\<close>)
next
  assume "prefix (segs q) (segs p)"
  then obtain ys where ys: "segs p = segs q @ ys" by (auto simp: prefix_def)
  show "same_or_child p q"
  proof (cases "ys = []")
    case True
    with ys show ?thesis by (simp add: same_or_child_def)
  next
    case False
    then have "p = q @ CHR ''/'' # join_with CHR ''/'' ys"
      using ys assms(3) join_with_append [of "segs q" ys] by (metis join_segs segs_eq_Nil)
    then show ?thesis by (simp add: same_or_child_def startsWith_def prefix_def)
  qed
qed

lemma same_or_child_refl [simp]: "same_or_child p p"
  by (simp add: same_or_child_def)

lemma same_or_child_root [simp]: "canonical p \<Longrightarrow> same_or_child p [] \<longleftrightarrow> p = []"
proof -
  assume "canonical p"
  then have "\<not> prefix ''/'' p"
    by (cases p) (auto simp: canonical_def dest: segment_not_Nil)
  then show ?thesis by (auto simp: same_or_child_def startsWith_def)
qed

lemma same_or_child_of_root [simp]: "same_or_child [] q \<longleftrightarrow> q = []"
  by (auto simp: same_or_child_def startsWith_def)

lemma same_or_child_trans:
  "same_or_child p q \<Longrightarrow> same_or_child q r \<Longrightarrow> same_or_child p r"
  by (auto simp: same_or_child_def startsWith_def prefix_def)

lemma same_or_child_antisym:
  "same_or_child p q \<Longrightarrow> same_or_child q p \<Longrightarrow> p = q"
  by (auto simp: same_or_child_def startsWith_def prefix_def)

lemma same_or_child_linear:
  assumes "same_or_child p a" and "same_or_child p b"
  shows "same_or_child a b \<or> same_or_child b a"
proof -
  consider "p = a" | "p = b" | "prefix (a @ ''/'') p" "prefix (b @ ''/'') p"
    using assms by (auto simp: same_or_child_def startsWith_def)
  then show ?thesis
  proof cases
    case 3
    then consider "prefix (a @ ''/'') (b @ ''/'')" | "prefix (b @ ''/'') (a @ ''/'')"
      by (metis prefix_same_cases)
    then show ?thesis
      by cases (auto simp: same_or_child_def startsWith_def)
  qed (use assms in auto)
qed

lemma same_or_child_not_Nil: "same_or_child p q \<Longrightarrow> q \<noteq> [] \<Longrightarrow> p \<noteq> []"
  by auto

lemma same_or_child_child_path:
  assumes "canonical d" "segment n" "canonical t" "t \<noteq> []"
  shows "same_or_child (child_path d n) t \<longleftrightarrow> child_path d n = t \<or> same_or_child d t"
proof -
  have "same_or_child (child_path d n) t \<longleftrightarrow> prefix (segs t) (segs d @ [n])"
    using assms by (simp add: same_or_child_segs)
  also have "\<dots> \<longleftrightarrow> segs t = segs (child_path d n) \<or> prefix (segs t) (segs d)"
    using assms(2) by simp
  also have "\<dots> \<longleftrightarrow> child_path d n = t \<or> same_or_child d t"
    using assms by (auto simp: same_or_child_segs simp del: segs_child_path)
  finally show ?thesis .
qed

end
