(* ===== verification/JsValue.thy ===== *)
theory JsValue
  imports RepoPath Complex_Main
begin

section \<open>Untrusted JavaScript values\<close>

text \<open>
  The values of static type \<open>unknown\<close> that adapters, wire messages and stored files hand to the
  validators: JavaScript primitives, arrays, plain objects (own enumerable properties in
  insertion order) and byte arrays. Numbers are IEEE doubles: rationals and the three values
  that are not finite.
\<close>

datatype jsnum = JFin rat | JNaN | JPosInf | JNegInf

datatype jsval =
    JUndefined
  | JNull
  | JBool bool
  | JNum jsnum
  | JStr string
  | JArr "jsval list"
  | JObj "(string \<times> jsval) list"
  | JBytes bytes

definition jnat :: "nat \<Rightarrow> jsval" where
  "jnat n = JNum (JFin (of_nat n))"

text \<open>Reading a property: an absent one, or one of a value with no such property, is undefined.\<close>

fun js_get :: "jsval \<Rightarrow> string \<Rightarrow> jsval" where
  "js_get (JObj kvs) k = (case map_of kvs k of None \<Rightarrow> JUndefined | Some v \<Rightarrow> v)"
| "js_get v k = JUndefined"

text \<open>\<open>value && typeof value === 'object' && !Array.isArray(value)\<close>.\<close>

fun is_record :: "jsval \<Rightarrow> bool" where
  "is_record (JObj kvs) = True"
| "is_record (JBytes bs) = True"
| "is_record v = False"

definition max_safe_integer :: int where
  "max_safe_integer = 9007199254740991"

text \<open>\<open>Number.isSafeInteger\<close>, with the integer it recognises.\<close>

fun safe_integer :: "jsnum \<Rightarrow> int option" where
  "safe_integer (JFin r) =
     (if r = of_int \<lfloor>r\<rfloor> \<and> \<bar>\<lfloor>r\<rfloor>\<bar> \<le> max_safe_integer then Some \<lfloor>r\<rfloor> else None)"
| "safe_integer n = None"

lemma safe_integer_of_int [simp]:
  "\<bar>i\<bar> \<le> max_safe_integer \<Longrightarrow> safe_integer (JFin (of_int i)) = Some i"
  by simp

lemma safe_integer_of_nat [simp]:
  "int n \<le> max_safe_integer \<Longrightarrow> safe_integer (JFin (of_nat n)) = Some (int n)"
  using safe_integer_of_int [of "int n"] by (simp del: safe_integer.simps)

lemma safe_integer_Some: "safe_integer n = Some i \<Longrightarrow> n = JFin (of_int i)"
  by (cases n) (auto split: if_splits)

lemma safe_integer_bound: "safe_integer n = Some i \<Longrightarrow> \<bar>i\<bar> \<le> max_safe_integer"
  by (cases n) (auto split: if_splits)

declare safe_integer.simps(1) [simp del]

lemma safe_integer_numeral [simp]:
  "safe_integer (JFin 0) = Some 0"
  "safe_integer (JFin 1) = Some 1"
  using safe_integer_of_int [of 0] safe_integer_of_int [of 1]
  by (simp_all add: max_safe_integer_def)

text \<open>The outcome of a request that races a deadline: it settles first, or the timer fires.\<close>

datatype 'a race = Settled "'a res" | TimedOut

end
