(* ===== verification/AdapterSdk.thy ===== *)
theory AdapterSdk
  imports JsValue
begin

section \<open>The adapter SDK\<close>

text \<open>
  The data types of \<open>packages/adapter-sdk/src\<close> and the adapter interface itself. An adapter is a
  record of operations on the state of the remote, the type parameter of the model: reads at a
  revision observe that state, the other requests may change it. An operation a read-only adapter
  may omit is an option. \<open>validateAdapterContract\<close> is the check of
  \<open>packages/core/src/workspace/adapter-contract.ts\<close>.
\<close>

type_synonym revision = string
type_synonym branch_name = string
type_synonym repository_id = string

record repository_info =
  ri_id :: repository_id
  ri_name :: string
  ri_defaultBranch :: branch_name
  ri_description :: "string option"

datatype entry_type = FileEntry | DirEntry

record directory_entry =
  de_name :: string
  de_path :: path
  de_type :: entry_type
  de_size :: "nat option"

record branch =
  br_name :: branch_name
  br_revision :: revision
  br_isDefault :: "bool option"

record commit_author =
  au_name :: string
  au_email :: "string option"

record commit_info =
  ci_revision :: revision
  ci_parents :: "revision list"
  ci_message :: string
  ci_author :: "commit_author option"
  ci_authoredAt :: "string option"

datatype commit_change_type = CAdded | CModified | CDeleted | CRenamed

record commit_change =
  cc_type :: commit_change_type
  cc_path :: path
  cc_previousPath :: "path option"

record commit_query =
  cq_branch :: "branch_name option"
  cq_revision :: "revision option"
  cq_cursor :: "string option"
  cq_limit :: "jsnum option"

record commit_page =
  cp_commits :: "commit_info list"
  cp_nextCursor :: "string option"

subsection \<open>Commit requests and results\<close>

datatype change =
    AddChange (ch_path: path) (ch_content: bytes)
  | ModifyChange (ch_path: path) (ch_content: bytes)
  | DeleteChange (ch_path: path)

record commit_request_base =
  cb_branch :: branch_name
  cb_baseRevision :: revision
  cb_message :: string
  cb_changes :: "change list"

datatype commit_request =
    NormalCommitRequest (cr_base: commit_request_base)
  | ForceCommitRequest (cr_base: commit_request_base) (cr_lease: revision)
  | AmendCommitRequest (cr_base: commit_request_base) (cr_lease: revision)

datatype rejection_reason = REMOTE_CHANGED | REJECTED_FORBIDDEN | REJECTED_UNSUPPORTED

datatype commit_result =
    CommitSuccess (cs_revision: revision) (cs_commit: commit_info)
  | CommitRejected rejection_reason "revision option" "string option"

subsection \<open>Capabilities and the adapter interface\<close>

record capabilities =
  cap_commits :: bool
  cap_localEdits :: "bool option"
  cap_forceWithLease :: "bool option"
  cap_amend :: "bool option"
  cap_createBranch :: "bool option"
  cap_deleteBranch :: "bool option"

text \<open>An optional flag in a condition: absent counts as false.\<close>

definition flag :: "bool option \<Rightarrow> bool" where
  "flag b \<longleftrightarrow> b = Some True"

lemma flag_simps [simp]: "flag None = False" "flag (Some b) = b"
  by (simp_all add: flag_def)

record 'w adapter =
  ad_capabilities :: capabilities
  ad_getRepository :: "('w, repository_info) st"
  ad_readDirectory :: "'w \<Rightarrow> revision \<Rightarrow> path \<Rightarrow> jsval race"
  ad_readFile :: "'w \<Rightarrow> revision \<Rightarrow> path \<Rightarrow> bytes race"
  ad_getBranches :: "('w, branch list) st"
  ad_getCommits :: "commit_query \<Rightarrow> ('w, commit_page) st"
  ad_getCommitChanges :: "revision \<Rightarrow> ('w, commit_change list) st"
  ad_commit :: "(commit_request \<Rightarrow> ('w, commit_result) st) option"
  ad_createBranch :: "(branch_name \<Rightarrow> revision \<Rightarrow> ('w, branch) st) option"
  ad_deleteBranch :: "(branch_name \<Rightarrow> ('w, unit) st) option"

definition validateAdapterContract :: "'w adapter \<Rightarrow> unit res" where
  "validateAdapterContract adapter =
     (let capabilities = ad_capabilities adapter; invalid = Inl (RemotishError INVALID_REQUEST) in
      if cap_commits capabilities \<and> ad_commit adapter = None then invalid
      else if flag (cap_forceWithLease capabilities) \<and> \<not> cap_commits capabilities then invalid
      else if flag (cap_amend capabilities) \<and> \<not> flag (cap_forceWithLease capabilities) then invalid
      else if flag (cap_createBranch capabilities) \<and> ad_createBranch adapter = None then invalid
      else if flag (cap_deleteBranch capabilities) \<and> ad_deleteBranch adapter = None then invalid
      else Inr ())"

text \<open>An accepted adapter honours every capability it advertises.\<close>

lemma validateAdapterContract_honoured:
  assumes "validateAdapterContract ad = Inr ()"
  shows "cap_commits (ad_capabilities ad) \<Longrightarrow> ad_commit ad \<noteq> None"
    and "flag (cap_forceWithLease (ad_capabilities ad)) \<Longrightarrow> cap_commits (ad_capabilities ad)"
    and "flag (cap_amend (ad_capabilities ad)) \<Longrightarrow>
           flag (cap_forceWithLease (ad_capabilities ad)) \<and> ad_commit ad \<noteq> None"
    and "flag (cap_createBranch (ad_capabilities ad)) \<Longrightarrow> ad_createBranch ad \<noteq> None"
    and "flag (cap_deleteBranch (ad_capabilities ad)) \<Longrightarrow> ad_deleteBranch ad \<noteq> None"
  using assms unfolding validateAdapterContract_def
  by (auto simp: Let_def split: if_splits)

end
