(* ===== verification/RevisionCache.thy ===== *)
theory RevisionCache
  imports AdapterSdk
begin

section \<open>The cache of immutable revision data\<close>

text \<open>
  The class \<open>RevisionCache\<close> of \<open>packages/core/src/repository/revision-cache.ts\<close>: an LRU cache of
  file and directory reads keyed by revision and normalised path. The entries are the insertion
  ordered map of the code, oldest first. The invariant is the accounting of the byte budget; the
  lemmas show that eviction drops the oldest entries only, no more than the limits ask for, and
  that an entry just stored is found again.
\<close>

datatype cache_entry =
    FileCacheEntry bytes (ce_weight: int)
  | DirCacheEntry "directory_entry list" (ce_weight: int)

record revision_cache =
  rc_entries :: "(string \<times> cache_entry) list"
  rc_maxBytes :: rat
  rc_maxEntries :: "int option"
  rc_retainedBytes :: int

definition default_cache_max_bytes :: int where
  "default_cache_max_bytes = 128 * 1024 * 1024"

definition requireNonNegativeFinite :: "jsnum \<Rightarrow> rat res" where
  "requireNonNegativeFinite value =
     (case value of JFin r \<Rightarrow> if r < 0 then Inl OtherError else Inr r | _ \<Rightarrow> Inl OtherError)"

definition requireNonNegativeInteger :: "jsnum \<Rightarrow> int res" where
  "requireNonNegativeInteger value =
     (case value of JFin r \<Rightarrow> if r \<noteq> of_int \<lfloor>r\<rfloor> \<or> r < 0 then Inl OtherError else Inr \<lfloor>r\<rfloor>
      | _ \<Rightarrow> Inl OtherError)"

definition newRevisionCache :: "jsnum option \<Rightarrow> jsnum option \<Rightarrow> revision_cache res" where
  "newRevisionCache maxBytes maxEntries =
     andThen (requireNonNegativeFinite
       (case maxBytes of None \<Rightarrow> JFin (of_int default_cache_max_bytes) | Some n \<Rightarrow> n)) (\<lambda>mb.
     andThen (case maxEntries of None \<Rightarrow> Inr None
       | Some n \<Rightarrow> andThen (requireNonNegativeInteger n) (\<lambda>k. Inr (Some k))) (\<lambda>me.
       Inr \<lparr>rc_entries = [], rc_maxBytes = mb, rc_maxEntries = me, rc_retainedBytes = 0\<rparr>))"

definition cache_key :: "revision \<Rightarrow> path \<Rightarrow> string res" where
  "cache_key revision path = andThen (normalizeRepoPath path) (\<lambda>p. Inr (revision @ CHR 0x00 # p))"

definition estimateKeyWeight :: "string \<Rightarrow> int" where
  "estimateKeyWeight value = 64 + int (length value) * 2"

fun estimateDirectoryWeight :: "directory_entry list \<Rightarrow> int" where
  "estimateDirectoryWeight [] = 64"
| "estimateDirectoryWeight (e # es) =
     96 + int (length (de_name e)) * 2 + int (length (de_path e)) * 2 + estimateDirectoryWeight es"

definition cache_clear :: "revision_cache \<Rightarrow> revision_cache" where
  "cache_clear c = c\<lparr>rc_entries := [], rc_retainedBytes := 0\<rparr>"

text \<open>A hit becomes the newest entry of the iteration order.\<close>

definition cache_getEntry :: "string \<Rightarrow> revision_cache \<Rightarrow> cache_entry option \<times> revision_cache" where
  "cache_getEntry k c =
     (case map_of (rc_entries c) k of None \<Rightarrow> (None, c)
      | Some e \<Rightarrow> (Some e, c\<lparr>rc_entries := AList.update k e (AList.delete k (rc_entries c))\<rparr>))"

definition over_budget :: "revision_cache \<Rightarrow> bool" where
  "over_budget c \<longleftrightarrow> rc_maxBytes c < of_int (rc_retainedBytes c) \<or>
     (\<exists>m. rc_maxEntries c = Some m \<and> m < int (length (rc_entries c)))"

lemma over_budget_code [code]:
  "over_budget c \<longleftrightarrow> rc_maxBytes c < of_int (rc_retainedBytes c) \<or>
     (case rc_maxEntries c of None \<Rightarrow> False | Some m \<Rightarrow> m < int (length (rc_entries c)))"
  by (auto simp: over_budget_def split: option.splits)

function cache_evictToBudget :: "revision_cache \<Rightarrow> revision_cache" where
  "cache_evictToBudget c =
     (if over_budget c then
        (case rc_entries c of [] \<Rightarrow> c
         | (k, e) # _ \<Rightarrow> cache_evictToBudget
             (c\<lparr>rc_entries := tl (rc_entries c), rc_retainedBytes := rc_retainedBytes c - ce_weight e\<rparr>))
      else c)"
  by auto
termination by (relation "measure (\<lambda>c. length (rc_entries c))") auto

declare cache_evictToBudget.simps [simp del]

definition cache_setEntry :: "string \<Rightarrow> cache_entry \<Rightarrow> revision_cache \<Rightarrow> revision_cache" where
  "cache_setEntry k e c =
     (let c1 = (case map_of (rc_entries c) k of None \<Rightarrow> c
        | Some previous \<Rightarrow> c\<lparr>rc_entries := AList.delete k (rc_entries c),
            rc_retainedBytes := rc_retainedBytes c - ce_weight previous\<rparr>)
      in if rc_maxBytes c = 0 \<or> rc_maxBytes c < of_int (ce_weight e) \<or> rc_maxEntries c = Some 0
         then c1
         else cache_evictToBudget (c1\<lparr>rc_entries := AList.update k e (rc_entries c1),
            rc_retainedBytes := rc_retainedBytes c1 + ce_weight e\<rparr>))"

definition cache_getFile ::
  "revision \<Rightarrow> path \<Rightarrow> revision_cache \<Rightarrow> (bytes option \<times> revision_cache) res" where
  "cache_getFile revision path c = andThen (cache_key revision path) (\<lambda>k.
     Inr (case cache_getEntry k c of
         (Some (FileCacheEntry v _), c') \<Rightarrow> (Some v, c') | (_, c') \<Rightarrow> (None, c')))"

definition cache_setFile :: "revision \<Rightarrow> path \<Rightarrow> bytes \<Rightarrow> revision_cache \<Rightarrow> revision_cache res" where
  "cache_setFile revision path content c = andThen (cache_key revision path) (\<lambda>k.
     Inr (cache_setEntry k
       (FileCacheEntry content (estimateKeyWeight k + int (length content))) c))"

definition cache_getDirectory ::
  "revision \<Rightarrow> path \<Rightarrow> revision_cache \<Rightarrow> (directory_entry list option \<times> revision_cache) res" where
  "cache_getDirectory revision path c = andThen (cache_key revision path) (\<lambda>k.
     Inr (case cache_getEntry k c of
         (Some (DirCacheEntry v _), c') \<Rightarrow> (Some v, c') | (_, c') \<Rightarrow> (None, c')))"

definition cache_setDirectory ::
  "revision \<Rightarrow> path \<Rightarrow> directory_entry list \<Rightarrow> revision_cache \<Rightarrow> revision_cache res" where
  "cache_setDirectory revision path entries c = andThen (cache_key revision path) (\<lambda>k.
     Inr (cache_setEntry k
       (DirCacheEntry entries (estimateKeyWeight k + estimateDirectoryWeight entries)) c))"

subsection \<open>The accounting invariant\<close>

definition total_weight :: "(string \<times> cache_entry) list \<Rightarrow> int" where
  "total_weight es = sum_list (map (\<lambda>(k, e). ce_weight e) es)"

definition cache_accounts :: "revision_cache \<Rightarrow> bool" where
  "cache_accounts c \<longleftrightarrow> distinct (keys (rc_entries c)) \<and>
     list_all (\<lambda>(k, e). 0 < ce_weight e) (rc_entries c) \<and>
     rc_retainedBytes c = total_weight (rc_entries c) \<and> 0 \<le> rc_maxBytes c \<and>
     (\<forall>m. rc_maxEntries c = Some m \<longrightarrow> 0 \<le> m)"

definition cache_inv :: "revision_cache \<Rightarrow> bool" where
  "cache_inv c \<longleftrightarrow> cache_accounts c \<and> \<not> over_budget c"

lemma total_weight_simps [simp]:
  "total_weight [] = 0"
  "total_weight ((k, e) # es) = ce_weight e + total_weight es"
  "total_weight (es @ fs) = total_weight es + total_weight fs"
  by (simp_all add: total_weight_def)

lemma total_weight_delete:
  "distinct (keys es) \<Longrightarrow> map_of es k = Some e \<Longrightarrow>
     total_weight (AList.delete k es) = total_weight es - ce_weight e"
proof (induction es)
  case (Cons x es)
  obtain k' e' where x: "x = (k', e')" by (cases x)
  show ?case
  proof (cases "k = k'")
    case True
    with Cons.prems x show ?thesis by (simp add: delete_id)
  next
    case False
    with Cons x show ?thesis by (simp add: AList.delete_eq)
  qed
qed simp

lemma total_weight_nonneg: "list_all (\<lambda>(k, e). 0 < ce_weight e) es \<Longrightarrow> 0 \<le> total_weight es"
  by (induction es) auto

lemma update_after_delete: "AList.update k e (AList.delete k es) = AList.delete k es @ [(k, e)]"
  by (intro update_fresh) simp

lemma set_delete_subset: "set (AList.delete k es) \<subseteq> set es"
  by (auto simp: AList.delete_eq)

lemma list_all_delete: "list_all P es \<Longrightarrow> list_all P (AList.delete k es)"
  using set_delete_subset [of k es] by (auto simp: list_all_iff)

lemma evict_id: "\<not> over_budget c \<Longrightarrow> cache_evictToBudget c = c"
  by (subst cache_evictToBudget.simps) simp

lemma evict_step: "over_budget c \<Longrightarrow> rc_entries c = (k, e) # es \<Longrightarrow> cache_evictToBudget c =
    cache_evictToBudget (c\<lparr>rc_entries := es, rc_retainedBytes := rc_retainedBytes c - ce_weight e\<rparr>)"
  by (subst cache_evictToBudget.simps) simp

text \<open>Eviction keeps a suffix of the entries, the longest one the limits allow.\<close>

lemma evict_suffix:
  "\<exists>old. rc_entries c = old @ rc_entries (cache_evictToBudget c) \<and>
     rc_retainedBytes (cache_evictToBudget c) = rc_retainedBytes c - total_weight old \<and>
     rc_maxBytes (cache_evictToBudget c) = rc_maxBytes c \<and>
     rc_maxEntries (cache_evictToBudget c) = rc_maxEntries c"
proof (induction c rule: cache_evictToBudget.induct)
  case (1 c)
  show ?case
  proof (cases "over_budget c \<and> rc_entries c \<noteq> []")
    case True
    then obtain k e es where es: "rc_entries c = (k, e) # es" by (cases "rc_entries c") auto
    let ?d = "c\<lparr>rc_entries := es, rc_retainedBytes := rc_retainedBytes c - ce_weight e\<rparr>"
    have step: "cache_evictToBudget c = cache_evictToBudget ?d"
      using True es by (subst cache_evictToBudget.simps) simp
    from "1.IH" True es obtain old where
      "rc_entries ?d = old @ rc_entries (cache_evictToBudget ?d)"
      "rc_retainedBytes (cache_evictToBudget ?d) = rc_retainedBytes ?d - total_weight old"
      "rc_maxBytes (cache_evictToBudget ?d) = rc_maxBytes ?d"
      "rc_maxEntries (cache_evictToBudget ?d) = rc_maxEntries ?d"
      by fastforce
    with es step show ?thesis by (intro exI [of _ "(k, e) # old"]) simp
  next
    case False
    then have "cache_evictToBudget c = c"
      by (subst cache_evictToBudget.simps) (auto split: list.splits)
    then show ?thesis by (intro exI [of _ "[]"]) simp
  qed
qed

lemma evict_within:
  "cache_accounts c \<Longrightarrow> \<not> over_budget (cache_evictToBudget c) \<and> cache_accounts (cache_evictToBudget c)"
proof (induction c rule: cache_evictToBudget.induct)
  case (1 c)
  show ?case
  proof (cases "over_budget c")
    case True
    with "1.prems" have "rc_entries c \<noteq> []"
      by (auto simp: over_budget_def cache_accounts_def)
    then obtain k e es where es: "rc_entries c = (k, e) # es" by (cases "rc_entries c") auto
    let ?d = "c\<lparr>rc_entries := es, rc_retainedBytes := rc_retainedBytes c - ce_weight e\<rparr>"
    have "cache_accounts ?d" using "1.prems" es by (simp add: cache_accounts_def)
    with "1.IH" True es have "\<not> over_budget (cache_evictToBudget ?d) \<and> cache_accounts (cache_evictToBudget ?d)"
      by fastforce
    moreover have "cache_evictToBudget c = cache_evictToBudget ?d"
      using True es by (subst cache_evictToBudget.simps) simp
    ultimately show ?thesis by simp
  next
    case False
    then have "cache_evictToBudget c = c" by (rule evict_id)
    with False "1.prems" show ?thesis by simp
  qed
qed

lemma evict_minimal:
  assumes "rc_entries (cache_evictToBudget c) = rest" and "rc_entries c = old @ (k, e) # rest"
  shows "over_budget (c\<lparr>rc_entries := (k, e) # rest,
    rc_retainedBytes := rc_retainedBytes c - total_weight old\<rparr>)"
  using assms
proof (induction old arbitrary: c)
  case Nil
  have "over_budget c"
  proof (rule ccontr)
    assume "\<not> over_budget c"
    with Nil show False by (simp add: evict_id)
  qed
  moreover have "c\<lparr>rc_entries := (k, e) # rest, rc_retainedBytes := rc_retainedBytes c - total_weight []\<rparr> = c"
    using Nil(2) by simp
  ultimately show ?case by simp
next
  case (Cons x old)
  obtain k' e' where x: "x = (k', e')" by (cases x)
  let ?d = "c\<lparr>rc_entries := old @ (k, e) # rest, rc_retainedBytes := rc_retainedBytes c - ce_weight e'\<rparr>"
  have "over_budget c"
  proof (rule ccontr)
    assume "\<not> over_budget c"
    then have "rc_entries c = rest" using Cons.prems(1) by (simp add: evict_id)
    with arg_cong [OF Cons.prems(2), of length] show False by simp
  qed
  then have same: "cache_evictToBudget c = cache_evictToBudget ?d"
    using Cons.prems(2) x by (intro evict_step) simp_all
  with Cons.prems(1) have "rc_entries (cache_evictToBudget ?d) = rest" by simp
  from Cons.IH [OF this] show ?case by (simp add: x diff_diff_eq)
qed

subsection \<open>Every operation keeps the invariant\<close>

lemma cache_inv_new: "newRevisionCache mb me = Inr c \<Longrightarrow> cache_inv c"
  by (auto simp: newRevisionCache_def requireNonNegativeFinite_def requireNonNegativeInteger_def
      cache_inv_def cache_accounts_def over_budget_def split: jsnum.splits option.splits if_splits)

lemma cache_inv_clear: "cache_inv c \<Longrightarrow> cache_inv (cache_clear c)"
  by (auto simp: cache_inv_def cache_accounts_def over_budget_def cache_clear_def)

lemma distinct_delete_snoc:
  "distinct (keys es) \<Longrightarrow> distinct (keys (AList.delete k es @ [(k, e)]))"
  by simp

lemma cache_inv_getEntry:
  assumes "cache_inv c" shows "cache_inv (snd (cache_getEntry k c))"
proof (cases "map_of (rc_entries c) k")
  case None
  with assms show ?thesis by (simp add: cache_getEntry_def)
next
  case (Some e)
  from assms have d: "distinct (keys (rc_entries c))"
    and w: "list_all (\<lambda>(k, e). 0 < ce_weight e) (rc_entries c)"
    by (auto simp: cache_inv_def cache_accounts_def)
  have len: "length (AList.delete k (rc_entries c)) + 1 = length (rc_entries c)"
  proof -
    have "k \<in> set (keys (rc_entries c))" using Some by (metis map_of_eq_None_iff list.set_map option.distinct(1))
    then have "length (remove1 k (keys (rc_entries c))) + 1 = length (keys (rc_entries c))"
      by (metis One_nat_def Suc_eq_plus1 Suc_pred length_pos_if_in_set length_remove1)
    then show ?thesis using d by (metis delete_keys distinct_remove1_removeAll length_map)
  qed
  have "0 < ce_weight e" using w map_of_SomeD [OF Some] by (auto simp: list_all_iff)
  with assms Some d w len show ?thesis
    by (auto simp: cache_getEntry_def cache_inv_def cache_accounts_def over_budget_def
        update_after_delete total_weight_delete list_all_delete)
qed

lemma cache_inv_setEntry:
  assumes inv: "cache_inv c" and w: "0 < ce_weight e"
  shows "cache_inv (cache_setEntry k e c)"
proof -
  define c1 where "c1 = (case map_of (rc_entries c) k of None \<Rightarrow> c
        | Some previous \<Rightarrow> c\<lparr>rc_entries := AList.delete k (rc_entries c),
            rc_retainedBytes := rc_retainedBytes c - ce_weight previous\<rparr>)"
  have d: "distinct (keys (rc_entries c))" using inv by (simp add: cache_inv_def cache_accounts_def)
  have entries: "rc_entries c1 = AList.delete k (rc_entries c)"
    unfolding c1_def by (auto simp: delete_id map_of_eq_None_iff split: option.splits)
  have acc: "cache_accounts c1"
    using inv d unfolding c1_def cache_inv_def cache_accounts_def
    by (auto simp: total_weight_delete list_all_delete split: option.splits)
  have within: "\<not> over_budget c1"
  proof (cases "map_of (rc_entries c) k")
    case (Some p)
    from inv have "0 < ce_weight p"
      using map_of_SomeD [OF Some] by (auto simp: cache_inv_def cache_accounts_def list_all_iff)
    then have ret: "rc_retainedBytes c1 \<le> rc_retainedBytes c" by (simp add: c1_def Some)
    have len: "length (rc_entries c1) \<le> length (rc_entries c)"
      using length_delete_le [of k "rc_entries c"] by (simp add: entries)
    from ret have "rat_of_int (rc_retainedBytes c1) \<le> of_int (rc_retainedBytes c)" by simp
    with inv len show ?thesis
      by (force simp: cache_inv_def over_budget_def c1_def Some)
  qed (use inv in \<open>simp add: c1_def cache_inv_def\<close>)
  let ?c2 = "c1\<lparr>rc_entries := AList.update k e (rc_entries c1),
            rc_retainedBytes := rc_retainedBytes c1 + ce_weight e\<rparr>"
  have "cache_accounts ?c2"
    using acc w unfolding cache_accounts_def entries by (simp add: update_after_delete)
  then have "cache_inv (cache_evictToBudget ?c2)"
    using evict_within by (auto simp: cache_inv_def)
  with acc within show ?thesis
    by (simp add: cache_setEntry_def Let_def cache_inv_def flip: c1_def)
qed

lemma estimateDirectoryWeight_pos: "0 < estimateDirectoryWeight es"
  by (induction es) auto

subsection \<open>What a lookup finds\<close>

lemma getEntry_value: "fst (cache_getEntry k c) = map_of (rc_entries c) k"
  by (simp add: cache_getEntry_def split: option.splits)

lemma getEntry_entries: "map_of (rc_entries (snd (cache_getEntry k c))) = map_of (rc_entries c)"
  by (auto simp: cache_getEntry_def split: option.splits)

text \<open>
  Eviction stops before the entry just stored, since that entry alone fits: the newest entry is
  the last of the map.
\<close>

lemma evict_keeps_newest:
  assumes fits: "of_int (ce_weight e) \<le> rc_maxBytes c" "rc_maxEntries c \<noteq> Some 0"
    and acc: "cache_accounts c" and last: "rc_entries c = es @ [(k, e)]"
  shows "\<exists>old kept. es = old @ kept \<and> rc_entries (cache_evictToBudget c) = kept @ [(k, e)]"
proof -
  obtain old where old: "rc_entries c = old @ rc_entries (cache_evictToBudget c)"
    using evict_suffix by blast
  show ?thesis
  proof (cases "rc_entries (cache_evictToBudget c) = []")
    case True
    with old last have "rc_entries c = es @ (k, e) # rc_entries (cache_evictToBudget c)" by simp
    from evict_minimal [OF refl this] True
    have over: "over_budget (c\<lparr>rc_entries := [(k, e)],
        rc_retainedBytes := rc_retainedBytes c - total_weight es\<rparr>)" by simp
    have "rc_retainedBytes c - total_weight es = ce_weight e"
      using acc last by (simp add: cache_accounts_def)
    moreover have "1 \<le> m" if "rc_maxEntries c = Some m" for m
      using fits(2) acc that by (auto simp: cache_accounts_def order.order_iff_strict)
    ultimately have False using over fits(1) by (fastforce simp: over_budget_def)
    then show ?thesis ..
  next
    case False
    then obtain kept x where "rc_entries (cache_evictToBudget c) = kept @ [x]"
      by (metis append_butlast_last_id)
    with old last show ?thesis by auto
  qed
qed

lemma setEntry_entries:
  assumes inv: "cache_inv c" and w: "0 < ce_weight e" "of_int (ce_weight e) \<le> rc_maxBytes c"
    and me: "rc_maxEntries c \<noteq> Some 0"
  shows "\<exists>old kept. AList.delete k (rc_entries c) = old @ kept \<and>
     rc_entries (cache_setEntry k e c) = kept @ [(k, e)]"
proof -
  define c1 where "c1 = (case map_of (rc_entries c) k of None \<Rightarrow> c
        | Some previous \<Rightarrow> c\<lparr>rc_entries := AList.delete k (rc_entries c),
            rc_retainedBytes := rc_retainedBytes c - ce_weight previous\<rparr>)"
  let ?c2 = "c1\<lparr>rc_entries := AList.update k e (rc_entries c1),
            rc_retainedBytes := rc_retainedBytes c1 + ce_weight e\<rparr>"
  have d: "distinct (keys (rc_entries c))" using inv by (simp add: cache_inv_def cache_accounts_def)
  have entries: "rc_entries c1 = AList.delete k (rc_entries c)"
    unfolding c1_def by (auto simp: delete_id map_of_eq_None_iff split: option.splits)
  have bounds: "rc_maxBytes c1 = rc_maxBytes c" "rc_maxEntries c1 = rc_maxEntries c"
    by (auto simp: c1_def split: option.splits)
  have "cache_accounts ?c2"
    using inv d w(1) unfolding c1_def cache_inv_def cache_accounts_def
    by (auto simp: total_weight_delete list_all_delete update_after_delete update_fresh
        map_of_eq_None_iff split: option.splits)
  then have "\<exists>old kept. AList.delete k (rc_entries c) = old @ kept \<and>
      rc_entries (cache_evictToBudget ?c2) = kept @ [(k, e)]"
    using w me by (intro evict_keeps_newest) (simp_all add: bounds entries update_after_delete)
  moreover have "0 < (of_int (ce_weight e) :: rat)" using w(1) by simp
  then have "0 < rc_maxBytes c" using w(2) by (rule less_le_trans)
  ultimately show ?thesis
    using w me by (simp add: cache_setEntry_def Let_def flip: c1_def)
qed

lemma map_of_distinct_suffix:
  assumes "distinct (keys es)" and "es = old @ kept"
  shows "map_of kept \<subseteq>\<^sub>m map_of es"
proof -
  have "map_of es k = Some v" if "map_of kept k = Some v" for k v
  proof (rule map_of_is_SomeI [OF assms(1)])
    from that have "(k, v) \<in> set kept" by (rule map_of_SomeD)
    then show "(k, v) \<in> set es" unfolding assms(2) by simp
  qed
  then show ?thesis unfolding map_le_def dom_def by auto
qed

text \<open>A store never invents entries: what is found afterwards was there or is the new entry.\<close>

lemma setEntry_sub:
  assumes "cache_inv c" and "0 < ce_weight e"
  shows "map_of (rc_entries (cache_setEntry k e c)) \<subseteq>\<^sub>m (map_of (rc_entries c))(k \<mapsto> e)"
proof (cases "of_int (ce_weight e) \<le> rc_maxBytes c \<and> rc_maxEntries c \<noteq> Some 0")
  case True
  have d: "distinct (keys (rc_entries c))" using assms by (simp add: cache_inv_def cache_accounts_def)
  from True assms setEntry_entries obtain old kept where
    del: "AList.delete k (rc_entries c) = old @ kept"
    and set: "rc_entries (cache_setEntry k e c) = kept @ [(k, e)]" by blast
  have "distinct (keys (AList.delete k (rc_entries c)))" using d by simp
  from map_of_distinct_suffix [OF this del]
  have sub: "map_of kept \<subseteq>\<^sub>m (map_of (rc_entries c))(k := None)" by simp
  then have "map_of kept k = None" by (force simp: map_le_def)
  with sub set show ?thesis
    by (auto simp: map_le_def map_add_def split: option.splits if_splits)
next
  case False
  then have "map_of (rc_entries (cache_setEntry k e c)) = (map_of (rc_entries c))(k := None)"
    by (auto simp: cache_setEntry_def Let_def fun_eq_iff split: option.splits)
  then show ?thesis by (auto simp: map_le_def)
qed

subsection \<open>Every cache a program can have\<close>

inductive cache_reachable :: "revision_cache \<Rightarrow> bool" where
  new: "newRevisionCache mb me = Inr c \<Longrightarrow> cache_reachable c"
| clear: "cache_reachable c \<Longrightarrow> cache_reachable (cache_clear c)"
| getFile: "cache_reachable c \<Longrightarrow> cache_getFile rv p c = Inr (r, c') \<Longrightarrow> cache_reachable c'"
| setFile: "cache_reachable c \<Longrightarrow> cache_setFile rv p content c = Inr c' \<Longrightarrow> cache_reachable c'"
| getDirectory: "cache_reachable c \<Longrightarrow> cache_getDirectory rv p c = Inr (d, c') \<Longrightarrow> cache_reachable c'"
| setDirectory: "cache_reachable c \<Longrightarrow> cache_setDirectory rv p es c = Inr c' \<Longrightarrow> cache_reachable c'"

lemma estimateKeyWeight_pos: "0 < estimateKeyWeight k"
  by (simp add: estimateKeyWeight_def)

lemma cache_getFile_entry:
  assumes "cache_getFile rv p c = Inr (r, c')" shows "\<exists>k. c' = snd (cache_getEntry k c)"
proof -
  from assms obtain k where "(case cache_getEntry k c of
         (Some (FileCacheEntry v _), c') \<Rightarrow> (Some v, c') | (_, c') \<Rightarrow> (None, c')) = (r, c')"
    by (auto simp: cache_getFile_def)
  then have "c' = snd (cache_getEntry k c)" by (simp split: prod.splits option.splits cache_entry.splits)
  then show ?thesis ..
qed

lemma cache_getDirectory_entry:
  assumes "cache_getDirectory rv p c = Inr (d, c')" shows "\<exists>k. c' = snd (cache_getEntry k c)"
proof -
  from assms obtain k where "(case cache_getEntry k c of
         (Some (DirCacheEntry v _), c') \<Rightarrow> (Some v, c') | (_, c') \<Rightarrow> (None, c')) = (d, c')"
    by (auto simp: cache_getDirectory_def)
  then have "c' = snd (cache_getEntry k c)" by (simp split: prod.splits option.splits cache_entry.splits)
  then show ?thesis ..
qed

lemma cache_setFile_entry:
  assumes "cache_setFile rv p content c = Inr c'"
  shows "\<exists>k e. 0 < ce_weight e \<and> c' = cache_setEntry k e c"
proof -
  from assms obtain k where "c' = cache_setEntry k
      (FileCacheEntry content (estimateKeyWeight k + int (length content))) c"
    by (auto simp: cache_setFile_def)
  moreover have "0 < estimateKeyWeight k + int (length content)" using estimateKeyWeight_pos [of k] by simp
  ultimately have "0 < ce_weight (FileCacheEntry content (estimateKeyWeight k + int (length content))) \<and>
      c' = cache_setEntry k (FileCacheEntry content (estimateKeyWeight k + int (length content))) c"
    by simp
  then show ?thesis by blast
qed

lemma cache_setDirectory_entry:
  assumes "cache_setDirectory rv p es c = Inr c'"
  shows "\<exists>k e. 0 < ce_weight e \<and> c' = cache_setEntry k e c"
proof -
  from assms obtain k where "c' = cache_setEntry k
      (DirCacheEntry es (estimateKeyWeight k + estimateDirectoryWeight es)) c"
    by (auto simp: cache_setDirectory_def)
  moreover have "0 < estimateKeyWeight k + estimateDirectoryWeight es"
    using estimateKeyWeight_pos [of k] estimateDirectoryWeight_pos [of es] by simp
  ultimately have "0 < ce_weight (DirCacheEntry es (estimateKeyWeight k + estimateDirectoryWeight es)) \<and>
      c' = cache_setEntry k (DirCacheEntry es (estimateKeyWeight k + estimateDirectoryWeight es)) c"
    by simp
  then show ?thesis by blast
qed

lemma cache_reachable_inv: "cache_reachable c \<Longrightarrow> cache_inv c"
proof (induction rule: cache_reachable.induct)
  case (getFile c rv p r c')
  then show ?case using cache_getFile_entry cache_inv_getEntry by blast
next
  case (getDirectory c rv p d c')
  then show ?case using cache_getDirectory_entry cache_inv_getEntry by blast
next
  case (setFile c rv p content c')
  then show ?case using cache_setFile_entry cache_inv_setEntry by blast
next
  case (setDirectory c rv p es c')
  then show ?case using cache_setDirectory_entry cache_inv_setEntry by blast
qed (auto intro: cache_inv_new cache_inv_clear)

end
