(* ===== verification/RepositoryReader.thy ===== *)
theory RepositoryReader
  imports RevisionCache
begin

section \<open>The repository reader\<close>

text \<open>
  The class \<open>RepositoryReader\<close> of \<open>packages/core/src/repository/repository-reader.ts\<close> with the
  \<open>TraversalBudget\<close> of \<open>packages/core/src/util/traversal-budget.ts\<close>. A \<open>host\<close> holds the answers of
  the adapter to file and directory reads, which for a directory are untrusted values, and the
  collation of the platform. The functions named \<open>rr_\<close> read the adapter every time; those named
  \<open>reader_\<close> go through the revision cache as the class does, and the last section shows that the
  two give the same results. Sharing one pending request between concurrent callers is not
  modelled: it changes how often the adapter is asked, not what is answered.
\<close>

record host =
  rd_file :: "revision \<Rightarrow> path \<Rightarrow> bytes race"
  rd_dir :: "revision \<Rightarrow> path \<Rightarrow> jsval race"
  rd_collate :: "string comparator"

definition adapter_host :: "string comparator \<Rightarrow> 'w adapter \<Rightarrow> 'w \<Rightarrow> host" where
  "adapter_host collate adapter w =
     \<lparr>rd_file = ad_readFile adapter w, rd_dir = ad_readDirectory adapter w, rd_collate = collate\<rparr>"

record file_stat =
  st_type :: entry_type
  st_size :: nat

definition not_found :: err where
  "not_found = RemotishError NOT_FOUND"

definition invalid_request :: err where
  "invalid_request = RemotishError INVALID_REQUEST"

text \<open>\<open>Promise.race\<close> of the request and the timer.\<close>

definition withReadDeadline :: "'a race \<Rightarrow> 'a res" where
  "withReadDeadline request =
     (case request of Settled r \<Rightarrow> r | TimedOut \<Rightarrow> Inl (RemotishError OFFLINE))"

subsection \<open>Validation of directory listings\<close>

definition MAX_DIRECTORY_ENTRIES :: nat where
  "MAX_DIRECTORY_ENTRIES = 50000"

definition MAX_REPO_PATH_SEGMENT_LENGTH :: nat where
  "MAX_REPO_PATH_SEGMENT_LENGTH = 1024"

definition MAX_REPO_PATH_LENGTH :: nat where
  "MAX_REPO_PATH_LENGTH = 8192"

definition invalidAdapterDirectory :: err where
  "invalidAdapterDirectory = RemotishError UNKNOWN"

definition validate_size :: "jsval \<Rightarrow> nat option res" where
  "validate_size v = (case v of
       JUndefined \<Rightarrow> Inr None
     | JNum n \<Rightarrow> (case safe_integer n of
           None \<Rightarrow> Inl invalidAdapterDirectory
         | Some i \<Rightarrow> if i < 0 then Inl invalidAdapterDirectory else Inr (Some (nat i)))
     | _ \<Rightarrow> Inl invalidAdapterDirectory)"

definition validate_type :: "jsval \<Rightarrow> entry_type res" where
  "validate_type v = (if v = JStr ''file'' then Inr FileEntry
     else if v = JStr ''directory'' then Inr DirEntry else Inl invalidAdapterDirectory)"

definition validate_name :: "string list \<Rightarrow> jsval \<Rightarrow> string res" where
  "validate_name names v = (case v of
       JStr name \<Rightarrow>
         if name = [] then Inl invalidAdapterDirectory
         else if MAX_REPO_PATH_SEGMENT_LENGTH < length name then Inl invalidAdapterDirectory
         else if CHR 0x00 \<in> set name \<or> CHR ''/'' \<in> set name \<or> CHR 0x5C \<in> set name
         then Inl invalidAdapterDirectory
         else (case normalizeRepoPath name of
             Inl _ \<Rightarrow> Inl invalidAdapterDirectory
           | Inr normalizedName \<Rightarrow>
               if normalizedName \<noteq> name \<or> name \<in> set names then Inl invalidAdapterDirectory
               else Inr name)
     | _ \<Rightarrow> Inl invalidAdapterDirectory)"

definition validate_entry :: "path \<Rightarrow> string list \<Rightarrow> jsval \<Rightarrow> directory_entry res" where
  "validate_entry parent names entry =
     (if \<not> is_record entry then Inl invalidAdapterDirectory else
      andThen (validate_name names (js_get entry ''name'')) (\<lambda>name.
      andThen (validate_type (js_get entry ''type'')) (\<lambda>type.
      andThen (validate_size (js_get entry ''size'')) (\<lambda>size.
        let canonicalPath = child_path parent name in
        if MAX_REPO_PATH_LENGTH < length canonicalPath then Inl invalidAdapterDirectory
        else Inr \<lparr>de_name = name, de_path = canonicalPath, de_type = type, de_size = size\<rparr>))))"

fun validate_entries :: "path \<Rightarrow> string list \<Rightarrow> jsval list \<Rightarrow> directory_entry list res" where
  "validate_entries parent names [] = Inr []"
| "validate_entries parent names (entry # entries) =
     andThen (validate_entry parent names entry) (\<lambda>d.
     andThen (validate_entries parent (de_name d # names) entries) (\<lambda>ds. Inr (d # ds)))"

definition validateDirectoryEntries :: "path \<Rightarrow> jsval \<Rightarrow> directory_entry list res" where
  "validateDirectoryEntries parent entries = (case entries of
       JArr es \<Rightarrow> if MAX_DIRECTORY_ENTRIES < length es then Inl invalidAdapterDirectory
         else validate_entries parent [] es
     | _ \<Rightarrow> Inl invalidAdapterDirectory)"

subsection \<open>Reading, listing and stat\<close>

definition rr_readFile :: "host \<Rightarrow> revision \<Rightarrow> path \<Rightarrow> bytes res" where
  "rr_readFile h revision path = andThen (normalizeRepoPath path) (\<lambda>normalized.
     withReadDeadline (rd_file h revision normalized))"

definition rr_readDirectory :: "host \<Rightarrow> revision \<Rightarrow> path \<Rightarrow> directory_entry list res" where
  "rr_readDirectory h revision path = andThen (normalizeRepoPath path) (\<lambda>normalized.
     andThen (withReadDeadline (rd_dir h revision normalized)) (\<lambda>entries.
       validateDirectoryEntries normalized entries))"

text \<open>The lookup of \<open>stat\<close> in the listing of the parent; the base name is computed once.\<close>

definition entry_stat :: "string \<Rightarrow> directory_entry list \<Rightarrow> file_stat res" where
  "entry_stat name entries = (case find (\<lambda>e. de_name e = name) entries of
       None \<Rightarrow> Inl not_found
     | Some e \<Rightarrow> Inr \<lparr>st_type = de_type e, st_size = (case de_size e of None \<Rightarrow> 0 | Some n \<Rightarrow> n)\<rparr>)"

definition rr_stat :: "host \<Rightarrow> revision \<Rightarrow> path \<Rightarrow> file_stat res" where
  "rr_stat h revision path = andThen (normalizeRepoPath path) (\<lambda>normalized.
     if normalized = [] then Inr \<lparr>st_type = DirEntry, st_size = 0\<rparr>
     else andThen (parentPath normalized) (\<lambda>parent. case parent of
         None \<Rightarrow> Inl not_found
       | Some d \<Rightarrow> andThen (rr_readDirectory h revision d) (\<lambda>entries.
           andThen (baseName normalized) (\<lambda>name. entry_stat name entries))))"

text \<open>\<open>NOT_FOUND\<close> becomes \<open>undefined\<close>, every other error is passed on.\<close>

definition or_undefined :: "'a res \<Rightarrow> 'a option res" where
  "or_undefined r = (case r of Inr x \<Rightarrow> Inr (Some x)
     | Inl e \<Rightarrow> if e = not_found then Inr None else Inl e)"

definition rr_tryStat :: "host \<Rightarrow> revision \<Rightarrow> path \<Rightarrow> file_stat option res" where
  "rr_tryStat h revision path = or_undefined (rr_stat h revision path)"

subsection \<open>Bounded traversal\<close>

definition MAX_TRAVERSAL_DEPTH :: nat where
  "MAX_TRAVERSAL_DEPTH = 256"

definition MAX_TRAVERSAL_NODES :: nat where
  "MAX_TRAVERSAL_NODES = 100000"

definition enterDirectory :: "nat \<Rightarrow> unit res" where
  "enterDirectory depth =
     (if MAX_TRAVERSAL_DEPTH < depth then Inl (RemotishError UNSUPPORTED) else Inr ())"

definition visit :: "nat \<Rightarrow> nat res" where
  "visit visitedNodes = (if MAX_TRAVERSAL_NODES < visitedNodes + 1
     then Inl (RemotishError UNSUPPORTED) else Inr (visitedNodes + 1))"

lemma fold_res_cong [fundef_cong]:
  "xs = ys \<Longrightarrow> s = t \<Longrightarrow> (\<And>x u. x \<in> set ys \<Longrightarrow> f x u = g x u) \<Longrightarrow> fold_res f xs s = fold_res g ys t"
proof (induction ys arbitrary: xs s t)
  case (Cons y ys)
  show ?case
    using Cons.prems Cons.IH [OF refl refl] by (cases "g y t") auto
qed simp

text \<open>
  The recursive walks of the reader and of \<open>packages/core/src/working-tree/traversal.ts\<close>: every
  entry of a listing is charged to the budget, collected when it is of the kind asked for, and
  entered when it is a directory. The state is what was collected and the count of the budget.
\<close>

function walk :: "(path \<Rightarrow> directory_entry list res) \<Rightarrow> (directory_entry \<Rightarrow> bool) \<Rightarrow> path \<Rightarrow> nat \<Rightarrow>
    path list \<times> nat \<Rightarrow> (path list \<times> nat) res" where
  "walk ls wanted directory depth s =
     andThen (enterDirectory depth) (\<lambda>_.
     andThen (ls directory) (\<lambda>entries.
       fold_res (\<lambda>entry (output, visited).
         andThen (visit visited) (\<lambda>visited'.
           let output' = (if wanted entry then output @ [de_path entry] else output) in
           if de_type entry = DirEntry
           then walk ls wanted (de_path entry) (Suc depth) (output', visited')
           else Inr (output', visited'))) entries s))"
  by auto
termination
  by (relation "measure (\<lambda>(ls, wanted, d, depth, s). MAX_TRAVERSAL_DEPTH + 1 - depth)")
    (auto simp: enterDirectory_def split: if_splits)

declare walk.simps [simp del]

definition is_file_entry :: "directory_entry \<Rightarrow> bool" where
  "is_file_entry e \<longleftrightarrow> de_type e = FileEntry"

definition rr_listFilesRecursively :: "host \<Rightarrow> revision \<Rightarrow> path \<Rightarrow> path list res" where
  "rr_listFilesRecursively h revision path = andThen (normalizeRepoPath path) (\<lambda>normalized.
     andThen (rr_stat h revision normalized) (\<lambda>stat.
       if st_type stat = FileEntry then Inr [normalized]
       else andThen (walk (rr_readDirectory h revision) is_file_entry normalized 0 ([], 0))
         (\<lambda>(result, _). Inr result)))"

subsection \<open>The reader with its cache\<close>

definition reader_readFile :: "host \<Rightarrow> revision \<Rightarrow> path \<Rightarrow> (revision_cache, bytes) st" where
  "reader_readFile h revision path =
     bindS (askS (\<lambda>_. normalizeRepoPath path)) (\<lambda>normalized c.
       case cache_getFile revision normalized c of
         Inl e \<Rightarrow> (Inl e, c)
       | Inr (Some cached, c') \<Rightarrow> (Inr cached, c')
       | Inr (None, c') \<Rightarrow>
           bindS (askS (\<lambda>_. withReadDeadline (rd_file h revision normalized))) (\<lambda>content.
           bindS (modifyS (cache_setFile revision normalized content)) (\<lambda>_.
             returnS content)) c')"

definition reader_readDirectory :: "host \<Rightarrow> revision \<Rightarrow> path \<Rightarrow> (revision_cache, directory_entry list) st" where
  "reader_readDirectory h revision path =
     bindS (askS (\<lambda>_. normalizeRepoPath path)) (\<lambda>normalized c.
       case cache_getDirectory revision normalized c of
         Inl e \<Rightarrow> (Inl e, c)
       | Inr (Some cached, c') \<Rightarrow> (Inr cached, c')
       | Inr (None, c') \<Rightarrow>
           bindS (askS (\<lambda>_. withReadDeadline (rd_dir h revision normalized))) (\<lambda>entries.
           bindS (askS (\<lambda>_. validateDirectoryEntries normalized entries)) (\<lambda>validated.
           bindS (modifyS (cache_setDirectory revision normalized validated)) (\<lambda>_.
             returnS validated))) c')"

definition reader_stat :: "host \<Rightarrow> revision \<Rightarrow> path \<Rightarrow> (revision_cache, file_stat) st" where
  "reader_stat h revision path =
     bindS (askS (\<lambda>_. normalizeRepoPath path)) (\<lambda>normalized.
       if normalized = [] then returnS \<lparr>st_type = DirEntry, st_size = 0\<rparr>
       else bindS (askS (\<lambda>_. parentPath normalized)) (\<lambda>parent. case parent of
           None \<Rightarrow> throwS not_found
         | Some d \<Rightarrow> bindS (reader_readDirectory h revision d) (\<lambda>entries.
             askS (\<lambda>_. andThen (baseName normalized) (\<lambda>name. entry_stat name entries)))))"

definition reader_tryStat :: "host \<Rightarrow> revision \<Rightarrow> path \<Rightarrow> (revision_cache, file_stat option) st" where
  "reader_tryStat h revision path c =
     (case reader_stat h revision path c of (r, c') \<Rightarrow> (or_undefined r, c'))"

definition requirePositiveInteger :: "jsnum \<Rightarrow> int res" where
  "requirePositiveInteger value = (case safe_integer value of
       None \<Rightarrow> Inl OtherError | Some i \<Rightarrow> if i \<le> 0 then Inl OtherError else Inr i)"

subsection \<open>What a validated listing guarantees\<close>

text \<open>
  Whatever the adapter answers, every entry of a listing that is accepted is one path segment
  directly below the directory that was asked for, and no name occurs twice.
\<close>

definition listing_ok :: "path \<Rightarrow> directory_entry list \<Rightarrow> bool" where
  "listing_ok d es \<longleftrightarrow> distinct (map de_name es) \<and>
     list_all (\<lambda>e. segment (de_name e) \<and> de_path e = child_path d (de_name e)) es"

lemma andThen_if_Inr: "(if b then Inl e else r) = Inr x \<longleftrightarrow> \<not> b \<and> r = Inr x"
  by simp

lemma validate_name_Inr:
  assumes "validate_name names v = Inr name"
  shows "v = JStr name" and "segment name" and "name \<notin> set names" and "CHR 0x00 \<notin> set name"
    and "length name \<le> MAX_REPO_PATH_SEGMENT_LENGTH"
proof -
  from assms have facts: "v = JStr name" "name \<noteq> []" "CHR 0x00 \<notin> set name" "CHR ''/'' \<notin> set name"
      "normalizeRepoPath name = Inr name" "name \<notin> set names"
      "length name \<le> MAX_REPO_PATH_SEGMENT_LENGTH"
    by (auto simp: validate_name_def split: jsval.splits sum.splits if_splits)
  then have "canonical name" by (simp add: normalize_fixpoint_iff)
  with facts have "segment name" by (simp add: canonical_def split_on_word)
  with facts show "v = JStr name" "segment name" "name \<notin> set names" "CHR 0x00 \<notin> set name"
    "length name \<le> MAX_REPO_PATH_SEGMENT_LENGTH" by auto
qed

lemma validate_entry_Inr:
  assumes "validate_entry parent names v = Inr e"
  shows "segment (de_name e)" and "de_path e = child_path parent (de_name e)"
    and "de_name e \<notin> set names" and "CHR 0x00 \<notin> set (de_name e)"
    and "length (de_path e) \<le> MAX_REPO_PATH_LENGTH"
  using assms by (auto simp: validate_entry_def Let_def dest: validate_name_Inr split: if_splits)

lemma validate_entries_Inr:
  "validate_entries parent names vs = Inr es \<Longrightarrow>
     listing_ok parent es \<and> set (map de_name es) \<inter> set names = {} \<and> length es = length vs"
proof (induction vs arbitrary: names es)
  case (Cons v vs)
  then obtain d ds where d: "validate_entry parent names v = Inr d" and es: "es = d # ds"
    and ds: "validate_entries parent (de_name d # names) vs = Inr ds" by auto
  from Cons.IH [OF ds] validate_entry_Inr [OF d] show ?case
    by (auto simp: es listing_ok_def)
qed (simp add: listing_ok_def)

lemma validateDirectoryEntries_Inr:
  "validateDirectoryEntries parent v = Inr es \<Longrightarrow>
     listing_ok parent es \<and> length es \<le> MAX_DIRECTORY_ENTRIES"
  by (auto simp: validateDirectoryEntries_def dest: validate_entries_Inr
      split: jsval.splits if_splits)

lemma validate_entry_Inl: "validate_entry parent names v = Inl e \<Longrightarrow> e = invalidAdapterDirectory"
  by (auto simp: validate_entry_def validate_name_def validate_type_def validate_size_def
      andThen_Inl_iff Let_def split: jsval.splits sum.splits if_splits option.splits)

lemma validate_entries_Inl: "validate_entries parent names vs = Inl e \<Longrightarrow> e = invalidAdapterDirectory"
  by (induction vs arbitrary: names) (auto simp: andThen_Inl_iff dest: validate_entry_Inl)

lemma validateDirectoryEntries_Inl:
  "validateDirectoryEntries parent v = Inl e \<Longrightarrow> e = invalidAdapterDirectory"
  by (auto simp: validateDirectoryEntries_def dest: validate_entries_Inl
      split: jsval.splits if_splits)

lemma readDirectory_listing_ok:
  "rr_readDirectory h rv d = Inr es \<Longrightarrow> canonical d \<Longrightarrow> listing_ok d es"
  by (auto simp: rr_readDirectory_def pure_form dest: validateDirectoryEntries_Inr)

lemma listing_okD:
  assumes "listing_ok d es" and "e \<in> set es"
  shows "segment (de_name e)" and "de_path e = child_path d (de_name e)"
  using assms by (auto simp: listing_ok_def list_all_iff)

lemma listing_ok_path: "listing_ok d es \<Longrightarrow> canonical d \<Longrightarrow> e \<in> set es \<Longrightarrow>
    canonical (de_path e) \<and> de_path e \<noteq> [] \<and> parent_of (de_path e) = d \<and> base_of (de_path e) = de_name e"
  by (simp add: listing_okD)

lemma find_name:
  "distinct (map de_name es) \<Longrightarrow> find (\<lambda>e. de_name e = n) es = Some e \<longleftrightarrow> e \<in> set es \<and> de_name e = n"
  by (induction es) auto

lemma rr_stat_canonical:
  assumes "canonical p" and "p \<noteq> []"
  shows "rr_stat h rv p = andThen (rr_readDirectory h rv (parent_of p)) (entry_stat (base_of p))"
  using assms by (auto simp: rr_stat_def pure_form intro!: andThen_cong)

lemma rr_stat_root [simp]: "rr_stat h rv [] = Inr \<lparr>st_type = DirEntry, st_size = 0\<rparr>"
  by (simp add: rr_stat_def pure_form)

subsection \<open>What a traversal finds\<close>

text \<open>The entries below a directory, as the listings have them.\<close>

inductive reach :: "(path \<Rightarrow> directory_entry list res) \<Rightarrow> path \<Rightarrow> directory_entry \<Rightarrow> bool"
  for ls where
  reach_here: "ls d = Inr es \<Longrightarrow> e \<in> set es \<Longrightarrow> reach ls d e"
| reach_sub: "ls d = Inr es \<Longrightarrow> f \<in> set es \<Longrightarrow> de_type f = DirEntry \<Longrightarrow>
    reach ls (de_path f) e \<Longrightarrow> reach ls d e"

inductive_simps reach_iff: "reach ls d e"

definition found :: "(path \<Rightarrow> directory_entry list res) \<Rightarrow> (directory_entry \<Rightarrow> bool) \<Rightarrow>
    directory_entry \<Rightarrow> path set" where
  "found ls wanted e = (if wanted e then {de_path e} else {}) \<union>
     (if de_type e = DirEntry then {de_path f | f. reach ls (de_path e) f \<and> wanted f} else {})"

lemma found_listing: "ls d = Inr es \<Longrightarrow>
    (\<Union>e \<in> set es. found ls wanted e) = {de_path f | f. reach ls d f \<and> wanted f}"
proof -
  assume es: "ls d = Inr es"
  then have iff: "reach ls d f \<longleftrightarrow> f \<in> set es \<or> (\<exists>e \<in> set es. de_type e = DirEntry \<and> reach ls (de_path e) f)"
    for f by (subst reach_iff) auto
  show ?thesis unfolding iff found_def by (auto split: if_splits) blast
qed

text \<open>
  A walk that finishes collects exactly the wanted entries below its directory, appended to what
  was collected before, and stays within the node budget.
\<close>

definition walk_result :: "path set \<Rightarrow> path list \<times> nat \<Rightarrow> path list \<times> nat \<Rightarrow> bool" where
  "walk_result new s t \<longleftrightarrow> (\<exists>xs. fst t = fst s @ xs \<and> set xs = new) \<and> snd s \<le> snd t \<and>
     (snd s \<le> MAX_TRAVERSAL_NODES \<longrightarrow> snd t \<le> MAX_TRAVERSAL_NODES)"

lemma walk_result_refl: "walk_result {} s s"
  by (simp add: walk_result_def)

lemma walk_result_trans: "walk_result A s t \<Longrightarrow> walk_result B t u \<Longrightarrow> walk_result (A \<union> B) s u"
  unfolding walk_result_def by (elim conjE exE) (intro conjI exI [of _ "_ @ _"], auto)

lemma walk_result_fold:
  assumes "\<And>e s t. e \<in> set es \<Longrightarrow> f e s = Inr t \<Longrightarrow> walk_result (A e) s t"
  shows "fold_res f es s = Inr t \<Longrightarrow> walk_result (\<Union>e \<in> set es. A e) s t"
  using assms
proof (induction es arbitrary: s)
  case (Cons e es)
  from Cons.prems(1) obtain u where "f e s = Inr u" "fold_res f es u = Inr t" by auto
  with Cons.IH [OF this(2)] Cons.prems(2) have "walk_result (A e) s u"
    "walk_result (\<Union>e \<in> set es. A e) u t" by simp_all
  then show ?case using walk_result_trans by fastforce
qed (simp add: walk_result_refl)

lemma walk_collects:
  "walk ls wanted d depth s = Inr t \<Longrightarrow>
     walk_result {de_path e | e. reach ls d e \<and> wanted e} s t"
proof (induction ls wanted d depth s arbitrary: t rule: walk.induct)
  case (1 ls wanted d depth s)
  from "1.prems" obtain es where enter: "enterDirectory depth = Inr ()" and es: "ls d = Inr es"
    and loop: "fold_res (\<lambda>entry (output, visited). andThen (visit visited) (\<lambda>visited'.
           let output' = (if wanted entry then output @ [de_path entry] else output) in
           if de_type entry = DirEntry
           then walk ls wanted (de_path entry) (Suc depth) (output', visited')
           else Inr (output', visited'))) es s = Inr t"
    by (subst (asm) walk.simps) auto
  have "walk_result (\<Union>e \<in> set es. found ls wanted e) s t"
  proof (rule walk_result_fold [OF _ loop])
    fix e :: directory_entry and u v :: "path list \<times> nat"
    assume e: "e \<in> set es" and step: "(case u of (output, visited) \<Rightarrow> andThen (visit visited) (\<lambda>visited'.
           let output' = (if wanted e then output @ [de_path e] else output) in
           if de_type e = DirEntry
           then walk ls wanted (de_path e) (Suc depth) (output', visited')
           else Inr (output', visited'))) = Inr v"
    obtain out n where u: "u = (out, n)" by (cases u)
    let ?out = "if wanted e then out @ [de_path e] else out"
    from step u obtain n' where n': "visit n = Inr n'" by auto
    then have here: "walk_result (if wanted e then {de_path e} else {}) u (?out, n')"
      by (auto simp: walk_result_def u visit_def split: if_splits)
    show "walk_result (found ls wanted e) u v"
    proof (cases "de_type e = DirEntry")
      case True
      with step u n' have "walk ls wanted (de_path e) (Suc depth) (?out, n') = Inr v"
        by (simp add: Let_def)
      from "1.IH" [OF enter es e u [symmetric] n' refl True this]
      show ?thesis using walk_result_trans [OF here] True by (auto simp: found_def)
    next
      case False
      with step u n' have "v = (?out, n')" by (simp add: Let_def)
      with here False show ?thesis by (simp add: found_def)
    qed
  qed
  then show ?case by (simp add: found_listing [of ls d es wanted, OF es])
qed

lemma walk_Inr:
  assumes "walk ls wanted d 0 ([], 0) = Inr (out, n)"
  shows "set out = {de_path e | e. reach ls d e \<and> wanted e}" and "n \<le> MAX_TRAVERSAL_NODES"
  using walk_collects [OF assms] by (auto simp: walk_result_def)

text \<open>A directory without subdirectories, within the limits, is listed completely.\<close>

lemma walk_flat:
  assumes "ls d = Inr es" "\<forall>e \<in> set es. de_type e = FileEntry" "depth \<le> MAX_TRAVERSAL_DEPTH"
    and "n + length es \<le> MAX_TRAVERSAL_NODES"
  shows "walk ls is_file_entry d depth (out, n) = Inr (out @ map de_path es, n + length es)"
proof -
  have loop: "\<forall>e \<in> set es. de_type e = FileEntry \<Longrightarrow> n + length es \<le> MAX_TRAVERSAL_NODES \<Longrightarrow>
      fold_res (\<lambda>entry (output, visited). andThen (visit visited) (\<lambda>visited'.
           let output' = (if is_file_entry entry then output @ [de_path entry] else output) in
           if de_type entry = DirEntry
           then walk ls is_file_entry (de_path entry) (Suc depth) (output', visited')
           else Inr (output', visited'))) es (out, n) = Inr (out @ map de_path es, n + length es)" for es out n
    by (induction es arbitrary: out n) (simp_all add: visit_def is_file_entry_def)
  show ?thesis using assms loop [OF assms(2,4)]
    by (subst walk.simps) (simp add: enterDirectory_def)
qed

end
