(* ===== verification/Overlay.thy ===== *)
theory Overlay
  imports AdapterSdk
begin

section \<open>The working overlay\<close>

text \<open>
  The class \<open>Overlay\<close> of \<open>packages/core/src/overlay/overlay.ts\<close>: files written since the pinned
  base, locally created directories, tombstones of deleted paths and rename records. Every method
  normalises its arguments, which may throw; the loops normalise the stored paths again through
  \<open>isSameOrChild\<close>. A well-formed overlay stores canonical paths only, and on it each method has
  the pure form proved in the second half, collected in \<open>pure_form\<close>. A byte array is copied on
  the way in and out, which is invisible on values.
\<close>

record rename_snapshot =
  rn_from :: path
  rn_to :: path

record overlay =
  ov_files :: "(path \<times> bytes) list"
  ov_directories :: "path list"
  ov_deletedPaths :: "path list"
  ov_renames :: "rename_snapshot list"

record overlay_snapshot =
  sn_files :: "(path \<times> bytes) list"
  sn_directories :: "path list"
  sn_deletedPaths :: "path list"
  sn_renames :: "rename_snapshot list"

record overlay_entry =
  oe_path :: path
  oe_type :: entry_type
  oe_size :: nat

definition empty_overlay :: overlay where
  "empty_overlay = \<lparr>ov_files = [], ov_directories = [], ov_deletedPaths = [], ov_renames = []\<rparr>"

definition overlay_clear :: "overlay \<Rightarrow> overlay" where
  "overlay_clear ov = empty_overlay"

subsection \<open>The methods\<close>

definition overlay_restore :: "overlay_snapshot \<Rightarrow> (overlay, unit) st" where
  "overlay_restore snapshot =
     bindS (modifyS (\<lambda>ov. Inr (overlay_clear ov))) (\<lambda>_.
     bindS (forS (sn_files snapshot) (\<lambda>(path, content). modifyS (\<lambda>ov.
       andThen (normalizeRepoPath path) (\<lambda>p.
         Inr (ov\<lparr>ov_files := AList.update p content (ov_files ov)\<rparr>))))) (\<lambda>_.
     bindS (forS (sn_directories snapshot) (\<lambda>directory. modifyS (\<lambda>ov.
       andThen (normalizeRepoPath directory) (\<lambda>p.
         Inr (ov\<lparr>ov_directories := set_add p (ov_directories ov)\<rparr>))))) (\<lambda>_.
     bindS (forS (sn_deletedPaths snapshot) (\<lambda>path. modifyS (\<lambda>ov.
       andThen (normalizeRepoPath path) (\<lambda>p.
         Inr (ov\<lparr>ov_deletedPaths := set_add p (ov_deletedPaths ov)\<rparr>))))) (\<lambda>_.
     forS (sn_renames snapshot) (\<lambda>rename. modifyS (\<lambda>ov.
       andThen (normalizeRepoPath (rn_from rename)) (\<lambda>f.
       andThen (normalizeRepoPath (rn_to rename)) (\<lambda>t.
         Inr (ov\<lparr>ov_renames := ov_renames ov @ [\<lparr>rn_from = f, rn_to = t\<rparr>]\<rparr>)))))))))"

definition overlay_fromSnapshot :: "overlay_snapshot option \<Rightarrow> overlay res" where
  "overlay_fromSnapshot snapshot =
     (case snapshot of None \<Rightarrow> Inr empty_overlay
      | Some s \<Rightarrow> (case overlay_restore s empty_overlay of
          (Inl e, _) \<Rightarrow> Inl e | (Inr _, ov) \<Rightarrow> Inr ov))"

definition overlay_isEmpty :: "overlay \<Rightarrow> bool" where
  "overlay_isEmpty ov \<longleftrightarrow> ov_files ov = [] \<and> ov_directories ov = [] \<and> ov_deletedPaths ov = []"

definition overlay_getFile :: "path \<Rightarrow> overlay \<Rightarrow> bytes option res" where
  "overlay_getFile path ov = andThen (normalizeRepoPath path) (\<lambda>p. Inr (map_of (ov_files ov) p))"

definition overlay_removeFile :: "path \<Rightarrow> overlay \<Rightarrow> overlay res" where
  "overlay_removeFile path ov =
     andThen (normalizeRepoPath path) (\<lambda>p. Inr (ov\<lparr>ov_files := AList.delete p (ov_files ov)\<rparr>))"

definition overlay_removeDirectory :: "path \<Rightarrow> overlay \<Rightarrow> overlay res" where
  "overlay_removeDirectory path ov =
     andThen (normalizeRepoPath path) (\<lambda>p.
       Inr (ov\<lparr>ov_directories := set_remove p (ov_directories ov)\<rparr>))"

definition overlay_hasDirectory :: "path \<Rightarrow> overlay \<Rightarrow> bool res" where
  "overlay_hasDirectory path ov =
     andThen (normalizeRepoPath path) (\<lambda>p. Inr (p \<in> set (ov_directories ov)))"

definition overlay_unmarkDeleted :: "path \<Rightarrow> bool \<Rightarrow> overlay \<Rightarrow> overlay res" where
  "overlay_unmarkDeleted path includeAncestors ov =
     andThen (normalizeRepoPath path) (\<lambda>normalized.
     andThen (filter_res (\<lambda>deleted.
         if deleted = normalized then Inr False
         else if includeAncestors then andThen (isSameOrChild normalized deleted) (\<lambda>b. Inr (\<not> b))
         else Inr True) (ov_deletedPaths ov)) (\<lambda>kept.
       Inr (ov\<lparr>ov_deletedPaths := kept\<rparr>)))"

definition overlay_clearDeletionForRecreatedPath :: "path \<Rightarrow> bool \<Rightarrow> overlay \<Rightarrow> overlay res" where
  "overlay_clearDeletionForRecreatedPath path directory ov =
     (if directory then Inr (ov\<lparr>ov_deletedPaths := set_remove path (ov_deletedPaths ov)\<rparr>)
      else overlay_unmarkDeleted path True ov)"

definition overlay_setFile :: "path \<Rightarrow> bytes \<Rightarrow> overlay \<Rightarrow> overlay res" where
  "overlay_setFile path content ov =
     andThen (normalizeRepoPath path) (\<lambda>normalized.
       overlay_clearDeletionForRecreatedPath normalized False
         (ov\<lparr>ov_files := AList.update normalized content (ov_files ov),
             ov_directories := set_remove normalized (ov_directories ov)\<rparr>))"

definition overlay_setDirectory :: "path \<Rightarrow> overlay \<Rightarrow> overlay res" where
  "overlay_setDirectory path ov =
     andThen (normalizeRepoPath path) (\<lambda>normalized.
       overlay_clearDeletionForRecreatedPath normalized True
         (ov\<lparr>ov_directories := set_add normalized (ov_directories ov),
             ov_files := AList.delete normalized (ov_files ov)\<rparr>))"

definition overlay_removeOverlayPath :: "path \<Rightarrow> overlay \<Rightarrow> overlay res" where
  "overlay_removeOverlayPath path ov =
     andThen (normalizeRepoPath path) (\<lambda>normalized.
     andThen (filter_res (\<lambda>(file, content).
         andThen (isSameOrChild file normalized) (\<lambda>b. Inr (\<not> b))) (ov_files ov)) (\<lambda>fs.
     andThen (filter_res (\<lambda>directory.
         andThen (isSameOrChild directory normalized) (\<lambda>b. Inr (\<not> b))) (ov_directories ov)) (\<lambda>ds.
     andThen (filter_res (\<lambda>rename.
         andThen (isSameOrChild (rn_from rename) normalized) (\<lambda>b.
           if b then Inr False
           else andThen (isSameOrChild (rn_to rename) normalized) (\<lambda>b'. Inr (\<not> b'))))
         (ov_renames ov)) (\<lambda>rs.
       Inr (ov\<lparr>ov_files := fs, ov_directories := ds, ov_renames := rs\<rparr>)))))"

definition overlay_markDeleted :: "path \<Rightarrow> overlay \<Rightarrow> overlay res" where
  "overlay_markDeleted path ov =
     andThen (normalizeRepoPath path) (\<lambda>normalized.
     andThen (overlay_removeOverlayPath normalized ov) (\<lambda>ov'.
       Inr (ov'\<lparr>ov_deletedPaths := set_add normalized (ov_deletedPaths ov')\<rparr>)))"

definition overlay_isDeleted :: "path \<Rightarrow> overlay \<Rightarrow> bool res" where
  "overlay_isDeleted path ov =
     andThen (normalizeRepoPath path) (\<lambda>normalized.
       some_res (\<lambda>deleted. isSameOrChild normalized deleted) (ov_deletedPaths ov))"

definition overlay_addRename :: "path \<Rightarrow> path \<Rightarrow> overlay \<Rightarrow> overlay res" where
  "overlay_addRename from to ov =
     andThen (normalizeRepoPath from) (\<lambda>normalizedFrom.
     andThen (normalizeRepoPath to) (\<lambda>normalizedTo.
       Inr (ov\<lparr>ov_renames := ov_renames ov @ [\<lparr>rn_from = normalizedFrom, rn_to = normalizedTo\<rparr>]\<rparr>)))"

text \<open>\<open>findIndex\<close> followed by \<open>splice(index, 1)\<close>: the first hit goes, the rest stays.\<close>

fun remove_first :: "('a \<Rightarrow> bool) \<Rightarrow> 'a list \<Rightarrow> 'a list" where
  "remove_first P [] = []"
| "remove_first P (x # xs) = (if P x then xs else x # remove_first P xs)"

definition overlay_removeRenameTo :: "path \<Rightarrow> overlay \<Rightarrow> (rename_snapshot option \<times> overlay) res" where
  "overlay_removeRenameTo path ov =
     andThen (normalizeRepoPath path) (\<lambda>normalized.
       Inr (find (\<lambda>r. rn_to r = normalized) (ov_renames ov),
            ov\<lparr>ov_renames := remove_first (\<lambda>r. rn_to r = normalized) (ov_renames ov)\<rparr>))"

definition overlay_removeRename :: "path \<Rightarrow> path \<Rightarrow> overlay \<Rightarrow> overlay res" where
  "overlay_removeRename from to ov =
     andThen (normalizeRepoPath from) (\<lambda>normalizedFrom.
     andThen (normalizeRepoPath to) (\<lambda>normalizedTo.
       Inr (ov\<lparr>ov_renames := remove_first
         (\<lambda>r. rn_from r = normalizedFrom \<and> rn_to r = normalizedTo) (ov_renames ov)\<rparr>)))"

definition overlay_listFiles :: "string comparator \<Rightarrow> overlay \<Rightarrow> (path \<times> bytes) list" where
  "overlay_listFiles collate ov =
     sort_by (\<lambda>left right. collate (fst left) (fst right)) (ov_files ov)"

definition overlay_listDirectories :: "overlay \<Rightarrow> path list" where
  "overlay_listDirectories ov = sort_by code_unit_compare (ov_directories ov)"

definition overlay_listDeletedPaths :: "overlay \<Rightarrow> path list" where
  "overlay_listDeletedPaths ov = sort_by code_unit_compare (ov_deletedPaths ov)"

definition overlay_listRenames :: "overlay \<Rightarrow> rename_snapshot list" where
  "overlay_listRenames ov = ov_renames ov"

text \<open>\<open>isDirectChild(entry, normalized) && !this.isDeleted(entry)\<close>.\<close>

definition visible_child :: "path \<Rightarrow> overlay \<Rightarrow> path \<Rightarrow> bool res" where
  "visible_child normalized ov entry =
     andThen (isDirectChild entry normalized) (\<lambda>b.
       if b then andThen (overlay_isDeleted entry ov) (\<lambda>d. Inr (\<not> d)) else Inr False)"

definition overlay_directChildren :: "path \<Rightarrow> overlay \<Rightarrow> overlay_entry list res" where
  "overlay_directChildren path ov =
     andThen (normalizeRepoPath path) (\<lambda>normalized.
     andThen (fold_res (\<lambda>(file, content) result.
         andThen (visible_child normalized ov file) (\<lambda>b. Inr (if b then AList.update file
           \<lparr>oe_path = file, oe_type = FileEntry, oe_size = length content\<rparr> result else result)))
         (ov_files ov) []) (\<lambda>result.
     andThen (fold_res (\<lambda>directory result.
         andThen (visible_child normalized ov directory) (\<lambda>b. Inr (if b then AList.update directory
           \<lparr>oe_path = directory, oe_type = DirEntry, oe_size = 0\<rparr> result else result)))
         (ov_directories ov) result) (\<lambda>result'.
       Inr (map snd result'))))"

definition overlay_snapshot_of :: "string comparator \<Rightarrow> overlay \<Rightarrow> overlay_snapshot" where
  "overlay_snapshot_of collate ov =
     \<lparr>sn_files = overlay_listFiles collate ov, sn_directories = overlay_listDirectories ov,
      sn_deletedPaths = overlay_listDeletedPaths ov, sn_renames = overlay_listRenames ov\<rparr>"

subsection \<open>Well-formed overlays\<close>

text \<open>
  The type invariant: every stored path is canonical and none is the root, files have distinct
  keys, and the two sets hold no duplicates.
\<close>

definition stored_path :: "path \<Rightarrow> bool" where
  "stored_path p \<longleftrightarrow> canonical p \<and> p \<noteq> []"

definition overlay_wf :: "overlay \<Rightarrow> bool" where
  "overlay_wf ov \<longleftrightarrow>
     list_all stored_path (keys (ov_files ov)) \<and> distinct (keys (ov_files ov)) \<and>
     list_all stored_path (ov_directories ov) \<and> distinct (ov_directories ov) \<and>
     list_all stored_path (ov_deletedPaths ov) \<and> distinct (ov_deletedPaths ov) \<and>
     list_all (\<lambda>r. stored_path (rn_from r) \<and> stored_path (rn_to r)) (ov_renames ov)"

lemma stored_pathD [dest]: "stored_path p \<Longrightarrow> canonical p \<and> p \<noteq> []"
  by (simp add: stored_path_def)

lemma overlay_wfD:
  assumes "overlay_wf ov"
  shows "(p, c) \<in> set (ov_files ov) \<Longrightarrow> canonical p \<and> p \<noteq> []"
    and "map_of (ov_files ov) p = Some c \<Longrightarrow> canonical p \<and> p \<noteq> []"
    and "p \<in> set (ov_directories ov) \<Longrightarrow> canonical p \<and> p \<noteq> []"
    and "p \<in> set (ov_deletedPaths ov) \<Longrightarrow> canonical p \<and> p \<noteq> []"
    and "r \<in> set (ov_renames ov) \<Longrightarrow> canonical (rn_from r) \<and> rn_from r \<noteq> []"
    and "r \<in> set (ov_renames ov) \<Longrightarrow> canonical (rn_to r) \<and> rn_to r \<noteq> []"
    and "distinct (keys (ov_files ov))" and "distinct (ov_directories ov)"
    and "distinct (ov_deletedPaths ov)"
  using assms unfolding overlay_wf_def list_all_iff
  by (force dest: map_of_SomeD)+

lemma overlay_wf_empty [simp]: "overlay_wf empty_overlay"
  by (simp add: overlay_wf_def empty_overlay_def)

subsection \<open>What each method does on a well-formed overlay\<close>

definition deleted_at :: "overlay \<Rightarrow> path \<Rightarrow> bool" where
  "deleted_at ov p \<longleftrightarrow> (\<exists>t \<in> set (ov_deletedPaths ov). same_or_child p t)"

definition put_file :: "path \<Rightarrow> bytes \<Rightarrow> overlay \<Rightarrow> overlay" where
  "put_file p c ov = ov\<lparr>ov_files := AList.update p c (ov_files ov),
     ov_directories := set_remove p (ov_directories ov),
     ov_deletedPaths := filter (\<lambda>t. \<not> same_or_child p t) (ov_deletedPaths ov)\<rparr>"

definition put_directory :: "path \<Rightarrow> overlay \<Rightarrow> overlay" where
  "put_directory p ov = ov\<lparr>ov_files := AList.delete p (ov_files ov),
     ov_directories := set_add p (ov_directories ov),
     ov_deletedPaths := set_remove p (ov_deletedPaths ov)\<rparr>"

definition revive :: "path \<Rightarrow> overlay \<Rightarrow> overlay" where
  "revive p ov =
     ov\<lparr>ov_deletedPaths := filter (\<lambda>t. \<not> same_or_child p t) (ov_deletedPaths ov)\<rparr>"

definition prune :: "path \<Rightarrow> overlay \<Rightarrow> overlay" where
  "prune p ov = ov\<lparr>ov_files := filter (\<lambda>(q, c). \<not> same_or_child q p) (ov_files ov),
     ov_directories := filter (\<lambda>q. \<not> same_or_child q p) (ov_directories ov),
     ov_renames := filter (\<lambda>r. \<not> same_or_child (rn_from r) p \<and> \<not> same_or_child (rn_to r) p)
       (ov_renames ov)\<rparr>"

definition entomb :: "path \<Rightarrow> overlay \<Rightarrow> overlay" where
  "entomb p ov = (let ov' = prune p ov in
     ov'\<lparr>ov_deletedPaths := set_add p (ov_deletedPaths ov')\<rparr>)"

lemma getFile_pure [pure_form]: "canonical p \<Longrightarrow> overlay_getFile p ov = Inr (map_of (ov_files ov) p)"
  by (simp add: overlay_getFile_def pure_form)

lemma hasDirectory_pure [pure_form]:
  "canonical p \<Longrightarrow> overlay_hasDirectory p ov = Inr (p \<in> set (ov_directories ov))"
  by (simp add: overlay_hasDirectory_def pure_form)

lemma removeFile_pure [pure_form]: "canonical p \<Longrightarrow>
    overlay_removeFile p ov = Inr (ov\<lparr>ov_files := AList.delete p (ov_files ov)\<rparr>)"
  by (simp add: overlay_removeFile_def pure_form)

lemma removeDirectory_pure [pure_form]: "canonical p \<Longrightarrow>
    overlay_removeDirectory p ov = Inr (ov\<lparr>ov_directories := set_remove p (ov_directories ov)\<rparr>)"
  by (simp add: overlay_removeDirectory_def pure_form)

lemma unmarkDeleted_revive:
  assumes same: "ov_deletedPaths ov' = ov_deletedPaths ov" and wf: "overlay_wf ov" "canonical p"
  shows "overlay_unmarkDeleted p True ov' = Inr (revive p ov')"
proof -
  have "filter_res (\<lambda>deleted. if deleted = p then Inr False
      else andThen (isSameOrChild p deleted) (\<lambda>b. Inr (\<not> b))) (ov_deletedPaths ov')
    = Inr (filter (\<lambda>t. \<not> same_or_child p t) (ov_deletedPaths ov'))"
    using same wf by (intro filter_res_pure) (auto simp: pure_form overlay_wfD)
  with wf show ?thesis
    by (simp add: overlay_unmarkDeleted_def revive_def pure_form cong: if_cong)
qed

lemma unmarkDeleted_pure [pure_form]:
  assumes "overlay_wf ov" and "canonical p"
  shows "overlay_unmarkDeleted p True ov = Inr (revive p ov)"
    and "overlay_unmarkDeleted p False ov =
           Inr (ov\<lparr>ov_deletedPaths := set_remove p (ov_deletedPaths ov)\<rparr>)"
proof -
  show "overlay_unmarkDeleted p True ov = Inr (revive p ov)"
    using assms by (intro unmarkDeleted_revive) auto
  have "filter_res (\<lambda>deleted. if deleted = p then Inr False else Inr True) (ov_deletedPaths ov)
    = Inr (set_remove p (ov_deletedPaths ov))"
    unfolding set_remove_def by (intro filter_res_pure) auto
  with assms show "overlay_unmarkDeleted p False ov =
      Inr (ov\<lparr>ov_deletedPaths := set_remove p (ov_deletedPaths ov)\<rparr>)"
    by (simp add: overlay_unmarkDeleted_def pure_form cong: if_cong)
qed

lemma setFile_pure [pure_form]:
  assumes "overlay_wf ov" and "canonical p"
  shows "overlay_setFile p c ov = Inr (put_file p c ov)"
proof -
  let ?ov = "ov\<lparr>ov_files := AList.update p c (ov_files ov),
             ov_directories := set_remove p (ov_directories ov)\<rparr>"
  have "overlay_unmarkDeleted p True ?ov = Inr (revive p ?ov)"
    using assms by (intro unmarkDeleted_revive) auto
  with assms show ?thesis
    by (simp add: overlay_setFile_def overlay_clearDeletionForRecreatedPath_def put_file_def
        revive_def pure_form)
qed

lemma setDirectory_pure [pure_form]:
  "canonical p \<Longrightarrow> overlay_setDirectory p ov = Inr (put_directory p ov)"
  by (simp add: overlay_setDirectory_def overlay_clearDeletionForRecreatedPath_def
      put_directory_def pure_form)

lemma removeOverlayPath_pure [pure_form]:
  assumes "overlay_wf ov" and "canonical p"
  shows "overlay_removeOverlayPath p ov = Inr (prune p ov)"
proof -
  have "filter_res (\<lambda>(file, content). andThen (isSameOrChild file p) (\<lambda>b. Inr (\<not> b))) (ov_files ov)
    = Inr (filter (\<lambda>(q, c). \<not> same_or_child q p) (ov_files ov))"
    using assms by (intro filter_res_pure) (auto simp: pure_form overlay_wfD)
  moreover have "filter_res (\<lambda>d. andThen (isSameOrChild d p) (\<lambda>b. Inr (\<not> b))) (ov_directories ov)
    = Inr (filter (\<lambda>q. \<not> same_or_child q p) (ov_directories ov))"
    using assms by (intro filter_res_pure) (auto simp: pure_form overlay_wfD)
  moreover have "filter_res (\<lambda>r. andThen (isSameOrChild (rn_from r) p) (\<lambda>b.
        if b then Inr False else andThen (isSameOrChild (rn_to r) p) (\<lambda>b'. Inr (\<not> b'))))
      (ov_renames ov)
    = Inr (filter (\<lambda>r. \<not> same_or_child (rn_from r) p \<and> \<not> same_or_child (rn_to r) p) (ov_renames ov))"
    using assms by (intro filter_res_pure) (auto simp: pure_form overlay_wfD)
  ultimately show ?thesis
    using assms by (simp add: overlay_removeOverlayPath_def prune_def pure_form)
qed

lemma markDeleted_pure [pure_form]:
  "overlay_wf ov \<Longrightarrow> canonical p \<Longrightarrow> overlay_markDeleted p ov = Inr (entomb p ov)"
  by (simp add: overlay_markDeleted_def entomb_def pure_form Let_def)

lemma isDeleted_pure [pure_form]:
  assumes "overlay_wf ov" and "canonical p"
  shows "overlay_isDeleted p ov = Inr (deleted_at ov p)"
proof -
  have "some_res (isSameOrChild p) (ov_deletedPaths ov)
      = Inr (\<exists>t \<in> set (ov_deletedPaths ov). same_or_child p t)"
    using assms by (intro some_res_pure) (auto simp: pure_form overlay_wfD)
  with assms show ?thesis
    by (simp add: overlay_isDeleted_def deleted_at_def pure_form)
qed

lemma addRename_pure [pure_form]: "canonical p \<Longrightarrow> canonical q \<Longrightarrow>
    overlay_addRename p q ov =
      Inr (ov\<lparr>ov_renames := ov_renames ov @ [\<lparr>rn_from = p, rn_to = q\<rparr>]\<rparr>)"
  by (simp add: overlay_addRename_def pure_form)

lemma removeRenameTo_pure [pure_form]: "canonical p \<Longrightarrow>
    overlay_removeRenameTo p ov = Inr (find (\<lambda>r. rn_to r = p) (ov_renames ov),
      ov\<lparr>ov_renames := remove_first (\<lambda>r. rn_to r = p) (ov_renames ov)\<rparr>)"
  by (simp add: overlay_removeRenameTo_def pure_form)

lemma removeRename_pure [pure_form]: "canonical p \<Longrightarrow> canonical q \<Longrightarrow>
    overlay_removeRename p q ov = Inr (ov\<lparr>ov_renames :=
      remove_first (\<lambda>r. rn_from r = p \<and> rn_to r = q) (ov_renames ov)\<rparr>)"
  by (simp add: overlay_removeRename_def pure_form)

subsection \<open>The invariant is kept\<close>

lemma set_remove_first: "set (remove_first P xs) \<subseteq> set xs"
  by (induction xs) auto

lemma list_all_remove_first: "list_all Q xs \<Longrightarrow> list_all Q (remove_first P xs)"
  using set_remove_first [of P xs] by (auto simp: list_all_iff)

lemma wf_put_file [simp]: "overlay_wf ov \<Longrightarrow> stored_path p \<Longrightarrow> overlay_wf (put_file p c ov)"
  by (simp add: overlay_wf_def put_file_def list_all_iff fst_set_update)

lemma wf_put_directory [simp]: "overlay_wf ov \<Longrightarrow> stored_path p \<Longrightarrow> overlay_wf (put_directory p ov)"
  by (auto simp add: overlay_wf_def put_directory_def list_all_iff)

lemma wf_revive [simp]: "overlay_wf ov \<Longrightarrow> overlay_wf (revive p ov)"
  by (simp add: overlay_wf_def revive_def list_all_iff)

lemma wf_prune [simp]: "overlay_wf ov \<Longrightarrow> overlay_wf (prune p ov)"
  by (auto simp: overlay_wf_def prune_def list_all_iff distinct_keys_filter)

lemma wf_entomb [simp]: "overlay_wf ov \<Longrightarrow> stored_path p \<Longrightarrow> overlay_wf (entomb p ov)"
  using wf_prune [of ov p]
  by (simp add: overlay_wf_def entomb_def Let_def list_all_iff)

lemma wf_renames: "overlay_wf ov \<Longrightarrow> list_all (\<lambda>r. stored_path (rn_from r) \<and> stored_path (rn_to r)) rs \<Longrightarrow>
    overlay_wf (ov\<lparr>ov_renames := rs\<rparr>)"
  by (simp add: overlay_wf_def)

lemma wf_add_rename [simp]: "overlay_wf ov \<Longrightarrow> stored_path p \<Longrightarrow> stored_path q \<Longrightarrow>
    overlay_wf (ov\<lparr>ov_renames := ov_renames ov @ [\<lparr>rn_from = p, rn_to = q\<rparr>]\<rparr>)"
  by (simp add: overlay_wf_def)

lemma wf_remove_rename [simp]:
  "overlay_wf ov \<Longrightarrow> overlay_wf (ov\<lparr>ov_renames := remove_first P (ov_renames ov)\<rparr>)"
  by (simp add: overlay_wf_def list_all_remove_first)

lemma wf_delete_file [simp]:
  "overlay_wf ov \<Longrightarrow> overlay_wf (ov\<lparr>ov_files := AList.delete p (ov_files ov)\<rparr>)"
  by (auto simp add: overlay_wf_def list_all_iff)

lemma wf_delete_directory [simp]:
  "overlay_wf ov \<Longrightarrow> overlay_wf (ov\<lparr>ov_directories := set_remove p (ov_directories ov)\<rparr>)"
  by (simp add: overlay_wf_def list_all_iff)

lemma wf_delete_deleted [simp]:
  "overlay_wf ov \<Longrightarrow> overlay_wf (ov\<lparr>ov_deletedPaths := set_remove p (ov_deletedPaths ov)\<rparr>)"
  by (simp add: overlay_wf_def list_all_iff)

text \<open>The mutating methods as steps of a computation, with any path as the argument.\<close>

lemma wf_steps [preserves_intro]:
  "preserves overlay_wf (modifyS (overlay_removeFile path))"
  "preserves overlay_wf (modifyS (overlay_removeDirectory path))"
  "preserves overlay_wf (modifyS (overlay_unmarkDeleted path b))"
  "preserves overlay_wf (modifyS (overlay_removeOverlayPath path))"
  "preserves overlay_wf (modifyS (overlay_removeRename path path'))"
proof -
  show "preserves overlay_wf (modifyS (overlay_removeFile path))"
    by (rule preserves_modifyS) (auto simp: overlay_removeFile_def)
  show "preserves overlay_wf (modifyS (overlay_removeDirectory path))"
    by (rule preserves_modifyS) (auto simp: overlay_removeDirectory_def)
  show "preserves overlay_wf (modifyS (overlay_removeRename path path'))"
    by (rule preserves_modifyS) (auto simp: overlay_removeRename_def)
  show "preserves overlay_wf (modifyS (overlay_removeOverlayPath path))"
  proof (rule preserves_modifyS)
    fix s t assume wf: "overlay_wf s" and run: "overlay_removeOverlayPath path s = Inr t"
    from run obtain p where p: "normalizeRepoPath path = Inr p" by (auto simp: overlay_removeOverlayPath_def)
    then have can: "canonical p" by (rule normalize_result)
    with p have "overlay_removeOverlayPath path s = overlay_removeOverlayPath p s"
      by (simp add: overlay_removeOverlayPath_def pure_form)
    with wf run can show "overlay_wf t" by (auto simp: pure_form)
  qed
  show "preserves overlay_wf (modifyS (overlay_unmarkDeleted path b))"
  proof (rule preserves_modifyS)
    fix s t assume wf: "overlay_wf s" and run: "overlay_unmarkDeleted path b s = Inr t"
    from run obtain p where p: "normalizeRepoPath path = Inr p" by (auto simp: overlay_unmarkDeleted_def)
    then have can: "canonical p" by (rule normalize_result)
    with p have "overlay_unmarkDeleted path b s = overlay_unmarkDeleted p b s"
      by (simp add: overlay_unmarkDeleted_def pure_form)
    with wf run can show "overlay_wf t" by (cases b) (auto simp: pure_form)
  qed
qed

lemma wf_steps_nonroot:
  assumes "stored_path p"
  shows "preserves overlay_wf (modifyS (overlay_setFile p content))"
    and "preserves overlay_wf (modifyS (overlay_setDirectory p))"
    and "preserves overlay_wf (modifyS (overlay_markDeleted p))"
proof -
  have p: "canonical p" using assms by blast
  show "preserves overlay_wf (modifyS (overlay_setFile p content))"
    by (rule preserves_modifyS) (use assms p in \<open>auto simp: setFile_pure\<close>)
  show "preserves overlay_wf (modifyS (overlay_setDirectory p))"
    by (rule preserves_modifyS) (use assms p in \<open>auto simp: setDirectory_pure\<close>)
  show "preserves overlay_wf (modifyS (overlay_markDeleted p))"
    by (rule preserves_modifyS) (use assms p in \<open>auto simp: markDeleted_pure\<close>)
qed

subsection \<open>What the methods leave visible\<close>

lemma files_put_file [simp]: "map_of (ov_files (put_file p c ov)) = (map_of (ov_files ov))(p \<mapsto> c)"
  by (simp add: put_file_def)

lemma files_put_directory [simp]:
  "map_of (ov_files (put_directory p ov)) = (map_of (ov_files ov))(p := None)"
  by (simp add: put_directory_def)

lemma files_revive [simp]: "ov_files (revive p ov) = ov_files ov"
  by (simp add: revive_def)

lemma files_prune [simp]: "map_of (ov_files (prune p ov)) =
    (\<lambda>q. if same_or_child q p then None else map_of (ov_files ov) q)"
  by (auto simp: prune_def map_of_filter_key fun_eq_iff)

lemma files_entomb [simp]: "map_of (ov_files (entomb p ov)) =
    (\<lambda>q. if same_or_child q p then None else map_of (ov_files ov) q)"
  using files_prune [of p ov] by (simp add: entomb_def Let_def)

lemma directories_put_file [simp]:
  "set (ov_directories (put_file p c ov)) = set (ov_directories ov) - {p}"
  by (simp add: put_file_def)

lemma directories_put_directory [simp]:
  "set (ov_directories (put_directory p ov)) = insert p (set (ov_directories ov))"
  by (simp add: put_directory_def)

lemma directories_revive [simp]: "ov_directories (revive p ov) = ov_directories ov"
  by (simp add: revive_def)

lemma directories_prune [simp]:
  "set (ov_directories (prune p ov)) = {q \<in> set (ov_directories ov). \<not> same_or_child q p}"
  by (auto simp: prune_def)

lemma directories_entomb [simp]:
  "set (ov_directories (entomb p ov)) = {q \<in> set (ov_directories ov). \<not> same_or_child q p}"
  by (auto simp: entomb_def prune_def Let_def)

lemma deletedPaths_put_file [simp]:
  "set (ov_deletedPaths (put_file p c ov)) = {t \<in> set (ov_deletedPaths ov). \<not> same_or_child p t}"
  by (auto simp: put_file_def)

lemma deletedPaths_put_directory [simp]:
  "set (ov_deletedPaths (put_directory p ov)) = set (ov_deletedPaths ov) - {p}"
  by (simp add: put_directory_def)

lemma deletedPaths_revive [simp]:
  "set (ov_deletedPaths (revive p ov)) = {t \<in> set (ov_deletedPaths ov). \<not> same_or_child p t}"
  by (auto simp: revive_def)

lemma deletedPaths_prune [simp]: "ov_deletedPaths (prune p ov) = ov_deletedPaths ov"
  by (simp add: prune_def)

lemma deletedPaths_entomb [simp]:
  "set (ov_deletedPaths (entomb p ov)) = insert p (set (ov_deletedPaths ov))"
  by (simp add: entomb_def Let_def)

lemma deleted_at_put_file [simp]: "\<not> deleted_at (put_file p c ov) p"
  by (auto simp: deleted_at_def)

lemma deleted_at_revive [simp]: "\<not> deleted_at (revive p ov) p"
  by (auto simp: deleted_at_def)

lemma deleted_at_prune [simp]: "deleted_at (prune p ov) q = deleted_at ov q"
  by (simp add: deleted_at_def)

lemma deleted_at_entomb [simp]: "deleted_at (entomb p ov) q \<longleftrightarrow> same_or_child q p \<or> deleted_at ov q"
  by (auto simp: deleted_at_def)

lemma deleted_at_child: "deleted_at ov p \<Longrightarrow> same_or_child q p \<Longrightarrow> deleted_at ov q"
  by (meson deleted_at_def same_or_child_trans)

subsection \<open>Snapshots\<close>

text \<open>
  \<open>restore\<close> gives back what \<open>snapshot\<close> saved: the same files, directories, tombstones and renames,
  in the sorted order of the snapshot.
\<close>

definition snapshot_wf :: "overlay_snapshot \<Rightarrow> bool" where
  "snapshot_wf s \<longleftrightarrow>
     overlay_wf \<lparr>ov_files = sn_files s, ov_directories = sn_directories s,
       ov_deletedPaths = sn_deletedPaths s, ov_renames = sn_renames s\<rparr>"

definition of_snapshot :: "overlay_snapshot \<Rightarrow> overlay" where
  "of_snapshot s = \<lparr>ov_files = sn_files s, ov_directories = sn_directories s,
     ov_deletedPaths = sn_deletedPaths s, ov_renames = sn_renames s\<rparr>"

lemma restore_files_loop:
  "list_all canonical (keys fs) \<Longrightarrow> distinct (keys (ov_files ov @ fs)) \<Longrightarrow>
   forS fs (\<lambda>(path, content). modifyS (\<lambda>ov. andThen (normalizeRepoPath path) (\<lambda>p.
     Inr (ov\<lparr>ov_files := AList.update p content (ov_files ov)\<rparr>)))) ov
   = (Inr (), ov\<lparr>ov_files := ov_files ov @ fs\<rparr>)"
proof (induction fs arbitrary: ov)
  case (Cons f fs)
  obtain p c where f: "f = (p, c)" by (cases f)
  let ?ov = "ov\<lparr>ov_files := ov_files ov @ [(p, c)]\<rparr>"
  from Cons.prems have "AList.update p c (ov_files ov) = ov_files ov @ [(p, c)]"
    by (intro update_fresh) (auto simp: f)
  moreover have "list_all canonical (keys fs)" "distinct (keys (ov_files ?ov @ fs))"
    using Cons.prems by (simp_all add: f)
  ultimately show ?case
    using Cons.IH [of ?ov] Cons.prems by (simp add: f bindS_apply modifyS_apply pure_form)
qed simp

lemma restore_set_loop:
  assumes upd: "\<And>p ov. canonical p \<Longrightarrow> f p ov = Inr (upd (set_add p (sel ov)) ov)"
    and sel: "\<And>xs ov. sel (upd xs ov) = xs" and idem: "\<And>xs ys ov. upd xs (upd ys ov) = upd xs ov"
    and self: "\<And>ov. upd (sel ov) ov = ov"
  shows "list_all canonical ps \<Longrightarrow> distinct (sel ov @ ps) \<Longrightarrow>
    forS ps (\<lambda>p. modifyS (f p)) ov = (Inr (), upd (sel ov @ ps) ov)"
proof (induction ps arbitrary: ov)
  case (Cons p ps)
  then have "f p ov = Inr (upd (sel ov @ [p]) ov)" by (simp add: upd set_add_def)
  with Cons show ?case by (simp add: bindS_apply modifyS_apply sel idem)
qed (simp add: self)

lemma restore_renames_loop:
  "list_all (\<lambda>r. canonical (rn_from r) \<and> canonical (rn_to r)) rs \<Longrightarrow>
   forS rs (\<lambda>rename. modifyS (\<lambda>ov.
       andThen (normalizeRepoPath (rn_from rename)) (\<lambda>f.
       andThen (normalizeRepoPath (rn_to rename)) (\<lambda>t.
         Inr (ov\<lparr>ov_renames := ov_renames ov @ [\<lparr>rn_from = f, rn_to = t\<rparr>]\<rparr>))))) ov
   = (Inr (), ov\<lparr>ov_renames := ov_renames ov @ rs\<rparr>)"
  by (induction rs arbitrary: ov) (simp_all add: bindS_apply modifyS_apply pure_form)

lemma restore_wf: "snapshot_wf s \<Longrightarrow> overlay_restore s ov = (Inr (), of_snapshot s)"
proof -
  assume "snapshot_wf s"
  then have can: "list_all canonical (keys (sn_files s))" "list_all canonical (sn_directories s)"
      "list_all canonical (sn_deletedPaths s)"
      "list_all (\<lambda>r. canonical (rn_from r) \<and> canonical (rn_to r)) (sn_renames s)"
    and dist: "distinct (keys (sn_files s))" "distinct (sn_directories s)"
      "distinct (sn_deletedPaths s)"
    by (auto simp: snapshot_wf_def overlay_wf_def list_all_iff)
  let ?o1 = "empty_overlay\<lparr>ov_files := sn_files s\<rparr>"
  let ?o2 = "?o1\<lparr>ov_directories := sn_directories s\<rparr>"
  let ?o3 = "?o2\<lparr>ov_deletedPaths := sn_deletedPaths s\<rparr>"
  have files: "forS (sn_files s) (\<lambda>(path, content). modifyS (\<lambda>ov. andThen (normalizeRepoPath path)
      (\<lambda>p. Inr (ov\<lparr>ov_files := AList.update p content (ov_files ov)\<rparr>)))) empty_overlay
    = (Inr (), ?o1)"
    using can(1) dist(1) by (subst restore_files_loop) (simp_all add: empty_overlay_def)
  have dirs: "forS (sn_directories s) (\<lambda>d. modifyS (\<lambda>ov. andThen (normalizeRepoPath d) (\<lambda>p.
      Inr (ov\<lparr>ov_directories := set_add p (ov_directories ov)\<rparr>)))) ?o1 = (Inr (), ?o2)"
    using can(2) dist(2)
      restore_set_loop [where sel = ov_directories and upd = "\<lambda>xs ov. ov\<lparr>ov_directories := xs\<rparr>"
        and f = "\<lambda>d ov. andThen (normalizeRepoPath d) (\<lambda>p.
           Inr (ov\<lparr>ov_directories := set_add p (ov_directories ov)\<rparr>))" and ov = ?o1]
    by (simp add: pure_form empty_overlay_def)
  have dels: "forS (sn_deletedPaths s) (\<lambda>d. modifyS (\<lambda>ov. andThen (normalizeRepoPath d) (\<lambda>p.
      Inr (ov\<lparr>ov_deletedPaths := set_add p (ov_deletedPaths ov)\<rparr>)))) ?o2 = (Inr (), ?o3)"
    using can(3) dist(3)
      restore_set_loop [where sel = ov_deletedPaths and upd = "\<lambda>xs ov. ov\<lparr>ov_deletedPaths := xs\<rparr>"
        and f = "\<lambda>d ov. andThen (normalizeRepoPath d) (\<lambda>p.
           Inr (ov\<lparr>ov_deletedPaths := set_add p (ov_deletedPaths ov)\<rparr>))" and ov = ?o2]
    by (simp add: pure_form empty_overlay_def)
  have "ov_renames ?o3 = []" by (simp add: empty_overlay_def)
  then have renames: "forS (sn_renames s) (\<lambda>rename. modifyS (\<lambda>ov.
       andThen (normalizeRepoPath (rn_from rename)) (\<lambda>f.
       andThen (normalizeRepoPath (rn_to rename)) (\<lambda>t.
         Inr (ov\<lparr>ov_renames := ov_renames ov @ [\<lparr>rn_from = f, rn_to = t\<rparr>]\<rparr>))))) ?o3
    = (Inr (), of_snapshot s)"
    using restore_renames_loop [OF can(4), of ?o3]
    by (simp only: append_Nil) (simp add: of_snapshot_def empty_overlay_def)
  have clear: "modifyS (\<lambda>ov. Inr (overlay_clear ov)) ov = (Inr (), empty_overlay)"
    by (simp add: modifyS_apply overlay_clear_def)
  show ?thesis
    unfolding overlay_restore_def
    by (simp only: bindS_apply clear files dirs dels renames prod.case sum.case)
qed

lemma snapshot_of_wf [simp]: "snapshot_wf (overlay_snapshot_of collate ov) = overlay_wf ov"
  by (auto simp: snapshot_wf_def overlay_wf_def overlay_snapshot_of_def overlay_listFiles_def
      overlay_listDirectories_def overlay_listDeletedPaths_def overlay_listRenames_def list_all_iff)

text \<open>Two overlays with the same contents, whatever the order of their maps and sets.\<close>

definition same_overlay :: "overlay \<Rightarrow> overlay \<Rightarrow> bool" where
  "same_overlay a b \<longleftrightarrow> map_of (ov_files a) = map_of (ov_files b) \<and>
     set (ov_directories a) = set (ov_directories b) \<and>
     set (ov_deletedPaths a) = set (ov_deletedPaths b) \<and> ov_renames a = ov_renames b"

lemma map_of_mset_eq: "mset xs = mset ys \<Longrightarrow> distinct (keys ys) \<Longrightarrow> map_of xs = map_of ys"
proof -
  assume eq: "mset xs = mset ys" and d: "distinct (keys ys)"
  from eq have "mset (keys xs) = mset (keys ys)" by (metis mset_map)
  with d have "distinct (keys xs)" by (metis mset_eq_imp_distinct_iff)
  with d eq show ?thesis by (metis map_of_eqI map_of_inject_set mset_eq_setD)
qed

lemma of_snapshot_same: "overlay_wf ov \<Longrightarrow> same_overlay (of_snapshot (overlay_snapshot_of collate ov)) ov"
  using map_of_mset_eq [OF mset_sort_by overlay_wfD(7)]
  by (simp add: same_overlay_def of_snapshot_def overlay_snapshot_of_def overlay_listFiles_def
      overlay_listDirectories_def overlay_listDeletedPaths_def overlay_listRenames_def)

lemma fromSnapshot_wf: "snapshot_wf s \<Longrightarrow> overlay_fromSnapshot (Some s) = Inr (of_snapshot s)"
  by (simp add: overlay_fromSnapshot_def restore_wf)

lemma of_snapshot_wf: "snapshot_wf s \<Longrightarrow> overlay_wf (of_snapshot s)"
  by (simp add: snapshot_wf_def of_snapshot_def)

lemma same_overlay_deleted_at: "same_overlay a b \<Longrightarrow> deleted_at a p = deleted_at b p"
  by (simp add: same_overlay_def deleted_at_def)

end
