(* ===== verification/ServedRevision.thy ===== *)
theory ServedRevision
  imports RepositoryReader Overlay
begin

section \<open>Trees, listings and faithfully served revisions\<close>

text \<open>
  The content of a revision is a partial map from paths to bytes, its directories being the proper
  ancestors of its files. Two interfaces rest on it. \<open>listed_tree\<close> is what a traversal relies on:
  a listing function that shows the children of every directory; its client lemma says what a walk
  collects. \<open>served_revision\<close> is the documented behaviour of an adapter at one revision: it
  returns the bytes of every file, lists every directory, and answers \<open>NOT_FOUND\<close> for a directory
  that does not exist.
\<close>

type_synonym tree = "path \<Rightarrow> bytes option"

definition inside :: "path \<Rightarrow> path \<Rightarrow> bool" where
  "inside q d \<longleftrightarrow> d = [] \<or> same_or_child q d"

definition file_tree :: "tree \<Rightarrow> bool" where
  "file_tree F \<longleftrightarrow> (\<forall>p \<in> dom F. stored_path p) \<and>
     (\<forall>p \<in> dom F. \<forall>q \<in> dom F. same_or_child q p \<longrightarrow> q = p)"

definition is_dir :: "tree \<Rightarrow> path \<Rightarrow> bool" where
  "is_dir F d \<longleftrightarrow> d = [] \<or> (\<exists>q \<in> dom F. same_or_child q d \<and> q \<noteq> d)"

lemma inside_refl [simp]: "inside p p"
  by (simp add: inside_def)

lemma inside_root [simp]: "inside p []"
  by (simp add: inside_def)

lemma inside_trans: "inside p q \<Longrightarrow> inside q r \<Longrightarrow> inside p r"
  by (auto simp: inside_def dest: same_or_child_trans)

lemma same_or_child_child [simp]: "segment n \<Longrightarrow> d \<noteq> [] \<Longrightarrow> same_or_child (child_path d n) d"
  by (auto simp: child_path_def same_or_child_def startsWith_def)

lemma inside_child [simp]: "segment n \<Longrightarrow> inside (child_path d n) d"
  by (cases "d = []") (simp_all add: inside_def)

lemma child_path_neq [simp]: "segment n \<Longrightarrow> child_path d n \<noteq> d"
  by (auto simp: child_path_def)

lemma inside_parent:
  assumes "canonical p" "p \<noteq> []" shows "inside p (parent_of p)"
  using child_path_parent_base [OF assms] inside_child by metis

lemma same_or_child_parent:
  assumes "canonical p" "canonical t" "t \<noteq> []"
  shows "same_or_child p t \<longleftrightarrow> p = t \<or> (p \<noteq> [] \<and> same_or_child (parent_of p) t)"
proof (cases "p = []")
  case True
  with assms show ?thesis by auto
next
  case False
  obtain d n where "canonical d" "segment n" "p = child_path d n"
    by (rule canonical_cases [OF assms(1) False])
  with assms show ?thesis by (simp add: same_or_child_child_path)
qed

lemma inside_antisym: "canonical p \<Longrightarrow> canonical q \<Longrightarrow> inside p q \<Longrightarrow> inside q p \<Longrightarrow> p = q"
  by (auto simp: inside_def dest: same_or_child_antisym)

text \<open>The child of a directory on the way down to a path below it.\<close>

lemma inside_proper_cases:
  assumes "canonical q" "canonical d" "inside q d" "q \<noteq> d"
  obtains n where "segment n" and "inside q (child_path d n)"
proof -
  have "prefix (segs d) (segs q)"
    using assms by (cases "d = []") (auto simp: inside_def same_or_child_segs)
  then obtain ws where ws: "segs q = segs d @ ws" by (auto simp: prefix_def)
  with assms(4) have "ws \<noteq> []" by (metis append_Nil2 segs_inject)
  then obtain n rest where n: "ws = n # rest" by (cases ws) auto
  with ws assms(1) have seg: "segment n" by (auto simp: canonical_segs)
  then have "prefix (segs (child_path d n)) (segs q)" by (simp add: ws n)
  with seg assms have "inside q (child_path d n)" by (simp add: inside_def same_or_child_segs)
  with seg show ?thesis by (rule that)
qed

lemma inside_length: "canonical q \<Longrightarrow> canonical d \<Longrightarrow> inside q d \<Longrightarrow> length (segs d) \<le> length (segs q)"
  by (cases "d = []") (auto simp: inside_def same_or_child_segs dest: prefix_length_le)

lemma file_treeD:
  assumes "file_tree F" and "F p = Some c"
  shows "canonical p" and "p \<noteq> []"
    and "F q = Some c' \<Longrightarrow> same_or_child q p \<Longrightarrow> q = p"
    and "\<not> is_dir F p"
  using assms unfolding file_tree_def is_dir_def by blast+

lemma is_dir_root [simp]: "is_dir F []"
  by (simp add: is_dir_def)

lemma is_dir_parent:
  assumes "canonical p" "is_dir F p" shows "is_dir F (parent_of p)"
proof (cases "p = [] \<or> parent_of p = []")
  case True
  then show ?thesis by (auto simp: parent_of_def)
next
  case False
  then obtain q where "q \<in> dom F" "same_or_child q p" "q \<noteq> p"
    using assms(2) by (auto simp: is_dir_def)
  moreover have "same_or_child p (parent_of p)"
    using inside_parent [OF assms(1)] False by (simp add: inside_def)
  ultimately have "same_or_child q (parent_of p)" "q \<noteq> parent_of p"
    using same_or_child_trans same_or_child_antisym by blast+
  with \<open>q \<in> dom F\<close> show ?thesis by (auto simp: is_dir_def)
qed

lemma is_dir_of_file:
  assumes "file_tree F" "F q = Some c" "inside q d" "q \<noteq> d" shows "is_dir F d"
  using assms by (auto simp: is_dir_def inside_def)

lemma parent_of_neq: "canonical p \<Longrightarrow> p \<noteq> [] \<Longrightarrow> parent_of p \<noteq> p"
  by (metis child_path_neq child_path_parent_base)

subsection \<open>Listing a tree\<close>

definition lists :: "(path \<Rightarrow> bool) \<Rightarrow> (path \<Rightarrow> bool) \<Rightarrow> path \<Rightarrow> directory_entry list \<Rightarrow> bool" where
  "lists fileP dirP d es \<longleftrightarrow> listing_ok d es \<and> (\<forall>n. segment n \<longrightarrow>
     ((\<exists>e \<in> set es. de_name e = n \<and> de_type e = FileEntry) \<longleftrightarrow> fileP (child_path d n)) \<and>
     ((\<exists>e \<in> set es. de_name e = n \<and> de_type e = DirEntry) \<longleftrightarrow> dirP (child_path d n)))"

locale listed_tree =
  fixes ls :: "path \<Rightarrow> directory_entry list res" and fileP dirP :: "path \<Rightarrow> bool"
  assumes listing: "canonical d \<Longrightarrow> dirP d \<Longrightarrow> \<exists>es. ls d = Inr es \<and> lists fileP dirP d es"
    and ancestors: "fileP q \<Longrightarrow> canonical q \<Longrightarrow> canonical d \<Longrightarrow> inside q d \<Longrightarrow> q \<noteq> d \<Longrightarrow> dirP d"
begin

lemma reach_sound:
  assumes "reach ls d e"
  shows "canonical d \<Longrightarrow> dirP d \<Longrightarrow>
    canonical (de_path e) \<and> inside (de_path e) d \<and> de_path e \<noteq> d \<and>
    (if de_type e = FileEntry then fileP (de_path e) else dirP (de_path e))"
  using assms
proof (induction rule: reach.induct)
  case (reach_here d es e)
  then have ok: "lists fileP dirP d es" using listing by force
  with reach_here have "segment (de_name e)" "de_path e = child_path d (de_name e)"
    by (auto simp: lists_def dest: listing_okD)
  with ok reach_here show ?case
    by (cases "de_type e") (force simp: lists_def)+
next
  case (reach_sub d es f e)
  then have ok: "lists fileP dirP d es" using listing by force
  with reach_sub have f: "segment (de_name f)" "de_path f = child_path d (de_name f)"
    by (auto simp: lists_def dest: listing_okD)
  with ok reach_sub have "dirP (de_path f)" by (force simp: lists_def)
  with reach_sub f have IH: "canonical (de_path e)" "inside (de_path e) (de_path f)"
      "if de_type e = FileEntry then fileP (de_path e) else dirP (de_path e)"
    by simp_all
  moreover have "inside (de_path f) d" using f by simp
  moreover have "de_path e \<noteq> d"
  proof
    assume "de_path e = d"
    with IH(2) f reach_sub.prems(1) have "d = de_path f"
      by (intro inside_antisym) simp_all
    with f show False by (metis child_path_neq)
  qed
  ultimately show ?case using inside_trans by blast
qed

lemma reach_complete:
  assumes "fileP q" "canonical q" "canonical d" "dirP d" "inside q d" "q \<noteq> d"
  shows "\<exists>e. reach ls d e \<and> de_type e = FileEntry \<and> de_path e = q"
  using assms(3-)
proof (induction "length (segs q) - length (segs d)" arbitrary: d rule: less_induct)
  case less
  obtain es where es: "ls d = Inr es" and ok: "lists fileP dirP d es"
    using listing less.prems by blast
  obtain n where n: "segment n" "inside q (child_path d n)"
    using inside_proper_cases [OF assms(2)] less.prems by blast
  show ?case
  proof (cases "q = child_path d n")
    case True
    with ok n assms(1) obtain e where "e \<in> set es" "de_name e = n" "de_type e = FileEntry"
      by (auto simp: lists_def)
    moreover from this ok have "de_path e = q" using True by (auto simp: lists_def dest: listing_okD)
    ultimately show ?thesis using es reach_here by metis
  next
    case False
    have child: "canonical (child_path d n)" using n less.prems by simp
    with ancestors assms n False have "dirP (child_path d n)" by blast
    with ok n obtain f where f: "f \<in> set es" "de_name f = n" "de_type f = DirEntry"
      by (auto simp: lists_def)
    moreover from f ok have path: "de_path f = child_path d n"
      by (auto simp: lists_def dest: listing_okD)
    moreover have "length (segs q) - length (segs (child_path d n)) < length (segs q) - length (segs d)"
      using inside_length [OF assms(2) child n(2)] n by simp
    ultimately show ?thesis
      using less.hyps [OF _ child \<open>dirP (child_path d n)\<close> n(2) False] es reach_sub by metis
  qed
qed

text \<open>A walk that collects files collects exactly the files below its directory.\<close>

lemma walk_files:
  assumes "walk ls is_file_entry d 0 ([], 0) = Inr (out, n)" and "canonical d" "dirP d"
  shows "set out = {q. fileP q \<and> canonical q \<and> inside q d \<and> q \<noteq> d}"
  using walk_Inr(1) [OF assms(1)] reach_sound [OF _ assms(2,3)] reach_complete [OF _ _ assms(2,3)]
  by (fastforce simp: is_file_entry_def)

lemma walk_dirs:
  assumes "walk ls (\<lambda>e. de_type e = DirEntry) d 0 ([], 0) = Inr (out, n)" and "canonical d" "dirP d"
  shows "q \<in> set out \<Longrightarrow> dirP q \<and> canonical q \<and> inside q d \<and> q \<noteq> d"
  using walk_Inr(1) [OF assms(1)] reach_sound [OF _ assms(2,3)]
  by fastforce

end

subsection \<open>A faithfully served revision\<close>

locale served_revision =
  fixes h :: host and rv :: revision and F :: tree
  assumes tree: "file_tree F"
    and read_file: "F p = Some c \<Longrightarrow> rr_readFile h rv p = Inr c"
    and read_missing: "canonical p \<Longrightarrow> F p = None \<Longrightarrow> \<exists>e. rr_readFile h rv p = Inl e"
    and list_directory: "canonical d \<Longrightarrow> is_dir F d \<Longrightarrow>
      \<exists>es. rr_readDirectory h rv d = Inr es \<and> lists (\<lambda>p. F p \<noteq> None) (is_dir F) d es"
    and list_missing: "canonical d \<Longrightarrow> \<not> is_dir F d \<Longrightarrow> F d = None \<Longrightarrow>
      rr_readDirectory h rv d = Inl not_found"
    and list_file: "F d = Some c \<Longrightarrow> \<exists>e. rr_readDirectory h rv d = Inl e"

sublocale served_revision \<subseteq> base: listed_tree "rr_readDirectory h rv" "\<lambda>p. F p \<noteq> None" "is_dir F"
  by unfold_locales (use list_directory is_dir_of_file [OF tree] in auto)

context served_revision
begin

lemma treeD: "F p = Some c \<Longrightarrow> canonical p \<and> p \<noteq> [] \<and> \<not> is_dir F p"
  using file_treeD [OF tree] by blast

lemma stat_child:
  assumes "canonical d" "is_dir F d" "segment n"
  shows "(F (child_path d n) \<noteq> None \<longrightarrow>
            (\<exists>k. rr_stat h rv (child_path d n) = Inr \<lparr>st_type = FileEntry, st_size = k\<rparr>)) \<and>
         (is_dir F (child_path d n) \<longrightarrow>
            (\<exists>k. rr_stat h rv (child_path d n) = Inr \<lparr>st_type = DirEntry, st_size = k\<rparr>)) \<and>
         (F (child_path d n) = None \<longrightarrow> \<not> is_dir F (child_path d n) \<longrightarrow>
            rr_stat h rv (child_path d n) = Inl not_found)"
proof -
  obtain es where es: "rr_readDirectory h rv d = Inr es"
    and ls: "lists (\<lambda>p. F p \<noteq> None) (is_dir F) d es"
    using list_directory assms by blast
  then have stat: "rr_stat h rv (child_path d n) = entry_stat n es"
    using assms by (simp add: rr_stat_canonical)
  have dist: "distinct (map de_name es)" using ls by (simp add: lists_def listing_ok_def)
  show ?thesis
  proof (cases "find (\<lambda>e. de_name e = n) es")
    case None
    then have "e \<in> set es \<Longrightarrow> de_name e \<noteq> n" for e by (auto simp: find_None_iff)
    with ls assms(3) have "F (child_path d n) = None \<and> \<not> is_dir F (child_path d n)"
      unfolding lists_def by blast
    with None show ?thesis by (simp add: stat entry_stat_def)
  next
    case (Some e)
    then have e: "e \<in> set es" "de_name e = n" using find_name [OF dist] by auto
    have uniq: "e' = e" if "e' \<in> set es" "de_name e' = n" for e'
      using e that dist by (metis inj_on_def distinct_map)
    show ?thesis
    proof (cases "de_type e")
      case FileEntry
      with ls assms e have "F (child_path d n) \<noteq> None" by (force simp: lists_def)
      moreover from this have "\<not> is_dir F (child_path d n)" using treeD by blast
      ultimately show ?thesis using Some FileEntry by (simp add: stat entry_stat_def)
    next
      case DirEntry
      with ls assms e have "is_dir F (child_path d n)" by (force simp: lists_def)
      moreover from this have "F (child_path d n) = None" using treeD by (cases "F (child_path d n)") auto
      ultimately show ?thesis using Some DirEntry by (simp add: stat entry_stat_def)
    qed
  qed
qed

lemma stat_file: "F p = Some c \<Longrightarrow> \<exists>k. rr_stat h rv p = Inr \<lparr>st_type = FileEntry, st_size = k\<rparr>"
  using treeD [of p c] stat_child [of "parent_of p" "base_of p"]
    is_dir_of_file [OF tree, of p c "parent_of p"] child_path_parent_base [of p]
    inside_parent [of p] parent_of_neq [of p]
  by auto

lemma stat_dir:
  assumes "canonical p" "is_dir F p"
  shows "\<exists>k. rr_stat h rv p = Inr \<lparr>st_type = DirEntry, st_size = k\<rparr>"
  using assms stat_child [of "parent_of p" "base_of p"] is_dir_parent [of p F]
    child_path_parent_base [of p]
  by (cases "p = []") auto

lemma stat_missing:
  assumes "canonical p" "F p = None" "\<not> is_dir F p" and "F (parent_of p) = None"
  shows "rr_stat h rv p = Inl not_found"
proof -
  have "p \<noteq> []" using assms(3) by auto
  with assms stat_child [of "parent_of p" "base_of p"] list_missing [of "parent_of p"]
    child_path_parent_base [of p]
  show ?thesis by (cases "is_dir F (parent_of p)") (auto simp: rr_stat_canonical)
qed

lemma stat_none: 
  assumes "canonical p" "F p = None" "\<not> is_dir F p"
  shows "\<exists>e. rr_stat h rv p = Inl e"
proof (cases "F (parent_of p)")
  case None
  then show ?thesis using stat_missing assms by blast
next
  case (Some c)
  have "p \<noteq> []" using assms(3) by auto
  with Some assms list_file [OF Some] show ?thesis by (auto simp: rr_stat_canonical)
qed

lemma stat_Inr_iff:
  assumes "canonical p"
  shows "(\<exists>s. rr_stat h rv p = Inr s \<and> st_type s = FileEntry) \<longleftrightarrow> F p \<noteq> None"
    and "(\<exists>s. rr_stat h rv p = Inr s \<and> st_type s = DirEntry) \<longleftrightarrow> is_dir F p"
proof -
  consider c where "F p = Some c" "\<not> is_dir F p" | "F p = None" "is_dir F p"
    | "F p = None" "\<not> is_dir F p"
    using treeD by (cases "F p") auto
  then show "(\<exists>s. rr_stat h rv p = Inr s \<and> st_type s = FileEntry) \<longleftrightarrow> F p \<noteq> None"
    and "(\<exists>s. rr_stat h rv p = Inr s \<and> st_type s = DirEntry) \<longleftrightarrow> is_dir F p"
    using stat_file [of p] stat_dir [OF assms] stat_none [OF assms] by (cases; fastforce)+
qed

lemma tryStat_file: "F p = Some c \<Longrightarrow> \<exists>s. rr_tryStat h rv p = Inr (Some s) \<and> st_type s = FileEntry"
  using stat_file [of p c] by (auto simp: rr_tryStat_def or_undefined_def)

lemma tryStat_dir: "canonical p \<Longrightarrow> is_dir F p \<Longrightarrow>
    \<exists>s. rr_tryStat h rv p = Inr (Some s) \<and> st_type s = DirEntry"
  using stat_dir [of p] by (auto simp: rr_tryStat_def or_undefined_def)

lemma tryStat_none: "canonical p \<Longrightarrow> F p = None \<Longrightarrow> \<not> is_dir F p \<Longrightarrow>
    rr_tryStat h rv p = Inr None \<or> (\<exists>e. rr_tryStat h rv p = Inl e)"
proof -
  assume "canonical p" "F p = None" "\<not> is_dir F p"
  then obtain e where "rr_stat h rv p = Inl e" using stat_none by blast
  then show ?thesis by (cases "e = not_found") (simp_all add: rr_tryStat_def or_undefined_def)
qed

lemma tryStat_Inr:
  assumes "canonical p" and "rr_tryStat h rv p = Inr r"
  shows "(\<exists>s. r = Some s \<and> st_type s = FileEntry) \<longleftrightarrow> F p \<noteq> None"
    and "(\<exists>s. r = Some s \<and> st_type s = DirEntry) \<longleftrightarrow> is_dir F p"
    and "r = None \<longleftrightarrow> F p = None \<and> \<not> is_dir F p"
proof -
  consider c where "F p = Some c" "\<not> is_dir F p" | "F p = None" "is_dir F p"
    | "F p = None" "\<not> is_dir F p"
    using treeD by (cases "F p") auto
  then show "(\<exists>s. r = Some s \<and> st_type s = FileEntry) \<longleftrightarrow> F p \<noteq> None"
    and "(\<exists>s. r = Some s \<and> st_type s = DirEntry) \<longleftrightarrow> is_dir F p"
    and "r = None \<longleftrightarrow> F p = None \<and> \<not> is_dir F p"
    using tryStat_file [of p] tryStat_dir [OF assms(1)] tryStat_none [OF assms(1)] assms(2)
    by (cases; fastforce)+
qed

lemma listFilesRecursively_dir:
  assumes "rr_listFilesRecursively h rv d = Inr out" and "canonical d" "is_dir F d"
  shows "set out = {q \<in> dom F. inside q d}"
proof -
  obtain k where "rr_stat h rv d = Inr \<lparr>st_type = DirEntry, st_size = k\<rparr>"
    using stat_dir assms by blast
  with assms obtain n where "walk (rr_readDirectory h rv) is_file_entry d 0 ([], 0) = Inr (out, n)"
    by (auto simp: rr_listFilesRecursively_def pure_form)
  from base.walk_files [OF this assms(2,3)] show ?thesis
    using treeD assms(3) by (auto simp: dom_def)
qed

end

end
