(* ===== verification/WorkingTree.thy ===== *)
theory WorkingTree
  imports ServedRevision
begin

section \<open>The visible working tree\<close>

text \<open>
  The reads of the class \<open>WorkingTree\<close> of \<open>packages/core/src/working-tree/working-tree.ts\<close>, which
  combine the pinned base revision with the overlay, and the traversals of
  \<open>packages/core/src/working-tree/traversal.ts\<close> over them. The abstract view of an overlay over a
  base tree is \<open>visible\<close> (the bytes of the visible files) and \<open>kind_at\<close> (what is at a path); on a
  faithfully served base revision the reads compute exactly this view.
\<close>

record working_tree =
  wt_baseRevision :: revision
  wt_overlay :: overlay

definition wt_hasChanges :: "working_tree \<Rightarrow> bool" where
  "wt_hasChanges wt \<longleftrightarrow> \<not> overlay_isEmpty (wt_overlay wt)"

definition directory_stat :: file_stat where
  "directory_stat = \<lparr>st_type = DirEntry, st_size = 0\<rparr>"

definition wt_stat :: "host \<Rightarrow> revision \<Rightarrow> overlay \<Rightarrow> path \<Rightarrow> file_stat res" where
  "wt_stat h base ov path = andThen (normalizeRepoPath path) (\<lambda>normalized.
     if normalized = [] then Inr directory_stat
     else andThen (overlay_isDeleted normalized ov) (\<lambda>deleted.
       if deleted then Inl not_found
       else andThen (overlay_getFile normalized ov) (\<lambda>overlayFile. case overlayFile of
           Some content \<Rightarrow> Inr \<lparr>st_type = FileEntry, st_size = length content\<rparr>
         | None \<Rightarrow> andThen (overlay_hasDirectory normalized ov) (\<lambda>directory.
             if directory then Inr directory_stat else rr_stat h base normalized))))"

definition wt_readFile :: "host \<Rightarrow> revision \<Rightarrow> overlay \<Rightarrow> path \<Rightarrow> bytes res" where
  "wt_readFile h base ov path = andThen (normalizeRepoPath path) (\<lambda>normalized.
     andThen (overlay_isDeleted normalized ov) (\<lambda>deleted.
       if deleted then Inl not_found
       else andThen (overlay_getFile normalized ov) (\<lambda>overlayFile. case overlayFile of
           Some content \<Rightarrow> Inr content
         | None \<Rightarrow> rr_readFile h base normalized)))"

definition compareDirectoryEntries :: "string comparator \<Rightarrow> directory_entry comparator" where
  "compareDirectoryEntries collate left right =
     (if de_type left \<noteq> de_type right then (if de_type left = DirEntry then -1 else 1)
      else collate (de_name left) (de_name right))"

text \<open>The two loops that fill the map of entries: the base listing, then the overlay children.\<close>

definition base_entries ::
  "overlay \<Rightarrow> directory_entry list \<Rightarrow> (string \<times> directory_entry) list res" where
  "base_entries ov listing = fold_res (\<lambda>entry entries.
     andThen (overlay_isDeleted (de_path entry) ov) (\<lambda>deleted.
       Inr (if deleted then entries else AList.update (de_name entry) entry entries))) listing []"

definition overlay_entries :: "overlay_entry list \<Rightarrow> (string \<times> directory_entry) list \<Rightarrow>
    (string \<times> directory_entry) list res" where
  "overlay_entries children = fold_res (\<lambda>child entries.
     andThen (baseName (oe_path child)) (\<lambda>name.
       Inr (AList.update name \<lparr>de_name = name, de_path = oe_path child, de_type = oe_type child,
         de_size = (if oe_type child = FileEntry then Some (oe_size child) else None)\<rparr> entries)))
     children"

definition wt_readDirectory :: "host \<Rightarrow> revision \<Rightarrow> overlay \<Rightarrow> path \<Rightarrow> directory_entry list res" where
  "wt_readDirectory h base ov path = andThen (normalizeRepoPath path) (\<lambda>normalized.
     andThen (wt_stat h base ov normalized) (\<lambda>stat.
       if st_type stat \<noteq> DirEntry then Inl invalid_request
       else andThen (rr_tryStat h base normalized) (\<lambda>baseStat.
         andThen (case baseStat of
             Some s \<Rightarrow> if st_type s = DirEntry
               then andThen (rr_readDirectory h base normalized) (base_entries ov) else Inr []
           | None \<Rightarrow> Inr []) (\<lambda>entries.
         andThen (overlay_directChildren normalized ov) (\<lambda>children.
         andThen (overlay_entries children entries) (\<lambda>entries'.
           Inr (sort_by (compareDirectoryEntries (rd_collate h)) (map snd entries'))))))))"

definition wt_readBaseFile :: "host \<Rightarrow> revision \<Rightarrow> path \<Rightarrow> bytes res" where
  "wt_readBaseFile h base path = andThen (normalizeRepoPath path) (rr_readFile h base)"

definition wt_statRevision :: "host \<Rightarrow> revision \<Rightarrow> path \<Rightarrow> file_stat res" where
  "wt_statRevision h revision path = andThen (normalizeRepoPath path) (rr_stat h revision)"

definition wt_readRevisionDirectory :: "host \<Rightarrow> revision \<Rightarrow> path \<Rightarrow> directory_entry list res" where
  "wt_readRevisionDirectory h revision path =
     andThen (normalizeRepoPath path) (rr_readDirectory h revision)"

definition wt_readRevisionFile :: "host \<Rightarrow> revision \<Rightarrow> path \<Rightarrow> bytes res" where
  "wt_readRevisionFile h revision path = andThen (normalizeRepoPath path) (rr_readFile h revision)"

subsection \<open>Traversal of the visible tree\<close>

definition listVisibleFiles :: "(path \<Rightarrow> file_stat res) \<Rightarrow> (path \<Rightarrow> directory_entry list res) \<Rightarrow>
    path \<Rightarrow> path list res" where
  "listVisibleFiles stat readDirectory path = andThen (normalizeRepoPath path) (\<lambda>normalized.
     andThen (stat normalized) (\<lambda>s.
       if st_type s = FileEntry then Inr [normalized]
       else andThen (walk readDirectory is_file_entry normalized 0 ([], 0)) (\<lambda>(result, _).
         Inr result)))"

definition is_directory_entry :: "directory_entry \<Rightarrow> bool" where
  "is_directory_entry e \<longleftrightarrow> de_type e = DirEntry"

definition listVisibleDirectories :: "(path \<Rightarrow> directory_entry list res) \<Rightarrow> path \<Rightarrow> path list res" where
  "listVisibleDirectories readDirectory path = andThen (normalizeRepoPath path) (\<lambda>normalized.
     andThen (walk readDirectory is_directory_entry normalized 0 ([], 0)) (\<lambda>(result, _). Inr result))"

subsection \<open>The abstract view\<close>

definition visible :: "tree \<Rightarrow> overlay \<Rightarrow> tree" where
  "visible F ov p = (if deleted_at ov p then None
     else case map_of (ov_files ov) p of Some c \<Rightarrow> Some c | None \<Rightarrow> F p)"

definition kind_at :: "tree \<Rightarrow> overlay \<Rightarrow> path \<Rightarrow> entry_type option" where
  "kind_at F ov p = (if p = [] then Some DirEntry
     else if deleted_at ov p then None
     else if map_of (ov_files ov) p \<noteq> None then Some FileEntry
     else if p \<in> set (ov_directories ov) then Some DirEntry
     else if F p \<noteq> None then Some FileEntry
     else if is_dir F p then Some DirEntry else None)"

text \<open>
  The invariant of an overlay over its base tree: files and directory markers are apart, are not
  below a tombstone and lie in a visible directory; a marker does not sit on a base file nor a file
  on a base directory; and every base file below a tombstone has a tombstone of its own.
\<close>

definition overlay_ok :: "tree \<Rightarrow> overlay \<Rightarrow> bool" where
  "overlay_ok F ov \<longleftrightarrow> overlay_wf ov \<and>
     (\<forall>p \<in> dom (map_of (ov_files ov)). p \<notin> set (ov_directories ov)) \<and>
     (\<forall>p \<in> dom (map_of (ov_files ov)) \<union> set (ov_directories ov).
        \<not> deleted_at ov p \<and> kind_at F ov (parent_of p) = Some DirEntry) \<and>
     (\<forall>p \<in> set (ov_directories ov). F p = None) \<and>
     (\<forall>p \<in> dom (map_of (ov_files ov)). \<not> is_dir F p) \<and>
     (\<forall>t \<in> set (ov_deletedPaths ov). \<forall>q \<in> dom F. same_or_child q t \<longrightarrow> q \<in> set (ov_deletedPaths ov))"

lemma overlay_okD:
  assumes "overlay_ok F ov"
  shows "overlay_wf ov"
    and "map_of (ov_files ov) p = Some c \<Longrightarrow> p \<notin> set (ov_directories ov)"
    and "map_of (ov_files ov) p = Some c \<Longrightarrow> \<not> deleted_at ov p"
    and "p \<in> set (ov_directories ov) \<Longrightarrow> \<not> deleted_at ov p"
    and "map_of (ov_files ov) p = Some c \<Longrightarrow> kind_at F ov (parent_of p) = Some DirEntry"
    and "p \<in> set (ov_directories ov) \<Longrightarrow> kind_at F ov (parent_of p) = Some DirEntry"
    and "p \<in> set (ov_directories ov) \<Longrightarrow> F p = None"
    and "map_of (ov_files ov) p = Some c \<Longrightarrow> \<not> is_dir F p"
    and "t \<in> set (ov_deletedPaths ov) \<Longrightarrow> F q = Some c \<Longrightarrow> same_or_child q t \<Longrightarrow>
           q \<in> set (ov_deletedPaths ov)"
  using assms unfolding overlay_ok_def by blast+

lemma deleted_at_empty [simp]: "\<not> deleted_at empty_overlay p"
  by (simp add: deleted_at_def empty_overlay_def)

lemma visible_empty [simp]: "visible F empty_overlay = F"
  by (rule ext) (simp add: visible_def, simp add: empty_overlay_def)

lemma overlay_ok_empty [simp]: "overlay_ok F empty_overlay"
  by (simp add: overlay_ok_def, simp add: empty_overlay_def)

lemma kind_at_root [simp]: "kind_at F ov [] = Some DirEntry"
  by (simp add: kind_at_def)

lemma kind_at_not_deleted: "kind_at F ov p = Some k \<Longrightarrow> p \<noteq> [] \<Longrightarrow> \<not> deleted_at ov p"
  by (auto simp: kind_at_def split: if_splits)

lemma not_deleted_root: "overlay_wf ov \<Longrightarrow> \<not> deleted_at ov []"
  by (auto simp: deleted_at_def dest: overlay_wfD)

lemma deleted_at_parent:
  assumes "overlay_wf ov" "canonical p" "p \<noteq> []" 
  shows "deleted_at ov p \<longleftrightarrow> p \<in> set (ov_deletedPaths ov) \<or> deleted_at ov (parent_of p)"
  using assms same_or_child_parent [of p] overlay_wfD(4) [OF assms(1)]
  unfolding deleted_at_def by (metis same_or_child_refl)

lemma deleted_at_base_file:
  "overlay_ok F ov \<Longrightarrow> F q = Some c \<Longrightarrow> deleted_at ov q \<longleftrightarrow> q \<in> set (ov_deletedPaths ov)"
  unfolding deleted_at_def using overlay_okD(9) same_or_child_refl by blast

lemma visible_file_kind:
  assumes "overlay_ok F ov" "file_tree F" and "canonical p"
  shows "kind_at F ov p = Some FileEntry \<longleftrightarrow> visible F ov p \<noteq> None"
proof (cases "p = []")
  case True
  have "F [] = None" using assms(2) file_treeD(2) by (cases "F []") auto
  moreover have "map_of (ov_files ov) [] = None"
    using overlay_wfD(2) [OF overlay_okD(1) [OF assms(1)]] by (cases "map_of (ov_files ov) []") auto
  ultimately show ?thesis using True by (simp add: visible_def)
next
  case False
  with assms overlay_okD(7) [OF assms(1), of p] show ?thesis
    by (auto simp: kind_at_def visible_def split: option.splits)
qed

text \<open>The visible tree is connected: what is visible lies in a visible directory.\<close>

lemma kind_at_parent:
  assumes ok: "overlay_ok F ov" and tree: "file_tree F"
    and p: "canonical p" "p \<noteq> []" and some: "kind_at F ov p \<noteq> None"
  shows "kind_at F ov (parent_of p) = Some DirEntry"
proof -
  have live: "\<not> deleted_at ov p" using some p by (auto simp: kind_at_def split: if_splits)
  consider "map_of (ov_files ov) p \<noteq> None \<or> p \<in> set (ov_directories ov)"
    | "F p \<noteq> None \<or> is_dir F p"
    using some p by (auto simp: kind_at_def split: if_splits)
  then show ?thesis
  proof cases
    case 1
    then show ?thesis using overlay_okD(5,6) [OF ok] by blast
  next
    case 2
    let ?d = "parent_of p"
    have dir: "is_dir F ?d"
    proof (cases "F p")
      case (Some c)
      then show ?thesis
        using is_dir_of_file [OF tree Some inside_parent [OF p]] parent_of_neq [OF p] by auto
    next
      case None
      with 2 show ?thesis using is_dir_parent [OF p(1)] by simp
    qed
    have "\<not> deleted_at ov ?d"
      using live deleted_at_parent [OF overlay_okD(1) [OF ok] p] by simp
    moreover have "map_of (ov_files ov) ?d = None"
      using dir overlay_okD(8) [OF ok, of ?d] by (cases "map_of (ov_files ov) ?d") auto
    moreover have "F ?d = None" using dir file_treeD(4) [OF tree] by (cases "F ?d") auto
    ultimately show ?thesis using dir by (simp add: kind_at_def)
  qed
qed

lemma kind_at_ancestor:
  assumes ok: "overlay_ok F ov" and tree: "file_tree F" and d: "canonical d"
  shows "canonical p \<Longrightarrow> kind_at F ov p \<noteq> None \<Longrightarrow> inside p d \<Longrightarrow> p \<noteq> d \<Longrightarrow> kind_at F ov d = Some DirEntry"
proof (induction p rule: canonical_induct)
  case root
  then show ?case by (simp add: inside_def)
next
  case (child e n)
  have p: "canonical (child_path e n)" "child_path e n \<noteq> []" using child by simp_all
  have parent: "kind_at F ov e = Some DirEntry"
    using kind_at_parent [OF ok tree p child.prems(1)] child by simp
  have "inside e d"
    using child.prems(2,3) child.hyps d same_or_child_child_path [of e n d]
    by (auto simp: inside_def)
  then show ?case using child.IH parent by (cases "e = d") auto
qed

lemma nothing_below_file:
  assumes "overlay_ok F ov" "file_tree F" "canonical p" "canonical q"
    and "kind_at F ov p \<noteq> Some DirEntry" and "same_or_child q p" "q \<noteq> p"
  shows "kind_at F ov q = None"
  using kind_at_ancestor [OF assms(1,2,3,4)] assms(5-)
  by (cases "kind_at F ov q") (auto simp: inside_def)

subsection \<open>The reads compute the view\<close>

lemma fold_res_pure [pure_form]:
  "(\<And>x s. x \<in> set xs \<Longrightarrow> f x s = Inr (g x s)) \<Longrightarrow> fold_res f xs s = Inr (fold g xs s)"
  by (induction xs arbitrary: s) auto

lemma map_of_fold_update: "distinct (map key xs) \<Longrightarrow>
    map_of (fold (\<lambda>x m. if keep x then AList.update (key x) (val x) m else m) xs m) k =
      (case find (\<lambda>x. key x = k \<and> keep x) xs of Some x \<Rightarrow> Some (val x) | None \<Rightarrow> map_of m k)"
proof (induction xs arbitrary: m)
  case (Cons x xs)
  have "find (\<lambda>y. key y = k \<and> keep y) xs = None" if "key x = k"
    using Cons.prems that by (auto simp: find_None_iff) (metis imageI)
  with Cons show ?case by (auto split: option.splits)
qed simp

lemma distinct_keys_fold_update: "distinct (keys m) \<Longrightarrow>
    distinct (keys (fold (\<lambda>x m. if keep x then AList.update (key x) (val x) m else m) xs m))"
  by (induction xs arbitrary: m) auto

lemma fold_update_filter:
  "fold (\<lambda>x m. if keep x then AList.update (key x) (val x) m else m) xs m =
     fold (\<lambda>x m. AList.update (key x) (val x) m) (filter keep xs) m"
  by (induction xs arbitrary: m) auto

text \<open>The children of the overlay that are shown in a directory.\<close>

definition shown_children :: "overlay \<Rightarrow> path \<Rightarrow> overlay_entry list" where
  "shown_children ov d =
     map (\<lambda>(p, c). \<lparr>oe_path = p, oe_type = FileEntry, oe_size = length c\<rparr>)
       (filter (\<lambda>(p, c). parent_of p = d \<and> \<not> deleted_at ov p) (ov_files ov)) @
     map (\<lambda>p. \<lparr>oe_path = p, oe_type = DirEntry, oe_size = 0\<rparr>)
       (filter (\<lambda>p. parent_of p = d \<and> \<not> deleted_at ov p) (ov_directories ov))"

lemma visible_child_pure [pure_form]:
  "overlay_wf ov \<Longrightarrow> canonical d \<Longrightarrow> canonical p \<Longrightarrow> p \<noteq> [] \<Longrightarrow>
     visible_child d ov p = Inr (parent_of p = d \<and> \<not> deleted_at ov p)"
  by (simp add: visible_child_def pure_form)

lemma fold_update_fresh:
  "distinct (map key xs) \<Longrightarrow> fst ` set m \<inter> key ` set xs = {} \<Longrightarrow>
     fold (\<lambda>x m. AList.update (key x) (val x) m) xs m = m @ map (\<lambda>x. (key x, val x)) xs"
  by (induction xs arbitrary: m) (auto simp: update_fresh)

lemma directChildren_pure:
  assumes ok: "overlay_ok F ov" and d: "canonical d"
  shows "overlay_directChildren d ov = Inr (shown_children ov d)"
proof -
  let ?keep = "\<lambda>p. parent_of p = d \<and> \<not> deleted_at ov p"
  let ?fe = "\<lambda>p c. \<lparr>oe_path = p, oe_type = FileEntry, oe_size = length (c :: bytes)\<rparr>"
  let ?de = "\<lambda>p. \<lparr>oe_path = p, oe_type = DirEntry, oe_size = 0\<rparr>"
  note wf = overlay_okD(1) [OF ok]
  let ?m = "map (\<lambda>x. (fst x, ?fe (fst x) (snd x))) (filter (\<lambda>x. ?keep (fst x)) (ov_files ov))"
  have "fold_res (\<lambda>(p, c) result. andThen (visible_child d ov p) (\<lambda>b. Inr (if b then
      AList.update p (?fe p c) result else result))) (ov_files ov) []
    = Inr (fold (\<lambda>x m. if ?keep (fst x) then AList.update (fst x) (?fe (fst x) (snd x)) m else m)
        (ov_files ov) [])"
    using wf d by (intro fold_res_pure) (auto simp: pure_form overlay_wfD)
  also have "fold (\<lambda>x m. if ?keep (fst x) then AList.update (fst x) (?fe (fst x) (snd x)) m else m)
        (ov_files ov) [] = [] @ ?m"
    unfolding fold_update_filter using distinct_keys_filter [OF overlay_wfD(7) [OF wf]]
    by (intro fold_update_fresh) auto
  finally have files: "fold_res (\<lambda>(p, c) result. andThen (visible_child d ov p) (\<lambda>b. Inr (if b then
      AList.update p (?fe p c) result else result))) (ov_files ov) [] = Inr ?m" by simp
  have "fold_res (\<lambda>p result. andThen (visible_child d ov p) (\<lambda>b. Inr (if b then
      AList.update p (?de p) result else result))) (ov_directories ov) ?m
    = Inr (fold (\<lambda>x m. if ?keep x then AList.update x (?de x) m else m) (ov_directories ov) ?m)"
    using wf d by (intro fold_res_pure) (auto simp: pure_form overlay_wfD)
  also have "fold (\<lambda>x m. if ?keep x then AList.update x (?de x) m else m) (ov_directories ov) ?m
    = ?m @ map (\<lambda>x. (x, ?de x)) (filter ?keep (ov_directories ov))"
  proof -
    have "p \<notin> set (ov_directories ov)" if "(p, c) \<in> set (ov_files ov)" for p c
      using that overlay_okD(2) [OF ok, of p c] overlay_wfD(7) [OF wf] by simp
    then show ?thesis
      unfolding fold_update_filter using overlay_wfD(8) [OF wf]
      by (intro fold_update_fresh) auto
  qed
  finally show ?thesis using files d
    by (simp add: overlay_directChildren_def shown_children_def pure_form case_prod_beta' comp_def)
qed

lemma shown_children_in:
  assumes ok: "overlay_ok F ov" and d: "canonical d" and c: "c \<in> set (shown_children ov d)"
  shows "\<exists>n. segment n \<and> oe_path c = child_path d n \<and>
    (if oe_type c = FileEntry then map_of (ov_files ov) (oe_path c) \<noteq> None
     else oe_path c \<in> set (ov_directories ov))"
proof -
  note wf = overlay_okD(1) [OF ok]
  from c have "canonical (oe_path c)" "oe_path c \<noteq> []" "parent_of (oe_path c) = d"
    "if oe_type c = FileEntry then map_of (ov_files ov) (oe_path c) \<noteq> None
     else oe_path c \<in> set (ov_directories ov)"
    using overlay_wfD(1,3,7) [OF wf] by (auto simp: shown_children_def)
  then show ?thesis using child_path_parent_base [of "oe_path c"] by metis
qed

lemma find_child:
  assumes ok: "overlay_ok F ov" and d: "canonical d" and n: "segment n"
  shows "map_option oe_type (find (\<lambda>c. base_of (oe_path c) = n) (shown_children ov d)) =
    (if map_of (ov_files ov) (child_path d n) \<noteq> None then Some FileEntry
     else if child_path d n \<in> set (ov_directories ov) then Some DirEntry else None)"
proof (cases "find (\<lambda>c. base_of (oe_path c) = n) (shown_children ov d)")
  case (Some c)
  then have c: "c \<in> set (shown_children ov d)" "base_of (oe_path c) = n"
    by (auto simp: find_Some_iff)
  with shown_children_in [OF ok d c(1)] have "oe_path c = child_path d n"
    "if oe_type c = FileEntry then map_of (ov_files ov) (oe_path c) \<noteq> None
     else oe_path c \<in> set (ov_directories ov)" by auto
  with Some overlay_okD(2) [OF ok] show ?thesis
    by (cases "oe_type c"; cases "map_of (ov_files ov) (child_path d n)") auto
next
  case None
  then have no: "c \<in> set (shown_children ov d) \<Longrightarrow> base_of (oe_path c) \<noteq> n" for c
    by (auto simp: find_None_iff)
  have "map_of (ov_files ov) (child_path d n) = None"
  proof (rule ccontr)
    assume "map_of (ov_files ov) (child_path d n) \<noteq> None"
    then obtain b where b: "map_of (ov_files ov) (child_path d n) = Some b" by blast
    then have "\<lparr>oe_path = child_path d n, oe_type = FileEntry, oe_size = length b\<rparr> \<in> set (shown_children ov d)"
      using n overlay_okD(3) [OF ok b] by (force simp: shown_children_def dest: map_of_SomeD)
    with no n show False by force
  qed
  moreover have "child_path d n \<notin> set (ov_directories ov)"
  proof
    assume "child_path d n \<in> set (ov_directories ov)"
    then have "\<lparr>oe_path = child_path d n, oe_type = DirEntry, oe_size = 0\<rparr> \<in> set (shown_children ov d)"
      using n overlay_okD(4) [OF ok] by (force simp: shown_children_def)
    with no n show False by force
  qed
  ultimately show ?thesis using None by simp
qed

lemma distinct_child_names:
  assumes ok: "overlay_ok F ov" and d: "canonical d"
  shows "distinct (map (\<lambda>c. base_of (oe_path c)) (shown_children ov d))"
proof -
  note wf = overlay_okD(1) [OF ok]
  have "distinct (map oe_path (shown_children ov d))"
    using distinct_keys_filter [OF overlay_wfD(7) [OF wf]] overlay_wfD(7,8) [OF wf] overlay_okD(2) [OF ok]
    by (auto simp: shown_children_def comp_def case_prod_beta')
  moreover have "inj_on base_of (oe_path ` set (shown_children ov d))"
    using shown_children_in [OF ok d] by (intro inj_onI) (metis base_of_child_path imageE)
  ultimately have "distinct (map base_of (map oe_path (shown_children ov d)))"
    unfolding distinct_map [of base_of] by simp
  then show ?thesis by (simp add: comp_def)
qed

lemma base_entries_pure:
  assumes "overlay_wf ov" and "listing_ok d es" "canonical d"
  shows "base_entries ov es = Inr (fold (\<lambda>e m. if \<not> deleted_at ov (de_path e)
    then AList.update (de_name e) e m else m) es [])"
  unfolding base_entries_def using assms listing_ok_path
  by (intro fold_res_pure) (auto simp: pure_form)

definition child_entry :: "overlay_entry \<Rightarrow> directory_entry" where
  "child_entry c = \<lparr>de_name = base_of (oe_path c), de_path = oe_path c, de_type = oe_type c,
     de_size = (if oe_type c = FileEntry then Some (oe_size c) else None)\<rparr>"

lemma overlay_entries_pure:
  assumes "overlay_ok F ov" and "canonical d"
  shows "overlay_entries (shown_children ov d) m = Inr (fold (\<lambda>c m. if True
    then AList.update (base_of (oe_path c)) (child_entry c) m else m) (shown_children ov d) m)"
  unfolding overlay_entries_def using shown_children_in [OF assms] assms(2)
  by (intro fold_res_pure) (fastforce simp: child_entry_def pure_form)

text \<open>
  On a well-formed overlay over a faithfully served base, \<open>stat\<close>, \<open>readFile\<close> and \<open>readDirectory\<close>
  return what the abstract view says, and nothing else.
\<close>

context served_revision
begin

lemma wt_stat_pure:
  assumes "overlay_wf ov" and "canonical p" "p \<noteq> []"
  shows "wt_stat h rv ov p = (if deleted_at ov p then Inl not_found
    else case map_of (ov_files ov) p of Some c \<Rightarrow> Inr \<lparr>st_type = FileEntry, st_size = length c\<rparr>
    | None \<Rightarrow> if p \<in> set (ov_directories ov) then Inr directory_stat else rr_stat h rv p)"
  using assms by (simp add: wt_stat_def pure_form split: option.splits)

lemma wt_stat_root [simp]: "wt_stat h rv ov [] = Inr directory_stat"
  by (simp add: wt_stat_def pure_form)

lemma wt_stat_kind:
  assumes wf: "overlay_wf ov" and p: "canonical p"
  shows "(\<exists>s. wt_stat h rv ov p = Inr s \<and> st_type s = t) \<longleftrightarrow> kind_at F ov p = Some t"
proof (cases "p = []")
  case True
  then show ?thesis by (auto simp: directory_stat_def)
next
  case False
  have base: "(\<exists>s. rr_stat h rv p = Inr s \<and> st_type s = t) \<longleftrightarrow>
      (if t = FileEntry then F p \<noteq> None else is_dir F p)"
    using stat_Inr_iff [OF p] by (cases t) auto
  have excl: "F p \<noteq> None \<Longrightarrow> \<not> is_dir F p" using treeD by blast
  show ?thesis
    using False wt_stat_pure [OF wf p False] base excl
    by (cases t) (auto simp: kind_at_def directory_stat_def split: option.splits)
qed

lemma wt_stat_Inr: "overlay_wf ov \<Longrightarrow> canonical p \<Longrightarrow> wt_stat h rv ov p = Inr s \<Longrightarrow>
    kind_at F ov p = Some (st_type s)"
  using wt_stat_kind by blast

lemma wt_stat_None: "overlay_wf ov \<Longrightarrow> canonical p \<Longrightarrow> wt_stat h rv ov p = Inl e \<Longrightarrow>
    kind_at F ov p = None"
  using wt_stat_kind [of ov p "FileEntry"] wt_stat_kind [of ov p "DirEntry"]
  by (cases "kind_at F ov p"; cases "the (kind_at F ov p)") auto

lemma wt_readFile_pure:
  assumes "overlay_wf ov" and "canonical p"
  shows "wt_readFile h rv ov p = (if deleted_at ov p then Inl not_found
    else case map_of (ov_files ov) p of Some c \<Rightarrow> Inr c | None \<Rightarrow> rr_readFile h rv p)"
  using assms by (simp add: wt_readFile_def pure_form split: option.splits)

lemma wt_readFile_visible:
  assumes "overlay_wf ov" and "canonical p"
  shows "wt_readFile h rv ov p = Inr c \<longleftrightarrow> visible F ov p = Some c"
  using wt_readFile_pure [OF assms] read_file [of p] read_missing [OF assms(2)]
  by (cases "F p") (auto simp: visible_def split: option.splits)

lemma base_tryStat:
  assumes ok: "overlay_ok F ov" and d: "canonical d" and dir: "kind_at F ov d = Some DirEntry"
  shows "\<exists>r. rr_tryStat h rv d = Inr r \<and> ((\<exists>s. r = Some s \<and> st_type s = DirEntry) \<longleftrightarrow> is_dir F d)"
proof (cases "is_dir F d")
  case True
  then show ?thesis using tryStat_dir [OF d] by blast
next
  case False
  then have ne: "d \<noteq> []" by auto
  then have parent: "kind_at F ov (parent_of d) = Some DirEntry"
    using kind_at_parent [OF ok tree d] dir by simp
  have "F (parent_of d) = None"
  proof (rule ccontr)
    assume some: "F (parent_of d) \<noteq> None"
    then have "parent_of d \<noteq> []" using treeD by fastforce
    with parent some overlay_okD(7) [OF ok, of "parent_of d"] show False
      by (auto simp: kind_at_def split: if_splits)
  qed
  moreover have "F d = None"
    using dir ne False overlay_okD(7) [OF ok] by (auto simp: kind_at_def split: if_splits)
  ultimately have "rr_tryStat h rv d = Inr None"
    using stat_missing [OF d _ False] by (simp add: rr_tryStat_def or_undefined_def)
  with False show ?thesis by simp
qed

text \<open>The entries of the map, before sorting.\<close>

definition merged :: "overlay \<Rightarrow> path \<Rightarrow> directory_entry list \<Rightarrow> (string \<times> directory_entry) list" where
  "merged ov d es = fold (\<lambda>c m. if True then AList.update (base_of (oe_path c)) (child_entry c) m else m)
     (shown_children ov d)
     (fold (\<lambda>e m. if \<not> deleted_at ov (de_path e) then AList.update (de_name e) e m else m) es [])"

lemma readDirectory_merged:
  assumes ok: "overlay_ok F ov" and d: "canonical d" and dir: "kind_at F ov d = Some DirEntry"
  shows "\<exists>es. listing_ok d es \<and> (is_dir F d \<longrightarrow> lists (\<lambda>p. F p \<noteq> None) (is_dir F) d es) \<and>
    (\<not> is_dir F d \<longrightarrow> es = []) \<and>
    wt_readDirectory h rv ov d =
      Inr (sort_by (compareDirectoryEntries (rd_collate h)) (map snd (merged ov d es)))"
proof -
  note wf = overlay_okD(1) [OF ok]
  obtain s where s: "wt_stat h rv ov d = Inr s" "st_type s = DirEntry"
    using wt_stat_kind [OF wf d] dir by blast
  obtain r where r: "rr_tryStat h rv d = Inr r"
    and rdir: "(\<exists>s. r = Some s \<and> st_type s = DirEntry) \<longleftrightarrow> is_dir F d"
    using base_tryStat [OF ok d dir] by blast
  have step: "wt_readDirectory h rv ov d =
      Inr (sort_by (compareDirectoryEntries (rd_collate h)) (map snd (merged ov d es)))"
    if "(case r of Some s \<Rightarrow> if st_type s = DirEntry
               then andThen (rr_readDirectory h rv d) (base_entries ov) else Inr []
           | None \<Rightarrow> Inr []) = Inr (fold (\<lambda>e m. if \<not> deleted_at ov (de_path e)
              then AList.update (de_name e) e m else m) es [])" for es
    using that s r d
    by (simp add: wt_readDirectory_def pure_form directChildren_pure [OF ok d]
        overlay_entries_pure [OF ok d] merged_def)
  show ?thesis
  proof (cases "is_dir F d")
    case True
    obtain es where es: "rr_readDirectory h rv d = Inr es"
      and ls: "lists (\<lambda>p. F p \<noteq> None) (is_dir F) d es"
      using list_directory [OF d True] by blast
    then have lok: "listing_ok d es" by (simp add: lists_def)
    with es ls True rdir step [of es] base_entries_pure [OF wf lok d] show ?thesis
      by (intro exI [of _ es]) auto
  next
    case False
    with rdir step [of "[]"] show ?thesis
      by (intro exI [of _ "[]"]) (auto simp: listing_ok_def split: option.splits)
  qed
qed

lemma map_of_merged:
  assumes ok: "overlay_ok F ov" and d: "canonical d" and lok: "listing_ok d es"
  shows "map_of (merged ov d es) n =
    (case find (\<lambda>c. base_of (oe_path c) = n) (shown_children ov d) of
       Some c \<Rightarrow> Some (child_entry c)
     | None \<Rightarrow> find (\<lambda>e. de_name e = n \<and> \<not> deleted_at ov (de_path e)) es)"
proof -
  have "distinct (map de_name es)" using lok by (simp add: listing_ok_def)
  then have base: "map_of (fold (\<lambda>e m. if \<not> deleted_at ov (de_path e)
      then AList.update (de_name e) e m else m) es []) n
    = find (\<lambda>e. de_name e = n \<and> \<not> deleted_at ov (de_path e)) es"
    using map_of_fold_update [of de_name es "\<lambda>e. \<not> deleted_at ov (de_path e)" "\<lambda>e. e" "[]" n]
    by (simp split: option.splits)
  show ?thesis
    unfolding merged_def map_of_fold_update [OF distinct_child_names [OF ok d]] base by simp
qed

lemma merged_entry:
  assumes ok: "overlay_ok F ov" and d: "canonical d" and lok: "listing_ok d es"
    and "map_of (merged ov d es) n = Some e"
  shows "segment n" and "de_name e = n" and "de_path e = child_path d n"
proof -
  consider c where "c \<in> set (shown_children ov d)" "base_of (oe_path c) = n" "e = child_entry c"
    | "e \<in> set es" "de_name e = n"
  proof (cases "find (\<lambda>c. base_of (oe_path c) = n) (shown_children ov d)")
    case None
    with assms(4) map_of_merged [OF ok d lok, of n] have "e \<in> set es" "de_name e = n"
      by (auto simp: find_Some_iff)
    then show thesis by (rule that(2))
  next
    case (Some c)
    then have "c \<in> set (shown_children ov d)" "base_of (oe_path c) = n" by (auto simp: find_Some_iff)
    moreover have "e = child_entry c" using Some assms(4) map_of_merged [OF ok d lok, of n] by simp
    ultimately show thesis by (rule that(1))
  qed
  then have "segment n \<and> de_name e = n \<and> de_path e = child_path d n"
  proof cases
    case 1
    with shown_children_in [OF ok d] show ?thesis by (force simp: child_entry_def)
  next
    case 2
    with listing_okD [OF lok] show ?thesis by auto
  qed
  then show "segment n" "de_name e = n" "de_path e = child_path d n" by blast+
qed

lemma distinct_keys_merged: "distinct (keys (merged ov d es))"
  unfolding merged_def by (intro distinct_keys_fold_update) simp

lemma merged_kind:
  assumes ok: "overlay_ok F ov" and d: "canonical d" and lok: "listing_ok d es" and n: "segment n"
    and base: "is_dir F d \<longrightarrow> lists (\<lambda>p. F p \<noteq> None) (is_dir F) d es" "\<not> is_dir F d \<longrightarrow> es = []"
  shows "map_option de_type (map_of (merged ov d es) n) = kind_at F ov (child_path d n)"
proof (cases "find (\<lambda>c. base_of (oe_path c) = n) (shown_children ov d)")
  case (Some c)
  let ?p = "child_path d n"
  have ne: "?p \<noteq> []" using n by simp
  have "kind_at F ov ?p = Some (oe_type c)"
    using find_child [OF ok d n] Some ne overlay_okD(3,4) [OF ok] by (auto simp: kind_at_def split: if_splits)
  with Some show ?thesis by (simp add: map_of_merged [OF ok d lok] child_entry_def)
next
  case None
  let ?p = "child_path d n"
  have p: "canonical ?p" "?p \<noteq> []" using d n by simp_all
  have none: "map_of (ov_files ov) ?p = None" "?p \<notin> set (ov_directories ov)"
    using find_child [OF ok d n] None by (auto split: if_splits)
  have path: "e \<in> set es \<Longrightarrow> de_name e = n \<Longrightarrow> de_path e = ?p" for e
    using listing_okD [OF lok] by auto
  have dist: "distinct (map de_name es)" using lok by (simp add: listing_ok_def)
  have find: "map_of (merged ov d es) n = (if deleted_at ov ?p then None else find (\<lambda>e. de_name e = n) es)"
  proof (cases "deleted_at ov ?p")
    case True
    with path have "find (\<lambda>e. de_name e = n \<and> \<not> deleted_at ov (de_path e)) es = None"
      by (auto simp: find_None_iff)
    with True None show ?thesis by (simp add: map_of_merged [OF ok d lok])
  next
    case False
    have "find (\<lambda>e. de_name e = n \<and> \<not> deleted_at ov (de_path e)) es = find (\<lambda>e. de_name e = n) es"
      using False path by (intro find_cong) auto
    with False None show ?thesis by (simp add: map_of_merged [OF ok d lok])
  qed
  have kind: "kind_at F ov ?p = (if deleted_at ov ?p then None else if F ?p \<noteq> None then Some FileEntry
      else if is_dir F ?p then Some DirEntry else None)"
    using none p by (simp add: kind_at_def)
  have listed: "map_option de_type (find (\<lambda>e. de_name e = n) es) =
      (if F ?p \<noteq> None then Some FileEntry else if is_dir F ?p then Some DirEntry else None)"
  proof (cases "is_dir F d")
    case False
    then have "\<not> is_dir F ?p" using is_dir_parent [OF p(1)] n by auto
    moreover have "F ?p = None"
      using False is_dir_of_file [OF tree, of ?p _ d] n by (cases "F ?p") auto
    ultimately show ?thesis using False base by simp
  next
    case True
    with base n have isfile: "(\<exists>e \<in> set es. de_name e = n \<and> de_type e = FileEntry) \<longleftrightarrow> F ?p \<noteq> None"
      and isdir: "(\<exists>e \<in> set es. de_name e = n \<and> de_type e = DirEntry) \<longleftrightarrow> is_dir F ?p"
      by (auto simp: lists_def)
    show ?thesis
    proof (cases "find (\<lambda>e. de_name e = n) es")
      case None
      then have "e \<in> set es \<Longrightarrow> de_name e \<noteq> n" for e by (auto simp: find_None_iff)
      with None isfile isdir show ?thesis by auto
    next
      case (Some e)
      then have "e \<in> set es" "de_name e = n" using find_name [OF dist] by auto
      moreover have "F ?p \<noteq> None \<Longrightarrow> \<not> is_dir F ?p" using treeD by blast
      ultimately show ?thesis using Some isfile isdir by (cases "de_type e") auto
    qed
  qed
  show ?thesis using find kind listed by simp
qed

lemma wt_readDirectory_lists:
  assumes ok: "overlay_ok F ov" and d: "canonical d" and dir: "kind_at F ov d = Some DirEntry"
  shows "\<exists>es. wt_readDirectory h rv ov d = Inr es \<and>
    lists (\<lambda>p. kind_at F ov p = Some FileEntry) (\<lambda>p. kind_at F ov p = Some DirEntry) d es"
proof -
  obtain es where lok: "listing_ok d es"
    and base: "is_dir F d \<longrightarrow> lists (\<lambda>p. F p \<noteq> None) (is_dir F) d es" "\<not> is_dir F d \<longrightarrow> es = []"
    and read: "wt_readDirectory h rv ov d =
      Inr (sort_by (compareDirectoryEntries (rd_collate h)) (map snd (merged ov d es)))"
    using readDirectory_merged [OF ok d dir] by blast
  let ?m = "merged ov d es" and ?s = "sort_by (compareDirectoryEntries (rd_collate h))"
  have in_set: "e \<in> set (?s (map snd ?m)) \<longleftrightarrow> (\<exists>n. map_of ?m n = Some e)" for e
    using distinct_keys_merged [of ov d es] by force
  have names: "map de_name (map snd ?m) = keys ?m"
    using merged_entry(2) [OF ok d lok] distinct_keys_merged [of ov d es] by auto
  have "distinct (map de_name (?s (map snd ?m)))"
    by (simp only: distinct_map_sort_by names distinct_keys_merged)
  moreover have "segment (de_name e) \<and> de_path e = child_path d (de_name e)"
    if "e \<in> set (?s (map snd ?m))" for e
  proof -
    from that obtain n where "map_of ?m n = Some e" unfolding in_set by blast
    with merged_entry [OF ok d lok this] show ?thesis by simp
  qed
  ultimately have "listing_ok d (?s (map snd ?m))"
    by (simp add: listing_ok_def list_all_iff)
  moreover have "(\<exists>e \<in> set (?s (map snd ?m)). de_name e = n \<and> de_type e = t) \<longleftrightarrow>
      kind_at F ov (child_path d n) = Some t" if "segment n" for n t
  proof -
    have "(\<exists>e \<in> set (?s (map snd ?m)). de_name e = n \<and> de_type e = t) \<longleftrightarrow>
        (\<exists>e. map_of ?m n = Some e \<and> de_type e = t)"
    proof -
      have name: "de_name e = n'" if "map_of ?m n' = Some e" for n' e
        by (rule merged_entry(2) [OF ok d lok that])
      show ?thesis unfolding Bex_def in_set using name by blast
    qed
    then show ?thesis
      by (simp only: merged_kind [OF ok d lok that base, symmetric] map_option_eq_Some)
  qed
  ultimately show ?thesis using read by (auto simp: lists_def)
qed

lemma view_listed:
  assumes "overlay_ok F ov"
  shows "listed_tree (wt_readDirectory h rv ov)
     (\<lambda>p. kind_at F ov p = Some FileEntry) (\<lambda>p. kind_at F ov p = Some DirEntry)"
proof
  show "\<exists>es. wt_readDirectory h rv ov d = Inr es \<and>
      lists (\<lambda>p. kind_at F ov p = Some FileEntry) (\<lambda>p. kind_at F ov p = Some DirEntry) d es"
    if "canonical d" "kind_at F ov d = Some DirEntry" for d
    using wt_readDirectory_lists [OF assms that] .
  show "kind_at F ov d = Some DirEntry"
    if "kind_at F ov q = Some FileEntry" "canonical q" "canonical d" "inside q d" "q \<noteq> d" for q d
    using kind_at_ancestor [OF assms tree that(3,2) _ that(4,5)] that(1) by simp
qed

text \<open>A recursive listing of a visible directory returns exactly the visible files below it.\<close>

lemma listVisibleFiles_dir:
  assumes ok: "overlay_ok F ov" and d: "canonical d" "kind_at F ov d = Some DirEntry"
    and list: "listVisibleFiles (wt_stat h rv ov) (wt_readDirectory h rv ov) d = Inr out"
  shows "set out = {q. canonical q \<and> inside q d \<and> visible F ov q \<noteq> None}"
proof -
  note wf = overlay_okD(1) [OF ok]
  obtain s where "wt_stat h rv ov d = Inr s" "st_type s = DirEntry"
    using wt_stat_kind [OF wf d(1)] d(2) by blast
  with list d obtain n where "walk (wt_readDirectory h rv ov) is_file_entry d 0 ([], 0) = Inr (out, n)"
    by (auto simp: listVisibleFiles_def pure_form)
  from listed_tree.walk_files [OF view_listed [OF ok] this d] show ?thesis
    using visible_file_kind [OF ok tree] visible_file_kind [OF ok tree d(1)] d by auto
qed

lemma listVisibleDirectories_dir:
  assumes ok: "overlay_ok F ov" and d: "canonical d" "kind_at F ov d = Some DirEntry"
    and list: "listVisibleDirectories (wt_readDirectory h rv ov) d = Inr out" and q: "q \<in> set out"
  shows "kind_at F ov q = Some DirEntry \<and> canonical q \<and> inside q d \<and> q \<noteq> d"
proof -
  from list d obtain n where
    "walk (wt_readDirectory h rv ov) (\<lambda>e. de_type e = DirEntry) d 0 ([], 0) = Inr (out, n)"
    by (auto simp: listVisibleDirectories_def is_directory_entry_def [abs_def] pure_form)
  from listed_tree.walk_dirs [OF view_listed [OF ok] this d q] show ?thesis .
qed

end

end
