(* ===== verification/Mutations.thy ===== *)
theory Mutations
  imports WorkingTree
begin

section \<open>Mutations of the working tree\<close>

text \<open>
  The class \<open>WorkingTreeMutations\<close> of \<open>packages/core/src/working-tree/mutation-service.ts\<close>. An
  operation is a computation on the overlay that may throw half way; \<open>h\<close> and \<open>base\<close> are the
  repository reader and the pinned revision it reads. The serial queue in front of the operations
  is the subject of the theory of the serial executor.
\<close>

fun equalBytes :: "bytes \<Rightarrow> bytes \<Rightarrow> bool" where
  "equalBytes [] [] \<longleftrightarrow> True"
| "equalBytes (x # xs) (y # ys) \<longleftrightarrow> x = y \<and> equalBytes xs ys"
| "equalBytes _ _ \<longleftrightarrow> False"

lemma equalBytes_iff [simp]: "equalBytes xs ys \<longleftrightarrow> xs = ys"
  by (induction xs ys rule: equalBytes.induct) auto

definition requireNonRoot :: "path \<Rightarrow> path res" where
  "requireNonRoot path = andThen (normalizeRepoPath path) (\<lambda>normalized.
     if normalized = [] then Inl invalid_request else Inr normalized)"

definition mu_tryStat :: "host \<Rightarrow> revision \<Rightarrow> overlay \<Rightarrow> path \<Rightarrow> file_stat option res" where
  "mu_tryStat h base ov path = or_undefined (wt_stat h base ov path)"

definition mu_requireDirectory :: "host \<Rightarrow> revision \<Rightarrow> overlay \<Rightarrow> path \<Rightarrow> unit res" where
  "mu_requireDirectory h base ov path = andThen (wt_stat h base ov path) (\<lambda>stat.
     if st_type stat \<noteq> DirEntry then Inl invalid_request else Inr ())"

text \<open>\<open>this.requireDirectory(parentPath(normalized) ?? '')\<close>.\<close>

definition mu_requireParent :: "host \<Rightarrow> revision \<Rightarrow> path \<Rightarrow> overlay \<Rightarrow> unit res" where
  "mu_requireParent h base path ov = andThen (parentPath path) (\<lambda>parent.
     mu_requireDirectory h base ov (case parent of None \<Rightarrow> [] | Some d \<Rightarrow> d))"

text \<open>\<open>tryReadBase\<close>, which \<open>change-set.ts\<close> has in the same words.\<close>

definition tryReadBase :: "host \<Rightarrow> revision \<Rightarrow> path \<Rightarrow> bytes option res" where
  "tryReadBase h base path = andThen (rr_tryStat h base path) (\<lambda>stat. case stat of
       Some s \<Rightarrow> if st_type s = FileEntry
         then andThen (rr_readFile h base path) (\<lambda>content. Inr (Some content)) else Inr None
     | None \<Rightarrow> Inr None)"

definition stat_is :: "entry_type \<Rightarrow> file_stat option \<Rightarrow> bool" where
  "stat_is t stat \<longleftrightarrow> (case stat of None \<Rightarrow> False | Some s \<Rightarrow> st_type s = t)"

definition mu_writeFile ::
  "host \<Rightarrow> revision \<Rightarrow> path \<Rightarrow> bytes \<Rightarrow> bool \<Rightarrow> bool \<Rightarrow> (overlay, unit) st" where
  "mu_writeFile h base path content create overwrite =
     bindS (askS (\<lambda>_. requireNonRoot path)) (\<lambda>normalized.
     bindS (askS (\<lambda>ov. mu_tryStat h base ov normalized)) (\<lambda>current.
       if current = None \<and> \<not> create then throwS not_found
       else if current \<noteq> None \<and> \<not> overwrite then throwS invalid_request
       else if stat_is DirEntry current then throwS invalid_request
       else bindS (askS (mu_requireParent h base normalized)) (\<lambda>_.
         bindS (askS (\<lambda>_. tryReadBase h base normalized)) (\<lambda>baseContent.
           if (case baseContent of None \<Rightarrow> False | Some b \<Rightarrow> equalBytes b content)
           then bindS (modifyS (overlay_removeOverlayPath normalized)) (\<lambda>_.
             modifyS (overlay_unmarkDeleted normalized True))
           else modifyS (overlay_setFile normalized content)))))"

definition mu_createDirectory :: "host \<Rightarrow> revision \<Rightarrow> path \<Rightarrow> (overlay, unit) st" where
  "mu_createDirectory h base path =
     bindS (askS (\<lambda>_. requireNonRoot path)) (\<lambda>normalized.
     bindS (askS (\<lambda>ov. mu_tryStat h base ov normalized)) (\<lambda>current.
       if current \<noteq> None then throwS invalid_request
       else bindS (askS (mu_requireParent h base normalized)) (\<lambda>_.
         modifyS (overlay_setDirectory normalized))))"

definition mu_deleteFileInternal :: "host \<Rightarrow> revision \<Rightarrow> path \<Rightarrow> (overlay, unit) st" where
  "mu_deleteFileInternal h base path =
     bindS (askS (\<lambda>_. normalizeRepoPath path)) (\<lambda>normalized.
     bindS (askS (\<lambda>_. rr_tryStat h base normalized)) (\<lambda>baseStat.
     bindS (modifyS (overlay_removeOverlayPath normalized)) (\<lambda>_.
       if stat_is FileEntry baseStat then modifyS (overlay_markDeleted normalized)
       else modifyS (overlay_unmarkDeleted normalized True))))"

definition mu_deleteInternal :: "host \<Rightarrow> revision \<Rightarrow> path \<Rightarrow> bool \<Rightarrow> (overlay, unit) st" where
  "mu_deleteInternal h base path recursive =
     bindS (askS (\<lambda>ov. wt_stat h base ov path)) (\<lambda>stat.
       if st_type stat = FileEntry then mu_deleteFileInternal h base path
       else bindS (askS (\<lambda>ov. wt_readDirectory h base ov path)) (\<lambda>entries.
         if \<not> recursive \<and> entries \<noteq> [] then throwS invalid_request
         else bindS (askS (\<lambda>ov. listVisibleFiles (wt_stat h base ov) (wt_readDirectory h base ov) path))
             (\<lambda>files.
           bindS (forS files (mu_deleteFileInternal h base)) (\<lambda>_.
           bindS (modifyS (overlay_removeOverlayPath path)) (\<lambda>_.
           bindS (askS (\<lambda>_. rr_tryStat h base path)) (\<lambda>baseStat.
             if stat_is DirEntry baseStat then modifyS (overlay_markDeleted path)
             else returnS ()))))))"

definition mu_delete :: "host \<Rightarrow> revision \<Rightarrow> path \<Rightarrow> bool \<Rightarrow> (overlay, unit) st" where
  "mu_delete h base path recursive =
     bindS (askS (\<lambda>_. requireNonRoot path)) (\<lambda>normalized.
       mu_deleteInternal h base normalized recursive)"

definition mu_renameFile :: "host \<Rightarrow> revision \<Rightarrow> path \<Rightarrow> path \<Rightarrow> (overlay, unit) st" where
  "mu_renameFile h base source target =
     bindS (askS (\<lambda>ov. wt_readFile h base ov source)) (\<lambda>content.
     bindS (mu_deleteFileInternal h base source) (\<lambda>_.
     bindS (modifyS (overlay_setFile target content)) (\<lambda>_.
       modifyS (overlay_addRename source target))))"

text \<open>The path below \<open>target\<close> of a path below \<open>source\<close>: \<open>`${to}${path.slice(from.length)}`\<close>.\<close>

definition moved :: "path \<Rightarrow> path \<Rightarrow> path \<Rightarrow> path" where
  "moved source target path = target @ drop (length source) path"

definition mu_renameDirectory :: "host \<Rightarrow> revision \<Rightarrow> path \<Rightarrow> path \<Rightarrow> (overlay, unit) st" where
  "mu_renameDirectory h base source target =
     bindS (askS (\<lambda>ov. listVisibleFiles (wt_stat h base ov) (wt_readDirectory h base ov) source)) (\<lambda>files.
     bindS (askS (\<lambda>ov. listVisibleDirectories (wt_readDirectory h base ov) source)) (\<lambda>directories.
     bindS (askS (\<lambda>ov. map_res (\<lambda>path. andThen (wt_readFile h base ov path) (\<lambda>content.
         Inr (path, content))) files)) (\<lambda>contents.
     bindS (forS directories (\<lambda>directory.
         modifyS (overlay_setDirectory (moved source target directory)))) (\<lambda>_.
     bindS (modifyS (overlay_setDirectory target)) (\<lambda>_.
     bindS (forS contents (\<lambda>(path, content).
         modifyS (overlay_setFile (moved source target path) content))) (\<lambda>_.
     bindS (mu_deleteInternal h base source True) (\<lambda>_.
       forS files (\<lambda>path. modifyS (overlay_addRename path (moved source target path))))))))))"

text \<open>The part of \<open>rename\<close> after its path checks, then the whole method.\<close>

definition mu_renameChecked :: "host \<Rightarrow> revision \<Rightarrow> path \<Rightarrow> path \<Rightarrow> bool \<Rightarrow> (overlay, unit) st" where
  "mu_renameChecked h base src dst overwrite =
     bindS (askS (\<lambda>ov. wt_stat h base ov src)) (\<lambda>sourceStat.
     bindS (askS (\<lambda>ov. mu_tryStat h base ov dst)) (\<lambda>targetStat.
       if targetStat \<noteq> None \<and> \<not> overwrite then throwS invalid_request
       else bindS (askS (mu_requireParent h base dst)) (\<lambda>_.
         bindS (if targetStat \<noteq> None then mu_deleteInternal h base dst True else returnS ()) (\<lambda>_.
           if st_type sourceStat = FileEntry then mu_renameFile h base src dst
           else mu_renameDirectory h base src dst))))"

definition mu_rename :: "host \<Rightarrow> revision \<Rightarrow> path \<Rightarrow> path \<Rightarrow> bool \<Rightarrow> (overlay, unit) st" where
  "mu_rename h base source target overwrite =
     bindS (askS (\<lambda>_. requireNonRoot source)) (\<lambda>src.
     bindS (askS (\<lambda>_. requireNonRoot target)) (\<lambda>dst.
       if src = dst then returnS ()
       else bindS (askS (\<lambda>_. isSameOrChild dst src)) (\<lambda>nested.
         if nested then throwS invalid_request
         else mu_renameChecked h base src dst overwrite)))"

definition mu_revert :: "path \<Rightarrow> (overlay, unit) st" where
  "mu_revert path =
     bindS (askS (\<lambda>_. normalizeRepoPath path)) (\<lambda>normalized.
     bindS (\<lambda>ov. case overlay_removeRenameTo normalized ov of
         Inl e \<Rightarrow> (Inl e, ov) | Inr (rename, ov') \<Rightarrow> (Inr rename, ov')) (\<lambda>rename.
       case rename of
         Some r \<Rightarrow> bindS (modifyS (overlay_removeOverlayPath (rn_to r))) (\<lambda>_.
           modifyS (overlay_unmarkDeleted (rn_from r) True))
       | None \<Rightarrow> bindS (modifyS (overlay_removeOverlayPath normalized)) (\<lambda>_.
           modifyS (overlay_unmarkDeleted normalized True))))"

definition mu_revertAll :: "(overlay, unit) st" where
  "mu_revertAll = modifyS (\<lambda>ov. Inr (overlay_clear ov))"

end
