(* ===== verification/MutationFacts.thy ===== *)
theory MutationFacts
  imports Mutations
begin

section \<open>What the mutations do to the visible tree\<close>

text \<open>
  Each primitive step of the overlay keeps the invariant and has one effect on the visible tree;
  the effects of the operations follow from these over a faithfully served base revision.
\<close>

subsection \<open>Steps of the overlay\<close>

lemma canonical_above: "canonical q \<Longrightarrow> same_or_child q p \<Longrightarrow> canonical p"
  by (cases "p = []")
    (auto simp: same_or_child_def startsWith_def prefix_def canonical_def split_on_append)

lemma visible_canonical:
  "overlay_wf ov \<Longrightarrow> file_tree F \<Longrightarrow> visible F ov p = Some c \<Longrightarrow> canonical p \<and> p \<noteq> []"
  using overlay_wfD(2) [of ov p] file_treeD(1,2) [of F p]
  by (auto simp: visible_def split: if_splits option.splits)

lemma tombstone_is_self:
  assumes ok: "overlay_ok F ov" and p: "canonical p" "p \<noteq> []"
    and parent: "kind_at F ov (parent_of p) \<noteq> None"
    and t: "t \<in> set (ov_deletedPaths ov)" "same_or_child p t"
  shows "t = p"
proof (rule ccontr)
  assume ne: "t \<noteq> p"
  note wf = overlay_okD(1) [OF ok]
  have "canonical t" "t \<noteq> []" using overlay_wfD(4) [OF wf t(1)] by auto
  with ne t(2) p have "same_or_child (parent_of p) t"
    using same_or_child_parent [of p t] by auto
  with t(1) have "deleted_at ov (parent_of p)" by (auto simp: deleted_at_def)
  with parent not_deleted_root [OF wf] show False by (auto simp: kind_at_def split: if_splits)
qed

text \<open>Dropping the tombstone of one path, when no tombstone is above it.\<close>

lemma undelete:
  assumes ok: "overlay_ok F ov" and above: "\<And>t. t \<in> set (ov_deletedPaths ov) \<Longrightarrow> same_or_child p t \<Longrightarrow> t = p"
    and D: "set (ov_deletedPaths ov') = set (ov_deletedPaths ov) - {p}"
  shows "deleted_at ov' q \<Longrightarrow> deleted_at ov q"
    and "F q = Some c \<Longrightarrow> q \<noteq> p \<Longrightarrow> deleted_at ov' q = deleted_at ov q"
    and "\<not> deleted_at ov' p"
    and "t \<in> set (ov_deletedPaths ov') \<Longrightarrow> F q = Some c \<Longrightarrow> same_or_child q t \<Longrightarrow>
           q \<in> set (ov_deletedPaths ov')"
proof -
  show sub: "deleted_at ov' q \<Longrightarrow> deleted_at ov q" for q
    using D by (auto simp: deleted_at_def)
  show "deleted_at ov' q = deleted_at ov q" if "F q = Some c" "q \<noteq> p"
  proof
    assume "deleted_at ov q"
    with deleted_at_base_file [OF ok that(1)] that(2) D have "q \<in> set (ov_deletedPaths ov')" by simp
    then show "deleted_at ov' q" unfolding deleted_at_def by (rule bexI [rotated]) simp
  qed (rule sub)
  show "\<not> deleted_at ov' p" using D above by (auto simp: deleted_at_def)
  show "q \<in> set (ov_deletedPaths ov')"
    if "t \<in> set (ov_deletedPaths ov')" "F q = Some c" "same_or_child q t"
  proof -
    have "q \<in> set (ov_deletedPaths ov)" using overlay_okD(9) [OF ok _ that(2,3)] that(1) D by simp
    moreover have "q \<noteq> p" using that(1,3) above D by auto
    ultimately show ?thesis using D by simp
  qed
qed

lemma overlay_okI:
  assumes "overlay_wf ov"
    and "\<And>p c. map_of (ov_files ov) p = Some c \<Longrightarrow> p \<notin> set (ov_directories ov)"
    and "\<And>p c. map_of (ov_files ov) p = Some c \<Longrightarrow>
      \<not> deleted_at ov p \<and> kind_at F ov (parent_of p) = Some DirEntry \<and> \<not> is_dir F p"
    and "\<And>p. p \<in> set (ov_directories ov) \<Longrightarrow>
      \<not> deleted_at ov p \<and> kind_at F ov (parent_of p) = Some DirEntry \<and> F p = None"
    and "\<And>t q c. t \<in> set (ov_deletedPaths ov) \<Longrightarrow> F q = Some c \<Longrightarrow> same_or_child q t \<Longrightarrow>
      q \<in> set (ov_deletedPaths ov)"
  shows "overlay_ok F ov"
  unfolding overlay_ok_def using assms by blast

text \<open>A directory of the view stays one when its own state is left alone.\<close>

lemma kind_at_same:
  assumes "kind_at F ov q = Some DirEntry" and "deleted_at ov' q \<Longrightarrow> deleted_at ov q"
    and "map_of (ov_files ov') q = map_of (ov_files ov) q"
    and "q \<in> set (ov_directories ov') \<longleftrightarrow> q \<in> set (ov_directories ov)"
  shows "kind_at F ov' q = Some DirEntry"
  using assms by (auto simp: kind_at_def split: if_splits)

lemma ok_files_none:
  assumes "overlay_ok F ov" and "kind_at F ov p \<noteq> Some FileEntry" and "canonical p"
  shows "map_of (ov_files ov) p = None"
  using assms(2) overlay_okD(3) [OF assms(1)] overlay_wfD(2) [OF overlay_okD(1) [OF assms(1)]]
  by (cases "map_of (ov_files ov) p") (auto simp: kind_at_def split: if_splits)

lemma put_file_effect:
  assumes ok: "overlay_ok F ov" and tree: "file_tree F" and p: "canonical p" "p \<noteq> []"
    and parent: "kind_at F ov (parent_of p) = Some DirEntry"
    and kind: "kind_at F ov p \<noteq> Some DirEntry" and nodir: "\<not> is_dir F p"
  shows "overlay_ok F (put_file p c ov)"
    and "visible F (put_file p c ov) = (visible F ov)(p \<mapsto> c)"
    and "\<And>q. kind_at F ov q = Some DirEntry \<Longrightarrow> kind_at F (put_file p c ov) q = Some DirEntry"
proof -
  let ?ov = "put_file p c ov"
  note wf = overlay_okD(1) [OF ok]
  have above: "t = p" if "t \<in> set (ov_deletedPaths ov)" "same_or_child p t" for t
    using tombstone_is_self [OF ok p _ that] parent by simp
  then have D: "set (ov_deletedPaths ?ov) = set (ov_deletedPaths ov) - {p}" by auto
  note un = undelete [OF ok above D]
  show dirs: "kind_at F ?ov q = Some DirEntry" if "kind_at F ov q = Some DirEntry" for q
    by (rule kind_at_same [OF that un(1)]) (use that kind in auto)
  show "overlay_ok F ?ov"
  proof (rule overlay_okI)
    show "overlay_wf ?ov" using wf p by (simp add: stored_path_def)
    show "q \<notin> set (ov_directories ?ov)" if "map_of (ov_files ?ov) q = Some b" for q b
      using that overlay_okD(2) [OF ok] by (auto split: if_splits)
    show "\<not> deleted_at ?ov q \<and> kind_at F ?ov (parent_of q) = Some DirEntry \<and> \<not> is_dir F q"
      if "map_of (ov_files ?ov) q = Some b" for q b
      using that un(1,3) dirs parent nodir overlay_okD(3,5,8) [OF ok] by (auto split: if_splits)
    show "\<not> deleted_at ?ov q \<and> kind_at F ?ov (parent_of q) = Some DirEntry \<and> F q = None"
      if "q \<in> set (ov_directories ?ov)" for q
      using that un(1) dirs overlay_okD(4,6,7) [OF ok] by auto
  qed (rule un(4))
  show "visible F ?ov = (visible F ov)(p \<mapsto> c)"
  proof
    fix q
    show "visible F ?ov q = ((visible F ov)(p \<mapsto> c)) q"
    proof (cases "q = p \<or> deleted_at ?ov q = deleted_at ov q")
      case True
      then show ?thesis by (auto simp: visible_def)
    next
      case False
      then have "deleted_at ov q" "\<not> deleted_at ?ov q" using un(1) by auto
      moreover from this False have "F q = None" using un(2) [of q] by (cases "F q") auto
      moreover have "map_of (ov_files ov) q = None"
        using \<open>deleted_at ov q\<close> overlay_okD(3) [OF ok] by (cases "map_of (ov_files ov) q") auto
      ultimately show ?thesis using False by (simp add: visible_def)
    qed
  qed
qed

lemma put_directory_effect:
  assumes ok: "overlay_ok F ov" and tree: "file_tree F" and p: "canonical p" "p \<noteq> []"
    and parent: "kind_at F ov (parent_of p) = Some DirEntry"
    and kind: "kind_at F ov p \<noteq> Some FileEntry" and nofile: "F p = None"
  shows "overlay_ok F (put_directory p ov)"
    and "visible F (put_directory p ov) = visible F ov"
    and "\<And>q. kind_at F ov q = Some DirEntry \<or> q = p \<Longrightarrow>
      kind_at F (put_directory p ov) q = Some DirEntry"
proof -
  let ?ov = "put_directory p ov"
  note wf = overlay_okD(1) [OF ok]
  have above: "t = p" if "t \<in> set (ov_deletedPaths ov)" "same_or_child p t" for t
    using tombstone_is_self [OF ok p _ that] parent by simp
  have D: "set (ov_deletedPaths ?ov) = set (ov_deletedPaths ov) - {p}" by simp
  note un = undelete [OF ok above D]
  have none: "map_of (ov_files ov) p = None" by (rule ok_files_none [OF ok kind p(1)])
  then have same: "map_of (ov_files ?ov) = map_of (ov_files ov)" by auto
  show dirs: "kind_at F ?ov q = Some DirEntry" if "kind_at F ov q = Some DirEntry \<or> q = p" for q
  proof (cases "q = p")
    case True
    then show ?thesis using un(3) none p by (simp add: kind_at_def)
  next
    case False
    with that have k: "kind_at F ov q = Some DirEntry" by simp
    show ?thesis by (rule kind_at_same [OF k un(1)]) (use False in simp_all)
  qed
  show "overlay_ok F ?ov"
  proof (rule overlay_okI)
    show "overlay_wf ?ov" using wf p by (simp add: stored_path_def)
    show "q \<notin> set (ov_directories ?ov)" if "map_of (ov_files ?ov) q = Some b" for q b
      using that overlay_okD(2) [OF ok] by (auto split: if_splits)
    show "\<not> deleted_at ?ov q \<and> kind_at F ?ov (parent_of q) = Some DirEntry \<and> \<not> is_dir F q"
      if "map_of (ov_files ?ov) q = Some b" for q b
      using that un(1) dirs overlay_okD(3,5,8) [OF ok] by (auto split: if_splits)
    show "\<not> deleted_at ?ov q \<and> kind_at F ?ov (parent_of q) = Some DirEntry \<and> F q = None"
      if "q \<in> set (ov_directories ?ov)" for q
      using that un(1,3) dirs parent nofile overlay_okD(4,6,7) [OF ok] by auto
  qed (rule un(4))
  show "visible F ?ov = visible F ov"
  proof
    fix q
    show "visible F ?ov q = visible F ov q"
    proof (cases "deleted_at ?ov q = deleted_at ov q")
      case True
      with same show ?thesis by (simp add: visible_def)
    next
      case False
      then have "deleted_at ov q" "\<not> deleted_at ?ov q" using un(1) by auto
      moreover from this have "F q = None" using un(2) [of q] nofile by (cases "F q"; cases "q = p") auto
      moreover have "map_of (ov_files ov) q = None"
        using \<open>deleted_at ov q\<close> overlay_okD(3) [OF ok] by (cases "map_of (ov_files ov) q") auto
      ultimately show ?thesis using same by (simp add: visible_def)
    qed
  qed
qed

text \<open>Nothing of the overlay lies below a path that is not a directory of the view.\<close>

lemma overlay_below:
  assumes ok: "overlay_ok F ov" and tree: "file_tree F" and p: "canonical p" "p \<noteq> []"
    and kind: "kind_at F ov p \<noteq> Some DirEntry" and below: "same_or_child q p" "q \<noteq> p"
  shows "map_of (ov_files ov) q = None" and "q \<notin> set (ov_directories ov)"
    and "kind_at F ov q \<noteq> Some DirEntry" and "visible F ov q = None"
proof -
  note wf = overlay_okD(1) [OF ok]
  have none: "kind_at F ov q = None" if "canonical q"
    using nothing_below_file [OF ok tree p(1) that kind below] .
  have ne: "q \<noteq> []" using below p by auto
  show "map_of (ov_files ov) q = None"
  proof (cases "map_of (ov_files ov) q")
    case (Some c)
    with none overlay_wfD(2) [OF wf Some] overlay_okD(3) [OF ok Some] show ?thesis
      by (auto simp: kind_at_def)
  qed
  then show "q \<notin> set (ov_directories ov)"
    using none overlay_wfD(3) [OF wf] overlay_okD(4) [OF ok] by (fastforce simp: kind_at_def)
  then show "kind_at F ov q \<noteq> Some DirEntry"
  proof -
    have "\<not> is_dir F q" if "\<not> canonical q"
      using that ne canonical_above file_treeD(1) [OF tree] by (auto simp: is_dir_def)
    then show ?thesis
      using none ne \<open>q \<notin> set (ov_directories ov)\<close>
      by (cases "canonical q") (simp_all add: kind_at_def)
  qed
  show "visible F ov q = None"
    using visible_file_kind [OF ok tree, of q] none visible_canonical [OF wf tree, of q]
    by (cases "visible F ov q") auto
qed

lemma deleted_at_insert:
  "set (ov_deletedPaths ov') = insert p (set (ov_deletedPaths ov)) \<Longrightarrow>
     deleted_at ov' q \<longleftrightarrow> same_or_child q p \<or> deleted_at ov q"
  by (auto simp: deleted_at_def)

lemma deleted_at_eq:
  "set (ov_deletedPaths ov') = set (ov_deletedPaths ov) \<Longrightarrow> deleted_at ov' q = deleted_at ov q"
  by (simp add: deleted_at_def)

text \<open>Removing one file: a tombstone for a base file, nothing else for a local one.\<close>

lemma unlink_effect:
  assumes ok: "overlay_ok F ov" and tree: "file_tree F" and p: "canonical p" "p \<noteq> []"
    and kind: "kind_at F ov p \<noteq> Some DirEntry"
    and wf': "overlay_wf ov'"
    and files: "map_of (ov_files ov') = (\<lambda>q. if same_or_child q p then None else map_of (ov_files ov) q)"
    and dirs: "set (ov_directories ov') = {q \<in> set (ov_directories ov). \<not> same_or_child q p}"
    and D: "F p \<noteq> None \<and> set (ov_deletedPaths ov') = insert p (set (ov_deletedPaths ov)) \<or>
      F p = None \<and> \<not> deleted_at ov p \<and> set (ov_deletedPaths ov') = set (ov_deletedPaths ov)"
  shows "overlay_ok F ov'"
    and "visible F ov' = (visible F ov)(p := None)"
    and "\<And>q. kind_at F ov q = Some DirEntry \<Longrightarrow> kind_at F ov' q = Some DirEntry"
    and "\<And>q. deleted_at ov' q \<Longrightarrow> deleted_at ov q \<or> F p \<noteq> None \<and> same_or_child q p"
proof -
  note below = overlay_below [OF ok tree p kind]
  have nodir: "p \<notin> set (ov_directories ov)"
    using kind overlay_okD(4,7) [OF ok, of p] overlay_okD(2) [OF ok, of p] p
    by (auto simp: kind_at_def split: if_splits)
  have files': "map_of (ov_files ov') = (map_of (ov_files ov))(p := None)"
    using below(1) by (auto simp: files fun_eq_iff)
  have dirs': "set (ov_directories ov') = set (ov_directories ov)"
    using below(2) nodir by (auto simp: dirs)
  show del: "deleted_at ov q \<or> F p \<noteq> None \<and> same_or_child q p" if "deleted_at ov' q" for q
    using D that deleted_at_insert [of ov' p ov q] deleted_at_eq [of ov' ov q] by auto
  show kinds: "kind_at F ov' q = Some DirEntry" if k: "kind_at F ov q = Some DirEntry" for q
  proof -
    have "q \<noteq> p" using k kind by auto
    moreover from this have "\<not> same_or_child q p" using below(3) k by blast
    ultimately show ?thesis using del by (intro kind_at_same [OF k]) (auto simp: files' dirs')
  qed
  show "overlay_ok F ov'"
  proof (rule overlay_okI [OF wf'])
    show "q \<notin> set (ov_directories ov')" if "map_of (ov_files ov') q = Some b" for q b
      using that overlay_okD(2) [OF ok] by (auto simp: files' dirs' split: if_splits)
    show "\<not> deleted_at ov' q \<and> kind_at F ov' (parent_of q) = Some DirEntry \<and> \<not> is_dir F q"
      if "map_of (ov_files ov') q = Some b" for q b
      using that del kinds overlay_okD(3,5,8) [OF ok] by (auto simp: files split: if_splits)
    show "\<not> deleted_at ov' q \<and> kind_at F ov' (parent_of q) = Some DirEntry \<and> F q = None"
      if "q \<in> set (ov_directories ov')" for q
      using that del kinds overlay_okD(4,6,7) [OF ok] by (auto simp: dirs)
    show "q \<in> set (ov_deletedPaths ov')"
      if "t \<in> set (ov_deletedPaths ov')" "F q = Some b" "same_or_child q t" for t q b
    proof (cases "t \<in> set (ov_deletedPaths ov)")
      case True
      then show ?thesis using D overlay_okD(9) [OF ok True that(2,3)] by auto
    next
      case False
      with that(1) D have "t = p" "F p \<noteq> None" "p \<in> set (ov_deletedPaths ov')" by auto
      with that(2,3) file_treeD(3) [OF tree, of p _ q b] show ?thesis by auto
    qed
  qed
  show "visible F ov' = (visible F ov)(p := None)"
  proof
    fix q
    show "visible F ov' q = ((visible F ov)(p := None)) q"
    proof (cases "same_or_child q p")
      case True
      show ?thesis
      proof (cases "q = p")
        case True
        then show ?thesis
          using D deleted_at_insert [of ov' p ov p] deleted_at_eq [of ov' ov p]
          by (auto simp: visible_def files)
      next
        case False
        with True below(1,4) [OF True False] del [of q] D deleted_at_insert [of ov' p ov q] deleted_at_eq [of ov' ov q]
        show ?thesis by (auto simp: visible_def files' split: if_splits)
      qed
    next
      case False
      with D deleted_at_insert [of ov' p ov q] deleted_at_eq [of ov' ov q] show ?thesis
        by (auto simp: visible_def files)
    qed
  qed
qed

text \<open>Removing an empty directory, with a tombstone when the base has it.\<close>

lemma rmdir_effect:
  assumes ok: "overlay_ok F ov" and tree: "file_tree F" and p: "canonical p" "p \<noteq> []"
    and empty: "\<And>q. same_or_child q p \<Longrightarrow> visible F ov q = None"
    and wf': "overlay_wf ov'"
    and files: "map_of (ov_files ov') = (\<lambda>q. if same_or_child q p then None else map_of (ov_files ov) q)"
    and dirs: "set (ov_directories ov') = {q \<in> set (ov_directories ov). \<not> same_or_child q p}"
    and D: "set (ov_deletedPaths ov') = insert p (set (ov_deletedPaths ov)) \<or>
      set (ov_deletedPaths ov') = set (ov_deletedPaths ov)"
  shows "overlay_ok F ov'"
    and "visible F ov' = visible F ov"
    and "\<And>q. kind_at F ov q = Some DirEntry \<Longrightarrow> \<not> same_or_child q p \<Longrightarrow>
           kind_at F ov' q = Some DirEntry"
proof -
  have nofile: "map_of (ov_files ov) q = None" if "same_or_child q p" for q
    using empty [OF that] overlay_okD(3) [OF ok] by (cases "map_of (ov_files ov) q") (auto simp: visible_def)
  then have files': "map_of (ov_files ov') = map_of (ov_files ov)" by (auto simp: files fun_eq_iff)
  have del: "deleted_at ov q \<or> same_or_child q p" if "deleted_at ov' q" for q
    using D that deleted_at_insert [of ov' p ov q] deleted_at_eq [of ov' ov q] by auto
  have still: "deleted_at ov' q" if "deleted_at ov q" for q
    using D that deleted_at_insert [of ov' p ov q] deleted_at_eq [of ov' ov q] by auto
  show kinds: "kind_at F ov' q = Some DirEntry" if "kind_at F ov q = Some DirEntry" "\<not> same_or_child q p" for q
    using that del by (intro kind_at_same [OF that(1)]) (auto simp: files' dirs)
  have apart: "\<not> same_or_child (parent_of q) p" if "\<not> same_or_child q p" "canonical q" "q \<noteq> []" for q
    using that same_or_child_parent [of q p] p by auto
  show "overlay_ok F ov'"
  proof (rule overlay_okI [OF wf'])
    show "q \<notin> set (ov_directories ov')" if "map_of (ov_files ov') q = Some b" for q b
      using that overlay_okD(2) [OF ok] by (auto simp: files' dirs)
    show "\<not> deleted_at ov' q \<and> kind_at F ov' (parent_of q) = Some DirEntry \<and> \<not> is_dir F q"
      if "map_of (ov_files ov') q = Some b" for q b
    proof -
      from that have q: "map_of (ov_files ov) q = Some b" "\<not> same_or_child q p"
        by (auto simp: files split: if_splits)
      with overlay_wfD(2) [OF overlay_okD(1) [OF ok] q(1)] show ?thesis
        using del [of q] kinds apart overlay_okD(3,5,8) [OF ok q(1)] by blast
    qed
    show "\<not> deleted_at ov' q \<and> kind_at F ov' (parent_of q) = Some DirEntry \<and> F q = None"
      if "q \<in> set (ov_directories ov')" for q
      using that del kinds apart overlay_okD(4,6,7) [OF ok] overlay_wfD(3) [OF overlay_okD(1) [OF ok]]
      by (auto simp: dirs)
    show "q \<in> set (ov_deletedPaths ov')"
      if "t \<in> set (ov_deletedPaths ov')" "F q = Some b" "same_or_child q t" for t q b
    proof (cases "t \<in> set (ov_deletedPaths ov)")
      case True
      then show ?thesis using D overlay_okD(9) [OF ok True that(2,3)] by auto
    next
      case False
      with that(1,3) D have below: "same_or_child q p" by auto
      with empty [OF below] that(2) nofile [OF below] have "deleted_at ov q" by (auto simp: visible_def split: if_splits)
      then show ?thesis using D deleted_at_base_file [OF ok that(2)] by auto
    qed
  qed
  show "visible F ov' = visible F ov"
  proof
    fix q
    show "visible F ov' q = visible F ov q"
    proof (cases "same_or_child q p")
      case True
      with empty [OF True] nofile [OF True] still [of q] show ?thesis
        by (auto simp: visible_def files' split: if_splits)
    next
      case False
      with del [of q] still [of q] show ?thesis by (auto simp: visible_def files')
    qed
  qed
qed

subsection \<open>The operations\<close>

lemma remove_first_none: "(\<And>x. x \<in> set xs \<Longrightarrow> \<not> P x) \<Longrightarrow> remove_first P xs = xs"
  by (induction xs) auto

lemma requireNonRoot_Inr: "requireNonRoot path = Inr p \<Longrightarrow> canonical p \<and> p \<noteq> []"
  by (auto simp: requireNonRoot_def dest: normalize_result split: if_splits)

lemma requireNonRoot_canonical [pure_form]:
  "canonical p \<Longrightarrow> p \<noteq> [] \<Longrightarrow> requireNonRoot p = Inr p"
  by (simp add: requireNonRoot_def pure_form)

lemma or_undefined_Inr:
  "or_undefined r = Inr (Some x) \<longleftrightarrow> r = Inr x"
  "or_undefined r = Inr None \<longleftrightarrow> r = Inl not_found"
  by (auto simp: or_undefined_def split: sum.splits if_splits)

lemma stat_is_iff: "stat_is t r \<longleftrightarrow> (\<exists>s. r = Some s \<and> st_type s = t)"
  by (auto simp: stat_is_def split: option.splits)

context served_revision
begin

lemma mu_tryStat_Inr:
  assumes "overlay_wf ov" "canonical p" and "mu_tryStat h rv ov p = Inr r"
  shows "stat_is t r \<longleftrightarrow> kind_at F ov p = Some t" and "r = None \<longleftrightarrow> kind_at F ov p = None"
proof -
  have "(r = None \<and> wt_stat h rv ov p = Inl not_found) \<or> (\<exists>s. r = Some s \<and> wt_stat h rv ov p = Inr s)"
    using assms(3) unfolding mu_tryStat_def by (cases r) (simp_all add: or_undefined_Inr)
  then show "stat_is t r \<longleftrightarrow> kind_at F ov p = Some t" "r = None \<longleftrightarrow> kind_at F ov p = None"
    using wt_stat_Inr [OF assms(1,2)] wt_stat_None [OF assms(1,2)] by (auto simp: stat_is_iff)
qed

lemma mu_requireParent_Inr:
  assumes "overlay_wf ov" "canonical p" "p \<noteq> []" and "mu_requireParent h rv p ov = Inr u"
  shows "kind_at F ov (parent_of p) = Some DirEntry"
  using assms wt_stat_Inr [OF assms(1), of "parent_of p"]
  by (auto simp: mu_requireParent_def mu_requireDirectory_def pure_form split: if_splits)

lemma mu_requireParent_dir:
  assumes "overlay_wf ov" "canonical p" "p \<noteq> []" "kind_at F ov (parent_of p) = Some DirEntry"
  shows "mu_requireParent h rv p ov = Inr ()"
  using assms wt_stat_kind [OF assms(1), of "parent_of p"]
  by (auto simp: mu_requireParent_def mu_requireDirectory_def pure_form)

lemma tryReadBase_Inr:
  assumes "canonical p" "tryReadBase h rv p = Inr r" shows "r = F p"
proof -
  from assms(2) obtain s where s: "rr_tryStat h rv p = Inr s"
    by (auto simp: tryReadBase_def)
  show ?thesis
  proof (cases "F p")
    case (Some c)
    then obtain st where "s = Some st" "st_type st = FileEntry"
      using tryStat_file [OF Some] s by auto
    with s assms(2) read_file [OF Some] Some show ?thesis by (simp add: tryReadBase_def)
  next
    case None
    then have "\<not> (\<exists>st. s = Some st \<and> st_type st = FileEntry)"
      using tryStat_Inr(1) [OF assms(1) s] by simp
    with s assms(2) None show ?thesis
      by (auto simp: tryReadBase_def split: option.splits if_splits)
  qed
qed

text \<open>
  \<open>writeFile\<close>: when it succeeds the view has the new content at the path and is unchanged
  everywhere else. The path must not be a directory of the base revision.
\<close>

lemma writeFile_effect:
  assumes ok: "overlay_ok F ov" and norm: "normalizeRepoPath path = Inr p" and nodir: "\<not> is_dir F p"
    and run: "mu_writeFile h rv path content create overwrite ov = (Inr u, ov')"
  shows "overlay_ok F ov'" and "visible F ov' = (visible F ov)(p \<mapsto> content)"
    and "kind_at F ov q = Some DirEntry \<Longrightarrow> kind_at F ov' q = Some DirEntry"
proof -
  note wf = overlay_okD(1) [OF ok]
  from run norm obtain cur b where req: "requireNonRoot path = Inr p"
    and cur: "mu_tryStat h rv ov p = Inr cur" and nd: "\<not> stat_is DirEntry cur"
    and par: "mu_requireParent h rv p ov = Inr ()" and base: "tryReadBase h rv p = Inr b"
    and step: "(if (case b of None \<Rightarrow> False | Some b \<Rightarrow> equalBytes b content)
           then bindS (modifyS (overlay_removeOverlayPath p)) (\<lambda>_. modifyS (overlay_unmarkDeleted p True))
           else modifyS (overlay_setFile p content)) ov = (Inr u, ov')"
    by (auto simp: mu_writeFile_def st_Inr_iffs requireNonRoot_def split: if_splits)
  have p: "canonical p" "p \<noteq> []" using requireNonRoot_Inr [OF req] by auto
  have kind: "kind_at F ov p \<noteq> Some DirEntry" using mu_tryStat_Inr(1) [OF wf p(1) cur] nd by blast
  have parent: "kind_at F ov (parent_of p) = Some DirEntry" by (rule mu_requireParent_Inr [OF wf p par])
  have b: "b = F p" by (rule tryReadBase_Inr [OF p(1) base])
  have goal: "overlay_ok F ov' \<and> visible F ov' = (visible F ov)(p \<mapsto> content) \<and>
    (\<forall>q. kind_at F ov q = Some DirEntry \<longrightarrow> kind_at F ov' q = Some DirEntry)"
  proof (cases "F p = Some content")
    case False
    with step b have "ov' = put_file p content ov"
      using wf p by (auto simp: modifyS_Inr_iff pure_form split: option.splits if_splits)
    with put_file_effect [OF ok tree p parent kind nodir] show ?thesis by blast
  next
    case True
    with step b wf p have ov': "ov' = revive p (prune p ov)"
      by (auto simp: st_Inr_iffs pure_form)
    note below = overlay_below [OF ok tree p kind]
    have nodir': "p \<notin> set (ov_directories ov)" using overlay_okD(7) [OF ok] True by auto
    have files: "map_of (ov_files ov') = (map_of (ov_files ov))(p := None)"
      using below(1) by (auto simp: ov' fun_eq_iff)
    have dirs: "set (ov_directories ov') = set (ov_directories ov)"
      using below(2) nodir' by (auto simp: ov')
    have above: "t = p" if "t \<in> set (ov_deletedPaths ov)" "same_or_child p t" for t
      using tombstone_is_self [OF ok p _ that] parent by simp
    then have D: "set (ov_deletedPaths ov') = set (ov_deletedPaths ov) - {p}" by (auto simp: ov')
    note un = undelete [OF ok above D]
    have kinds: "kind_at F ov' q = Some DirEntry" if "kind_at F ov q = Some DirEntry" for q
      by (rule kind_at_same [OF that un(1)]) (use that kind in \<open>auto simp: files dirs\<close>)
    have "overlay_ok F ov'"
    proof (rule overlay_okI)
      show "overlay_wf ov'" using wf by (simp add: ov')
      show "q \<notin> set (ov_directories ov')" if "map_of (ov_files ov') q = Some b" for q b
        using that overlay_okD(2) [OF ok] by (auto simp: files dirs split: if_splits)
      show "\<not> deleted_at ov' q \<and> kind_at F ov' (parent_of q) = Some DirEntry \<and> \<not> is_dir F q"
        if "map_of (ov_files ov') q = Some b" for q b
        using that un(1) kinds overlay_okD(3,5,8) [OF ok] by (auto simp: files split: if_splits)
      show "\<not> deleted_at ov' q \<and> kind_at F ov' (parent_of q) = Some DirEntry \<and> F q = None"
        if "q \<in> set (ov_directories ov')" for q
        using that un(1) kinds overlay_okD(4,6,7) [OF ok] by (auto simp: dirs)
    qed (rule un(4))
    moreover have "visible F ov' = (visible F ov)(p \<mapsto> content)"
    proof
      fix q
      show "visible F ov' q = ((visible F ov)(p \<mapsto> content)) q"
      proof (cases "q = p")
        case True
        then show ?thesis using un(3) \<open>F p = Some content\<close> by (simp add: visible_def files)
      next
        case False
        show ?thesis
        proof (cases "deleted_at ov q")
          case True
          then have "map_of (ov_files ov) q = None"
            using overlay_okD(3) [OF ok] by (cases "map_of (ov_files ov) q") auto
          with True False un(2) [of q] show ?thesis
            by (cases "F q") (auto simp: visible_def files)
        next
          case live: False
          with False un(1) [of q] show ?thesis by (auto simp: visible_def files)
        qed
      qed
    qed
    ultimately show ?thesis using kinds by blast
  qed
  then show "overlay_ok F ov'" "visible F ov' = (visible F ov)(p \<mapsto> content)"
    "kind_at F ov q = Some DirEntry \<Longrightarrow> kind_at F ov' q = Some DirEntry" by blast+
qed

lemma createDirectory_effect:
  assumes ok: "overlay_ok F ov" and norm: "normalizeRepoPath path = Inr p" and nofile: "F p = None"
    and run: "mu_createDirectory h rv path ov = (Inr u, ov')"
  shows "overlay_ok F ov'" and "visible F ov' = visible F ov" and "kind_at F ov' p = Some DirEntry"
    and "kind_at F ov p = None"
proof -
  note wf = overlay_okD(1) [OF ok]
  from run norm have req: "requireNonRoot path = Inr p" and cur: "mu_tryStat h rv ov p = Inr None"
    and par: "mu_requireParent h rv p ov = Inr ()" and step: "overlay_setDirectory p ov = Inr ov'"
    by (auto simp: mu_createDirectory_def st_Inr_iffs requireNonRoot_def split: if_splits)
  have p: "canonical p" "p \<noteq> []" using requireNonRoot_Inr [OF req] by auto
  show kind: "kind_at F ov p = None" using mu_tryStat_Inr(2) [OF wf p(1) cur] by simp
  have parent: "kind_at F ov (parent_of p) = Some DirEntry" by (rule mu_requireParent_Inr [OF wf p par])
  have "ov' = put_directory p ov" using step p by (simp add: pure_form)
  with put_directory_effect [OF ok tree p parent _ nofile] kind
  show "overlay_ok F ov'" "visible F ov' = visible F ov" "kind_at F ov' p = Some DirEntry" by auto
qed

text \<open>\<open>deleteFileInternal\<close> at a path that is no visible directory removes it from the view.\<close>

lemma deleteFile_effect:
  assumes ok: "overlay_ok F ov" and p: "canonical p" "p \<noteq> []"
    and kind: "kind_at F ov p \<noteq> Some DirEntry" and live: "F p \<noteq> None \<or> \<not> deleted_at ov p"
    and run: "mu_deleteFileInternal h rv p ov = (Inr u, ov')"
  shows "overlay_ok F ov'"
    and "visible F ov' = (visible F ov)(p := None)"
    and "\<And>q. kind_at F ov q = Some DirEntry \<Longrightarrow> kind_at F ov' q = Some DirEntry"
    and "\<And>q. deleted_at ov' q \<Longrightarrow> deleted_at ov q \<or> F p \<noteq> None \<and> same_or_child q p"
    and "set (ov_directories ov') \<subseteq> set (ov_directories ov)"
proof -
  note wf = overlay_okD(1) [OF ok]
  from run p obtain s where s: "rr_tryStat h rv p = Inr s"
    and step: "(if stat_is FileEntry s then modifyS (overlay_markDeleted p)
       else modifyS (overlay_unmarkDeleted p True)) (prune p ov) = (Inr u, ov')"
    using wf by (auto simp: mu_deleteFileInternal_def st_Inr_iffs pure_form)
  have file_iff: "stat_is FileEntry s \<longleftrightarrow> F p \<noteq> None"
    using tryStat_Inr(1) [OF p(1) s] by (simp add: stat_is_iff)
  have "overlay_wf ov' \<and>
    map_of (ov_files ov') = (\<lambda>q. if same_or_child q p then None else map_of (ov_files ov) q) \<and>
    set (ov_directories ov') = {q \<in> set (ov_directories ov). \<not> same_or_child q p} \<and>
    (F p \<noteq> None \<and> set (ov_deletedPaths ov') = insert p (set (ov_deletedPaths ov)) \<or>
      F p = None \<and> \<not> deleted_at ov p \<and> set (ov_deletedPaths ov') = set (ov_deletedPaths ov))"
  proof (cases "F p = None")
    case False
    then have "ov' = entomb p (prune p ov)"
      using step file_iff wf p by (simp add: modifyS_Inr_iff pure_form)
    with False wf p show ?thesis by (auto simp: stored_path_def fun_eq_iff)
  next
    case True
    then have "ov' = revive p (prune p ov)"
      using step file_iff wf p by (simp add: modifyS_Inr_iff pure_form)
    moreover have "\<not> deleted_at ov p" using live True by simp
    ultimately show ?thesis using True wf by (auto simp: deleted_at_def)
  qed
  then have facts: "overlay_wf ov'"
    "map_of (ov_files ov') = (\<lambda>q. if same_or_child q p then None else map_of (ov_files ov) q)"
    "set (ov_directories ov') = {q \<in> set (ov_directories ov). \<not> same_or_child q p}"
    "F p \<noteq> None \<and> set (ov_deletedPaths ov') = insert p (set (ov_deletedPaths ov)) \<or>
      F p = None \<and> \<not> deleted_at ov p \<and> set (ov_deletedPaths ov') = set (ov_deletedPaths ov)"
    by blast+
  note eff = unlink_effect [OF ok tree p kind facts]
  show "set (ov_directories ov') \<subseteq> set (ov_directories ov)" using facts(3) by auto
  show "overlay_ok F ov'" "visible F ov' = (visible F ov)(p := None)" by (fact eff)+
  show "\<And>q. kind_at F ov q = Some DirEntry \<Longrightarrow> kind_at F ov' q = Some DirEntry" by (fact eff(3))
  show "\<And>q. deleted_at ov' q \<Longrightarrow> deleted_at ov q \<or> F p \<noteq> None \<and> same_or_child q p" by (fact eff(4))
qed

text \<open>The loop of \<open>deleteInternal\<close> over the visible files of a directory.\<close>

definition plain_files :: "path set \<Rightarrow> bool" where
  "plain_files A \<longleftrightarrow> (\<forall>q \<in> A. canonical q \<and> q \<noteq> [] \<and> \<not> is_dir F q) \<and>
     (\<forall>q \<in> A. \<forall>r \<in> A. same_or_child q r \<longrightarrow> q = r)"

definition unlinked :: "overlay \<Rightarrow> path set \<Rightarrow> path list \<Rightarrow> overlay \<Rightarrow> bool" where
  "unlinked ov0 A rest ov \<longleftrightarrow> overlay_ok F ov \<and> set rest \<subseteq> A \<and>
     (\<forall>q \<in> set rest. F q \<noteq> None \<or> \<not> deleted_at ov q) \<and>
     (\<forall>q. visible F ov q = visible F ov0 q \<or> visible F ov q = None \<and> q \<in> A) \<and>
     (\<forall>q \<in> A. q \<in> set rest \<or> visible F ov q = None) \<and>
     (\<forall>q. kind_at F ov0 q = Some DirEntry \<longrightarrow> kind_at F ov q = Some DirEntry) \<and>
     (\<forall>q \<in> A. q \<notin> set (ov_directories ov))"

lemma unlinked_start:
  assumes ok: "overlay_ok F ov" and vis: "\<And>q. q \<in> set files \<Longrightarrow> visible F ov q \<noteq> None"
  shows "plain_files (set files)" and "unlinked ov (set files) files ov"
proof -
  note wf = overlay_okD(1) [OF ok]
  have can: "canonical q" "q \<noteq> []" if "q \<in> set files" for q
    using vis [OF that] visible_canonical [OF wf tree] by blast+
  have kind: "kind_at F ov q = Some FileEntry" if "q \<in> set files" for q
    using visible_file_kind [OF ok tree can(1) [OF that]] vis [OF that] by simp
  have "\<not> is_dir F q" "q \<notin> set (ov_directories ov)" if "q \<in> set files" for q
    using kind [OF that] can [OF that] overlay_okD(2,7,8) [OF ok, of q] treeD [of q]
    by (auto simp: kind_at_def split: if_splits)
  moreover have "q = r" if "q \<in> set files" "r \<in> set files" "same_or_child q r" for q r
    using nothing_below_file [OF ok tree can(1) can(1), of r q] kind that by auto
  ultimately show "plain_files (set files)" using can by (auto simp: plain_files_def)
  have "\<not> deleted_at ov q" if "q \<in> set files" for q
    using kind_at_not_deleted [OF kind [OF that]] can(2) [OF that] by simp
  with ok \<open>\<And>q. q \<in> set files \<Longrightarrow> q \<notin> set (ov_directories ov)\<close>
  show "unlinked ov (set files) files ov" by (auto simp: unlinked_def)
qed

lemma unlinked_step:
  assumes A: "plain_files A" and inv: "unlinked ov0 A (p # rest) ov"
    and run: "mu_deleteFileInternal h rv p ov = (Inr (), ov')"
  shows "unlinked ov0 A rest ov'"
proof -
  from inv have ok: "overlay_ok F ov" and sub: "insert p (set rest) \<subseteq> A"
    and live: "\<forall>q \<in> insert p (set rest). F q \<noteq> None \<or> \<not> deleted_at ov q"
    and vis: "\<forall>q. visible F ov q = visible F ov0 q \<or> visible F ov q = None \<and> q \<in> A"
    and gone: "\<forall>q \<in> A. q \<in> insert p (set rest) \<or> visible F ov q = None"
    and kinds: "\<forall>q. kind_at F ov0 q = Some DirEntry \<longrightarrow> kind_at F ov q = Some DirEntry"
    and dirs: "\<forall>q \<in> A. q \<notin> set (ov_directories ov)"
    by (simp_all add: unlinked_def)
  from A sub have p: "canonical p" "p \<noteq> []" "\<not> is_dir F p" by (auto simp: plain_files_def)
  have "p \<notin> set (ov_directories ov)" using dirs sub by blast
  with p have kind: "kind_at F ov p \<noteq> Some DirEntry" by (auto simp: kind_at_def split: if_splits)
  have "F p \<noteq> None \<or> \<not> deleted_at ov p" using live by simp
  note eff = deleteFile_effect [OF ok p(1,2) kind this run]
  have "F q \<noteq> None \<or> \<not> deleted_at ov' q" if "q \<in> set rest" for q
  proof (rule ccontr)
    assume no: "\<not> ?thesis"
    with live that have "\<not> deleted_at ov q" by auto
    with no eff(4) [of q] have "F p \<noteq> None" "same_or_child q p" by auto
    moreover from this A sub that have "q = p" by (auto simp: plain_files_def)
    ultimately show False using no by simp
  qed
  then show ?thesis
    unfolding unlinked_def using eff(1,2,3,5) vis gone kinds dirs sub by auto
qed

lemma unlinked_loop:
  assumes A: "plain_files A" and "unlinked ov0 A files ov"
    and "forS files (mu_deleteFileInternal h rv) ov = (Inr u, ov')"
  shows "unlinked ov0 A [] ov'"
  using assms(3,2) by (rule forS_Inr_induct) (rule unlinked_step [OF A])

text \<open>
  \<open>deleteInternal\<close>: a deletion that succeeds removes the path and everything below it from the
  view, and nothing else; without \<open>recursive\<close> there was nothing below it.
\<close>

lemma deleteInternal_effect:
  assumes ok: "overlay_ok F ov" and p: "canonical p" "p \<noteq> []"
    and run: "mu_deleteInternal h rv p recursive ov = (Inr u, ov')"
  shows "overlay_ok F ov'"
    and "visible F ov' = (\<lambda>q. if same_or_child q p then None else visible F ov q)"
    and "kind_at F ov p \<noteq> None"
    and "\<And>q. kind_at F ov q = Some DirEntry \<Longrightarrow> \<not> same_or_child q p \<Longrightarrow>
           kind_at F ov' q = Some DirEntry"
    and "kind_at F ov' p = None"
proof -
  note wf = overlay_okD(1) [OF ok]
  from run obtain s where s: "wt_stat h rv ov p = Inr s"
    by (auto simp: mu_deleteInternal_def st_Inr_iffs)
  have kind: "kind_at F ov p = Some (st_type s)" using wt_stat_Inr [OF wf p(1) s] .
  then show "kind_at F ov p \<noteq> None" by simp
  have main: "overlay_ok F ov' \<and> visible F ov' = (\<lambda>q. if same_or_child q p then None else visible F ov q) \<and>
    (\<forall>q. kind_at F ov q = Some DirEntry \<longrightarrow> \<not> same_or_child q p \<longrightarrow> kind_at F ov' q = Some DirEntry) \<and>
    kind_at F ov' p \<noteq> Some DirEntry"
  proof (cases "st_type s")
    case FileEntry
    with run s have del: "mu_deleteFileInternal h rv p ov = (Inr u, ov')"
      by (simp add: mu_deleteInternal_def st_Inr_iffs)
    have nd: "kind_at F ov p \<noteq> Some DirEntry" using kind FileEntry by simp
    have "F p \<noteq> None \<or> \<not> deleted_at ov p" using kind_at_not_deleted [OF kind p(2)] by simp
    note eff = deleteFile_effect [OF ok p nd this del]
    moreover have "visible F ov' = (\<lambda>q. if same_or_child q p then None else visible F ov q)"
      using eff(2) overlay_below(4) [OF ok tree p nd] by (auto simp: fun_eq_iff)
    moreover have "kind_at F ov' p \<noteq> Some DirEntry"
    proof -
      have "\<not> is_dir F p \<and> p \<notin> set (ov_directories ov)"
        using kind FileEntry p treeD [of p] overlay_okD(2,8) [OF ok, of p]
        by (auto simp: kind_at_def split: if_splits)
      with eff(5) p show ?thesis by (auto simp: kind_at_def split: if_splits)
    qed
    ultimately show ?thesis by blast
  next
    case DirEntry
    with run s obtain files ov1 b where
      list: "listVisibleFiles (wt_stat h rv ov) (wt_readDirectory h rv ov) p = Inr files"
      and loop: "forS files (mu_deleteFileInternal h rv) ov = (Inr (), ov1)"
      and b: "rr_tryStat h rv p = Inr b"
      and step: "bindS (modifyS (overlay_removeOverlayPath p)) (\<lambda>_.
          if stat_is DirEntry b then modifyS (overlay_markDeleted p) else returnS ()) ov1 = (Inr u, ov')"
      by (auto simp: mu_deleteInternal_def st_Inr_iffs split: if_splits)
    have kd: "kind_at F ov p = Some DirEntry" using kind DirEntry by simp
    have files: "set files = {q. canonical q \<and> inside q p \<and> visible F ov q \<noteq> None}"
      by (rule listVisibleFiles_dir [OF ok p(1) kd list])
    have un: "unlinked ov (set files) [] ov1"
      using unlinked_start [OF ok, of files] files
      by (intro unlinked_loop [OF _ _ loop]) auto
    from un have ok1: "overlay_ok F ov1" by (simp add: unlinked_def)
    note wf1 = overlay_okD(1) [OF ok1]
    have empty: "visible F ov1 q = None" if "same_or_child q p" for q
    proof (cases "q \<in> set files")
      case True
      with un show ?thesis by (simp add: unlinked_def)
    next
      case False
      with files that p visible_canonical [OF wf tree, of q] have "visible F ov q = None"
        by (cases "visible F ov q") (auto simp: inside_def)
      with un False show ?thesis unfolding unlinked_def by metis
    qed
    have rest: "visible F ov1 q = visible F ov q" if "\<not> same_or_child q p" for q
      using un files that p unfolding unlinked_def inside_def by blast
    have "overlay_wf ov' \<and>
      map_of (ov_files ov') = (\<lambda>q. if same_or_child q p then None else map_of (ov_files ov1) q) \<and>
      set (ov_directories ov') = {q \<in> set (ov_directories ov1). \<not> same_or_child q p} \<and>
      (set (ov_deletedPaths ov') = insert p (set (ov_deletedPaths ov1)) \<or>
       set (ov_deletedPaths ov') = set (ov_deletedPaths ov1))"
    proof (cases "stat_is DirEntry b")
      case True
      then have "ov' = entomb p (prune p ov1)"
        using step wf1 p by (auto simp: st_Inr_iffs pure_form)
      with wf1 p show ?thesis by (auto simp: stored_path_def fun_eq_iff)
    next
      case False
      then have "ov' = prune p ov1" using step wf1 p by (auto simp: st_Inr_iffs pure_form)
      with wf1 show ?thesis by simp
    qed
    then have facts: "overlay_wf ov'"
      "map_of (ov_files ov') = (\<lambda>q. if same_or_child q p then None else map_of (ov_files ov1) q)"
      "set (ov_directories ov') = {q \<in> set (ov_directories ov1). \<not> same_or_child q p}"
      "set (ov_deletedPaths ov') = insert p (set (ov_deletedPaths ov1)) \<or>
       set (ov_deletedPaths ov') = set (ov_deletedPaths ov1)"
      by blast+
    note eff = rmdir_effect [OF ok1 tree p empty facts]
    have "visible F ov' = (\<lambda>q. if same_or_child q p then None else visible F ov q)"
      using eff(2) empty rest by (auto simp: fun_eq_iff)
    moreover have "kind_at F ov' q = Some DirEntry"
      if "kind_at F ov q = Some DirEntry" "\<not> same_or_child q p" for q
      using eff(3) un that by (auto simp: unlinked_def)
    moreover have "kind_at F ov' p \<noteq> Some DirEntry"
    proof (cases "is_dir F p")
      case True
      then have "stat_is DirEntry b" using tryStat_Inr(2) [OF p(1) b] by (simp add: stat_is_iff)
      then have "ov' = entomb p (prune p ov1)"
        using step wf1 p by (auto simp: st_Inr_iffs pure_form)
      then show ?thesis using p by (simp add: kind_at_def)
    next
      case False
      with facts(3) p show ?thesis by (auto simp: kind_at_def split: if_splits)
    qed
    ultimately show ?thesis using eff(1) by blast
  qed
  have "kind_at F ov' p \<noteq> Some FileEntry"
    using main visible_file_kind [OF _ tree p(1), of ov'] by simp
  with main show "kind_at F ov' p = None"
    by (cases "kind_at F ov' p"; cases "the (kind_at F ov' p)") auto
  from main show "overlay_ok F ov'" "visible F ov' = (\<lambda>q. if same_or_child q p then None else visible F ov q)"
    "\<And>q. kind_at F ov q = Some DirEntry \<Longrightarrow> \<not> same_or_child q p \<Longrightarrow> kind_at F ov' q = Some DirEntry"
    by blast+
qed

lemma delete_effect:
  assumes ok: "overlay_ok F ov" and norm: "normalizeRepoPath path = Inr p"
    and run: "mu_delete h rv path recursive ov = (Inr u, ov')"
  shows "overlay_ok F ov'"
    and "visible F ov' = (\<lambda>q. if same_or_child q p then None else visible F ov q)"
proof -
  from run norm have req: "requireNonRoot path = Inr p"
    and del: "mu_deleteInternal h rv p recursive ov = (Inr u, ov')"
    by (auto simp: mu_delete_def st_Inr_iffs requireNonRoot_def split: if_splits)
  have p: "canonical p" "p \<noteq> []" using requireNonRoot_Inr [OF req] by auto
  from deleteInternal_effect [OF ok p del] show "overlay_ok F ov'"
    "visible F ov' = (\<lambda>q. if same_or_child q p then None else visible F ov q)" by blast+
qed

lemma ok_add_rename:
  assumes "overlay_ok F ov" "stored_path p" "stored_path q"
    and "ov' = ov\<lparr>ov_renames := ov_renames ov @ [\<lparr>rn_from = p, rn_to = q\<rparr>]\<rparr>"
  shows "overlay_ok F ov'" and "visible F ov' = visible F ov"
proof -
  have same: "kind_at F ov' r = kind_at F ov r" "deleted_at ov' r = deleted_at ov r" for r
    by (simp_all add: kind_at_def deleted_at_def assms(4))
  have sel: "ov_files ov' = ov_files ov" "ov_directories ov' = ov_directories ov"
    "ov_deletedPaths ov' = ov_deletedPaths ov" by (simp_all add: assms(4))
  have "overlay_wf ov'" using assms overlay_okD(1) by simp
  with assms(1) show "overlay_ok F ov'" unfolding overlay_ok_def same sel by simp
  show "visible F ov' = visible F ov" unfolding visible_def same sel by simp
qed

text \<open>
  \<open>rename\<close> of a file: the content moves to the target, whatever the target was before is gone, and
  nothing else changes.
\<close>

lemma renameFile_effect:
  assumes ok: "overlay_ok F ov" and src: "canonical src" "src \<noteq> []" and dst: "canonical dst" "dst \<noteq> []"
    and ne: "src \<noteq> dst" and parent: "kind_at F ov (parent_of dst) = Some DirEntry"
    and free: "kind_at F ov dst = None" and nodir: "\<not> is_dir F dst"
    and run: "mu_renameFile h rv src dst ov = (Inr u, ov')"
  shows "overlay_ok F ov'"
    and "\<exists>c. visible F ov src = Some c \<and> visible F ov' = (visible F ov)(src := None, dst \<mapsto> c)"
proof -
  note wf = overlay_okD(1) [OF ok]
  from run obtain c ov1 ov2 where read: "wt_readFile h rv ov src = Inr c"
    and del: "mu_deleteFileInternal h rv src ov = (Inr (), ov1)"
    and put: "overlay_setFile dst c ov1 = Inr ov2" and add: "overlay_addRename src dst ov2 = Inr ov'"
    by (auto simp: mu_renameFile_def st_Inr_iffs)
  have c: "visible F ov src = Some c" using read wt_readFile_visible [OF wf src(1)] by simp
  then have kind: "kind_at F ov src = Some FileEntry" using visible_file_kind [OF ok tree src(1)] by simp
  have nd: "kind_at F ov src \<noteq> Some DirEntry" using kind by simp
  have "F src \<noteq> None \<or> \<not> deleted_at ov src" using kind_at_not_deleted [OF kind src(2)] by simp
  note eff1 = deleteFile_effect [OF ok src nd this del]
  have "dst \<notin> set (ov_directories ov)"
    using free dst overlay_okD(4) [OF ok] by (auto simp: kind_at_def split: if_splits)
  with eff1(5) nodir dst have nd1: "kind_at F ov1 dst \<noteq> Some DirEntry"
    by (auto simp: kind_at_def split: if_splits)
  have par1: "kind_at F ov1 (parent_of dst) = Some DirEntry" using eff1(3) parent by simp
  have "ov2 = put_file dst c ov1" using put overlay_okD(1) [OF eff1(1)] dst by (simp add: pure_form)
  with put_file_effect [OF eff1(1) tree dst par1 nd1 nodir]
  have ok2: "overlay_ok F ov2" and vis2: "visible F ov2 = (visible F ov1)(dst \<mapsto> c)" by simp_all
  have ov': "ov' = ov2\<lparr>ov_renames := ov_renames ov2 @ [\<lparr>rn_from = src, rn_to = dst\<rparr>]\<rparr>"
    using add src dst by (simp add: pure_form)
  have st: "stored_path src" "stored_path dst" using src dst by (simp_all add: stored_path_def)
  note eff3 = ok_add_rename [OF ok2 st ov']
  show "overlay_ok F ov'" by (fact eff3(1))
  show "\<exists>c. visible F ov src = Some c \<and> visible F ov' = (visible F ov)(src := None, dst \<mapsto> c)"
    using c eff3(2) vis2 eff1(2) by auto
qed

lemma rename_prefix:
  assumes ok: "overlay_ok F ov" and norm: "normalizeRepoPath source = Inr src" "normalizeRepoPath target = Inr dst"
    and ne: "src \<noteq> dst" and run: "mu_rename h rv source target overwrite ov = (Inr u, ov')"
  obtains s ov1 where "canonical src" "src \<noteq> []" "canonical dst" "dst \<noteq> []" "\<not> same_or_child dst src"
    and "wt_stat h rv ov src = Inr s" and "kind_at F ov src = Some (st_type s)"
    and "overlay_ok F ov1" and "kind_at F ov1 dst = None"
    and "visible F ov1 = (\<lambda>q. if same_or_child q dst then None else visible F ov q)"
    and "kind_at F ov1 (parent_of dst) = Some DirEntry"
    and "(if st_type s = FileEntry then mu_renameFile h rv src dst else mu_renameDirectory h rv src dst) ov1
           = (Inr u, ov')"
    and "overwrite \<or> kind_at F ov dst = None"
proof -
  note wf = overlay_okD(1) [OF ok]
  from run norm ne have req: "requireNonRoot source = Inr src" "requireNonRoot target = Inr dst"
    by (auto simp: mu_rename_def st_Inr_iffs requireNonRoot_def split: if_splits)
  then have p: "canonical src" "src \<noteq> []" "canonical dst" "dst \<noteq> []"
    using requireNonRoot_Inr by blast+
  from run req ne p have nest: "\<not> same_or_child dst src"
    and checked: "mu_renameChecked h rv src dst overwrite ov = (Inr u, ov')"
    by (auto simp: mu_rename_def st_Inr_iffs pure_form split: if_splits)
  from checked obtain s t ov1 u1 u2 where
    s: "wt_stat h rv ov src = Inr s" and t: "mu_tryStat h rv ov dst = Inr t"
    and ow: "t = None \<or> overwrite" and par: "mu_requireParent h rv dst ov = Inr u1"
    and del: "(if t \<noteq> None then mu_deleteInternal h rv dst True else returnS ()) ov = (Inr u2, ov1)"
    and mv: "(if st_type s = FileEntry then mu_renameFile h rv src dst
                 else mu_renameDirectory h rv src dst) ov1 = (Inr u, ov')"
    unfolding mu_renameChecked_def bindS_ask_Inr_iff throw_if_Inr_iff
    unfolding bindS_Inr_iff by (elim exE conjE) (rule that, (assumption | simp)+)
  have kind: "kind_at F ov src = Some (st_type s)" using wt_stat_Inr [OF wf p(1) s] .
  have parent: "kind_at F ov (parent_of dst) = Some DirEntry" using mu_requireParent_Inr [OF wf p(3,4) par] .
  have apart: "\<not> same_or_child (parent_of dst) dst"
  proof
    assume soc: "same_or_child (parent_of dst) dst"
    with p(4) have "parent_of dst \<noteq> []" by auto
    then have "same_or_child dst (parent_of dst)" using inside_parent [OF p(3,4)] by (simp add: inside_def)
    with soc parent_of_neq [OF p(3,4)] show False using same_or_child_antisym by blast
  qed
  have "overlay_ok F ov1 \<and> kind_at F ov1 dst = None \<and>
      visible F ov1 = (\<lambda>q. if same_or_child q dst then None else visible F ov q) \<and>
      kind_at F ov1 (parent_of dst) = Some DirEntry \<and> (overwrite \<or> kind_at F ov dst = None)"
  proof (cases "t = None")
    case True
    with del have [simp]: "ov1 = ov" by simp
    have none: "kind_at F ov dst = None" using mu_tryStat_Inr(2) [OF wf p(3) t] True by simp
    then have nd: "kind_at F ov dst \<noteq> Some DirEntry" by simp
    have "visible F ov q = None" if "same_or_child q dst" for q
      using overlay_below(4) [OF ok tree p(3,4) nd that] visible_file_kind [OF ok tree p(3)] none
      by (cases "q = dst") auto
    with ok none parent show ?thesis by (auto simp: fun_eq_iff)
  next
    case False
    with del have "mu_deleteInternal h rv dst True ov = (Inr u2, ov1)" by simp
    from deleteInternal_effect [OF ok p(3,4) this] ow False parent apart show ?thesis by auto
  qed
  with p nest s kind mv show thesis by (intro that [of s ov1]) simp_all
qed

lemma rename_file_effect:
  assumes ok: "overlay_ok F ov" and norm: "normalizeRepoPath source = Inr src" "normalizeRepoPath target = Inr dst"
    and ne: "src \<noteq> dst" and isfile: "visible F ov src = Some c" and nodir: "\<not> is_dir F dst"
    and run: "mu_rename h rv source target overwrite ov = (Inr u, ov')"
  shows "overlay_ok F ov'"
    and "visible F ov' = (\<lambda>q. if q = dst then Some c
           else if q = src \<or> same_or_child q dst then None else visible F ov q)"
proof -
  obtain s ov1 where p: "canonical src" "src \<noteq> []"
      "canonical dst" "dst \<noteq> []" and nest: "\<not> same_or_child dst src"
    and "wt_stat h rv ov src = Inr s"
    and kind: "kind_at F ov src = Some (st_type s)" and ok1: "overlay_ok F ov1"
    and free: "kind_at F ov1 dst = None"
    and vis1: "visible F ov1 = (\<lambda>q. if same_or_child q dst then None else visible F ov q)"
    and parent: "kind_at F ov1 (parent_of dst) = Some DirEntry"
    and mv: "(if st_type s = FileEntry then mu_renameFile h rv src dst
       else mu_renameDirectory h rv src dst) ov1 = (Inr u, ov')"
    and "overwrite \<or> kind_at F ov dst = None"
    by (rule rename_prefix [OF ok norm ne run])
  have "kind_at F ov src = Some FileEntry" using visible_file_kind [OF ok tree p(1)] isfile by simp
  with kind mv have "mu_renameFile h rv src dst ov1 = (Inr u, ov')" by simp
  note eff = renameFile_effect [OF ok1 p ne parent free nodir this]
  show "overlay_ok F ov'" by (fact eff(1))
  from eff(2) vis1 isfile show "visible F ov' = (\<lambda>q. if q = dst then Some c
           else if q = src \<or> same_or_child q dst then None else visible F ov q)"
    by (auto simp: fun_eq_iff split: if_splits)
qed

end

subsection \<open>Reverting\<close>

text \<open>What \<open>revert\<close> leaves at a path: its own overlay entries are gone and one path is revived.\<close>

lemma revert_step:
  assumes ok: "overlay_ok F ov" and tree: "file_tree F" and f: "canonical f"
    and above: "\<And>q. F q \<noteq> None \<Longrightarrow> same_or_child f q \<Longrightarrow> q = f"
    and wf': "overlay_wf ov'"
    and files: "map_of (ov_files ov') = (\<lambda>q. if same_or_child q p then None else map_of (ov_files ov) q)"
    and dirs: "set (ov_directories ov') = {q \<in> set (ov_directories ov). \<not> same_or_child q p}"
    and D: "set (ov_deletedPaths ov') = {t \<in> set (ov_deletedPaths ov). \<not> same_or_child f t}"
    and p: "canonical p" "p \<noteq> []"
  shows "overlay_ok F ov'"
    and "visible F ov' q = (if q \<noteq> f \<and> deleted_at ov q then None
      else case (if same_or_child q p then None else map_of (ov_files ov) q) of
        Some c \<Rightarrow> Some c | None \<Rightarrow> F q)"
proof -
  note wf = overlay_okD(1) [OF ok]
  have sub: "deleted_at ov q" if "deleted_at ov' q" for q
    using that D by (auto simp: deleted_at_def)
  have kinds: "kind_at F ov' q = Some DirEntry" if "kind_at F ov q = Some DirEntry" "\<not> same_or_child q p" for q
    using that sub by (intro kind_at_same [OF that(1)]) (auto simp: files dirs)
  have apart: "\<not> same_or_child (parent_of q) p" if "\<not> same_or_child q p" "canonical q" "q \<noteq> []" for q
    using that same_or_child_parent [of q p] p by auto
  show ok': "overlay_ok F ov'"
  proof (rule overlay_okI [OF wf'])
    show "q \<notin> set (ov_directories ov')" if "map_of (ov_files ov') q = Some b" for q b
      using that overlay_okD(2) [OF ok] by (auto simp: files dirs split: if_splits)
    show "\<not> deleted_at ov' q \<and> kind_at F ov' (parent_of q) = Some DirEntry \<and> \<not> is_dir F q"
      if "map_of (ov_files ov') q = Some b" for q b
    proof -
      from that have q: "map_of (ov_files ov) q = Some b" "\<not> same_or_child q p"
        by (auto simp: files split: if_splits)
      with overlay_wfD(2) [OF wf q(1)] show ?thesis
        using sub [of q] kinds apart overlay_okD(3,5,8) [OF ok q(1)] by blast
    qed
    show "\<not> deleted_at ov' q \<and> kind_at F ov' (parent_of q) = Some DirEntry \<and> F q = None"
      if "q \<in> set (ov_directories ov')" for q
      using that sub [of q] kinds apart overlay_okD(4,6,7) [OF ok] overlay_wfD(3) [OF wf]
      by (auto simp: dirs)
    show "q \<in> set (ov_deletedPaths ov')"
      if "t \<in> set (ov_deletedPaths ov')" "F q = Some b" "same_or_child q t" for t q b
    proof -
      have "q \<in> set (ov_deletedPaths ov)" using that D overlay_okD(9) [OF ok _ that(2,3)] by simp
      moreover have "\<not> same_or_child f q"
        using that(1,3) D same_or_child_trans by blast
      ultimately show ?thesis by (simp add: D)
    qed
  qed
  have del: "deleted_at ov' q \<longleftrightarrow> q \<noteq> f \<and> deleted_at ov q" if "F q \<noteq> None" for q
  proof -
    from that obtain b where b: "F q = Some b" by blast
    have "same_or_child f q \<longleftrightarrow> q = f" using above [OF that] by auto
    then show ?thesis
      unfolding deleted_at_base_file [OF ok b] deleted_at_base_file [OF ok' b] by (auto simp: D)
  qed
  show "visible F ov' q = (if q \<noteq> f \<and> deleted_at ov q then None
      else case (if same_or_child q p then None else map_of (ov_files ov) q) of
        Some c \<Rightarrow> Some c | None \<Rightarrow> F q)"
  proof (cases "F q")
    case (Some b)
    then show ?thesis using del [of q] by (simp add: visible_def files)
  next
    case None
    show ?thesis
    proof (cases "map_of (ov_files ov) q")
      case c: (Some c)
      then show ?thesis
        using None sub [of q] overlay_okD(3) [OF ok c] by (auto simp: visible_def files)
    qed (use None in \<open>auto simp: visible_def files\<close>)
  qed
qed

text \<open>
  \<open>revert\<close> of a path without a rename record gives the base content back below the path, except for
  the base files below it that were deleted one by one.
\<close>

lemma revert_effect:
  assumes ok: "overlay_ok F ov" and tree: "file_tree F"
    and norm: "normalizeRepoPath path = Inr p" "p \<noteq> []"
    and above: "\<And>q. F q \<noteq> None \<Longrightarrow> same_or_child p q \<Longrightarrow> q = p"
    and no_rename: "p \<notin> rn_to ` set (ov_renames ov)"
  shows "\<exists>ov'. mu_revert path ov = (Inr (), ov') \<and> overlay_ok F ov' \<and>
    visible F ov' = (\<lambda>q. if q = p then F p
      else if same_or_child q p then (if deleted_at ov q then None else F q) else visible F ov q)"
proof -
  note wf = overlay_okD(1) [OF ok]
  have p: "canonical p" using norm normalize_result by blast
  have none: "find (\<lambda>r. rn_to r = p) (ov_renames ov) = None"
    "remove_first (\<lambda>r. rn_to r = p) (ov_renames ov) = ov_renames ov"
    using no_rename by (auto simp: find_None_iff intro!: remove_first_none)
  let ?ov = "revive p (prune p ov)"
  have run: "mu_revert path ov = (Inr (), ?ov)"
    using wf p norm none by (simp add: mu_revert_def bindS_apply modifyS_apply pure_form)
  have wf': "overlay_wf ?ov" using wf by simp
  have facts: "map_of (ov_files ?ov) = (\<lambda>q. if same_or_child q p then None else map_of (ov_files ov) q)"
    "set (ov_directories ?ov) = {q \<in> set (ov_directories ov). \<not> same_or_child q p}"
    "set (ov_deletedPaths ?ov) = {t \<in> set (ov_deletedPaths ov). \<not> same_or_child p t}"
    by (simp_all add: fun_eq_iff)
  note eff = revert_step [OF ok tree p above wf' facts p norm(2)]
  have "visible F ?ov q = (if q = p then F p
      else if same_or_child q p then (if deleted_at ov q then None else F q) else visible F ov q)" for q
    using eff(2) [of q] by (auto simp: visible_def)
  with run eff(1) show ?thesis by blast
qed

lemma revertAll_effect:
  "mu_revertAll ov = (Inr (), empty_overlay)"
  by (simp add: mu_revertAll_def modifyS_apply overlay_clear_def)

end
