(* ===== verification/ChangeSet.thy ===== *)
theory ChangeSet
  imports MutationFacts
begin

section \<open>Change sets\<close>

text \<open>
  \<open>packages/core/src/working-tree/change-set.ts\<close>: the changes shown for a working tree and the
  changes sent to the remote when it is committed. The facts here say which changes a commit
  consists of, in terms of the base tree and the visible tree.
\<close>

datatype working_tree_change =
    AddedChange (wc_path: path)
  | ModifiedChange (wc_path: path)
  | DeletedChange (wc_path: path)
  | RenamedChange (wc_path: path) (wc_originalPath: path)

definition deletedBaseFiles :: "host \<Rightarrow> revision \<Rightarrow> overlay \<Rightarrow> path list res" where
  "deletedBaseFiles h base ov = andThen (fold_res (\<lambda>deleted result.
     andThen (rr_tryStat h base deleted) (\<lambda>stat. case stat of
         None \<Rightarrow> Inr result
       | Some s \<Rightarrow> if st_type s = FileEntry then Inr (set_add deleted result)
           else andThen (rr_listFilesRecursively h base deleted) (\<lambda>files.
             Inr (fold set_add files result)))) (overlay_listDeletedPaths ov) []) (\<lambda>result.
     Inr (sort_by code_unit_compare result))"

definition getWorkingTreeChanges :: "host \<Rightarrow> revision \<Rightarrow> overlay \<Rightarrow> working_tree_change list res" where
  "getWorkingTreeChanges h base ov =
     (let renames = overlay_listRenames ov;
          start = fold (\<lambda>r. AList.update (rn_to r) (RenamedChange (rn_to r) (rn_from r))) renames [] in
      andThen (fold_res (\<lambda>(path, content) changes.
          if path \<in> set (keys changes) then Inr changes
          else andThen (tryReadBase h base path) (\<lambda>baseContent. Inr (case baseContent of
              None \<Rightarrow> AList.update path (AddedChange path) changes
            | Some b \<Rightarrow> if equalBytes b content then changes
                else AList.update path (ModifiedChange path) changes)))
          (overlay_listFiles (rd_collate h) ov) start) (\<lambda>changes.
      andThen (deletedBaseFiles h base ov) (\<lambda>deleted.
      Inr (sort_by (\<lambda>left right. rd_collate h (wc_path left) (wc_path right))
        (map snd (fold (\<lambda>path changes.
          if \<exists>r \<in> set renames. rn_from r = path then changes
          else AList.update path (DeletedChange path) changes) deleted changes))))))"

definition buildAllCommitChanges :: "host \<Rightarrow> revision \<Rightarrow> overlay \<Rightarrow> change list res" where
  "buildAllCommitChanges h base ov =
     andThen (fold_res (\<lambda>(path, content) changes.
         andThen (tryReadBase h base path) (\<lambda>baseContent. Inr (case baseContent of
             None \<Rightarrow> AList.update path (AddChange path content) changes
           | Some b \<Rightarrow> if equalBytes b content then changes
               else AList.update path (ModifyChange path content) changes)))
         (overlay_listFiles (rd_collate h) ov) []) (\<lambda>changes.
     andThen (deletedBaseFiles h base ov) (\<lambda>deleted.
     Inr (sort_by (\<lambda>left right. rd_collate h (ch_path left) (ch_path right))
       (map snd (fold (\<lambda>path changes.
         if path \<in> set (keys changes) then changes
         else AList.update path (DeleteChange path) changes) deleted changes)))))"

definition selectedCommitPaths :: "path list \<Rightarrow> working_tree_change list \<Rightarrow> path list" where
  "selectedCommitPaths selected changes = fold (\<lambda>change paths.
     if wc_path change \<notin> set selected then paths
     else let paths' = set_add (wc_path change) paths in
       case change of RenamedChange _ original \<Rightarrow> set_add original paths' | _ \<Rightarrow> paths') changes []"

definition buildCommitChanges ::
  "host \<Rightarrow> revision \<Rightarrow> overlay \<Rightarrow> path list option \<Rightarrow> change list res" where
  "buildCommitChanges h base ov selectedPaths =
     andThen (buildAllCommitChanges h base ov) (\<lambda>allChanges.
     case selectedPaths of None \<Rightarrow> Inr allChanges
     | Some paths \<Rightarrow> andThen (map_res normalizeRepoPath paths) (\<lambda>selected.
         if selected = [] then Inr []
         else andThen (getWorkingTreeChanges h base ov) (\<lambda>changes.
           let commitPaths = selectedCommitPaths selected changes in
           Inr (filter (\<lambda>change. ch_path change \<in> set commitPaths) allChanges))))"

subsection \<open>Which changes a commit holds\<close>

lemma fold_res_success:
  assumes "fold_res f xs s = Inr t" and "\<And>x u v. x \<in> set xs \<Longrightarrow> f x u = Inr v \<Longrightarrow> v = g x u"
  shows "t = fold g xs s"
  using assms
proof (induction xs arbitrary: s)
  case (Cons x xs)
  then obtain u where u: "f x s = Inr u" "fold_res f xs u = Inr t" by auto
  with Cons.prems(2) have "u = g x s" by simp
  with Cons.IH [OF u(2)] Cons.prems(2) show ?case by simp
qed simp

lemma set_fold_set_add [simp]: "set (fold set_add xs ys) = set xs \<union> set ys"
  by (induction xs arbitrary: ys) auto

lemma distinct_fold_set_add [simp]: "distinct ys \<Longrightarrow> distinct (fold set_add xs ys)"
  by (induction xs arbitrary: ys) auto

definition files_live :: "overlay \<Rightarrow> bool" where
  "files_live ov \<longleftrightarrow> (\<forall>p \<in> dom (map_of (ov_files ov)). \<not> deleted_at ov p)"

lemma overlay_ok_live: "overlay_ok F ov \<Longrightarrow> files_live ov"
  by (auto simp: files_live_def dest: overlay_okD(3))

context served_revision
begin

lemma deletedBaseFiles_set:
  assumes wf: "overlay_wf ov" and run: "deletedBaseFiles h rv ov = Inr ps"
  shows "set ps = {q \<in> dom F. deleted_at ov q}" and "distinct ps"
proof -
  let ?D = "overlay_listDeletedPaths ov"
  have mem: "set ?D = set (ov_deletedPaths ov)" by (simp add: overlay_listDeletedPaths_def)
  let ?step = "\<lambda>deleted result. andThen (rr_tryStat h rv deleted) (\<lambda>stat. case stat of
         None \<Rightarrow> Inr result
       | Some s \<Rightarrow> if st_type s = FileEntry then Inr (set_add deleted result)
           else andThen (rr_listFilesRecursively h rv deleted) (\<lambda>files.
             Inr (fold set_add files result)))"
  from run obtain r where r: "fold_res ?step ?D [] = Inr r" and ps: "ps = sort_by code_unit_compare r"
    by (auto simp: deletedBaseFiles_def)
  have step: "set v = set u \<union> {q \<in> dom F. same_or_child q t} \<and> (distinct u \<longrightarrow> distinct v)"
    if t: "t \<in> set ?D" and run: "?step t u = Inr v" for t u v
  proof -
    have can: "canonical t" "t \<noteq> []" using t mem overlay_wfD(4) [OF wf] by auto
    from run obtain s where s: "rr_tryStat h rv t = Inr s" by auto
    note kinds = tryStat_Inr [OF can(1) s]
    consider c where "F t = Some c" "\<exists>x. s = Some x \<and> st_type x = FileEntry"
      | "is_dir F t" "\<exists>x. s = Some x \<and> st_type x = DirEntry"
      | "F t = None" "\<not> is_dir F t" "s = None"
      using kinds by (cases "F t"; cases "is_dir F t") auto
    then show ?thesis
    proof cases
      case 1
      then have "v = set_add t u" using run s by auto
      moreover have "{q \<in> dom F. same_or_child q t} = {t}"
        using 1 file_treeD(3) [OF tree] by auto
      ultimately show ?thesis by simp
    next
      case 2
      then obtain files where fs: "rr_listFilesRecursively h rv t = Inr files" and v: "v = fold set_add files u"
        using run s by auto
      have "set files = {q \<in> dom F. inside q t}" using listFilesRecursively_dir [OF fs can(1) 2(1)] .
      with can v show ?thesis by (auto simp: inside_def)
    next
      case 3
      then have "v = u" using run s by simp
      moreover have "{q \<in> dom F. same_or_child q t} = {}"
        using 3 by (auto simp: is_dir_def dom_def)
      ultimately show ?thesis by (simp only: Un_empty_right) simp
    qed
  qed
  have loop: "set r = set u \<union> {q \<in> dom F. \<exists>t \<in> set ts. same_or_child q t} \<and> (distinct u \<longrightarrow> distinct r)"
    if "set ts \<subseteq> set ?D" "fold_res ?step ts u = Inr r" for ts u
    using that
  proof (induction ts arbitrary: u)
    case (Cons t ts)
    then obtain v where v: "?step t u = Inr v" "fold_res ?step ts v = Inr r" by auto
    from Cons.IH [OF _ v(2)] Cons.prems(1) step [OF _ v(1)] show ?case by auto
  qed simp
  from loop [OF order.refl r] mem show "set ps = {q \<in> dom F. deleted_at ov q}" "distinct ps"
    by (auto simp: ps deleted_at_def)
qed

text \<open>The file at a path, as a change against the base.\<close>

definition file_change :: "path \<Rightarrow> bytes \<Rightarrow> change option" where
  "file_change p c = (case F p of None \<Rightarrow> Some (AddChange p c)
     | Some b \<Rightarrow> if b = c then None else Some (ModifyChange p c))"

definition change_at :: "overlay \<Rightarrow> path \<Rightarrow> change option" where
  "change_at ov p = (case map_of (ov_files ov) p of
       Some c \<Rightarrow> file_change p c
     | None \<Rightarrow> if F p \<noteq> None \<and> deleted_at ov p then Some (DeleteChange p) else None)"

lemma file_change_path: "file_change p c = Some ch \<Longrightarrow> ch_path ch = p"
  by (auto simp: file_change_def split: option.splits if_splits)

lemma fold_file_changes:
  "distinct (keys fs) \<Longrightarrow> map_of (fold (\<lambda>(p, c) m. case file_change p c of None \<Rightarrow> m
      | Some ch \<Rightarrow> AList.update p ch m) fs m) q =
    (case map_of fs q of Some c \<Rightarrow> (case file_change q c of None \<Rightarrow> map_of m q | Some ch \<Rightarrow> Some ch)
     | None \<Rightarrow> map_of m q)"
proof (induction fs arbitrary: m)
  case (Cons f fs)
  obtain p c where f: "f = (p, c)" by (cases f)
  have "map_of fs p = None" using Cons.prems f by (simp add: map_of_eq_None_iff)
  with Cons f show ?case by (auto split: option.splits)
qed simp

lemma distinct_fold_file_changes: "distinct (keys m) \<Longrightarrow>
    distinct (keys (fold (\<lambda>(p, c) m. case file_change p c of None \<Rightarrow> m
      | Some ch \<Rightarrow> AList.update p ch m) fs m))"
  by (induction fs arbitrary: m) (auto split: option.splits)

lemma fold_deletes:
  "map_of (fold (\<lambda>p m. if \<not> p \<in> set (keys m) then AList.update p (DeleteChange p) m else m) qs m) q =
    (case map_of m q of Some ch \<Rightarrow> Some ch
     | None \<Rightarrow> if q \<in> set qs then Some (DeleteChange q) else None)"
proof (induction qs arbitrary: m)
  case (Cons p qs)
  show ?case
  proof (cases "p \<in> set (keys m)")
    case True
    then obtain x where "map_of m p = Some x" by (metis list.set_map map_of_eq_None_iff not_None_eq)
    with True Cons [of m] show ?thesis by (cases "q = p") (simp_all split: option.splits)
  next
    case False
    then have "map_of m p = None" by (simp add: map_of_eq_None_iff)
    with False Cons [of "AList.update p (DeleteChange p) m"] show ?thesis
      by (cases "q = p") (simp_all split: option.splits)
  qed
qed (simp split: option.splits)

lemma distinct_fold_deletes: "distinct (keys m) \<Longrightarrow> distinct (keys
    (fold (\<lambda>p m. if \<not> p \<in> set (keys m) then AList.update p (DeleteChange p) m else m) qs m))"
  by (induction qs arbitrary: m) auto

lemma buildAll_changes:
  assumes wf: "overlay_wf ov" and live: "files_live ov"
    and run: "buildAllCommitChanges h rv ov = Inr cs"
  shows "distinct (map ch_path cs)" and "ch \<in> set cs \<longleftrightarrow> change_at ov (ch_path ch) = Some ch"
proof -
  let ?fs = "overlay_listFiles (rd_collate h) ov"
  let ?g = "\<lambda>(p, c) m. case file_change p c of None \<Rightarrow> m | Some ch \<Rightarrow> AList.update p ch m"
  let ?h = "\<lambda>p m. if \<not> p \<in> set (keys m) then AList.update p (DeleteChange p) m else m"
  from run obtain m ds where m: "fold_res (\<lambda>(path, content) changes.
         andThen (tryReadBase h rv path) (\<lambda>baseContent. Inr (case baseContent of
             None \<Rightarrow> AList.update path (AddChange path content) changes
           | Some b \<Rightarrow> if equalBytes b content then changes
               else AList.update path (ModifyChange path content) changes))) ?fs [] = Inr m"
    and ds: "deletedBaseFiles h rv ov = Inr ds"
    and cs: "cs = sort_by (\<lambda>left right. rd_collate h (ch_path left) (ch_path right))
      (map snd (fold (\<lambda>p m. if p \<in> set (keys m) then m else AList.update p (DeleteChange p) m) ds m))"
    by (auto simp: buildAllCommitChanges_def)
  have fs: "mset ?fs = mset (ov_files ov)" "distinct (keys ?fs)"
    using overlay_wfD(7) [OF wf] by (simp_all add: overlay_listFiles_def)
  have files: "map_of ?fs = map_of (ov_files ov)"
    by (rule map_of_mset_eq [OF fs(1) overlay_wfD(7) [OF wf]])
  have m': "m = fold ?g ?fs []"
  proof (rule fold_res_success [OF m])
    fix x :: "path \<times> bytes" and u v :: "(path \<times> change) list"
    assume x: "x \<in> set ?fs" and step: "(case x of (path, content) \<Rightarrow> \<lambda>changes.
         andThen (tryReadBase h rv path) (\<lambda>baseContent. Inr (case baseContent of
             None \<Rightarrow> AList.update path (AddChange path content) changes
           | Some b \<Rightarrow> if equalBytes b content then changes
               else AList.update path (ModifyChange path content) changes))) u = Inr v"
    obtain p c where px: "x = (p, c)" by (cases x)
    with x have "canonical p" using overlay_wfD(1) [OF wf] by (auto simp: overlay_listFiles_def)
    with step px show "v = ?g x u"
      using tryReadBase_Inr [of p] by (auto simp: file_change_def split: option.splits)
  qed
  have mdist: "distinct (keys m)" unfolding m' by (intro distinct_fold_file_changes) simp
  have mm: "map_of m q = (case map_of (ov_files ov) q of Some c \<Rightarrow> file_change q c | None \<Rightarrow> None)" for q
    unfolding m' by (subst fold_file_changes [OF fs(2)]) (auto simp: files split: option.splits)
  note dset = deletedBaseFiles_set [OF wf ds]
  note loop = fold_deletes [of ds m] and loop_distinct = distinct_fold_deletes [of m ds]
  define M where "M = fold ?h ds m"
  have loopM: "map_of M q = (case map_of m q of Some ch \<Rightarrow> Some ch
      | None \<Rightarrow> if q \<in> set ds then Some (DeleteChange q) else None)" for q
    unfolding M_def by (rule loop)
  have same: "(\<lambda>p m. if p \<in> set (keys m) then m else AList.update p (DeleteChange p) m) = ?h"
    by (intro ext) simp
  have at: "map_of M q = change_at ov q" for q
  proof (cases "map_of (ov_files ov) q")
    case None
    with dset mm loopM [of q] show ?thesis by (auto simp: change_at_def)
  next
    case (Some c)
    then have "\<not> deleted_at ov q" using live by (auto simp: files_live_def)
    with Some dset mm loopM [of q] show ?thesis
      by (auto simp: change_at_def split: option.splits)
  qed
  have dm: "distinct (keys M)" unfolding M_def by (rule loop_distinct [OF mdist])
  have path: "ch_path ch = q" if "(q, ch) \<in> set M" for q ch
  proof -
    have "change_at ov q = Some ch" using map_of_is_SomeI [OF dm that] at by simp
    then show ?thesis by (auto simp: change_at_def dest: file_change_path split: option.splits if_splits)
  qed
  have "map ch_path (map snd M) = keys M" using path by auto
  then show "distinct (map ch_path cs)" using dm by (simp only: cs same distinct_map_sort_by flip: M_def)
  have "ch \<in> set cs \<longleftrightarrow> (\<exists>q. (q, ch) \<in> set M)"
    unfolding cs same set_sort_by M_def [symmetric] by force
  also have "\<dots> \<longleftrightarrow> (\<exists>q. map_of M q = Some ch)"
    using map_of_is_SomeI [OF dm] map_of_SomeD by fast
  also have "\<dots> \<longleftrightarrow> change_at ov (ch_path ch) = Some ch"
    using path map_of_SomeD unfolding at [symmetric] by metis
  finally show "ch \<in> set cs \<longleftrightarrow> change_at ov (ch_path ch) = Some ch" .
qed

end

end
