(* ===== verification/FixtureFiles.thy ===== *)
theory FixtureFiles
  imports ChangeSet
begin

section \<open>Applying and diffing file sets\<close>

text \<open>
  \<open>packages/adapter-fixture/src/files.ts\<close>: how the in-memory remote applies the changes of a
  commit to the files of its parent, and how it diffs two commits. The central fact connects it to
  the change sets of the framework: what is sent for a working tree, applied to the base it was
  computed against, gives exactly the visible tree.
\<close>

definition fixture_parentPath :: "string \<Rightarrow> string res" where
  "fixture_parentPath path = andThen (normalizeRepoPath path) (\<lambda>normalized.
     let index = lastIndexOf CHR ''/'' normalized in
       Inr (if index < 0 then [] else take (nat index) normalized))"

text \<open>One iteration of the loop over the changes; the state is the set of seen paths and the files.\<close>

definition apply_change :: "change \<Rightarrow> path list \<times> (path \<times> bytes) list \<Rightarrow>
    (path list \<times> (path \<times> bytes) list) res" where
  "apply_change ch = (\<lambda>(seen, files).
     andThen (normalizeRepoPath (ch_path ch)) (\<lambda>path.
       if path = [] then Inl invalid_request
       else if path \<in> set seen then Inl invalid_request
       else let seen' = path # seen; exists = path \<in> set (keys files) in
         case ch of
           DeleteChange _ \<Rightarrow> if \<not> exists then Inl invalid_request
             else Inr (seen', AList.delete path files)
         | AddChange _ content \<Rightarrow> if exists then Inl invalid_request
             else Inr (seen', AList.update path content files)
         | ModifyChange _ content \<Rightarrow> if \<not> exists then Inl invalid_request
             else Inr (seen', AList.update path content files)))"

definition file_directory_clash :: "(path \<times> bytes) list \<Rightarrow> path \<Rightarrow> bool res" where
  "file_directory_clash files path = andThen (fixture_parentPath path) (\<lambda>parent.
     Inr (parent \<noteq> [] \<and> parent \<in> set (keys files)))"

definition applyChanges :: "(path \<times> bytes) list \<Rightarrow> change list \<Rightarrow> (path \<times> bytes) list res" where
  "applyChanges files changes =
     andThen (fold_res apply_change changes ([], files)) (\<lambda>(seen, files').
     andThen (some_res (file_directory_clash files') (keys files')) (\<lambda>clash.
       if clash then Inl invalid_request else Inr files'))"

definition diffFiles :: "(path \<times> bytes) list \<Rightarrow> (path \<times> bytes) list \<Rightarrow> commit_change list" where
  "diffFiles beforeFiles afterFiles = concat (map (\<lambda>path.
     case (map_of beforeFiles path, map_of afterFiles path) of
       (None, Some _) \<Rightarrow> [\<lparr>cc_type = CAdded, cc_path = path, cc_previousPath = None\<rparr>]
     | (Some _, None) \<Rightarrow> [\<lparr>cc_type = CDeleted, cc_path = path, cc_previousPath = None\<rparr>]
     | (Some l, Some r) \<Rightarrow> if \<not> equalBytes l r
         then [\<lparr>cc_type = CModified, cc_path = path, cc_previousPath = None\<rparr>] else []
     | (None, None) \<Rightarrow> [])
     (sort_by code_unit_compare (fold set_add (keys beforeFiles @ keys afterFiles) [])))"

definition cloneFiles :: "(path \<times> bytes) list \<Rightarrow> (path \<times> bytes) list" where
  "cloneFiles files = files"

subsection \<open>The effect of a consistent change list\<close>

lemma fixture_parentPath_canonical [pure_form]:
  "canonical p \<Longrightarrow> fixture_parentPath p = Inr (parent_of p)"
  by (simp add: fixture_parentPath_def parent_of_def pure_form Let_def)

definition change_fits :: "tree \<Rightarrow> change \<Rightarrow> bool" where
  "change_fits T ch \<longleftrightarrow> canonical (ch_path ch) \<and> ch_path ch \<noteq> [] \<and>
     (case ch of AddChange p _ \<Rightarrow> T p = None | ModifyChange p _ \<Rightarrow> T p \<noteq> None
      | DeleteChange p \<Rightarrow> T p \<noteq> None)"

definition change_result :: "change \<Rightarrow> bytes option" where
  "change_result ch = (case ch of DeleteChange _ \<Rightarrow> None | AddChange _ c \<Rightarrow> Some c
     | ModifyChange _ c \<Rightarrow> Some c)"

lemma apply_change_fits:
  assumes "change_fits (map_of files) ch" and "ch_path ch \<notin> set seen"
  shows "\<exists>files'. apply_change ch (seen, files) = Inr (ch_path ch # seen, files') \<and>
    map_of files' = (map_of files)(ch_path ch := change_result ch) \<and>
    (distinct (keys files) \<longrightarrow> distinct (keys files'))"
  using assms
  by (cases ch) (auto simp: apply_change_def change_fits_def change_result_def pure_form Let_def
      map_of_eq_None_iff)

lemma apply_changes_fit:
  assumes "distinct (map ch_path cs)" and "\<And>ch. ch \<in> set cs \<Longrightarrow> change_fits (map_of files) ch"
    and "set seen \<inter> ch_path ` set cs = {}"
  shows "\<exists>seen' files'. fold_res apply_change cs (seen, files) = Inr (seen', files') \<and>
    (distinct (keys files) \<longrightarrow> distinct (keys files')) \<and>
    (\<forall>q. map_of files' q = (case find (\<lambda>ch. ch_path ch = q) cs of
       None \<Rightarrow> map_of files q | Some ch \<Rightarrow> change_result ch))"
  using assms
proof (induction cs arbitrary: seen files)
  case (Cons ch cs)
  have fits: "change_fits (map_of files) ch" and new: "ch_path ch \<notin> set seen"
    using Cons.prems by auto
  obtain files1 where step: "apply_change ch (seen, files) = Inr (ch_path ch # seen, files1)"
    and m1: "map_of files1 = (map_of files)(ch_path ch := change_result ch)"
    and d1: "distinct (keys files) \<longrightarrow> distinct (keys files1)"
    using apply_change_fits [OF fits new] by blast
  have "change_fits (map_of files1) c" if "c \<in> set cs" for c
  proof -
    have "ch_path c \<noteq> ch_path ch" using Cons.prems(1) that by (auto simp: image_iff)
    with Cons.prems(2) [of c] that show ?thesis
      by (cases c) (auto simp: change_fits_def m1)
  qed
  moreover have "set (ch_path ch # seen) \<inter> ch_path ` set cs = {}"
    using Cons.prems(1,3) by auto
  ultimately obtain seen' files' where
    rest: "fold_res apply_change cs (ch_path ch # seen, files1) = Inr (seen', files')"
    and d: "distinct (keys files1) \<longrightarrow> distinct (keys files')"
    and m: "\<forall>q. map_of files' q = (case find (\<lambda>ch. ch_path ch = q) cs of
       None \<Rightarrow> map_of files1 q | Some ch \<Rightarrow> change_result ch)"
    using Cons.IH [of files1 "ch_path ch # seen"] Cons.prems(1) by auto
  have "find (\<lambda>c. ch_path c = ch_path ch) cs = None"
    using Cons.prems(1) by (auto simp: find_None_iff) (metis imageI)
  with step rest d d1 m m1 show ?case by (auto split: option.splits)
qed auto

lemma no_clash:
  assumes "\<And>p. p \<in> fst ` set files \<Longrightarrow> stored_path p"
    and "\<And>p. p \<in> fst ` set files \<Longrightarrow> parent_of p \<notin> fst ` set files"
  shows "some_res (file_directory_clash files) (keys files) = Inr False"
proof -
  have "some_res (file_directory_clash files) (keys files)
    = Inr (\<exists>p \<in> set (keys files). parent_of p \<noteq> [] \<and> parent_of p \<in> set (keys files))"
    using assms(1) by (intro some_res_pure) (auto simp: file_directory_clash_def pure_form stored_path_def)
  with assms(2) show ?thesis by auto
qed

context served_revision
begin

text \<open>The changes of a commit fit the base tree and turn it into the visible tree.\<close>

lemma commit_changes_fit:
  assumes wf: "overlay_wf ov" and live: "files_live ov" and run: "buildAllCommitChanges h rv ov = Inr cs"
  shows "ch \<in> set cs \<Longrightarrow> change_fits F ch"
    and "(case find (\<lambda>ch. ch_path ch = q) cs of None \<Rightarrow> F q | Some ch \<Rightarrow> change_result ch) = visible F ov q"
proof -
  note all = buildAll_changes [OF wf live run]
  show "change_fits F ch" if "ch \<in> set cs"
  proof -
    from that all(2) have at: "change_at ov (ch_path ch) = Some ch" by blast
    show ?thesis
    proof (cases "map_of (ov_files ov) (ch_path ch)")
      case (Some c)
      with at overlay_wfD(2) [OF wf Some] show ?thesis
        by (cases ch) (auto simp: change_at_def file_change_def change_fits_def split: option.splits if_splits)
    next
      case None
      with at treeD [of "ch_path ch"] show ?thesis
        by (cases ch) (auto simp: change_at_def change_fits_def split: if_splits)
    qed
  qed
  have find: "find (\<lambda>ch. ch_path ch = q) cs = change_at ov q"
  proof (cases "change_at ov q")
    case None
    then show ?thesis using all(2) by (auto simp: find_None_iff)
  next
    case (Some ch)
    then have path: "ch_path ch = q"
      by (auto simp: change_at_def dest: file_change_path split: option.splits if_splits)
    with Some all(2) have mem: "ch \<in> set cs" by simp
    have "find (\<lambda>ch. ch_path ch = q) cs \<noteq> None"
      using mem path by (auto simp: find_None_iff)
    then obtain x where x: "find (\<lambda>ch. ch_path ch = q) cs = Some x" by blast
    then have "x \<in> set cs" "ch_path x = q" by (auto simp: find_Some_iff)
    with mem path all(1) have "x = ch" by (metis distinct_map inj_on_def)
    with x Some show ?thesis by simp
  qed
  show "(case find (\<lambda>ch. ch_path ch = q) cs of None \<Rightarrow> F q | Some ch \<Rightarrow> change_result ch) = visible F ov q"
  proof (cases "map_of (ov_files ov) q")
    case (Some c)
    then have "\<not> deleted_at ov q" using live by (auto simp: files_live_def)
    with Some find show ?thesis
      by (auto simp: change_at_def file_change_def visible_def change_result_def split: option.splits)
  next
    case None
    with find show ?thesis
      by (auto simp: change_at_def visible_def change_result_def split: option.splits)
  qed
qed

lemma applyChanges_visible:
  assumes ok: "overlay_ok F ov" and run: "buildAllCommitChanges h rv ov = Inr cs"
    and files: "map_of files = F" "distinct (keys files)"
  shows "\<exists>files'. applyChanges files cs = Inr files' \<and> map_of files' = visible F ov \<and>
    distinct (keys files')"
proof -
  note wf = overlay_okD(1) [OF ok] and live = overlay_ok_live [OF ok]
  note fit = commit_changes_fit [OF wf live run]
  have "\<exists>seen' files'. fold_res apply_change cs ([], files) = Inr (seen', files') \<and>
    (distinct (keys files) \<longrightarrow> distinct (keys files')) \<and>
    (\<forall>q. map_of files' q = (case find (\<lambda>ch. ch_path ch = q) cs of
       None \<Rightarrow> map_of files q | Some ch \<Rightarrow> change_result ch))"
    using buildAll_changes(1) [OF wf live run] fit(1) by (intro apply_changes_fit) (simp_all add: files(1))
  then obtain seen' files' where loop: "fold_res apply_change cs ([], files) = Inr (seen', files')"
    and d: "distinct (keys files')" and m0: "map_of files' q = (case find (\<lambda>ch. ch_path ch = q) cs of
       None \<Rightarrow> map_of files q | Some ch \<Rightarrow> change_result ch)" for q
    using files(2) by blast
  have m: "map_of files' = visible F ov"
    by (rule ext) (simp only: m0 files(1) fit(2))
  have key: "p \<in> fst ` set files' \<longleftrightarrow> visible F ov p \<noteq> None" for p
    by (metis m map_of_eq_None_iff)
  have "some_res (file_directory_clash files') (keys files') = Inr False"
  proof (rule no_clash)
    fix p assume p: "p \<in> fst ` set files'"
    then have can: "canonical p" "p \<noteq> []" using key visible_canonical [OF wf tree] by blast+
    then show "stored_path p" by (simp add: stored_path_def)
    have "kind_at F ov p \<noteq> None" using visible_file_kind [OF ok tree can(1)] p key by simp
    then have "kind_at F ov (parent_of p) = Some DirEntry" by (rule kind_at_parent [OF ok tree can])
    moreover have "canonical (parent_of p)" using can by simp
    ultimately show "parent_of p \<notin> fst ` set files'"
      using visible_file_kind [OF ok tree, of "parent_of p"] key by simp
  qed
  with loop d m show ?thesis by (simp add: applyChanges_def)
qed

end

end
