(* ===== verification/Fixture.thy ===== *)
theory Fixture
  imports FixtureFiles
begin

section \<open>The in-memory adapter\<close>

text \<open>
  \<open>packages/adapter-fixture/src\<close>: the commit graph with its branches, the read side
  (\<open>repository-view.ts\<close>, \<open>support.ts\<close>), the commit engine with its lease semantics, the branch
  service, the fault injector, and the adapter that puts them together. The state is one record:
  the repository of \<open>model.ts\<close> and the sequence number of the engine. Copies of arrays are
  invisible on values.
\<close>

record stored_commit =
  sc_info :: commit_info
  sc_files :: "(path \<times> bytes) list"

datatype fixture_method =
    M_getRepository | M_readDirectory | M_readFile | M_getBranches | M_getCommits
  | M_getCommitChanges | M_commit | M_createBranch | M_deleteBranch

record fixture =
  fx_info :: repository_info
  fx_commits :: "(revision \<times> stored_commit) list"
  fx_branches :: "(branch_name \<times> revision) list"
  fx_sequence :: nat
  fx_failures :: "(fixture_method \<times> error_code) list"
  fx_latencyMs :: nat

subsection \<open>Decimal numbers and dates\<close>

definition padStart2 :: "string \<Rightarrow> string" where
  "padStart2 s = (if length s < 2 then replicate (2 - length s) CHR ''0'' @ s else s)"

text \<open>\<open>Number.parseInt(s, 10)\<close>: leading white space, a sign, then the longest run of digits.\<close>

definition is_digit :: "char \<Rightarrow> bool" where
  "is_digit c \<longleftrightarrow> 48 \<le> (of_char c :: nat) \<and> (of_char c :: nat) \<le> 57"

definition digits_value :: "string \<Rightarrow> nat" where
  "digits_value s = foldl (\<lambda>n c. 10 * n + (of_char c - 48)) 0 s"

definition parseInt10 :: "string \<Rightarrow> int option" where
  "parseInt10 s = (let t = dropWhile js_space s;
       (neg, u) = (case t of c # cs \<Rightarrow> if c = CHR ''-'' then (True, cs)
           else if c = CHR ''+'' then (False, cs) else (False, t) | [] \<Rightarrow> (False, []));
       ds = takeWhile is_digit u
     in if ds = [] then None
        else Some (if neg then - int (digits_value ds) else int (digits_value ds)))"

definition year_length :: "nat \<Rightarrow> nat" where
  "year_length y = (if y mod 4 = 0 \<and> (y mod 100 \<noteq> 0 \<or> y mod 400 = 0) then 366 else 365)"

definition month_lengths :: "nat \<Rightarrow> nat list" where
  "month_lengths y = [31, year_length y - 337, 31, 30, 31, 30, 31, 31, 30, 31, 30, 31]"

fun month_day :: "nat list \<Rightarrow> nat \<Rightarrow> nat \<Rightarrow> nat \<times> nat" where
  "month_day [] m d = (m, d)"
| "month_day (l # ls) m d = (if l < d then month_day ls (m + 1) (d - l) else (m, d))"

text \<open>\<open>new Date(Date.UTC(year, 0, day)).toISOString()\<close> for a day counted from the first of January.\<close>

function utc_iso_day :: "nat \<Rightarrow> nat \<Rightarrow> string" where
  "utc_iso_day year day = (if year_length year < day then utc_iso_day (year + 1) (day - year_length year)
     else let (m, d) = month_day (month_lengths year) 1 day in
       string_of_nat year @ ''-'' @ padStart2 (string_of_nat m) @ ''-'' @ padStart2 (string_of_nat d) @
       ''T00:00:00.000Z'')"
  by auto
termination by (relation "measure snd") (auto simp: year_length_def split: if_splits)

declare utc_iso_day.simps [simp del]

subsection \<open>Support functions\<close>

definition cloneCommitInfo :: "commit_info \<Rightarrow> commit_info" where
  "cloneCommitInfo info = info"

definition fixture_success :: "commit_info \<Rightarrow> commit_result" where
  "fixture_success info = CommitSuccess (ci_revision info) (cloneCommitInfo info)"

definition remoteChanged :: "revision \<Rightarrow> commit_result" where
  "remoteChanged actual = CommitRejected REMOTE_CHANGED (Some actual)
     (Some (''Remote branch now points to '' @ actual @ ''.''))"

text \<open>The character class of the branch name check: \<open>[~^:?*[\\\s]\<close>.\<close>

definition bad_branch_char :: "char \<Rightarrow> bool" where
  "bad_branch_char c \<longleftrightarrow> c \<in> set ''~^:?*['' \<or> c = CHR 0x5C \<or> js_space c"

definition validateBranchName :: "string \<Rightarrow> string res" where
  "validateBranchName name = (let value = js_trim name in
     if value = [] \<or> startsWith value ''/'' \<or> last value = CHR ''/'' \<or> sublist ''..'' value \<or>
        list_ex bad_branch_char value
     then Inl invalid_request else Inr value)"

definition parseCursor :: "string option \<Rightarrow> nat res" where
  "parseCursor cursor = (case cursor of None \<Rightarrow> Inr 0 | Some c \<Rightarrow>
     if c = [] then Inr 0
     else (case parseInt10 c of None \<Rightarrow> Inl invalid_request
       | Some value \<Rightarrow> if max_safe_integer < \<bar>value\<bar> \<or> value < 0 then Inl invalid_request
           else Inr (nat value)))"

subsection \<open>The read side\<close>

definition requireCommit :: "fixture \<Rightarrow> revision \<Rightarrow> stored_commit res" where
  "requireCommit fx revision = (case map_of (fx_commits fx) revision of
     None \<Rightarrow> Inl not_found | Some c \<Rightarrow> Inr c)"

text \<open>One iteration of the loop over the files: the entry a file contributes to a directory.\<close>

definition listing_entry :: "path \<Rightarrow> path \<times> bytes \<Rightarrow> directory_entry option" where
  "listing_entry normalized = (\<lambda>(filePath, content).
     let dirPrefix = (if normalized = [] then [] else normalized @ ''/'') in
     if \<not> startsWith filePath dirPrefix then None
     else let remainder = drop (length dirPrefix) filePath;
              separator = CHR ''/'' \<in> set remainder;
              name = takeWhile (\<lambda>c. c \<noteq> CHR ''/'') remainder in
       if name = [] then None
       else Some \<lparr>de_name = name, de_path = child_path normalized name,
         de_type = (if separator then DirEntry else FileEntry),
         de_size = (if separator then None else Some (length content))\<rparr>)"

definition view_readDirectory ::
  "string comparator \<Rightarrow> fixture \<Rightarrow> revision \<Rightarrow> path \<Rightarrow> directory_entry list res" where
  "view_readDirectory collate fx revision path =
     andThen (requireCommit fx revision) (\<lambda>commit.
     andThen (normalizeRepoPath path) (\<lambda>normalized.
       let files = sc_files commit in
       if normalized \<noteq> [] \<and> normalized \<in> set (keys files) then Inl invalid_request
       else if normalized \<noteq> [] \<and> \<not> list_ex (\<lambda>f. startsWith f (normalized @ ''/'')) (keys files)
       then Inl not_found
       else Inr (sort_by (compareDirectoryEntries collate) (map snd (fold (\<lambda>file entries.
         case listing_entry normalized file of None \<Rightarrow> entries
         | Some e \<Rightarrow> AList.update (de_name e) e entries) files [])))))"

definition view_readFile :: "fixture \<Rightarrow> revision \<Rightarrow> path \<Rightarrow> bytes res" where
  "view_readFile fx revision path =
     andThen (normalizeRepoPath path) (\<lambda>normalized.
     andThen (requireCommit fx revision) (\<lambda>commit.
       case map_of (sc_files commit) normalized of None \<Rightarrow> Inl not_found | Some c \<Rightarrow> Inr c))"

definition view_getBranches :: "string comparator \<Rightarrow> fixture \<Rightarrow> branch list" where
  "view_getBranches collate fx = sort_by (\<lambda>left right. collate (br_name left) (br_name right))
     (map (\<lambda>(name, revision). \<lparr>br_name = name, br_revision = revision,
        br_isDefault = (if name = ri_defaultBranch (fx_info fx) then Some True else None)\<rparr>)
       (fx_branches fx))"

definition resolveQueryRevision :: "fixture \<Rightarrow> commit_query \<Rightarrow> revision res" where
  "resolveQueryRevision fx request =
     (let by_branch = (let branch = (case cq_branch request of None \<Rightarrow> ri_defaultBranch (fx_info fx)
           | Some b \<Rightarrow> b) in
         case map_of (fx_branches fx) branch of
           None \<Rightarrow> Inl not_found | Some r \<Rightarrow> if r = [] then Inl not_found else Inr r) in
      case cq_revision request of None \<Rightarrow> by_branch
      | Some r \<Rightarrow> if r = [] then by_branch
          else andThen (requireCommit fx r) (\<lambda>_. Inr r))"

text \<open>
  The loop of \<open>firstParentHistory\<close> with fuel. A loop longer than the number of commits has met a
  revision twice and would never end; the value then is \<open>OtherError\<close>, and no repository the
  operations build reaches it.
\<close>

fun firstParentHistory :: "nat \<Rightarrow> fixture \<Rightarrow> revision option \<Rightarrow> commit_info list res" where
  "firstParentHistory fuel fx None = Inr []"
| "firstParentHistory 0 fx (Some current) = (if current = [] then Inr [] else Inl OtherError)"
| "firstParentHistory (Suc fuel) fx (Some current) =
     (if current = [] then Inr []
      else andThen (requireCommit fx current) (\<lambda>commit.
        andThen (firstParentHistory fuel fx
          (case ci_parents (sc_info commit) of [] \<Rightarrow> None | p # _ \<Rightarrow> Some p)) (\<lambda>history.
        Inr (cloneCommitInfo (sc_info commit) # history))))"

text \<open>
  \<open>Math.max(1, Math.min(100, Math.trunc(limit ?? 50)))\<close>; with \<open>NaN\<close> the slice that uses it is
  empty.
\<close>

definition page_limit :: "jsnum option \<Rightarrow> nat" where
  "page_limit limit = (case limit of None \<Rightarrow> 50
     | Some JNaN \<Rightarrow> 0 | Some JPosInf \<Rightarrow> 100 | Some JNegInf \<Rightarrow> 1
     | Some (JFin r) \<Rightarrow> nat (max 1 (min 100 (if r < 0 then \<lceil>r\<rceil> else \<lfloor>r\<rfloor>))))"

definition view_getCommits :: "fixture \<Rightarrow> commit_query \<Rightarrow> commit_page res" where
  "view_getCommits fx request =
     andThen (resolveQueryRevision fx request) (\<lambda>start.
     andThen (parseCursor (cq_cursor request)) (\<lambda>offset.
     andThen (firstParentHistory (length (fx_commits fx)) fx (Some start)) (\<lambda>history.
       let commits = take (page_limit (cq_limit request)) (drop offset history);
           nextOffset = offset + length commits in
       Inr \<lparr>cp_commits = commits,
         cp_nextCursor = (if nextOffset < length history then Some (string_of_nat nextOffset) else None)\<rparr>)))"

definition view_getCommitChanges :: "fixture \<Rightarrow> revision \<Rightarrow> commit_change list res" where
  "view_getCommitChanges fx revision =
     andThen (requireCommit fx revision) (\<lambda>commit.
     andThen (case ci_parents (sc_info commit) of
         [] \<Rightarrow> Inr []
       | p # _ \<Rightarrow> if p = [] then Inr [] else andThen (requireCommit fx p) (\<lambda>c. Inr (sc_files c)))
       (\<lambda>parentFiles. Inr (diffFiles parentFiles (sc_files commit))))"

subsection \<open>The commit engine\<close>

definition fixture_author :: commit_author where
  "fixture_author = \<lparr>au_name = ''Fixture User'', au_email = Some ''fixture@example.invalid''\<rparr>"

definition store_commit :: "revision list \<Rightarrow> string \<Rightarrow> (path \<times> bytes) list \<Rightarrow> fixture \<Rightarrow>
    stored_commit \<times> fixture" where
  "store_commit parents message files fx =
     (let revision = ''fixture-'' @ string_of_nat (fx_sequence fx);
          sequence = fx_sequence fx + 1;
          stored = \<lparr>sc_info = \<lparr>ci_revision = revision, ci_parents = parents, ci_message = message,
            ci_author = Some fixture_author, ci_authoredAt = Some (utc_iso_day 2026 sequence)\<rparr>,
            sc_files = files\<rparr>
      in (stored, fx\<lparr>fx_commits := AList.update revision stored (fx_commits fx), fx_sequence := sequence\<rparr>))"

definition createChild :: "revision \<Rightarrow> string \<Rightarrow> change list \<Rightarrow> (fixture, stored_commit) st" where
  "createChild parent message changes =
     bindS (askS (\<lambda>fx. andThen (requireCommit fx parent) (\<lambda>c.
       applyChanges (cloneFiles (sc_files c)) changes))) (\<lambda>files fx.
       let (stored, fx') = store_commit [parent] message files fx in (Inr stored, fx'))"

definition createAmended :: "revision \<Rightarrow> string \<Rightarrow> change list \<Rightarrow> (fixture, stored_commit) st" where
  "createAmended revision message changes =
     bindS (askS (\<lambda>fx. requireCommit fx revision)) (\<lambda>existing.
     bindS (askS (\<lambda>_. applyChanges (cloneFiles (sc_files existing)) changes)) (\<lambda>files fx.
       let (stored, fx') = store_commit (ci_parents (sc_info existing)) message files fx
       in (Inr stored, fx')))"

definition publish :: "branch_name \<Rightarrow> stored_commit \<Rightarrow> (fixture, commit_result) st" where
  "publish branch stored = (\<lambda>fx. (Inr (fixture_success (sc_info stored)),
     fx\<lparr>fx_branches := AList.update branch (ci_revision (sc_info stored)) (fx_branches fx)\<rparr>))"

definition is_amend :: "commit_request \<Rightarrow> bool" where
  "is_amend request = (case request of AmendCommitRequest _ _ \<Rightarrow> True | _ \<Rightarrow> False)"

definition engine_execute :: "commit_request \<Rightarrow> (fixture, commit_result) st" where
  "engine_execute request =
     (let base = cr_base request; message = js_trim (cb_message base) in
      if message = [] then throwS invalid_request
      else if cb_changes base = [] \<and> \<not> is_amend request then throwS invalid_request
      else bindS (askS (\<lambda>fx. case map_of (fx_branches fx) (cb_branch base) of
          None \<Rightarrow> Inl not_found | Some r \<Rightarrow> if r = [] then Inl not_found else Inr r)) (\<lambda>actualHead.
        bindS (askS (\<lambda>fx. requireCommit fx (cb_baseRevision base))) (\<lambda>_.
        case request of
          NormalCommitRequest _ \<Rightarrow>
            if actualHead \<noteq> cb_baseRevision base then returnS (remoteChanged actualHead)
            else bindS (createChild (cb_baseRevision base) message (cb_changes base))
              (publish (cb_branch base))
        | ForceCommitRequest _ expectedRevision \<Rightarrow>
            if actualHead \<noteq> expectedRevision then returnS (remoteChanged actualHead)
            else bindS (createChild (cb_baseRevision base) message (cb_changes base))
              (publish (cb_branch base))
        | AmendCommitRequest _ expectedRevision \<Rightarrow>
            if actualHead \<noteq> expectedRevision then returnS (remoteChanged actualHead)
            else if expectedRevision \<noteq> cb_baseRevision base then throwS invalid_request
            else bindS (createAmended (cb_baseRevision base) message (cb_changes base))
              (publish (cb_branch base)))))"

subsection \<open>The branch service\<close>

definition fixture_createBranch :: "branch_name \<Rightarrow> revision \<Rightarrow> (fixture, branch) st" where
  "fixture_createBranch name revision =
     bindS (askS (\<lambda>_. validateBranchName name)) (\<lambda>normalized.
     bindS (askS (\<lambda>fx. requireCommit fx revision)) (\<lambda>_.
     bindS (askS (\<lambda>fx. Inr (normalized \<in> set (keys (fx_branches fx))))) (\<lambda>exists.
       if exists then throwS invalid_request
       else bindS (modifyS (\<lambda>fx. Inr (fx\<lparr>fx_branches := AList.update normalized revision (fx_branches fx)\<rparr>)))
         (\<lambda>_. returnS \<lparr>br_name = normalized, br_revision = revision, br_isDefault = None\<rparr>))))"

definition fixture_deleteBranch :: "branch_name \<Rightarrow> (fixture, unit) st" where
  "fixture_deleteBranch name =
     bindS (askS (\<lambda>fx. Inr (name = ri_defaultBranch (fx_info fx)))) (\<lambda>is_default.
       if is_default then throwS invalid_request
       else bindS (askS (\<lambda>fx. Inr (name \<in> set (keys (fx_branches fx))))) (\<lambda>exists.
         if \<not> exists then throwS not_found
         else modifyS (\<lambda>fx. Inr (fx\<lparr>fx_branches := AList.delete name (fx_branches fx)\<rparr>))))"

definition moveBranchHead :: "branch_name \<Rightarrow> revision \<Rightarrow> (fixture, unit) st" where
  "moveBranchHead branch revision =
     bindS (askS (\<lambda>fx. Inr (branch \<in> set (keys (fx_branches fx))))) (\<lambda>exists.
       if \<not> exists then throwS not_found
       else bindS (askS (\<lambda>fx. requireCommit fx revision)) (\<lambda>_.
         modifyS (\<lambda>fx. Inr (fx\<lparr>fx_branches := AList.update branch revision (fx_branches fx)\<rparr>))))"

definition getBranchHead :: "fixture \<Rightarrow> branch_name \<Rightarrow> revision res" where
  "getBranchHead fx branch = (case map_of (fx_branches fx) branch of
     None \<Rightarrow> Inl not_found | Some r \<Rightarrow> if r = [] then Inl not_found else Inr r)"

subsection \<open>The adapter\<close>

definition fault_before :: "fixture_method \<Rightarrow> fixture \<Rightarrow> unit res" where
  "fault_before method fx = (case map_of (fx_failures fx) method of
     None \<Rightarrow> Inr () | Some code \<Rightarrow> Inl (RemotishError code))"

text \<open>
  A read races the deadline of the repository reader, 30 seconds unless configured otherwise: an
  injected failure settles it at once, the configured latency delays anything else.
\<close>

definition default_request_timeout_ms :: nat where
  "default_request_timeout_ms = 30000"

definition fixture_read :: "fixture_method \<Rightarrow> fixture \<Rightarrow> 'a res \<Rightarrow> 'a race" where
  "fixture_read method fx answer = (case fault_before method fx of
     Inl e \<Rightarrow> Settled (Inl e)
   | Inr _ \<Rightarrow> if default_request_timeout_ms \<le> fx_latencyMs fx then TimedOut else Settled answer)"

text \<open>An entry as the JavaScript object the adapter hands out.\<close>

definition entry_js :: "directory_entry \<Rightarrow> jsval" where
  "entry_js e = JObj ([(''name'', JStr (de_name e)), (''path'', JStr (de_path e)),
     (''type'', JStr (if de_type e = FileEntry then ''file'' else ''directory''))] @
     (case de_size e of None \<Rightarrow> [] | Some n \<Rightarrow> [(''size'', jnat n)]))"

definition fixture_capabilities :: capabilities where
  "fixture_capabilities = \<lparr>cap_commits = True, cap_localEdits = None, cap_forceWithLease = Some True,
     cap_amend = Some True, cap_createBranch = Some True, cap_deleteBranch = Some True\<rparr>"

definition fixture_adapter :: "string comparator \<Rightarrow> fixture adapter" where
  "fixture_adapter collate = \<lparr>
     ad_capabilities = fixture_capabilities,
     ad_getRepository = askS (\<lambda>fx. andThen (fault_before M_getRepository fx) (\<lambda>_. Inr (fx_info fx))),
     ad_readDirectory = (\<lambda>fx revision path. fixture_read M_readDirectory fx
       (andThen (view_readDirectory collate fx revision path) (\<lambda>es. Inr (JArr (map entry_js es))))),
     ad_readFile = (\<lambda>fx revision path. fixture_read M_readFile fx (view_readFile fx revision path)),
     ad_getBranches = askS (\<lambda>fx. andThen (fault_before M_getBranches fx) (\<lambda>_.
       Inr (view_getBranches collate fx))),
     ad_getCommits = (\<lambda>request. askS (\<lambda>fx. andThen (fault_before M_getCommits fx) (\<lambda>_.
       view_getCommits fx request))),
     ad_getCommitChanges = (\<lambda>revision. askS (\<lambda>fx. andThen (fault_before M_getCommitChanges fx) (\<lambda>_.
       view_getCommitChanges fx revision))),
     ad_commit = Some (\<lambda>request. bindS (askS (fault_before M_commit)) (\<lambda>_. engine_execute request)),
     ad_createBranch = Some (\<lambda>name revision. bindS (askS (fault_before M_createBranch)) (\<lambda>_.
       fixture_createBranch name revision)),
     ad_deleteBranch = Some (\<lambda>name. bindS (askS (fault_before M_deleteBranch)) (\<lambda>_.
       fixture_deleteBranch name))\<rparr>"

end
