(* ===== verification/FixtureServing.thy ===== *)
theory FixtureServing
  imports Fixture
begin

section \<open>The in-memory adapter serves its commits faithfully\<close>

text \<open>
  The interface \<open>served_revision\<close> on the definitions of the in-memory adapter: every commit whose
  files form a tree within the limits of the repository reader is served faithfully through the
  validation of the reader. The seeded repository of \<open>seed.ts\<close> gives the interpretation.
\<close>

definition servable :: "(path \<times> bytes) list \<Rightarrow> bool" where
  "servable fs \<longleftrightarrow> distinct (keys fs) \<and> file_tree (map_of fs) \<and> length fs \<le> MAX_DIRECTORY_ENTRIES \<and>
     list_all (\<lambda>(p, c). length p \<le> MAX_REPO_PATH_LENGTH \<and>
       list_all (\<lambda>s. length s \<le> MAX_REPO_PATH_SEGMENT_LENGTH \<and> CHR 0x00 \<notin> set s) (segs p) \<and>
       int (length c) \<le> max_safe_integer) fs"

subsection \<open>The entry a file contributes\<close>

lemma take_to_slash: "CHR ''/'' \<notin> set n \<Longrightarrow> takeWhile (\<lambda>c. c \<noteq> CHR ''/'') n = n"
  "CHR ''/'' \<notin> set n \<Longrightarrow> takeWhile (\<lambda>c. c \<noteq> CHR ''/'') (n @ CHR ''/'' # r) = n"
  by (induction n) auto

lemma segment_chars: "segment n \<Longrightarrow> CHR ''/'' \<notin> set n \<and> n \<noteq> []"
  by (auto simp: segment_def bad_segment_def)

lemma listing_entry_inside:
  assumes f: "canonical f" "f \<noteq> d" and d: "canonical d" and ins: "inside f d"
  shows "\<exists>n. segment n \<and> inside f (child_path d n) \<and> listing_entry d (f, c) =
    Some \<lparr>de_name = n, de_path = child_path d n,
      de_type = (if f = child_path d n then FileEntry else DirEntry),
      de_size = (if f = child_path d n then Some (length c) else None)\<rparr>"
proof -
  obtain n where n: "segment n" and inn: "inside f (child_path d n)"
    by (rule inside_proper_cases [OF f(1) d ins f(2)])
  let ?p = "if d = [] then [] else d @ ''/''"
  have child: "child_path d n = ?p @ n" by (simp add: child_path_def)
  note nc = segment_chars [OF n]
  have "same_or_child f (child_path d n)" using inn n by (simp add: inside_def)
  then consider "f = ?p @ n" | r where "f = ?p @ n @ CHR ''/'' # r"
    by (auto simp: same_or_child_def startsWith_def prefix_def child)
  then have "listing_entry d (f, c) = Some \<lparr>de_name = n, de_path = child_path d n,
      de_type = (if f = child_path d n then FileEntry else DirEntry),
      de_size = (if f = child_path d n then Some (length c) else None)\<rparr>"
  proof cases
    case 1
    have "prefix ?p (?p @ n)" by simp
    with 1 nc show ?thesis
      by (simp add: listing_entry_def Let_def startsWith_def child take_to_slash)
  next
    case 2
    have "prefix ?p (?p @ n @ CHR ''/'' # r)" by simp
    moreover have "f \<noteq> ?p @ n" using 2 by simp
    ultimately show ?thesis using 2 nc
      by (simp add: listing_entry_def Let_def startsWith_def child take_to_slash)
  qed
  with n inn show ?thesis by blast
qed

lemma listing_entry_outside:
  assumes "canonical f" "f \<noteq> []" and d: "canonical d" and "\<not> (inside f d \<and> f \<noteq> d)"
  shows "listing_entry d (f, c) = None"
proof -
  have "d \<noteq> []" using assms by auto
  moreover have "\<not> startsWith f (d @ ''/'')"
    using assms by (auto simp: inside_def same_or_child_def startsWith_def)
  ultimately show ?thesis by (simp add: listing_entry_def)
qed

lemma map_of_fold_entries:
  fixes g :: "'a \<Rightarrow> directory_entry option"
  assumes "M = fold (\<lambda>x m. case g x of None \<Rightarrow> m | Some e \<Rightarrow> AList.update (de_name e) e m) xs m0"
  shows "map_of M n = Some e \<Longrightarrow> (\<exists>x \<in> set xs. g x = Some e \<and> de_name e = n) \<or> map_of m0 n = Some e"
    and "(\<exists>x \<in> set xs. \<exists>e. g x = Some e \<and> de_name e = n) \<or> map_of m0 n \<noteq> None \<Longrightarrow> map_of M n \<noteq> None"
    and "distinct (keys m0) \<Longrightarrow> distinct (keys M)"
    and "length M \<le> length m0 + length xs"
  using assms
proof (induction xs arbitrary: m0)
  case (Cons x xs)
  case 1
  with Cons.IH(1) [of "case g x of None \<Rightarrow> m0 | Some e \<Rightarrow> AList.update (de_name e) e m0"] show ?case
    by (auto split: option.splits if_splits)
next
  case (Cons x xs)
  case 2
  with Cons.IH(2) [of "case g x of None \<Rightarrow> m0 | Some e \<Rightarrow> AList.update (de_name e) e m0"] show ?case
    by (auto split: option.splits if_splits)
next
  case (Cons x xs)
  case 3
  with Cons.IH(3) [of "case g x of None \<Rightarrow> m0 | Some e \<Rightarrow> AList.update (de_name e) e m0"] show ?case
    by (auto split: option.splits)
next
  case (Cons x xs)
  case 4
  have "length (AList.update k v m) \<le> Suc (length m)" for k and v :: directory_entry and m
    by (induction m) auto
  from this [of "de_name (the (g x))" "the (g x)" m0] 4
    Cons.IH(4) [of "case g x of None \<Rightarrow> m0 | Some e \<Rightarrow> AList.update (de_name e) e m0"] show ?case
    by (auto split: option.splits)
qed simp_all

text \<open>The listing of a directory of a commit, sorted, before it is turned into JavaScript values.\<close>

definition commit_listing :: "string comparator \<Rightarrow> (path \<times> bytes) list \<Rightarrow> path \<Rightarrow> directory_entry list" where
  "commit_listing collate fs d = sort_by (compareDirectoryEntries collate) (map snd
     (fold (\<lambda>file entries. case listing_entry d file of None \<Rightarrow> entries
        | Some e \<Rightarrow> AList.update (de_name e) e entries) fs []))"

lemma commit_listing_lists:
  assumes fs: "servable fs" and d: "canonical d"
  shows "lists (\<lambda>p. map_of fs p \<noteq> None) (is_dir (map_of fs)) d (commit_listing collate fs d)"
    and "length (commit_listing collate fs d) \<le> MAX_DIRECTORY_ENTRIES"
    and "e \<in> set (commit_listing collate fs d) \<Longrightarrow>
      \<exists>(f, c) \<in> set fs. canonical f \<and> inside f (de_path e) \<and> de_path e = child_path d (de_name e) \<and>
        de_size e = (if f = de_path e then Some (length c) else None) \<and> segment (de_name e)"
proof -
  let ?T = "map_of fs"
  define M where "M = fold (\<lambda>file entries. case listing_entry d file of None \<Rightarrow> entries
        | Some e \<Rightarrow> AList.update (de_name e) e entries) fs []"
  have es: "commit_listing collate fs d = sort_by (compareDirectoryEntries collate) (map snd M)"
    by (simp add: commit_listing_def M_def)
  note mf = map_of_fold_entries [OF M_def]
  from fs have dist: "distinct (keys fs)" and tree: "file_tree ?T" by (simp_all add: servable_def)
  have at: "?T f = Some c" if "(f, c) \<in> set fs" for f c using that dist by simp
  have from_file: "\<exists>c f n. (f, c) \<in> set fs \<and> canonical f \<and> f \<noteq> d \<and> inside f d \<and> e = \<lparr>de_name = n, de_path = child_path d n,
      de_type = (if f = child_path d n then FileEntry else DirEntry),
      de_size = (if f = child_path d n then Some (length c) else None)\<rparr> \<and> segment n \<and>
      inside f (child_path d n)"
    if fc: "(f, c) \<in> set fs" and le: "listing_entry d (f, c) = Some e" for f c e
  proof -
    have can: "canonical f" "f \<noteq> []" using file_treeD(1,2) [OF tree at [OF fc]] .
    then have ins: "inside f d \<and> f \<noteq> d" using listing_entry_outside [OF can d] le by fastforce
    with listing_entry_inside [OF can(1) _ d, of c] le fc can show ?thesis by fastforce
  qed
  have origin: "\<exists>c f. (f, c) \<in> set fs \<and> canonical f \<and> inside f (child_path d n) \<and> e = \<lparr>de_name = n, de_path = child_path d n,
      de_type = (if f = child_path d n then FileEntry else DirEntry),
      de_size = (if f = child_path d n then Some (length c) else None)\<rparr> \<and> segment n"
    if "map_of M n = Some e" for n e
  proof -
    from mf(1) [OF that] obtain f c where "(f, c) \<in> set fs" "listing_entry d (f, c) = Some e" "de_name e = n"
      by auto
    with from_file [OF this(1,2)] show ?thesis by force
  qed
  have dM: "distinct (keys M)" using mf(3) by simp
  have in_es: "e \<in> set (commit_listing collate fs d) \<longleftrightarrow> (\<exists>n. map_of M n = Some e)" for e
  proof -
    have "e \<in> set (commit_listing collate fs d) \<longleftrightarrow> (\<exists>n. (n, e) \<in> set M)" by (force simp: es)
    also have "\<dots> \<longleftrightarrow> (\<exists>n. map_of M n = Some e)"
      using map_of_is_SomeI [OF dM] map_of_SomeD by fast
    finally show ?thesis .
  qed
  have names: "map de_name (map snd M) = keys M"
  proof -
    have "de_name e = n" if "(n, e) \<in> set M" for n e
      using origin [OF map_of_is_SomeI [OF dM that]] by force
    then show ?thesis by auto
  qed
  have "distinct (map de_name (commit_listing collate fs d))"
    by (simp only: es distinct_map_sort_by names dM)
  moreover have seg: "segment (de_name e) \<and> de_path e = child_path d (de_name e)"
    if "e \<in> set (commit_listing collate fs d)" for e
    using that origin unfolding in_es by force
  ultimately have ok: "listing_ok d (commit_listing collate fs d)"
    by (simp add: listing_ok_def list_all_iff)
  have present: "map_of M n \<noteq> None" if n: "segment n" and f: "?T f \<noteq> None" "inside f (child_path d n)" for n f
  proof -
    from f obtain c where c: "(f, c) \<in> set fs" "?T f = Some c" by (auto dest: map_of_SomeD)
    have can: "canonical f" using file_treeD(1) [OF tree c(2)] .
    have ne: "f \<noteq> d"
    proof
      assume "f = d"
      with f(2) n d have "d = child_path d n" by (intro inside_antisym) simp_all
      with n show False by (metis child_path_neq)
    qed
    have "inside f d" using f(2) n inside_trans inside_child by blast
    from listing_entry_inside [OF can ne d this, of c] obtain n' where n': "segment n'"
      "inside f (child_path d n')" and le: "listing_entry d (f, c) = Some \<lparr>de_name = n', de_path = child_path d n',
      de_type = (if f = child_path d n' then FileEntry else DirEntry),
      de_size = (if f = child_path d n' then Some (length c) else None)\<rparr>" by blast
    have "prefix (segs d @ [n]) (segs f)" "prefix (segs d @ [n']) (segs f)"
      using f(2) n'(2) n n'(1) can d by (simp_all add: inside_def same_or_child_segs)
    then have "n' = n" by (auto simp: prefix_def)
    with le c(1) show ?thesis by (intro mf(2)) force
  qed
  have kind: "(\<exists>e \<in> set (commit_listing collate fs d). de_name e = n \<and> de_type e = t) \<longleftrightarrow>
      (if t = FileEntry then ?T (child_path d n) \<noteq> None else is_dir ?T (child_path d n))"
    if n: "segment n" for n t
  proof -
    have "(\<exists>e \<in> set (commit_listing collate fs d). de_name e = n \<and> de_type e = t) \<longleftrightarrow>
        (\<exists>e. map_of M n = Some e \<and> de_type e = t)"
      unfolding Bex_def in_es using origin by force
    also have "\<dots> \<longleftrightarrow> (if t = FileEntry then ?T (child_path d n) \<noteq> None else is_dir ?T (child_path d n))"
    proof
      assume "\<exists>e. map_of M n = Some e \<and> de_type e = t"
      then obtain e where e: "map_of M n = Some e" "de_type e = t" by blast
      from origin [OF e(1)] e(2) at obtain f c where "?T f = Some c" "inside f (child_path d n)"
        "t = (if f = child_path d n then FileEntry else DirEntry)" by fastforce
      then show "if t = FileEntry then ?T (child_path d n) \<noteq> None else is_dir ?T (child_path d n)"
        using is_dir_of_file [OF tree] by (auto split: if_splits)
    next
      assume t: "if t = FileEntry then ?T (child_path d n) \<noteq> None else is_dir ?T (child_path d n)"
      have "\<exists>q. ?T q \<noteq> None \<and> inside q (child_path d n) \<and> (t = FileEntry \<longleftrightarrow> q = child_path d n)"
        using t n by (cases t) (auto simp: is_dir_def inside_def dom_def)
      then obtain q where q: "?T q \<noteq> None" "inside q (child_path d n)" "t = FileEntry \<longleftrightarrow> q = child_path d n"
        by blast
      from present [OF n q(1,2)] obtain e where e: "map_of M n = Some e" by blast
      from origin [OF e] at obtain f c where f: "?T f = Some c" "inside f (child_path d n)"
        "de_type e = (if f = child_path d n then FileEntry else DirEntry)" by fastforce
      have "f = child_path d n \<longleftrightarrow> q = child_path d n"
        using f q n file_treeD(3) [OF tree, of "child_path d n"] by (auto simp: inside_def)
      with f(3) q(3) have "de_type e = t" by (cases t) auto
      with e show "\<exists>e. map_of M n = Some e \<and> de_type e = t" by blast
    qed
    finally show ?thesis .
  qed
  show "lists (\<lambda>p. ?T p \<noteq> None) (is_dir ?T) d (commit_listing collate fs d)"
    unfolding lists_def using ok kind [of _ FileEntry] kind [of _ DirEntry] by simp
  show "length (commit_listing collate fs d) \<le> MAX_DIRECTORY_ENTRIES"
    using mf(4) fs by (simp add: es servable_def)
  show "\<exists>(f, c) \<in> set fs. canonical f \<and> inside f (de_path e) \<and> de_path e = child_path d (de_name e) \<and>
        de_size e = (if f = de_path e then Some (length c) else None) \<and> segment (de_name e)"
    if "e \<in> set (commit_listing collate fs d)"
    using that origin unfolding in_es by fastforce
qed

subsection \<open>The listing passes the validation of the reader\<close>

definition entry_within_limits :: "path \<Rightarrow> directory_entry \<Rightarrow> bool" where
  "entry_within_limits d e \<longleftrightarrow> segment (de_name e) \<and> de_path e = child_path d (de_name e) \<and>
     length (de_name e) \<le> MAX_REPO_PATH_SEGMENT_LENGTH \<and> CHR 0x00 \<notin> set (de_name e) \<and>
     length (de_path e) \<le> MAX_REPO_PATH_LENGTH \<and>
     (\<forall>n. de_size e = Some n \<longrightarrow> int n \<le> max_safe_integer)"

lemma validate_entry_js:
  assumes "entry_within_limits d e" and "de_name e \<notin> set names"
  shows "validate_entry d names (entry_js e) = Inr e"
proof -
  have seg: "segment (de_name e)" using assms by (simp add: entry_within_limits_def)
  have name: "validate_name names (JStr (de_name e)) = Inr (de_name e)"
    using assms seg canonical_segment [OF seg] segment_chars [OF seg]
    by (auto simp: validate_name_def entry_within_limits_def pure_form segment_def)
  have type: "validate_type (JStr (if de_type e = FileEntry then ''file'' else ''directory'')) = Inr (de_type e)"
    by (cases "de_type e") (simp_all add: validate_type_def)
  have size: "validate_size (case de_size e of None \<Rightarrow> JUndefined | Some n \<Rightarrow> jnat n) = Inr (de_size e)"
    using assms by (auto simp: validate_size_def jnat_def entry_within_limits_def split: option.splits)
  have get: "js_get (entry_js e) ''name'' = JStr (de_name e)"
    "js_get (entry_js e) ''type'' = JStr (if de_type e = FileEntry then ''file'' else ''directory'')"
    "js_get (entry_js e) ''size'' = (case de_size e of None \<Rightarrow> JUndefined | Some n \<Rightarrow> jnat n)"
    "is_record (entry_js e)"
    by (simp_all add: entry_js_def split: option.splits)
  show ?thesis
    unfolding validate_entry_def get name type size andThen_simps Let_def
    using assms(1) by (cases e) (auto simp: entry_within_limits_def entry_js_def)
qed

lemma validate_entries_js:
  "list_all (entry_within_limits d) es \<Longrightarrow> distinct (map de_name es) \<Longrightarrow>
     set (map de_name es) \<inter> set names = {} \<Longrightarrow> validate_entries d names (map entry_js es) = Inr es"
proof (induction es arbitrary: names)
  case (Cons e es)
  then show ?case by (simp add: validate_entry_js)
qed simp

lemma commit_listing_valid:
  assumes fs: "servable fs" and d: "canonical d"
  shows "validateDirectoryEntries d (JArr (map entry_js (commit_listing collate fs d))) =
    Inr (commit_listing collate fs d)"
proof -
  let ?es = "commit_listing collate fs d"
  note facts = commit_listing_lists [OF fs d, where collate = collate]
  have ok: "listing_ok d ?es" using facts(1) by (simp add: lists_def)
  have "entry_within_limits d e" if e: "e \<in> set ?es" for e
  proof -
    from facts(3) [OF e] obtain f c where fc: "(f, c) \<in> set fs" "canonical f" "inside f (de_path e)"
      and e': "de_path e = child_path d (de_name e)" "segment (de_name e)"
        "de_size e = (if f = de_path e then Some (length c) else None)" by blast
    have lim: "length f \<le> MAX_REPO_PATH_LENGTH" "int (length c) \<le> max_safe_integer"
      "list_all (\<lambda>s. length s \<le> MAX_REPO_PATH_SEGMENT_LENGTH \<and> CHR 0x00 \<notin> set s) (segs f)"
      using fs fc(1) by (auto simp: servable_def list_all_iff)
    have can: "canonical (de_path e)" "de_path e \<noteq> []" using e' d by simp_all
    with fc have "prefix (segs (de_path e)) (segs f)" by (simp add: inside_def same_or_child_segs)
    then have "de_name e \<in> set (segs f)" using e' by (auto simp: prefix_def)
    moreover have "length (de_path e) \<le> length f"
      using fc(3) can by (auto simp: inside_def same_or_child_def startsWith_def dest: prefix_length_le)
    ultimately show ?thesis using lim e' by (auto simp: entry_within_limits_def list_all_iff)
  qed
  then have "validate_entries d [] (map entry_js ?es) = Inr ?es"
    using ok by (intro validate_entries_js) (simp_all add: list_all_iff listing_ok_def)
  then show ?thesis using facts(2) by (simp add: validateDirectoryEntries_def)
qed

subsection \<open>Serving a commit\<close>

definition healthy :: "fixture \<Rightarrow> bool" where
  "healthy fx \<longleftrightarrow> fx_failures fx = [] \<and> fx_latencyMs fx < default_request_timeout_ms"

lemma fixture_read_healthy: "healthy fx \<Longrightarrow> withReadDeadline (fixture_read m fx r) = r"
  by (simp add: fixture_read_def fault_before_def healthy_def withReadDeadline_def)

abbreviation fixture_host :: "string comparator \<Rightarrow> fixture \<Rightarrow> host" where
  "fixture_host collate fx \<equiv> adapter_host collate (fixture_adapter collate) fx"

lemma startsWith_dir: "list_ex (\<lambda>f. startsWith f (d @ ''/'')) (keys fs) \<longleftrightarrow>
    (\<exists>q \<in> dom (map_of fs). same_or_child q d \<and> q \<noteq> d)"
proof -
  have "startsWith q (d @ ''/'') \<longleftrightarrow> same_or_child q d \<and> q \<noteq> d" for q
    by (auto simp: same_or_child_def startsWith_def prefix_def)
  then show ?thesis by (simp add: list_ex_iff dom_map_of_conv_image_fst)
qed

lemma fixture_serves:
  assumes healthy: "healthy fx" and commit: "map_of (fx_commits fx) rv = Some c"
    and fs: "servable (sc_files c)"
  shows "served_revision (fixture_host collate fx) rv (map_of (sc_files c))"
proof
  let ?fs = "sc_files c"
  let ?T = "map_of ?fs"
  have read: "rr_readFile (fixture_host collate fx) rv p = view_readFile fx rv p" if "canonical p" for p
    using healthy that
    by (simp add: rr_readFile_def adapter_host_def fixture_adapter_def fixture_read_healthy pure_form)
  have req: "requireCommit fx rv = Inr c" using commit by (simp add: requireCommit_def)
  show tree: "file_tree ?T" using fs by (simp add: servable_def)
  show "rr_readFile (fixture_host collate fx) rv p = Inr b" if "?T p = Some b" for p b
    using that file_treeD(1) [OF tree that]
    by (simp add: read view_readFile_def req pure_form)
  show "\<exists>e. rr_readFile (fixture_host collate fx) rv p = Inl e" if "canonical p" "?T p = None" for p
    using that by (simp add: read view_readFile_def req pure_form)
  have dir: "rr_readDirectory (fixture_host collate fx) rv d =
      (if d \<noteq> [] \<and> ?T d \<noteq> None then Inl invalid_request
       else if \<not> is_dir ?T d then Inl not_found else Inr (commit_listing collate ?fs d))"
    if d: "canonical d" for d
  proof -
    have mem: "d \<in> set (keys ?fs) \<longleftrightarrow> ?T d \<noteq> None" by (simp add: map_of_eq_None_iff)
    have "view_readDirectory collate fx rv d =
      (if d \<noteq> [] \<and> ?T d \<noteq> None then Inl invalid_request
       else if \<not> is_dir ?T d then Inl not_found else Inr (commit_listing collate ?fs d))"
      unfolding view_readDirectory_def req andThen_simps normalize_canonical [OF d] Let_def mem
        startsWith_dir is_dir_def commit_listing_def [symmetric] by auto
    then show ?thesis
      using healthy d commit_listing_valid [OF fs d, of collate]
      by (cases "d = []")
        (auto simp: rr_readDirectory_def adapter_host_def fixture_adapter_def fixture_read_healthy
          pure_form)
  qed
  show "\<exists>es. rr_readDirectory (fixture_host collate fx) rv d = Inr es \<and>
      lists (\<lambda>p. ?T p \<noteq> None) (is_dir ?T) d es" if "canonical d" "is_dir ?T d" for d
  proof -
    have "?T d = None" using that(2) file_treeD(4) [OF tree] by (cases "?T d") auto
    then show ?thesis using that commit_listing_lists(1) [OF fs that(1)] by (simp add: dir)
  qed
  show "rr_readDirectory (fixture_host collate fx) rv d = Inl not_found"
    if "canonical d" "\<not> is_dir ?T d" "?T d = None" for d
    using that by (simp add: dir)
  show "\<exists>e. rr_readDirectory (fixture_host collate fx) rv d = Inl e" if "?T d = Some b" for d b
    using that file_treeD(1,2) [OF tree that] by (simp add: dir)
qed

subsection \<open>The seeded repository\<close>

text \<open>\<open>TextEncoder\<close> on the ASCII literals of the seed.\<close>

definition encode_ascii :: "string \<Rightarrow> bytes" where
  "encode_ascii s = map (\<lambda>c. word_of_nat (of_char c)) s"

definition newline :: string where
  "newline = [CHR 0x0A]"

definition quoted :: "string \<Rightarrow> string" where
  "quoted s = CHR 0x27 # s @ [CHR 0x27]"

definition seedCommit :: "revision \<Rightarrow> revision list \<Rightarrow> string \<Rightarrow> (path \<times> bytes) list \<Rightarrow> stored_commit" where
  "seedCommit revision parents message files =
     \<lparr>sc_info = \<lparr>ci_revision = revision, ci_parents = parents, ci_message = message,
        ci_author = Some fixture_author,
        ci_authoredAt = Some (''2026-01-'' @
          padStart2 (string_of_nat (length revision + length parents + 1)) @ ''T00:00:00.000Z'')\<rparr>,
      sc_files = files\<rparr>"

definition c1Files :: "(path \<times> bytes) list" where
  "c1Files = [(''README.md'', encode_ascii (''# Fixture repository'' @ newline)),
     (''src/index.ts'', encode_ascii (''export const greeting = '' @ quoted ''hello'' @ '';'' @ newline)),
     (''assets/sample.bin'', [0, 1, 2, 127, 128, 255])]"

definition c2Files :: "(path \<times> bytes) list" where
  "c2Files = AList.update ''package.json'' (encode_ascii ([CHR 0x7B, CHR 0x22] @ ''name'' @ [CHR 0x22] @
     '':'' @ [CHR 0x22] @ ''fixture'' @ [CHR 0x22, CHR 0x7D] @ newline)) (cloneFiles c1Files)"

definition c3Files :: "(path \<times> bytes) list" where
  "c3Files = AList.update ''src/util.ts''
       (encode_ascii (''export const twice = (value: number) => value * 2;'' @ newline))
     (AList.update ''README.md''
       (encode_ascii (''# Fixture repository'' @ newline @ newline @ ''Main branch.'' @ newline))
       (cloneFiles c2Files))"

definition f1Files :: "(path \<times> bytes) list" where
  "f1Files = AList.update ''src/index.ts''
     (encode_ascii (''export const greeting = '' @ quoted ''feature'' @ '';'' @ newline)) (cloneFiles c2Files)"

definition f2Files :: "(path \<times> bytes) list" where
  "f2Files = AList.update ''src/feature.ts''
     (encode_ascii (''export const enabled = true;'' @ newline)) (cloneFiles f1Files)"

definition seed_commits :: "(revision \<times> stored_commit) list" where
  "seed_commits = [(''C1'', seedCommit ''C1'' [] ''Initial commit'' c1Files),
     (''C2'', seedCommit ''C2'' [''C1''] ''Add package metadata'' c2Files),
     (''C3'', seedCommit ''C3'' [''C2''] ''Update README and add utility'' c3Files),
     (''F1'', seedCommit ''F1'' [''C2''] ''Start feature'' f1Files),
     (''F2'', seedCommit ''F2'' [''F1''] ''Finish feature'' f2Files)]"

definition createFixtureRepository :: fixture where
  "createFixtureRepository = \<lparr>
     fx_info = \<lparr>ri_id = ''fixture/demo'', ri_name = ''Fixture Demo'', ri_defaultBranch = ''main'',
       ri_description = Some ''Deterministic repository used by Remotish tests.''\<rparr>,
     fx_commits = seed_commits,
     fx_branches = [(''main'', ''C3''), (''feature/test'', ''F2'')],
     fx_sequence = 100, fx_failures = [], fx_latencyMs = 0\<rparr>"

text \<open>A check of \<open>servable\<close> that can be evaluated.\<close>

definition tree_check :: "(path \<times> bytes) list \<Rightarrow> bool" where
  "tree_check fs \<longleftrightarrow> list_all (\<lambda>(p, c). p \<noteq> [] \<and> list_all segment (segs p)) fs \<and>
     list_all (\<lambda>(p, c). list_all (\<lambda>(q, c). same_or_child q p \<longrightarrow> q = p) fs) fs"

lemma tree_check: "tree_check fs \<Longrightarrow> file_tree (map_of fs)"
  unfolding tree_check_def file_tree_def stored_path_def canonical_segs list_all_iff
  by (auto dest!: map_of_SomeD)

lemma segs_code [code]: "segs p = (if p = [] then [] else split_on CHR ''/'' p)"
  by (rule segs_def)

lemma c3_servable: "servable c3Files"
proof -
  have "tree_check c3Files"
    by code_simp
  moreover have "distinct (keys c3Files) \<and> length c3Files \<le> MAX_DIRECTORY_ENTRIES \<and>
     list_all (\<lambda>(p, c). length p \<le> MAX_REPO_PATH_LENGTH \<and>
       list_all (\<lambda>s. length s \<le> MAX_REPO_PATH_SEGMENT_LENGTH \<and> CHR 0x00 \<notin> set s) (segs p) \<and>
       int (length c) \<le> max_safe_integer) c3Files"
    by code_simp
  ultimately show ?thesis using tree_check by (simp add: servable_def)
qed

lemma seed_commit: "map_of (fx_commits createFixtureRepository) ''C3'' =
    Some (seedCommit ''C3'' [''C2''] ''Update README and add utility'' c3Files)"
proof -
  have "fx_commits createFixtureRepository = seed_commits"
    unfolding createFixtureRepository_def by (rule fixture.select_convs(2))
  then show ?thesis by (simp only:) (simp add: seed_commits_def)
qed

lemma seed_healthy: "healthy createFixtureRepository"
  by (simp add: healthy_def createFixtureRepository_def default_request_timeout_ms_def)

lemma seed_files: "sc_files (seedCommit revision parents message files) = files"
  by (simp add: seedCommit_def)

interpretation c3: served_revision "fixture_host collate createFixtureRepository" "''C3''" "map_of c3Files"
  for collate
  using fixture_serves [OF seed_healthy seed_commit] c3_servable unfolding seed_files .

end
