(* ===== verification/FixtureEngine.thy ===== *)
theory FixtureEngine
  imports Fixture
begin

section \<open>Publication in the fixture repository\<close>

text \<open>
  Facts about the commit engine and the branch service of \<open>packages/adapter-fixture/src\<close>. The
  invariant \<open>fixture_inv\<close> says that commits are stored under their own revision, that the numbers
  not yet used name no commit, that every branch points to a commit and that the parents of a commit
  were stored before it. Every operation keeps it and never changes a stored commit.
\<close>

subsection \<open>Revision names are fresh\<close>

lemma string_of_nat_nonempty [simp]: "string_of_nat n \<noteq> []"
  by (subst string_of_nat.simps) simp

lemma digits_value_snoc: "digits_value (s @ [c]) = 10 * digits_value s + (of_char c - 48)"
  by (simp add: digits_value_def)

lemma digit_char: "n < 10 \<Longrightarrow> (of_char (char_of (48 + n) :: char) :: nat) = 48 + n"
  by (simp add: of_char_of)

lemma digits_value_string_of_nat: "digits_value (string_of_nat n) = n"
proof (induction n rule: string_of_nat.induct)
  case (1 n)
  show ?case
  proof (cases "n < 10")
    case True
    then show ?thesis
      using digit_char [OF True] by (simp add: string_of_nat.simps [of n] digits_value_def)
  next
    case False
    then have "string_of_nat n = string_of_nat (n div 10) @ [char_of (48 + n mod 10)]"
      by (simp add: string_of_nat.simps [of n])
    with 1 False digit_char [of "n mod 10"] show ?thesis by (simp add: digits_value_snoc)
  qed
qed

lemma string_of_nat_inject [simp]: "string_of_nat m = string_of_nat n \<longleftrightarrow> m = n"
  by (metis digits_value_string_of_nat)

definition fixture_revision :: "nat \<Rightarrow> revision" where
  "fixture_revision n = ''fixture-'' @ string_of_nat n"

lemma fixture_revision_inject [simp]: "fixture_revision m = fixture_revision n \<longleftrightarrow> m = n"
  by (simp add: fixture_revision_def)

lemma fixture_revision_nonempty [simp]: "fixture_revision n \<noteq> []"
  by (simp add: fixture_revision_def)

subsection \<open>The invariant of the repository\<close>

fun parents_before :: "revision list \<Rightarrow> (revision \<times> stored_commit) list \<Rightarrow> bool" where
  "parents_before older [] \<longleftrightarrow> True"
| "parents_before older ((r, c) # cs) \<longleftrightarrow>
     ci_revision (sc_info c) = r \<and> r \<noteq> [] \<and> set (ci_parents (sc_info c)) \<subseteq> set older \<and>
     distinct (keys (sc_files c)) \<and> parents_before (r # older) cs"

definition fixture_inv :: "fixture \<Rightarrow> bool" where
  "fixture_inv fx \<longleftrightarrow> distinct (keys (fx_commits fx)) \<and> parents_before [] (fx_commits fx) \<and>
     (\<forall>n \<ge> fx_sequence fx. fixture_revision n \<notin> set (keys (fx_commits fx))) \<and>
     (\<forall>(b, r) \<in> set (fx_branches fx). r \<in> set (keys (fx_commits fx))) \<and> distinct (keys (fx_branches fx))"

lemma parents_before_append:
  "parents_before older (cs @ ds) \<longleftrightarrow> parents_before older cs \<and> parents_before (rev (keys cs) @ older) ds"
  by (induction older cs rule: parents_before.induct) (simp_all add: conj_ac)

lemma parents_before_member:
  assumes "parents_before older cs" and "(r, c) \<in> set cs"
  shows "ci_revision (sc_info c) = r" "r \<noteq> []"
    "set (ci_parents (sc_info c)) \<subseteq> set older \<union> set (keys cs)" "distinct (keys (sc_files c))"
  using assms
proof (induction cs arbitrary: older)
  case (Cons x cs)
  obtain r' c' where x: "x = (r', c')" by fastforce
  { case 1 with Cons.IH(1) [of "r' # older"] x show ?case by auto }
  { case 2 with Cons.IH(2) [of "r' # older"] x show ?case by auto }
  { case 3 with Cons.IH(3) [of "r' # older"] x show ?case by auto }
  { case 4 with Cons.IH(4) [of "r' # older"] x show ?case by auto }
qed simp_all

lemma parents_before_take:
  "parents_before older cs \<Longrightarrow> (r, c) \<in> set (take (Suc k) cs) \<Longrightarrow>
     set (ci_parents (sc_info c)) \<subseteq> set older \<union> set (keys (take k cs))"
proof (induction cs arbitrary: older k)
  case (Cons x cs)
  obtain r' c' where x: "x = (r', c')" by fastforce
  with Cons.prems show ?case
    using Cons.IH [of "r' # older" "k - 1"] by (cases k) auto
qed simp

lemma requireCommit_Inr [simp]: "requireCommit fx r = Inr c \<longleftrightarrow> map_of (fx_commits fx) r = Some c"
  by (auto simp: requireCommit_def split: option.splits)

lemma requireCommit_Inl: "map_of (fx_commits fx) r = None \<Longrightarrow> requireCommit fx r = Inl not_found"
  by (simp add: requireCommit_def)

lemma fixture_inv_commit:
  assumes "fixture_inv fx" "map_of (fx_commits fx) r = Some c"
  shows "ci_revision (sc_info c) = r" "r \<noteq> []"
    "set (ci_parents (sc_info c)) \<subseteq> set (keys (fx_commits fx))" "distinct (keys (sc_files c))"
proof -
  have "(r, c) \<in> set (fx_commits fx)" "parents_before [] (fx_commits fx)"
    using assms by (simp_all only: map_of_SomeD fixture_inv_def)
  from parents_before_member [OF this(2,1)]
  show "ci_revision (sc_info c) = r" "r \<noteq> []"
    "set (ci_parents (sc_info c)) \<subseteq> set (keys (fx_commits fx))" "distinct (keys (sc_files c))"
    by simp_all
qed

lemma fixture_inv_branch:
  assumes "fixture_inv fx" "map_of (fx_branches fx) b = Some r"
  shows "r \<noteq> []" and "\<exists>c. map_of (fx_commits fx) r = Some c"
proof -
  have "r \<in> set (keys (fx_commits fx))"
    using assms map_of_SomeD [OF assms(2)] unfolding fixture_inv_def by blast
  then show "\<exists>c. map_of (fx_commits fx) r = Some c"
    by (metis map_of_eq_None_iff not_None_eq set_map)
  with fixture_inv_commit(2) [OF assms(1)] show "r \<noteq> []" by blast
qed

subsection \<open>Storing and publishing\<close>

lemma update_member: "(k', v') \<in> set (AList.update k v al) \<Longrightarrow> v' = v \<or> (k', v') \<in> set al"
  by (induction al) (auto split: if_splits)

text \<open>What a publication does: one new commit under a fresh revision, one branch moved to it.\<close>

definition published_commit :: "fixture \<Rightarrow> branch_name \<Rightarrow> revision list \<Rightarrow> (path \<times> bytes) list \<Rightarrow>
    commit_result \<Rightarrow> fixture \<Rightarrow> bool" where
  "published_commit fx b parents files result fx' \<longleftrightarrow>
     (let r = fixture_revision (fx_sequence fx) in
      \<exists>c. sc_files c = files \<and> ci_parents (sc_info c) = parents \<and> ci_revision (sc_info c) = r \<and>
        result = CommitSuccess r (sc_info c) \<and>
        fx_commits fx' = fx_commits fx @ [(r, c)] \<and>
        fx_branches fx' = AList.update b r (fx_branches fx) \<and>
        fx_sequence fx' = Suc (fx_sequence fx) \<and> fx_info fx' = fx_info fx \<and>
        fx_failures fx' = fx_failures fx \<and> fx_latencyMs fx' = fx_latencyMs fx)"

lemma store_publish:
  assumes "fixture_inv fx" and "store_commit parents message files fx = (stored, fx1)"
    and "publish b stored fx1 = (r, fx')"
  shows "\<exists>result. r = Inr result \<and> published_commit fx b parents files result fx'"
proof -
  have "fixture_revision (fx_sequence fx) \<notin> fst ` set (fx_commits fx)"
    using assms(1) by (simp add: fixture_inv_def)
  with assms(2,3) show ?thesis
    by (auto simp: store_commit_def publish_def published_commit_def Let_def update_fresh
        fixture_revision_def fixture_success_def cloneCommitInfo_def)
qed

lemma published_inv:
  assumes inv: "fixture_inv fx" and pub: "published_commit fx b parents files result fx'"
    and parents: "set parents \<subseteq> set (keys (fx_commits fx))" and files: "distinct (keys files)"
  shows "fixture_inv fx'"
proof -
  let ?r = "fixture_revision (fx_sequence fx)"
  from pub obtain c where c: "sc_files c = files" "ci_parents (sc_info c) = parents" "ci_revision (sc_info c) = ?r"
    and commits: "fx_commits fx' = fx_commits fx @ [(?r, c)]"
    and branches: "fx_branches fx' = AList.update b ?r (fx_branches fx)"
    and seq: "fx_sequence fx' = Suc (fx_sequence fx)"
    by (auto simp: published_commit_def Let_def)
  have fresh: "?r \<notin> set (keys (fx_commits fx))" using inv by (simp add: fixture_inv_def)
  have "r' \<in> set (keys (fx_commits fx'))" if "(b', r') \<in> set (fx_branches fx')" for b' r'
    using update_member that [unfolded branches] inv unfolding fixture_inv_def commits by fastforce
  moreover have "parents_before [] (fx_commits fx')"
    using inv parents files c by (simp add: fixture_inv_def commits parents_before_append)
  moreover have "distinct (keys (fx_commits fx'))" using inv fresh by (simp add: fixture_inv_def commits)
  moreover have "fixture_revision n \<notin> set (keys (fx_commits fx'))" if "fx_sequence fx' \<le> n" for n
    using that inv by (auto simp: fixture_inv_def commits seq)
  moreover have "distinct (keys (fx_branches fx'))" using inv by (simp add: fixture_inv_def branches distinct_update)
  ultimately show ?thesis by (auto simp: fixture_inv_def)
qed

text \<open>The head a request expects, and the parents of the commit it makes.\<close>

definition expected_head :: "commit_request \<Rightarrow> revision" where
  "expected_head request = (case request of NormalCommitRequest b \<Rightarrow> cb_baseRevision b
     | ForceCommitRequest b lease \<Rightarrow> lease | AmendCommitRequest b lease \<Rightarrow> lease)"

definition new_parents :: "commit_request \<Rightarrow> stored_commit \<Rightarrow> revision list" where
  "new_parents request existing = (if is_amend request then ci_parents (sc_info existing)
     else [cb_baseRevision (cr_base request)])"

text \<open>The three outcomes of the engine.\<close>

lemma engine_execute_Inl:
  assumes "engine_execute request fx = (Inl e, fx')" shows "fx' = fx"
  using assms
  by (cases request) (auto simp: engine_execute_def Let_def bindS_apply createChild_def createAmended_def
      store_commit_def publish_def split: sum.splits option.splits if_splits)

lemma engine_execute_rejected:
  assumes "engine_execute request fx = (Inr (CommitRejected reason remote text), fx')"
  shows "fx' = fx" and "reason = REMOTE_CHANGED" and "map_of (fx_branches fx) (cb_branch (cr_base request)) = remote"
    and "remote \<noteq> Some (expected_head request)"
  using assms
  by (cases request; auto simp: engine_execute_def Let_def bindS_apply createChild_def createAmended_def
      store_commit_def publish_def fixture_success_def remoteChanged_def expected_head_def is_amend_def
      split: sum.splits option.splits if_splits)+

lemma engine_execute_success:
  assumes inv: "fixture_inv fx" and run: "engine_execute request fx = (Inr (CommitSuccess r c), fx')"
  shows "\<exists>existing files. map_of (fx_branches fx) (cb_branch (cr_base request)) = Some (expected_head request) \<and>
    map_of (fx_commits fx) (cb_baseRevision (cr_base request)) = Some existing \<and>
    applyChanges (sc_files existing) (cb_changes (cr_base request)) = Inr files \<and>
    published_commit fx (cb_branch (cr_base request)) (new_parents request existing) files
      (CommitSuccess r c) fx'"
proof -
  let ?b = "cb_branch (cr_base request)" and ?base = "cb_baseRevision (cr_base request)"
  obtain existing files parents stored fx1 where
    head: "map_of (fx_branches fx) ?b = Some (expected_head request)"
    and ex: "map_of (fx_commits fx) ?base = Some existing"
    and files: "applyChanges (sc_files existing) (cb_changes (cr_base request)) = Inr files"
    and store: "store_commit (new_parents request existing) (js_trim (cb_message (cr_base request))) files fx = (stored, fx1)"
    and pub: "publish ?b stored fx1 = (Inr (CommitSuccess r c), fx')"
    using run
    by (cases request; auto simp: engine_execute_def Let_def bindS_apply createChild_def createAmended_def
        remoteChanged_def expected_head_def is_amend_def new_parents_def cloneFiles_def
        split: sum.splits option.splits if_splits prod.splits)
  from store_publish [OF inv store pub] head ex files show ?thesis by auto
qed

subsection \<open>Every operation keeps the invariant and the stored commits\<close>

lemma applyChanges_distinct:
  assumes "applyChanges files cs = Inr files'" "distinct (keys files)" shows "distinct (keys files')"
proof -
  from assms(1) obtain seen where fold: "fold_res apply_change cs ([], files) = Inr (seen, files')"
    by (auto simp: applyChanges_def split: if_splits)
  have "distinct (keys (snd v))" if "apply_change x u = Inr v" "distinct (keys (snd u))" for x u v
    using that by (cases u; cases x; auto simp: apply_change_def Let_def distinct_update distinct_delete
        split: if_splits)
  with fold assms(2) have "distinct (keys (snd (seen, files')))"
    by (intro fold_res_invariant [OF fold, where P = "\<lambda>s. distinct (keys (snd s))"]) auto
  then show ?thesis by simp
qed

text \<open>An operation of the repository, whatever it answers.\<close>

inductive fixture_step :: "fixture \<Rightarrow> fixture \<Rightarrow> bool" where
  commit: "engine_execute request fx = (r, fx') \<Longrightarrow> fixture_step fx fx'"
| create: "fixture_createBranch name revision fx = (r, fx') \<Longrightarrow> fixture_step fx fx'"
| delete: "fixture_deleteBranch name fx = (r, fx') \<Longrightarrow> fixture_step fx fx'"
| move: "moveBranchHead name revision fx = (r, fx') \<Longrightarrow> fixture_step fx fx'"

lemma engine_step:
  assumes inv: "fixture_inv fx" and run: "engine_execute request fx = (r, fx')"
  shows "fixture_inv fx' \<and> map_of (fx_commits fx) \<subseteq>\<^sub>m map_of (fx_commits fx')"
proof -
  consider e where "r = Inl e" | a b c where "r = Inr (CommitRejected a b c)"
    | rv c where "r = Inr (CommitSuccess rv c)"
    by (cases r; cases "projr r") auto
  then show ?thesis
  proof cases
    case 1
    have "fx' = fx" using engine_execute_Inl run unfolding 1 by blast
    with inv show ?thesis by simp
  next
    case 2
    have "fx' = fx" using engine_execute_rejected(1) run unfolding 2 by blast
    with inv show ?thesis by simp
  next
    case 3
    with engine_execute_success [OF inv] run obtain existing files where
      ex: "map_of (fx_commits fx) (cb_baseRevision (cr_base request)) = Some existing"
      and files: "applyChanges (sc_files existing) (cb_changes (cr_base request)) = Inr files"
      and pub: "published_commit fx (cb_branch (cr_base request)) (new_parents request existing) files
        (CommitSuccess rv c) fx'" by blast
    have "distinct (keys files)" using applyChanges_distinct [OF files] fixture_inv_commit(4) [OF inv ex] .
    moreover have "set (new_parents request existing) \<subseteq> set (keys (fx_commits fx))"
      using fixture_inv_commit(3) [OF inv ex] imageI [OF map_of_SomeD [OF ex], of fst]
      by (simp add: new_parents_def)
    moreover have "map_of (fx_commits fx) \<subseteq>\<^sub>m map_of (fx_commits fx')"
      using pub by (auto simp: published_commit_def Let_def map_le_def)
    ultimately show ?thesis using published_inv [OF inv pub] by blast
  qed
qed

lemma branches_inv:
  assumes "fixture_inv fx" "distinct (keys bs)"
    and "\<And>b r. (b, r) \<in> set bs \<Longrightarrow> r \<in> set (keys (fx_commits fx))"
  shows "fixture_inv (fx\<lparr>fx_branches := bs\<rparr>)"
proof -
  have "\<forall>(b, r) \<in> set bs. r \<in> set (keys (fx_commits fx))" using assms(3) by blast
  moreover have "fx_commits (fx\<lparr>fx_branches := bs\<rparr>) = fx_commits fx"
    "fx_sequence (fx\<lparr>fx_branches := bs\<rparr>) = fx_sequence fx" "fx_branches (fx\<lparr>fx_branches := bs\<rparr>) = bs"
    by simp_all
  ultimately show ?thesis using assms(1,2) unfolding fixture_inv_def by (elim conjE) (intro conjI; simp only:)
qed

lemma set_head_inv:
  assumes inv: "fixture_inv fx" and r: "map_of (fx_commits fx) r = Some c"
  shows "fixture_inv (fx\<lparr>fx_branches := AList.update b r (fx_branches fx)\<rparr>)"
proof (rule branches_inv [OF inv])
  show "distinct (keys (AList.update b r (fx_branches fx)))"
    using inv by (simp add: fixture_inv_def distinct_update)
  show "r' \<in> set (keys (fx_commits fx))" if "(b', r') \<in> set (AList.update b r (fx_branches fx))" for b' r'
    using update_member [OF that] map_of_SomeD [OF r] inv unfolding fixture_inv_def by force
qed

lemma drop_branch_inv:
  assumes inv: "fixture_inv fx"
  shows "fixture_inv (fx\<lparr>fx_branches := AList.delete b (fx_branches fx)\<rparr>)"
proof (rule branches_inv [OF inv])
  show "distinct (keys (AList.delete b (fx_branches fx)))"
    using inv by (simp add: fixture_inv_def distinct_delete)
  show "r' \<in> set (keys (fx_commits fx))" if "(b', r') \<in> set (AList.delete b (fx_branches fx))" for b' r'
    using that set_delete_subset [of b "fx_branches fx"] inv unfolding fixture_inv_def by blast
qed

lemma fixture_step_inv:
  assumes "fixture_step fx fx'" "fixture_inv fx"
  shows "fixture_inv fx' \<and> map_of (fx_commits fx) \<subseteq>\<^sub>m map_of (fx_commits fx')"
  using assms
proof cases
  case (commit request r)
  then show ?thesis using engine_step assms(2) by blast
next
  case (create name revision r)
  then show ?thesis using assms(2) set_head_inv
    by (auto simp: fixture_createBranch_def bindS_apply modifyS_apply split: sum.splits if_splits)
next
  case (delete name r)
  then show ?thesis using assms(2) drop_branch_inv
    by (auto simp: fixture_deleteBranch_def bindS_apply modifyS_apply split: if_splits)
next
  case (move name revision r)
  then show ?thesis using assms(2) set_head_inv
    by (auto simp: moveBranchHead_def bindS_apply modifyS_apply split: sum.splits if_splits)
qed

lemma fixture_steps_inv:
  "fixture_step\<^sup>*\<^sup>* fx fx' \<Longrightarrow> fixture_inv fx \<Longrightarrow>
     fixture_inv fx' \<and> map_of (fx_commits fx) \<subseteq>\<^sub>m map_of (fx_commits fx')"
  by (induction rule: rtranclp_induct) (auto dest: fixture_step_inv intro: map_le_trans)

subsection \<open>Commit history and its pages\<close>

text \<open>The chain of first parents from a revision down to a commit without parents.\<close>

fun first_parent_chain :: "fixture \<Rightarrow> revision \<Rightarrow> commit_info list \<Rightarrow> bool" where
  "first_parent_chain fx r [] \<longleftrightarrow> False"
| "first_parent_chain fx r (info # history) \<longleftrightarrow>
     map_option sc_info (map_of (fx_commits fx) r) = Some info \<and>
     (case ci_parents info of [] \<Rightarrow> history = [] | p # _ \<Rightarrow> first_parent_chain fx p history)"

lemma history_terminates:
  assumes inv: "fixture_inv fx"
  shows "r \<in> set (keys (take k (fx_commits fx))) \<Longrightarrow>
    \<exists>history. firstParentHistory (k + extra) fx (Some r) = Inr history \<and> first_parent_chain fx r history"
proof (induction k arbitrary: r)
  case (Suc k)
  then obtain c where c: "(r, c) \<in> set (take (Suc k) (fx_commits fx))" by auto
  then have m: "map_of (fx_commits fx) r = Some c"
    using inv in_set_takeD [OF c] by (simp add: fixture_inv_def)
  have "parents_before [] (fx_commits fx)" using inv by (simp add: fixture_inv_def)
  from parents_before_take [OF this c]
  have parents: "set (ci_parents (sc_info c)) \<subseteq> set (keys (take k (fx_commits fx)))" by simp
  have "r \<noteq> []" by (rule fixture_inv_commit(2) [OF inv m])
  show ?case
  proof (cases "ci_parents (sc_info c)")
    case Nil
    then show ?thesis using m \<open>r \<noteq> []\<close> by (simp add: cloneCommitInfo_def requireCommit_def)
  next
    case (Cons p ps)
    with parents Suc.IH [of p] m \<open>r \<noteq> []\<close> show ?thesis
      by (auto simp: cloneCommitInfo_def requireCommit_def)
  qed
qed simp

lemma string_of_nat_digits: "c \<in> set (string_of_nat n) \<Longrightarrow> is_digit c"
proof (induction n rule: string_of_nat.induct)
  case (1 n)
  have digit: "is_digit (char_of (48 + m))" if "m < (10 :: nat)" for m
    using digit_char [OF that] that by (simp add: is_digit_def)
  show ?case
  proof (cases "n < 10")
    case True
    with 1 digit show ?thesis by (simp add: string_of_nat.simps [of n])
  next
    case False
    with 1 digit [of "n mod 10"] show ?thesis by (auto simp: string_of_nat.simps [of n])
  qed
qed

lemma is_digit_plain: "is_digit c \<Longrightarrow> \<not> js_space c \<and> c \<noteq> CHR ''-'' \<and> c \<noteq> CHR ''+''"
  by (auto simp: is_digit_def js_space_def)

text \<open>A cursor that the history page hands out is read back as the offset it stands for.\<close>

lemma cursor_roundtrip:
  assumes "int n \<le> max_safe_integer"
  shows "parseCursor (Some (string_of_nat n)) = Inr n"
proof -
  obtain d ds where s: "string_of_nat n = d # ds" by (cases "string_of_nat n") auto
  have digits: "\<forall>c \<in> set (d # ds). is_digit c" using string_of_nat_digits [of _ n] s by auto
  have d: "\<not> js_space d" "d \<noteq> CHR ''-''" "d \<noteq> CHR ''+''" using is_digit_plain digits by auto
  have tw: "takeWhile is_digit ds = ds" using digits by (simp add: takeWhile_eq_all_conv)
  have "parseInt10 (d # ds) = Some (int (digits_value (d # ds)))"
    using d digits by (simp add: parseInt10_def tw)
  then have "parseInt10 (string_of_nat n) = Some (int n)"
    using digits_value_string_of_nat [of n] s by simp
  with assms show ?thesis by (simp add: parseCursor_def)
qed

text \<open>A reader that follows the cursors from page to page.\<close>

fun follow_pages :: "nat \<Rightarrow> fixture \<Rightarrow> commit_query \<Rightarrow> commit_info list res" where
  "follow_pages 0 fx request = Inl OtherError"
| "follow_pages (Suc fuel) fx request = andThen (view_getCommits fx request) (\<lambda>page.
     case cp_nextCursor page of None \<Rightarrow> Inr (cp_commits page)
     | Some cursor \<Rightarrow> andThen (follow_pages fuel fx (request\<lparr>cq_cursor := Some cursor\<rparr>)) (\<lambda>rest.
         Inr (cp_commits page @ rest)))"

lemma resolveQuery_cursor [simp]:
  "resolveQueryRevision fx (request\<lparr>cq_cursor := c\<rparr>) = resolveQueryRevision fx request"
  by (simp add: resolveQueryRevision_def)

lemma firstParentHistory_length: "firstParentHistory fuel fx r = Inr history \<Longrightarrow> length history \<le> fuel"
  by (induction fuel fx r arbitrary: history rule: firstParentHistory.induct) (auto split: if_splits)

lemma follow_pages_from:
  assumes start: "resolveQueryRevision fx request = Inr r"
    and history: "firstParentHistory (length (fx_commits fx)) fx (Some r) = Inr history"
    and small: "int (length history) \<le> max_safe_integer" and limit: "0 < page_limit (cq_limit request)"
  shows "parseCursor cursor = Inr offset \<Longrightarrow> length history - offset < fuel \<Longrightarrow>
    follow_pages fuel fx (request\<lparr>cq_cursor := cursor\<rparr>) = Inr (drop offset history)"
proof (induction fuel arbitrary: cursor offset)
  case (Suc fuel)
  let ?k = "page_limit (cq_limit request)"
  let ?page = "take ?k (drop offset history)"
  have page: "view_getCommits fx (request\<lparr>cq_cursor := cursor\<rparr>) = Inr \<lparr>cp_commits = ?page,
      cp_nextCursor = (if offset + length ?page < length history
        then Some (string_of_nat (offset + length ?page)) else None)\<rparr>"
    using start history Suc.prems(1) by (simp add: view_getCommits_def Let_def)
  show ?case
  proof (cases "offset + length ?page < length history")
    case False
    then have "?page = drop offset history" by (auto simp: min_def split: if_splits)
    with False page show ?thesis by simp
  next
    case True
    let ?next = "offset + length ?page"
    have len: "length ?page = ?k" using True by auto
    have "parseCursor (Some (string_of_nat ?next)) = Inr ?next"
      using True small by (intro cursor_roundtrip) linarith
    moreover have "length history - ?next < fuel" using Suc.prems(2) limit True len by linarith
    ultimately have "follow_pages fuel fx (request\<lparr>cq_cursor := Some (string_of_nat ?next)\<rparr>) =
      Inr (drop ?next history)" by (rule Suc.IH)
    moreover have "?page @ drop ?next history = drop offset history"
      using len by (metis append_take_drop_id drop_drop add.commute)
    ultimately show ?thesis using True page by simp
  qed
qed simp

end
