(* ===== verification/MutationOutcome.thy ===== *)
theory MutationOutcome
  imports MutationFacts
begin

section \<open>When a mutation succeeds\<close>

text \<open>
  The effect lemmas say what a mutation has done when it returns. Here is when it returns: over a
  faithfully served base revision the reads of a mutation do not fail in a visible directory, so
  whether it succeeds depends on the visible tree alone.
\<close>

context served_revision
begin

lemma dir_no_file:
  assumes "overlay_ok F ov" "canonical d" "kind_at F ov d = Some DirEntry"
  shows "F d = None"
  using assms overlay_okD(7) [OF assms(1), of d] treeD [of "[]"]
  by (cases "F d") (auto simp: kind_at_def split: if_splits)

lemma tryStat_total:
  assumes "canonical p" "F (parent_of p) = None"
  shows "\<exists>r. rr_tryStat h rv p = Inr r"
proof -
  consider "F p \<noteq> None" | "is_dir F p" | "F p = None" "\<not> is_dir F p" by blast
  then show ?thesis
  proof cases
    case 1
    then show ?thesis using tryStat_file by blast
  next
    case 2
    then show ?thesis using tryStat_dir [OF assms(1)] by blast
  next
    case 3
    then show ?thesis using stat_missing [OF assms(1) 3 assms(2)]
      by (simp add: rr_tryStat_def or_undefined_def)
  qed
qed

lemma tryReadBase_total:
  assumes "canonical p" "F (parent_of p) = None"
  shows "tryReadBase h rv p = Inr (F p)"
proof -
  obtain r where r: "rr_tryStat h rv p = Inr r" using tryStat_total [OF assms] by blast
  show ?thesis
  proof (cases "F p")
    case None
    then have "\<nexists>s. r = Some s \<and> st_type s = FileEntry" using tryStat_Inr(1) [OF assms(1) r] by simp
    with r None show ?thesis by (auto simp: tryReadBase_def split: option.splits)
  next
    case (Some c)
    then obtain s where "r = Some s" "st_type s = FileEntry" using tryStat_Inr(1) [OF assms(1) r] by blast
    with r Some read_file show ?thesis by (simp add: tryReadBase_def)
  qed
qed

lemma mu_tryStat_total:
  assumes ok: "overlay_ok F ov" and p: "canonical p" "p \<noteq> []"
    and parent: "kind_at F ov (parent_of p) = Some DirEntry"
  shows "\<exists>r. mu_tryStat h rv ov p = Inr r"
proof -
  have "F (parent_of p) = None" using dir_no_file [OF ok _ parent] p by simp
  then obtain r where "rr_tryStat h rv p = Inr r" using tryStat_total p by blast
  then show ?thesis
    unfolding mu_tryStat_def wt_stat_pure [OF overlay_okD(1) [OF ok] p] rr_tryStat_def
    by (auto simp: or_undefined_def split: option.splits)
qed

text \<open>
  \<open>writeFile\<close> succeeds exactly when the parent is a visible directory, the path is not one, and the
  options allow what is to be done; when it fails the overlay is as before.
\<close>

lemma writeFile_outcome:
  assumes ok: "overlay_ok F ov" and norm: "normalizeRepoPath path = Inr p" "p \<noteq> []"
  shows "fst (mu_writeFile h rv path content create overwrite ov) = Inr () \<longleftrightarrow>
    kind_at F ov (parent_of p) = Some DirEntry \<and> kind_at F ov p \<noteq> Some DirEntry \<and>
    (if kind_at F ov p = None then create else overwrite)"
    (is "?run \<longleftrightarrow> ?parent \<and> ?rest")
proof -
  note wf = overlay_okD(1) [OF ok]
  have p: "canonical p" using norm normalize_result by blast
  have req: "requireNonRoot path = Inr p" using norm by (simp add: requireNonRoot_def)
  show ?thesis
  proof (cases ?parent)
    case True
    obtain r where r: "mu_tryStat h rv ov p = Inr r" using mu_tryStat_total [OF ok p norm(2) True] by blast
    have F: "F (parent_of p) = None" using dir_no_file [OF ok _ True] p norm(2) by simp
    have par: "mu_requireParent h rv p ov = Inr ()" by (rule mu_requireParent_dir [OF wf p norm(2) True])
    note kinds = mu_tryStat_Inr [OF wf p r]
    show ?thesis
      using True kinds(1) [of DirEntry] kinds(2) wf p norm(2)
      by (auto simp: mu_writeFile_def bindS_apply modifyS_apply req r par tryReadBase_total [OF p F] pure_form)
  next
    case False
    then show ?thesis
      using mu_requireParent_Inr [OF wf p norm(2)]
      by (cases "mu_writeFile h rv path content create overwrite ov")
        (auto simp: mu_writeFile_def st_Inr_iffs req)
  qed
qed

text \<open>\<open>createDirectory\<close> succeeds exactly at a free path of a visible directory.\<close>

lemma createDirectory_outcome:
  assumes ok: "overlay_ok F ov" and norm: "normalizeRepoPath path = Inr p" "p \<noteq> []"
  shows "fst (mu_createDirectory h rv path ov) = Inr () \<longleftrightarrow>
    kind_at F ov (parent_of p) = Some DirEntry \<and> kind_at F ov p = None"
    (is "?run \<longleftrightarrow> ?parent \<and> ?free")
proof -
  note wf = overlay_okD(1) [OF ok]
  have p: "canonical p" using norm normalize_result by blast
  have req: "requireNonRoot path = Inr p" using norm by (simp add: requireNonRoot_def)
  show ?thesis
  proof (cases ?parent)
    case True
    obtain r where r: "mu_tryStat h rv ov p = Inr r" using mu_tryStat_total [OF ok p norm(2) True] by blast
    have par: "mu_requireParent h rv p ov = Inr ()" by (rule mu_requireParent_dir [OF wf p norm(2) True])
    show ?thesis
      using True mu_tryStat_Inr(2) [OF wf p r] wf p norm(2)
      by (auto simp: mu_createDirectory_def bindS_apply modifyS_apply req r par pure_form)
  next
    case False
    then show ?thesis
      using mu_requireParent_Inr [OF wf p norm(2)]
      by (cases "mu_createDirectory h rv path ov") (auto simp: mu_createDirectory_def st_Inr_iffs req)
  qed
qed

text \<open>\<open>deleteFileInternal\<close> does not fail below a visible directory, nor does a loop of it.\<close>

lemma deleteFile_total:
  assumes "overlay_wf ov" "canonical p" "p \<noteq> []" "F (parent_of p) = None"
  shows "\<exists>ov'. mu_deleteFileInternal h rv p ov = (Inr (), ov') \<and> overlay_wf ov'"
proof -
  obtain r where "rr_tryStat h rv p = Inr r" using tryStat_total assms by blast
  then show ?thesis
    using assms
    by (auto simp: mu_deleteFileInternal_def bindS_apply modifyS_apply stored_path_def pure_form)
qed

lemma deleteFiles_total:
  assumes "\<And>p. p \<in> set files \<Longrightarrow> canonical p \<and> p \<noteq> [] \<and> F (parent_of p) = None"
  shows "overlay_wf ov \<Longrightarrow>
    \<exists>ov'. forS files (mu_deleteFileInternal h rv) ov = (Inr (), ov') \<and> overlay_wf ov'"
  by (rule forS_total) (use assms deleteFile_total in blast)+

lemma entries_empty_iff:
  assumes "lists fileP dirP d es" "canonical d"
  shows "es = [] \<longleftrightarrow> (\<forall>n. segment n \<longrightarrow> \<not> fileP (child_path d n) \<and> \<not> dirP (child_path d n))"
proof (cases es)
  case Nil
  with assms show ?thesis by (simp add: lists_def)
next
  case (Cons e es')
  then have "segment (de_name e)" using assms listing_okD(1) [of d es e] by (simp add: lists_def)
  moreover from this have "fileP (child_path d (de_name e)) \<or> dirP (child_path d (de_name e))"
    using assms Cons unfolding lists_def by (cases "de_type e") auto
  ultimately show ?thesis using Cons by auto
qed

text \<open>
  \<open>delete\<close> succeeds on every visible file; on a directory it needs \<open>recursive\<close> or that nothing is in
  it, and that the traversal of the directory stays within its budget.
\<close>

lemma deleteInternal_outcome:
  assumes ok: "overlay_ok F ov" and p: "canonical p" "p \<noteq> []"
  shows "fst (mu_deleteInternal h rv p recursive ov) = Inr () \<longleftrightarrow>
    (case kind_at F ov p of None \<Rightarrow> False | Some FileEntry \<Rightarrow> True
     | Some DirEntry \<Rightarrow> (recursive \<or> (\<forall>n. segment n \<longrightarrow> kind_at F ov (child_path p n) = None)) \<and>
         (\<exists>files. listVisibleFiles (wt_stat h rv ov) (wt_readDirectory h rv ov) p = Inr files))"
proof -
  note wf = overlay_okD(1) [OF ok]
  show ?thesis
  proof (cases "wt_stat h rv ov p")
    case (Inl e)
    then show ?thesis using wt_stat_None [OF wf p(1) Inl]
      by (simp add: mu_deleteInternal_def bindS_apply)
  next
    case (Inr s)
    have kind: "kind_at F ov p = Some (st_type s)" using wt_stat_Inr [OF wf p(1) Inr] .
    have "kind_at F ov (parent_of p) = Some DirEntry"
      using kind_at_parent [OF ok tree p] kind by simp
    then have F: "F (parent_of p) = None" using dir_no_file [OF ok] p by simp
    show ?thesis
    proof (cases "st_type s")
      case FileEntry
      then show ?thesis
        using deleteFile_total [OF wf p F] Inr kind by (auto simp: mu_deleteInternal_def bindS_apply)
    next
      case DirEntry
      then have kd: "kind_at F ov p = Some DirEntry" using kind by simp
      obtain es where es: "wt_readDirectory h rv ov p = Inr es"
        and ls: "lists (\<lambda>p. kind_at F ov p = Some FileEntry) (\<lambda>p. kind_at F ov p = Some DirEntry) p es"
        using wt_readDirectory_lists [OF ok p(1) kd] by blast
      have "k \<noteq> Some FileEntry \<and> k \<noteq> Some DirEntry \<longleftrightarrow> k = None" for k
        by (cases k; cases "the k") auto
      then have empty: "es = [] \<longleftrightarrow> (\<forall>n. segment n \<longrightarrow> kind_at F ov (child_path p n) = None)"
        using entries_empty_iff [OF ls p(1)] by simp
      obtain b where b: "rr_tryStat h rv p = Inr b" using tryStat_total [OF p(1) F] by blast
      show ?thesis
      proof (cases "listVisibleFiles (wt_stat h rv ov) (wt_readDirectory h rv ov) p")
        case list: (Inl e)
        with Inr DirEntry kd es show ?thesis by (simp add: mu_deleteInternal_def bindS_apply)
      next
        case list: (Inr files)
        have "canonical q \<and> q \<noteq> [] \<and> F (parent_of q) = None" if "q \<in> set files" for q
        proof -
          from that listVisibleFiles_dir [OF ok p(1) kd list]
          have q: "canonical q" "visible F ov q \<noteq> None" by auto
          then have "q \<noteq> []" using visible_canonical [OF wf tree] by blast
          moreover have "kind_at F ov q \<noteq> None" using visible_file_kind [OF ok tree q(1)] q(2) by simp
          ultimately show ?thesis
            using kind_at_parent [OF ok tree q(1)] dir_no_file [OF ok] q(1) by simp
        qed
        from deleteFiles_total [OF this wf] obtain ov1
          where loop: "forS files (mu_deleteFileInternal h rv) ov = (Inr (), ov1)" "overlay_wf ov1" by blast
        show ?thesis
          using Inr DirEntry kd es list loop b p empty
          by (auto simp: mu_deleteInternal_def bindS_apply modifyS_apply pure_form)
      qed
    qed
  qed
qed

text \<open>
  \<open>rename\<close> of a file succeeds when the target lies in a visible directory and is free; with
  \<open>overwrite\<close> it also succeeds onto something that can be deleted and does not contain the source.
\<close>

lemma renameFile_total:
  assumes ok: "overlay_ok F ov" and src: "canonical src" "src \<noteq> []" and dst: "canonical dst" "dst \<noteq> []"
    and "visible F ov src = Some c"
  shows "\<exists>ov'. mu_renameFile h rv src dst ov = (Inr (), ov')"
proof -
  note wf = overlay_okD(1) [OF ok]
  have "wt_readFile h rv ov src = Inr c" using assms wt_readFile_visible [OF wf src(1)] by simp
  moreover have "kind_at F ov src \<noteq> None"
    using visible_file_kind [OF ok tree src(1)] assms by simp
  then have "F (parent_of src) = None"
    using kind_at_parent [OF ok tree src] dir_no_file [OF ok] src by simp
  then obtain ov1 where "mu_deleteFileInternal h rv src ov = (Inr (), ov1)" "overlay_wf ov1"
    using deleteFile_total [OF wf src] by blast
  ultimately show ?thesis
    using src dst by (auto simp: mu_renameFile_def bindS_apply modifyS_apply pure_form)
qed

lemma rename_file_outcome:
  assumes ok: "overlay_ok F ov" and norm: "normalizeRepoPath source = Inr src" "normalizeRepoPath target = Inr dst"
    and root: "src \<noteq> []" "dst \<noteq> []" and ne: "src \<noteq> dst" and isfile: "visible F ov src = Some c"
    and apart: "\<not> same_or_child dst src" "\<not> same_or_child src dst"
    and parent: "kind_at F ov (parent_of dst) = Some DirEntry"
  shows "fst (mu_rename h rv source target overwrite ov) = Inr () \<longleftrightarrow>
    kind_at F ov dst = None \<or> overwrite \<and> fst (mu_deleteInternal h rv dst True ov) = Inr ()"
proof -
  note wf = overlay_okD(1) [OF ok]
  have p: "canonical src" "canonical dst" using norm normalize_result by blast+
  have req: "requireNonRoot source = Inr src" "requireNonRoot target = Inr dst"
    using norm root by (simp_all add: requireNonRoot_def)
  obtain s where s: "wt_stat h rv ov src = Inr s" "st_type s = FileEntry"
    using wt_stat_kind [OF wf p(1), of FileEntry] visible_file_kind [OF ok tree p(1)] isfile by auto
  obtain t where t: "mu_tryStat h rv ov dst = Inr t" using mu_tryStat_total [OF ok p(2) root(2) parent] by blast
  have tn: "t = None \<longleftrightarrow> kind_at F ov dst = None" by (rule mu_tryStat_Inr(2) [OF wf p(2) t])
  have par: "mu_requireParent h rv dst ov = Inr ()" by (rule mu_requireParent_dir [OF wf p(2) root(2) parent])
  have run: "mu_rename h rv source target overwrite ov =
    (if t \<noteq> None \<and> \<not> overwrite then (Inl invalid_request, ov)
     else bindS (if t \<noteq> None then mu_deleteInternal h rv dst True else returnS ())
       (\<lambda>_. mu_renameFile h rv src dst) ov)"
    using p root ne apart s t par
    by (simp add: mu_rename_def mu_renameChecked_def bindS_apply req pure_form)
  show ?thesis
  proof (cases "t = None")
    case True
    then show ?thesis
      using renameFile_total [OF ok p(1) root(1) p(2) root(2) isfile] run tn by (auto simp: bindS_apply)
  next
    case False
    obtain r ov1 where del: "mu_deleteInternal h rv dst True ov = (r, ov1)" by fastforce
    show ?thesis
    proof (cases r)
      case (Inl e)
      with False del run tn show ?thesis by (simp add: bindS_apply)
    next
      case (Inr u)
      note eff = deleteInternal_effect [OF ok p(2) root(2) del [unfolded Inr]]
      have "visible F ov1 src = Some c" using eff(2) apart(2) isfile by simp
      then show ?thesis
        using renameFile_total [OF eff(1) p(1) root(1) p(2) root(2)] False del Inr run tn
        by (auto simp: bindS_apply)
    qed
  qed
qed

end

text \<open>A write or a directory creation that fails has not touched the overlay.\<close>

lemma writeFile_atomic:
  assumes "overlay_wf ov" and "mu_writeFile h rv path content create overwrite ov = (Inl e, ov')"
  shows "ov' = ov"
proof (cases "requireNonRoot path")
  case (Inl e')
  with assms(2) show ?thesis by (simp add: mu_writeFile_def bindS_apply)
next
  case (Inr p)
  then have "canonical p" "p \<noteq> []" using requireNonRoot_Inr by blast+
  with assms Inr show ?thesis
    by (auto simp: mu_writeFile_def bindS_apply modifyS_apply pure_form split: sum.splits if_splits option.splits)
qed

lemma createDirectory_atomic:
  assumes "mu_createDirectory h rv path ov = (Inl e, ov')" shows "ov' = ov"
  using assms
  by (auto simp: mu_createDirectory_def bindS_apply modifyS_apply split: sum.splits if_splits)

end
