(* ===== verification/Publication.thy ===== *)
theory Publication
  imports FixtureServing FixtureEngine MutationOutcome
begin

section \<open>Publishing a working tree to the fixture repository\<close>

text \<open>
  The change set of \<open>packages/core/src/working-tree/change-set.ts\<close> meets the commit engine of
  \<open>packages/adapter-fixture/src/commit-engine.ts\<close>: the stored commit is the visible tree.
\<close>

lemma fold_res_total:
  assumes "\<And>x s. x \<in> set xs \<Longrightarrow> \<exists>t. f x s = Inr t"
  shows "\<exists>t. fold_res f xs s = Inr t"
  using assms
proof (induction xs arbitrary: s)
  case (Cons x xs)
  then obtain u where "f x s = Inr u" by force
  with Cons show ?case by simp
qed simp

context served_revision
begin

lemma deletedBaseFiles_none: "ov_deletedPaths ov = [] \<Longrightarrow> deletedBaseFiles h rv ov = Inr []"
  by (simp add: deletedBaseFiles_def overlay_listDeletedPaths_def)

text \<open>The commit changes can be computed when those of the deleted files can.\<close>

lemma buildAll_total:
  assumes ok: "overlay_ok F ov" and del: "deletedBaseFiles h rv ov = Inr ds"
  shows "\<exists>cs. buildAllCommitChanges h rv ov = Inr cs"
proof -
  have base: "tryReadBase h rv p = Inr (F p)" if "(p, c) \<in> set (overlay_listFiles (rd_collate h) ov)" for p c
  proof -
    from that overlay_wfD(7) [OF overlay_okD(1) [OF ok]] have "map_of (ov_files ov) p = Some c"
      by (simp add: overlay_listFiles_def)
    then have "kind_at F ov (parent_of p) = Some DirEntry" "canonical p"
      using overlay_okD(5) [OF ok] overlay_wfD(2) [OF overlay_okD(1) [OF ok]] by blast+
    then show ?thesis using dir_no_file [OF ok, of "parent_of p"] by (intro tryReadBase_total) auto
  qed
  have "\<exists>t. (\<lambda>(path, content) changes. andThen (tryReadBase h rv path) (\<lambda>baseContent. Inr (case baseContent of
             None \<Rightarrow> AList.update path (AddChange path content) changes
           | Some b \<Rightarrow> if equalBytes b content then changes
               else AList.update path (ModifyChange path content) changes))) x s = Inr t"
    if "x \<in> set (overlay_listFiles (rd_collate h) ov)" for x s
    using base that by (cases x) auto
  from fold_res_total [OF this] show ?thesis
    unfolding buildAllCommitChanges_def using del by fastforce
qed

end

text \<open>
  The whole way of a normal commit: the working tree over a commit, its changes, the engine. A
  branch that still points to the base moves to a new commit whose files are the visible tree.
\<close>

definition commit_of :: "branch_name \<Rightarrow> revision \<Rightarrow> string \<Rightarrow> change list \<Rightarrow> commit_request" where
  "commit_of b rv message changes = NormalCommitRequest
     \<lparr>cb_branch = b, cb_baseRevision = rv, cb_message = message, cb_changes = changes\<rparr>"

lemma commit_succeeds:
  assumes inv: "fixture_inv fx" and healthy: "healthy fx"
    and c: "map_of (fx_commits fx) rv = Some c" and fs: "servable (sc_files c)"
    and ok: "overlay_ok (map_of (sc_files c)) ov"
    and build: "buildCommitChanges (fixture_host collate fx) rv ov None = Inr cs"
    and head: "map_of (fx_branches fx) b = Some rv" and "cs \<noteq> []" "js_trim message \<noteq> []"
  shows "\<exists>files result fx'. engine_execute (commit_of b rv message cs) fx = (Inr result, fx') \<and>
    published_commit fx b [rv] files result fx' \<and> map_of files = visible (map_of (sc_files c)) ov"
proof -
  note served = fixture_serves [OF healthy c fs, of collate]
  have "buildAllCommitChanges (fixture_host collate fx) rv ov = Inr cs"
    using build by (auto simp: buildCommitChanges_def)
  from served_revision.applyChanges_visible [OF served ok this refl] fixture_inv_commit(4) [OF inv c]
  obtain files where files: "applyChanges (sc_files c) cs = Inr files"
    "map_of files = visible (map_of (sc_files c)) ov" by blast
  obtain stored fx1 where store: "store_commit [rv] (js_trim message) files fx = (stored, fx1)" by fastforce
  obtain r fx' where pub: "publish b stored fx1 = (r, fx')" by fastforce
  from store_publish [OF inv store pub] obtain result where
    result: "r = Inr result" "published_commit fx b [rv] files result fx'" by blast
  have "engine_execute (commit_of b rv message cs) fx = (Inr result, fx')"
    using assms(8,9) head c files(1) store pub result(1) fixture_inv_branch(1) [OF inv head]
    by (simp add: engine_execute_def commit_of_def Let_def bindS_apply createChild_def cloneFiles_def
        requireCommit_def)
  with result(2) files(2) show ?thesis by blast
qed

end
