(* ===== verification/PublishedRevision.thy ===== *)
theory PublishedRevision
  imports ChangeSet MutationOutcome
begin

section \<open>Moving a working tree to a published revision\<close>

text \<open>
  \<open>packages/core/src/working-tree/published-revision.ts\<close> and the operations of \<open>WorkingTree\<close> that
  move its base: after a full publication the overlay is dropped, after a partial one it is rebased
  on the published revision, and a clean tree is rebound. A rebase works on a copy of the overlay,
  so a read that fails leaves the tree as it was.
\<close>

definition rebaseOverlayAfterPartialPublish :: "host \<Rightarrow> revision \<Rightarrow> (overlay, unit) st" where
  "rebaseOverlayAfterPartialPublish h revision =
     bindS (askS (\<lambda>ov. Inr (overlay_listFiles (rd_collate h) ov))) (\<lambda>files.
     bindS (forS files (\<lambda>(path, content).
       bindS (askS (\<lambda>_. rr_tryStat h revision path)) (\<lambda>stat.
         if \<not> stat_is FileEntry stat then returnS ()
         else bindS (askS (\<lambda>_. rr_readFile h revision path)) (\<lambda>remote.
           if equalBytes remote content then modifyS (overlay_removeFile path) else returnS ())))) (\<lambda>_.
     bindS (askS (\<lambda>ov. Inr (overlay_listDirectories ov))) (\<lambda>directories.
     bindS (forS directories (\<lambda>directory.
       bindS (askS (\<lambda>_. rr_tryStat h revision directory)) (\<lambda>stat.
         if stat_is DirEntry stat then modifyS (overlay_removeDirectory directory)
         else returnS ()))) (\<lambda>_.
     bindS (askS (\<lambda>ov. Inr (overlay_listDeletedPaths ov))) (\<lambda>deletedPaths.
     bindS (forS deletedPaths (\<lambda>deleted.
       bindS (askS (\<lambda>_. rr_tryStat h revision deleted)) (\<lambda>stat.
         if stat = None then modifyS (overlay_unmarkDeleted deleted False) else returnS ()))) (\<lambda>_.
     bindS (askS (\<lambda>ov. Inr (overlay_listRenames ov))) (\<lambda>renames.
     forS renames (\<lambda>rename.
       bindS (askS (\<lambda>_. rr_tryStat h revision (rn_from rename))) (\<lambda>source.
       bindS (askS (\<lambda>_. rr_tryStat h revision (rn_to rename))) (\<lambda>target.
         if source = None \<and> target \<noteq> None
         then modifyS (overlay_removeRename (rn_from rename) (rn_to rename))
         else returnS ()))))))))))"

record working_tree_snapshot =
  ws_baseRevision :: revision
  ws_overlay :: overlay_snapshot

definition newWorkingTree :: "revision \<Rightarrow> overlay_snapshot option \<Rightarrow> working_tree res" where
  "newWorkingTree baseRevision snapshot = andThen (overlay_fromSnapshot snapshot) (\<lambda>ov.
     Inr \<lparr>wt_baseRevision = baseRevision, wt_overlay = ov\<rparr>)"

definition wt_snapshot :: "string comparator \<Rightarrow> working_tree \<Rightarrow> working_tree_snapshot" where
  "wt_snapshot collate wt = \<lparr>ws_baseRevision = wt_baseRevision wt,
     ws_overlay = overlay_snapshot_of collate (wt_overlay wt)\<rparr>"

definition acceptPublishedRevision :: "revision \<Rightarrow> working_tree \<Rightarrow> working_tree" where
  "acceptPublishedRevision revision wt =
     wt\<lparr>wt_baseRevision := revision, wt_overlay := overlay_clear (wt_overlay wt)\<rparr>"

definition acceptPartiallyPublishedRevision :: "host \<Rightarrow> revision \<Rightarrow> (working_tree, unit) st" where
  "acceptPartiallyPublishedRevision h revision = (\<lambda>wt.
     case overlay_fromSnapshot (Some (overlay_snapshot_of (rd_collate h) (wt_overlay wt))) of
       Inl e \<Rightarrow> (Inl e, wt)
     | Inr copy \<Rightarrow> (case rebaseOverlayAfterPartialPublish h revision copy of
           (Inl e, _) \<Rightarrow> (Inl e, wt)
         | (Inr _, rebased) \<Rightarrow>
             (case overlay_restore (overlay_snapshot_of (rd_collate h) rebased) (wt_overlay wt) of
               (r, restored) \<Rightarrow> (r, wt\<lparr>wt_baseRevision := revision, wt_overlay := restored\<rparr>))))"

definition rebindCleanBase :: "revision \<Rightarrow> (working_tree, unit) st" where
  "rebindCleanBase revision = (\<lambda>wt. if wt_hasChanges wt then (Inl invalid_request, wt)
     else (Inr (), wt\<lparr>wt_baseRevision := revision\<rparr>))"

text \<open>The paths an overlay names, and that none lies directly below a file of a tree.\<close>

definition own_paths :: "overlay \<Rightarrow> path set" where
  "own_paths ov = fst ` set (ov_files ov) \<union> set (ov_directories ov) \<union> set (ov_deletedPaths ov) \<union>
     rn_from ` set (ov_renames ov) \<union> rn_to ` set (ov_renames ov)"

definition settled :: "tree \<Rightarrow> overlay \<Rightarrow> bool" where
  "settled F ov \<longleftrightarrow> overlay_wf ov \<and> (\<forall>p \<in> own_paths ov. F (parent_of p) = None)"

subsection \<open>A rebase that finishes\<close>

text \<open>What each loop leaves, relative to the overlay it started from.\<close>

context served_revision
begin

definition rebased_files :: "overlay \<Rightarrow> (path \<times> bytes) list \<Rightarrow> overlay \<Rightarrow> bool" where
  "rebased_files ov0 rest ov \<longleftrightarrow> overlay_wf ov \<and> ov_directories ov = ov_directories ov0 \<and>
     ov_deletedPaths ov = ov_deletedPaths ov0 \<and> ov_renames ov = ov_renames ov0 \<and>
     list_all canonical (keys rest) \<and>
     (\<forall>(p, c) \<in> set rest. map_of (ov_files ov0) p = Some c) \<and>
     (\<forall>q. map_of (ov_files ov) q = map_of (ov_files ov0) q \<or>
        map_of (ov_files ov) q = None \<and> map_of (ov_files ov0) q = F q) \<and>
     (\<forall>q c. map_of (ov_files ov) q = Some c \<longrightarrow> (q, c) \<in> set rest \<or> F q \<noteq> Some c)"

lemma rebased_files_step:
  assumes inv: "rebased_files ov0 ((p, c) # rest) ov"
    and run: "bindS (askS (\<lambda>_. rr_tryStat h rv p)) (\<lambda>stat.
         if \<not> stat_is FileEntry stat then returnS ()
         else bindS (askS (\<lambda>_. rr_readFile h rv p)) (\<lambda>remote.
           if equalBytes remote c then modifyS (overlay_removeFile p) else returnS ())) ov = (Inr u, ov')"
  shows "rebased_files ov0 rest ov'"
proof -
  from inv have p: "canonical p" and pc: "map_of (ov_files ov0) p = Some c"
    by (simp_all add: rebased_files_def)
  from run obtain s where s: "rr_tryStat h rv p = Inr s" by (auto simp: bindS_ask_Inr_iff)
  note kind = tryStat_Inr(1) [OF p s, folded stat_is_iff]
  show ?thesis
  proof (cases "F p = Some c")
    case True
    with kind s run read_file [OF True] p have ov': "ov' = ov\<lparr>ov_files := AList.delete p (ov_files ov)\<rparr>"
      by (auto simp: bindS_ask_Inr_iff modifyS_Inr_iff pure_form)
    show ?thesis using inv True pc by (auto simp: rebased_files_def ov' split: if_splits)
  next
    case False
    have "ov' = ov"
    proof (cases "F p")
      case None
      with kind s run show ?thesis by (auto simp: bindS_ask_Inr_iff)
    next
      case (Some b)
      with kind s run read_file [OF Some] False show ?thesis by (auto simp: bindS_ask_Inr_iff)
    qed
    with inv False show ?thesis by (auto simp: rebased_files_def)
  qed
qed

lemma rebased_dirs_step:
  assumes "canonical d"
    and run: "bindS (askS (\<lambda>_. rr_tryStat h rv d)) (\<lambda>stat.
         if stat_is DirEntry stat then modifyS (overlay_removeDirectory d) else returnS ()) ov = (Inr u, ov')"
  shows "ov' = ov \<or> ov' = ov\<lparr>ov_directories := set_remove d (ov_directories ov)\<rparr> \<and> is_dir F d"
proof -
  from run obtain s where s: "rr_tryStat h rv d = Inr s" by (auto simp: bindS_ask_Inr_iff)
  note kind = tryStat_Inr(2) [OF assms(1) s, folded stat_is_iff]
  with run s assms(1) show ?thesis
    by (auto simp: bindS_ask_Inr_iff modifyS_Inr_iff pure_form split: if_splits)
qed

lemma rebased_deleted_step:
  assumes "canonical t" "overlay_wf ov"
    and run: "bindS (askS (\<lambda>_. rr_tryStat h rv t)) (\<lambda>stat.
         if stat = None then modifyS (overlay_unmarkDeleted t False) else returnS ()) ov = (Inr u, ov')"
  shows "ov' = (if F t = None \<and> \<not> is_dir F t
    then ov\<lparr>ov_deletedPaths := set_remove t (ov_deletedPaths ov)\<rparr> else ov)"
proof -
  from run obtain s where s: "rr_tryStat h rv t = Inr s" by (auto simp: bindS_ask_Inr_iff)
  note kind = tryStat_Inr(3) [OF assms(1) s]
  with run s assms(1,2) show ?thesis
    by (auto simp: bindS_ask_Inr_iff modifyS_Inr_iff pure_form split: if_splits)
qed

lemma rebased_rename_step:
  assumes "canonical (rn_from r)" "canonical (rn_to r)"
    and run: "bindS (askS (\<lambda>_. rr_tryStat h rv (rn_from r))) (\<lambda>source.
       bindS (askS (\<lambda>_. rr_tryStat h rv (rn_to r))) (\<lambda>target.
         if source = None \<and> target \<noteq> None
         then modifyS (overlay_removeRename (rn_from r) (rn_to r)) else returnS ())) ov = (Inr u, ov')"
  shows "ov' = ov \<or> (\<exists>P. ov' = ov\<lparr>ov_renames := remove_first P (ov_renames ov)\<rparr>)"
  using assms by (auto simp: bindS_ask_Inr_iff modifyS_Inr_iff pure_form split: if_splits)

lemma rebase_loops:
  assumes wf: "overlay_wf ov" and run: "rebaseOverlayAfterPartialPublish h rv ov = (Inr u, ov')"
  shows "overlay_wf ov'"
    and "map_of (ov_files ov') q = map_of (ov_files ov) q \<or>
      map_of (ov_files ov') q = None \<and> map_of (ov_files ov) q = F q"
    and "map_of (ov_files ov') q = Some c \<Longrightarrow> F q \<noteq> Some c"
    and "set (ov_directories ov') \<subseteq> set (ov_directories ov)"
    and "set (ov_deletedPaths ov') = {t \<in> set (ov_deletedPaths ov). F t \<noteq> None \<or> is_dir F t}"
proof -
  let ?fs = "overlay_listFiles (rd_collate h) ov"
  from run obtain ov1 ov2 ov3 where
    l1: "forS ?fs (\<lambda>(path, content). bindS (askS (\<lambda>_. rr_tryStat h rv path)) (\<lambda>stat.
         if \<not> stat_is FileEntry stat then returnS ()
         else bindS (askS (\<lambda>_. rr_readFile h rv path)) (\<lambda>remote.
           if equalBytes remote content then modifyS (overlay_removeFile path) else returnS ()))) ov
       = (Inr (), ov1)"
    and l2: "forS (overlay_listDirectories ov1) (\<lambda>d. bindS (askS (\<lambda>_. rr_tryStat h rv d)) (\<lambda>stat.
         if stat_is DirEntry stat then modifyS (overlay_removeDirectory d) else returnS ())) ov1
       = (Inr (), ov2)"
    and l3: "forS (overlay_listDeletedPaths ov2) (\<lambda>t. bindS (askS (\<lambda>_. rr_tryStat h rv t)) (\<lambda>stat.
         if stat = None then modifyS (overlay_unmarkDeleted t False) else returnS ())) ov2
       = (Inr (), ov3)"
    and l4: "forS (overlay_listRenames ov3) (\<lambda>r. bindS (askS (\<lambda>_. rr_tryStat h rv (rn_from r))) (\<lambda>source.
       bindS (askS (\<lambda>_. rr_tryStat h rv (rn_to r))) (\<lambda>target.
         if source = None \<and> target \<noteq> None
         then modifyS (overlay_removeRename (rn_from r) (rn_to r)) else returnS ()))) ov3 = (Inr u, ov')"
    unfolding rebaseOverlayAfterPartialPublish_def bindS_ask_Inr_iff bindS_Inr_iff by auto
  have fs: "distinct (keys ?fs)" using overlay_wfD(7) [OF wf] by (simp add: overlay_listFiles_def)
  have "rebased_files ov ?fs ov"
    using wf fs overlay_wfD(1,7) [OF wf]
    by (auto simp: rebased_files_def list_all_iff overlay_listFiles_def dest: map_of_SomeD)
  with l1 have "rebased_files ov [] ov1"
    by (rule forS_Inr_induct) (auto intro: rebased_files_step)
  then have s1: "overlay_wf ov1" "ov_deletedPaths ov1 = ov_deletedPaths ov"
      "ov_directories ov1 = ov_directories ov"
    and files: "\<And>q. map_of (ov_files ov1) q = map_of (ov_files ov) q \<or>
        map_of (ov_files ov1) q = None \<and> map_of (ov_files ov) q = F q"
    and fresh: "\<And>q c. map_of (ov_files ov1) q = Some c \<Longrightarrow> F q \<noteq> Some c"
    by (simp_all add: rebased_files_def)
  let ?P2 = "\<lambda>rest ov2. overlay_wf ov2 \<and> ov_files ov2 = ov_files ov1 \<and>
     ov_deletedPaths ov2 = ov_deletedPaths ov1 \<and> set (ov_directories ov2) \<subseteq> set (ov_directories ov1) \<and>
     list_all canonical rest"
  have "?P2 (overlay_listDirectories ov1) ov1"
    using s1 overlay_wfD(3) [OF s1(1)] by (auto simp: overlay_listDirectories_def list_all_iff)
  with l2 have s2: "?P2 [] ov2"
    by (rule forS_Inr_induct) (fastforce dest: rebased_dirs_step)
  let ?alive = "\<lambda>t. F t \<noteq> None \<or> is_dir F t"
  let ?P3 = "\<lambda>rest ov3. overlay_wf ov3 \<and> ov_files ov3 = ov_files ov2 \<and>
     set (ov_directories ov3) \<subseteq> set (ov_directories ov2) \<and> list_all canonical rest \<and> distinct rest \<and>
     set (ov_deletedPaths ov3) = {t \<in> set (ov_deletedPaths ov2). t \<in> set rest \<or> ?alive t}"
  have "?P3 (overlay_listDeletedPaths ov2) ov2"
    using s2 overlay_wfD(4,9) [of ov2] by (auto simp: overlay_listDeletedPaths_def list_all_iff)
  with l3 have s3: "?P3 [] ov3"
  proof (rule forS_Inr_induct)
    fix t ts o1 o2
    assume inv: "?P3 (t # ts) o1" and step: "bindS (askS (\<lambda>_. rr_tryStat h rv t)) (\<lambda>stat.
         if stat = None then modifyS (overlay_unmarkDeleted t False) else returnS ()) o1 = (Inr (), o2)"
    have "o2 = (if \<not> ?alive t then o1\<lparr>ov_deletedPaths := set_remove t (ov_deletedPaths o1)\<rparr> else o1)"
      using rebased_deleted_step [OF _ _ step] inv by simp
    with inv show "?P3 ts o2" by (auto split: if_splits)
  qed
  let ?P4 = "\<lambda>(rest :: rename_snapshot list) ov4. overlay_wf ov4 \<and> ov_files ov4 = ov_files ov3 \<and>
     ov_directories ov4 = ov_directories ov3 \<and> ov_deletedPaths ov4 = ov_deletedPaths ov3 \<and>
     list_all (\<lambda>r. canonical (rn_from r) \<and> canonical (rn_to r)) rest"
  have "?P4 (overlay_listRenames ov3) ov3"
    using s3 overlay_wfD(5,6) [of ov3] by (auto simp: overlay_listRenames_def list_all_iff)
  with l4 have s4: "?P4 [] ov'"
    by (rule forS_Inr_induct [where P = ?P4]) (fastforce dest: rebased_rename_step)
  show "overlay_wf ov'" using s4 by simp
  show "map_of (ov_files ov') q = map_of (ov_files ov) q \<or>
      map_of (ov_files ov') q = None \<and> map_of (ov_files ov) q = F q"
    using s2 s3 s4 files [of q] by simp
  show "F q \<noteq> Some c" if "map_of (ov_files ov') q = Some c" using that s2 s3 s4 fresh by simp
  show "set (ov_directories ov') \<subseteq> set (ov_directories ov)" using s1 s2 s3 s4 by auto
  show "set (ov_deletedPaths ov') = {t \<in> set (ov_deletedPaths ov). ?alive t}"
    using s1 s2 s3 s4 by auto
qed

text \<open>
  After a partial publication every path of the new revision holds its old base content or what was
  visible there. Rebasing on it changes nothing that is visible, and no overlay file repeats the
  new base.
\<close>

lemma rebase_visible:
  assumes wf: "overlay_wf ov" and live: "files_live ov"
    and published: "\<And>q. F q = F0 q \<or> F q = visible F0 ov q"
    and run: "rebaseOverlayAfterPartialPublish h rv ov = (Inr u, ov')"
  shows "visible F ov' = visible F0 ov"
proof
  fix q
  note loops = rebase_loops [OF wf run]
  have sub: "deleted_at ov q" if "deleted_at ov' q" using that loops(5) by (auto simp: deleted_at_def)
  show "visible F ov' q = visible F0 ov q"
  proof (cases "deleted_at ov q")
    case False
    then have nd: "\<not> deleted_at ov' q" using sub by blast
    show ?thesis
    proof (cases "map_of (ov_files ov) q")
      case (Some c)
      with False nd loops(2) [of q] show ?thesis by (auto simp: visible_def)
    next
      case None
      with loops(2) [of q] have "map_of (ov_files ov') q = None" by auto
      with None False nd published [of q] show ?thesis by (auto simp: visible_def)
    qed
  next
    case True
    then obtain t where t: "t \<in> set (ov_deletedPaths ov)" "same_or_child q t"
      by (auto simp: deleted_at_def)
    have "map_of (ov_files ov) q = None" using True live by (auto simp: files_live_def)
    with loops(2) [of q] have none: "map_of (ov_files ov') q = None" by auto
    have "deleted_at ov' q" if "F q \<noteq> None"
    proof -
      have "F t \<noteq> None \<or> is_dir F t" using that t(2) by (cases "q = t") (auto simp: is_dir_def)
      with t loops(5) show ?thesis by (auto simp: deleted_at_def)
    qed
    with True none show ?thesis by (cases "F q") (auto simp: visible_def)
  qed
qed

lemma acceptPartially_effect:
  assumes wf: "overlay_wf (wt_overlay wt)" and live: "files_live (wt_overlay wt)"
    and published: "\<And>q. F q = F0 q \<or> F q = visible F0 (wt_overlay wt) q"
    and run: "acceptPartiallyPublishedRevision h rv wt = (Inr u, wt')"
  shows "wt_baseRevision wt' = rv" and "overlay_wf (wt_overlay wt')"
    and "visible F (wt_overlay wt') = visible F0 (wt_overlay wt)"
proof -
  let ?ov = "wt_overlay wt" and ?snap = "overlay_snapshot_of (rd_collate h)"
  let ?copy = "of_snapshot (?snap ?ov)"
  have wf1: "overlay_wf ?copy" using wf by (intro of_snapshot_wf) simp
  have same1: "same_overlay ?copy ?ov" by (rule of_snapshot_same [OF wf])
  from wf run obtain ov' where reb: "rebaseOverlayAfterPartialPublish h rv ?copy = (Inr (), ov')"
    and res: "overlay_restore (?snap ov') ?ov = (Inr u, wt_overlay wt')" and base: "wt_baseRevision wt' = rv"
    by (auto simp: acceptPartiallyPublishedRevision_def fromSnapshot_wf split: sum.splits prod.splits)
  have eq: "visible G a = visible G b" if "same_overlay a b" for G a b
    using that by (auto simp: visible_def same_overlay_def deleted_at_def fun_eq_iff)
  have live1: "files_live ?copy"
    using live same1 same_overlay_deleted_at [OF same1] by (simp add: files_live_def same_overlay_def)
  have pub1: "F q = F0 q \<or> F q = visible F0 ?copy q" for q using published eq [OF same1] by simp
  have wf2: "overlay_wf ov'" by (rule rebase_loops(1) [OF wf1 reb])
  have "visible F ov' = visible F0 ?copy" by (rule rebase_visible [OF wf1 live1 pub1 reb])
  moreover have "wt_overlay wt' = of_snapshot (?snap ov')" using res restore_wf wf2 by simp
  moreover from this have "overlay_wf (wt_overlay wt')" using wf2 by (simp add: of_snapshot_wf)
  ultimately show "wt_baseRevision wt' = rv" "overlay_wf (wt_overlay wt')"
    "visible F (wt_overlay wt') = visible F0 (wt_overlay wt)"
    using base eq [OF of_snapshot_same [OF wf2]] eq [OF same1] by simp_all
qed

text \<open>The rebase does not fail on a settled overlay.\<close>

lemma settled_stat:
  assumes "settled F ov" and "p \<in> own_paths ov"
  shows "canonical p" and "\<exists>r. rr_tryStat h rv p = Inr r"
proof -
  have wf: "overlay_wf ov" using assms(1) by (simp add: settled_def)
  show "canonical p" using assms(2) overlay_wfD(1,3,4,5,6) [OF wf] by (auto simp: own_paths_def)
  then show "\<exists>r. rr_tryStat h rv p = Inr r" using assms by (intro tryStat_total) (auto simp: settled_def)
qed

lemma settled_less: "settled F ov \<Longrightarrow> overlay_wf ov' \<Longrightarrow> own_paths ov' \<subseteq> own_paths ov \<Longrightarrow> settled F ov'"
  by (auto simp: settled_def)

lemma remove_first_subset: "set (remove_first P xs) \<subseteq> set xs"
  by (induction xs) auto

lemma settled_steps:
  assumes "settled F s"
  shows "settled F (s\<lparr>ov_files := AList.delete p (ov_files s)\<rparr>)"
    and "settled F (s\<lparr>ov_directories := set_remove p (ov_directories s)\<rparr>)"
    and "settled F (s\<lparr>ov_deletedPaths := set_remove p (ov_deletedPaths s)\<rparr>)"
    and "settled F (s\<lparr>ov_renames := remove_first P (ov_renames s)\<rparr>)"
proof -
  have wf: "overlay_wf s" using assms by (simp add: settled_def)
  show "settled F (s\<lparr>ov_files := AList.delete p (ov_files s)\<rparr>)"
    using set_delete_subset [of p "ov_files s"] wf
    by (intro settled_less [OF assms]) (auto simp: own_paths_def)
  show "settled F (s\<lparr>ov_directories := set_remove p (ov_directories s)\<rparr>)"
    "settled F (s\<lparr>ov_deletedPaths := set_remove p (ov_deletedPaths s)\<rparr>)"
    using wf by (intro settled_less [OF assms]; auto simp: own_paths_def)+
  show "settled F (s\<lparr>ov_renames := remove_first P (ov_renames s)\<rparr>)"
    using remove_first_subset [of P "ov_renames s"] wf
    by (intro settled_less [OF assms]) (auto simp: own_paths_def)
qed

lemma rebase_total:
  assumes ov: "settled F ov"
  shows "\<exists>ov'. rebaseOverlayAfterPartialPublish h rv ov = (Inr (), ov')"
proof -
  let ?f1 = "\<lambda>(path, content). bindS (askS (\<lambda>_. rr_tryStat h rv path)) (\<lambda>stat.
         if \<not> stat_is FileEntry stat then returnS ()
         else bindS (askS (\<lambda>_. rr_readFile h rv path)) (\<lambda>remote.
           if equalBytes remote content then modifyS (overlay_removeFile path) else returnS ()))"
  let ?f2 = "\<lambda>directory. bindS (askS (\<lambda>_. rr_tryStat h rv directory)) (\<lambda>stat.
         if stat_is DirEntry stat then modifyS (overlay_removeDirectory directory) else returnS ())"
  let ?f3 = "\<lambda>deleted. bindS (askS (\<lambda>_. rr_tryStat h rv deleted)) (\<lambda>stat.
         if stat = None then modifyS (overlay_unmarkDeleted deleted False) else returnS ())"
  let ?f4 = "\<lambda>rename. bindS (askS (\<lambda>_. rr_tryStat h rv (rn_from rename))) (\<lambda>source.
       bindS (askS (\<lambda>_. rr_tryStat h rv (rn_to rename))) (\<lambda>target.
         if source = None \<and> target \<noteq> None
         then modifyS (overlay_removeRename (rn_from rename) (rn_to rename)) else returnS ()))"
  have "\<exists>s'. ?f1 x s = (Inr (), s') \<and> settled F s'"
    if "x \<in> set (overlay_listFiles (rd_collate h) ov)" "settled F s" for x s
  proof -
    obtain p c where x: "x = (p, c)" by fastforce
    have own: "p \<in> own_paths ov" using that(1) by (force simp: own_paths_def overlay_listFiles_def x)
    note p = settled_stat [OF ov own]
    then obtain r where r: "rr_tryStat h rv p = Inr r" by blast
    have "\<exists>b. rr_readFile h rv p = Inr b" if "stat_is FileEntry r"
      using that tryStat_Inr(1) [OF p(1) r] read_file by (auto simp: stat_is_iff)
    then show ?thesis
      using r p(1) that(2) by (auto simp: x bindS_apply modifyS_apply pure_form settled_steps)
  qed
  from forS_total [of _ "settled F" ?f1, OF this ov] obtain ov1 where
    1: "forS (overlay_listFiles (rd_collate h) ov) ?f1 ov = (Inr (), ov1)" and ov1: "settled F ov1" by blast
  have "\<exists>s'. ?f2 d s = (Inr (), s') \<and> settled F s'" if "d \<in> set (overlay_listDirectories ov1)" "settled F s" for d s
  proof -
    have own: "d \<in> own_paths ov1" using that(1) by (simp add: own_paths_def overlay_listDirectories_def)
    note p = settled_stat [OF ov1 own]
    moreover have "overlay_wf s" using that(2) by (simp add: settled_def)
    ultimately show ?thesis using that(2) by (auto simp: bindS_apply modifyS_apply pure_form settled_steps)
  qed
  from forS_total [of _ "settled F" ?f2, OF this ov1] obtain ov2 where
    2: "forS (overlay_listDirectories ov1) ?f2 ov1 = (Inr (), ov2)" and ov2: "settled F ov2" by blast
  have "\<exists>s'. ?f3 d s = (Inr (), s') \<and> settled F s'" if "d \<in> set (overlay_listDeletedPaths ov2)" "settled F s" for d s
  proof -
    have own: "d \<in> own_paths ov2" using that(1) by (simp add: own_paths_def overlay_listDeletedPaths_def)
    note p = settled_stat [OF ov2 own]
    moreover have "overlay_wf s" using that(2) by (simp add: settled_def)
    ultimately show ?thesis using that(2) by (auto simp: bindS_apply modifyS_apply pure_form settled_steps)
  qed
  from forS_total [of _ "settled F" ?f3, OF this ov2] obtain ov3 where
    3: "forS (overlay_listDeletedPaths ov2) ?f3 ov2 = (Inr (), ov3)" and ov3: "settled F ov3" by blast
  have "\<exists>s'. ?f4 e s = (Inr (), s') \<and> settled F s'" if "e \<in> set (overlay_listRenames ov3)" "settled F s" for e s
  proof -
    have own: "rn_from e \<in> own_paths ov3" "rn_to e \<in> own_paths ov3"
      using that(1) by (simp_all add: own_paths_def overlay_listRenames_def)
    note p = settled_stat [OF ov3 own(1)] settled_stat [OF ov3 own(2)]
    then show ?thesis using that(2) by (auto simp: bindS_apply modifyS_apply pure_form settled_steps)
  qed
  from forS_total [of _ "settled F" ?f4, OF this ov3] obtain ov4 where
    4: "forS (overlay_listRenames ov3) ?f4 ov3 = (Inr (), ov4)" by blast
  show ?thesis
    using 1 2 3 4 unfolding rebaseOverlayAfterPartialPublish_def by (simp add: bindS_apply)
qed

lemma acceptPartially_total:
  assumes ov: "settled F (wt_overlay wt)"
  shows "\<exists>wt'. acceptPartiallyPublishedRevision h rv wt = (Inr (), wt')"
proof -
  let ?ov = "wt_overlay wt" and ?snap = "overlay_snapshot_of (rd_collate h)"
  let ?copy = "of_snapshot (?snap ?ov)"
  have wf: "overlay_wf ?ov" using ov by (simp add: settled_def)
  have wf1: "overlay_wf ?copy" using wf by (intro of_snapshot_wf) simp
  have "own_paths ?copy = own_paths ?ov"
    by (auto simp: own_paths_def of_snapshot_def overlay_snapshot_of_def overlay_listFiles_def
        overlay_listDirectories_def overlay_listDeletedPaths_def overlay_listRenames_def)
  with ov wf1 have "settled F ?copy" by (simp add: settled_def)
  from rebase_total [OF this] obtain ov' where reb: "rebaseOverlayAfterPartialPublish h rv ?copy = (Inr (), ov')"
    by blast
  then have "overlay_wf ov'" using rebase_loops(1) [OF wf1] by blast
  with reb wf show ?thesis
    by (simp add: acceptPartiallyPublishedRevision_def fromSnapshot_wf restore_wf)
qed

end

text \<open>A rebase that fails leaves the working tree as it was.\<close>

lemma rebase_preserves_wf [preserves_intro]:
  "preserves overlay_wf (rebaseOverlayAfterPartialPublish h rv)"
  unfolding rebaseOverlayAfterPartialPublish_def by (intro preserves_intro)

lemma acceptPartially_atomic:
  assumes "overlay_wf (wt_overlay wt)"
    and "acceptPartiallyPublishedRevision h rv wt = (Inl e, wt')"
  shows "wt' = wt"
proof -
  let ?copy = "of_snapshot (overlay_snapshot_of (rd_collate h) (wt_overlay wt))"
  have wf: "overlay_wf ?copy" using assms(1) by (intro of_snapshot_wf) simp
  have "overlay_restore (overlay_snapshot_of (rd_collate h) ov) (wt_overlay wt) = (Inr (), of_snapshot
      (overlay_snapshot_of (rd_collate h) ov))" if "overlay_wf ov" for ov
    using that by (intro restore_wf) simp
  with assms wf preservesD [OF rebase_preserves_wf] show ?thesis
    by (auto simp: acceptPartiallyPublishedRevision_def fromSnapshot_wf split: sum.splits prod.splits)
qed

end
