(* ===== verification/CachedReader.thy ===== *)
theory CachedReader
  imports RepositoryReader
begin

section \<open>The cache is transparent\<close>

text \<open>
  Reading through the revision cache gives what the adapter would have given. The adapter may
  change between requests: \<open>truth\<close> stands for the content of the revisions, which is immutable,
  and every successful answer of the current host agrees with it. A cache filled by earlier hosts
  then never serves anything but the truth, keeps its accounting, and fails only where the host
  fails. Keys join revision and path with a NUL character, so revisions are assumed to hold none.
\<close>

definition nul_free :: "revision \<Rightarrow> bool" where
  "nul_free revision \<longleftrightarrow> CHR 0x00 \<notin> set revision"

definition agrees :: "host \<Rightarrow> host \<Rightarrow> bool" where
  "agrees h truth \<longleftrightarrow>
     (\<forall>rv p b. rr_readFile h rv p = Inr b \<longrightarrow> rr_readFile truth rv p = Inr b) \<and>
     (\<forall>rv p es. rr_readDirectory h rv p = Inr es \<longrightarrow> rr_readDirectory truth rv p = Inr es)"

definition entry_true :: "host \<Rightarrow> revision \<Rightarrow> path \<Rightarrow> cache_entry \<Rightarrow> bool" where
  "entry_true truth rv p e = (case e of
       FileCacheEntry b _ \<Rightarrow> rr_readFile truth rv p = Inr b
     | DirCacheEntry es _ \<Rightarrow> rr_readDirectory truth rv p = Inr es)"

definition cache_true :: "host \<Rightarrow> revision_cache \<Rightarrow> bool" where
  "cache_true truth c \<longleftrightarrow> cache_inv c \<and>
     (\<forall>rv p e. nul_free rv \<longrightarrow> canonical p \<longrightarrow>
        map_of (rc_entries c) (rv @ CHR 0x00 # p) = Some e \<longrightarrow> entry_true truth rv p e)"

lemma agrees_refl [simp]: "agrees h h"
  by (simp add: agrees_def)

lemma key_inject:
  assumes "nul_free a" "nul_free b" and "a @ CHR 0x00 # p = b @ CHR 0x00 # q"
  shows "a = b \<and> p = q"
proof -
  have "takeWhile (\<lambda>c. c \<noteq> CHR 0x00) (x @ CHR 0x00 # y) = x" if "nul_free x" for x y
    using that unfolding nul_free_def by (induction x) auto
  from this [OF assms(1), of p] this [OF assms(2), of q]
  have "takeWhile (\<lambda>c. c \<noteq> CHR 0x00) (a @ CHR 0x00 # p) = a"
    "takeWhile (\<lambda>c. c \<noteq> CHR 0x00) (b @ CHR 0x00 # q) = b" .
  with assms(3) have "a = b" by simp
  with assms(3) show ?thesis by simp
qed

lemma cache_key_canonical [pure_form]: "canonical p \<Longrightarrow> cache_key rv p = Inr (rv @ CHR 0x00 # p)"
  by (simp add: cache_key_def pure_form)

lemma cache_true_getEntry:
  "cache_true truth c \<Longrightarrow> cache_true truth (snd (cache_getEntry k c))"
  by (simp add: cache_true_def cache_inv_getEntry getEntry_entries)

lemma cache_true_setEntry:
  assumes "cache_true truth c" and "nul_free rv" "canonical p" and "0 < ce_weight e"
    and "entry_true truth rv p e"
  shows "cache_true truth (cache_setEntry (rv @ CHR 0x00 # p) e c)"
proof -
  have inv: "cache_inv c" using assms(1) by (simp add: cache_true_def)
  have "entry_true truth rv' p' e'"
    if "nul_free rv'" "canonical p'"
      and some: "map_of (rc_entries (cache_setEntry (rv @ CHR 0x00 # p) e c)) (rv' @ CHR 0x00 # p') = Some e'"
    for rv' p' e'
  proof -
    define k k' where k: "k = rv @ CHR 0x00 # p" and k': "k' = rv' @ CHR 0x00 # p'"
    have "map_of (rc_entries (cache_setEntry k e c)) \<subseteq>\<^sub>m (map_of (rc_entries c))(k \<mapsto> e)"
      by (rule setEntry_sub [OF inv assms(4)])
    moreover from some have "map_of (rc_entries (cache_setEntry k e c)) k' = Some e'"
      by (simp only: k k')
    ultimately have "((map_of (rc_entries c))(k \<mapsto> e)) k' = Some e'"
      by (metis domI map_le_def)
    then consider "k = k'" "e' = e" | "map_of (rc_entries c) k' = Some e'"
      by (cases "k' = k") simp_all
    then show ?thesis
    proof cases
      case 1
      with key_inject [OF assms(2) that(1), of p p'] assms(5) show ?thesis
        by (simp only: k k')
    next
      case 2
      then show ?thesis
        using assms(1) that(1,2) unfolding cache_true_def k' by blast
    qed
  qed
  with cache_inv_setEntry [OF inv assms(4)] show ?thesis by (simp add: cache_true_def)
qed

lemma file_weight_pos: "0 < estimateKeyWeight k + int n"
  by (simp add: estimateKeyWeight_def)

lemma dir_weight_pos: "0 < estimateKeyWeight k + estimateDirectoryWeight es"
  using estimateDirectoryWeight_pos [of es] by (simp add: estimateKeyWeight_def)

text \<open>One request: the result is the truth or the failure of the host, the cache stays true.\<close>

definition served :: "host \<Rightarrow> 'a res \<Rightarrow> 'a res \<Rightarrow> 'a res \<times> revision_cache \<Rightarrow> bool" where
  "served truth true_answer host_answer rc \<longleftrightarrow> cache_true truth (snd rc) \<and>
     (case fst rc of Inr x \<Rightarrow> true_answer = Inr x | Inl e \<Rightarrow> host_answer = Inl e)"

lemma reader_readFile_served:
  assumes "cache_true truth c" and "agrees h truth" and "nul_free rv"
  shows "served truth (rr_readFile truth rv path) (rr_readFile h rv path) (reader_readFile h rv path c)"
proof (cases "normalizeRepoPath path")
  case (Inl e)
  with assms show ?thesis
    by (simp add: served_def reader_readFile_def rr_readFile_def bindS_apply)
next
  case (Inr p)
  then have p: "canonical p" by (rule normalize_result)
  let ?k = "rv @ CHR 0x00 # p"
  have same: "rr_readFile g rv path = rr_readFile g rv p" for g
    by (simp add: rr_readFile_def Inr p pure_form)
  obtain o' c' where get: "cache_getEntry ?k c = (o', c')" by (cases "cache_getEntry ?k c")
  have c': "cache_true truth c'" using cache_true_getEntry [OF assms(1), of ?k] get by simp
  have o': "o' = map_of (rc_entries c) ?k" using getEntry_value [of ?k c] get by simp
  show ?thesis
  proof (cases "\<exists>b w. o' = Some (FileCacheEntry b w)")
    case True
    then obtain b w where hit: "o' = Some (FileCacheEntry b w)" by blast
    with o' assms p have "entry_true truth rv p (FileCacheEntry b w)" by (simp add: cache_true_def)
    with c' Inr p get hit same show ?thesis
      by (simp add: served_def reader_readFile_def bindS_apply cache_getFile_def entry_true_def pure_form)
  next
    case False
    then have miss: "cache_getFile rv p c = Inr (None, c')"
      using get p by (auto simp: cache_getFile_def pure_form split: option.splits cache_entry.splits)
    show ?thesis
    proof (cases "withReadDeadline (rd_file h rv p)")
      case (Inl e)
      with c' miss \<open>normalizeRepoPath path = Inr p\<close> show ?thesis
        by (simp add: served_def reader_readFile_def bindS_apply rr_readFile_def)
    next
      case content: (Inr b)
      let ?e = "FileCacheEntry b (estimateKeyWeight ?k + int (length b))"
      have "rr_readFile h rv p = Inr b" using content p by (simp add: rr_readFile_def pure_form)
      with assms(2) have truth: "rr_readFile truth rv p = Inr b" by (simp add: agrees_def)
      then have "cache_true truth (cache_setEntry ?k ?e c')"
        using c' assms(3) p file_weight_pos
        by (intro cache_true_setEntry) (simp_all add: entry_true_def)
      with truth content miss Inr p same show ?thesis
        by (simp add: served_def reader_readFile_def bindS_apply modifyS_apply cache_setFile_def pure_form)
    qed
  qed
qed

lemma reader_readDirectory_served:
  assumes "cache_true truth c" and "agrees h truth" and "nul_free rv"
  shows "served truth (rr_readDirectory truth rv path) (rr_readDirectory h rv path)
    (reader_readDirectory h rv path c)"
proof (cases "normalizeRepoPath path")
  case (Inl e)
  with assms show ?thesis
    by (simp add: served_def reader_readDirectory_def rr_readDirectory_def bindS_apply)
next
  case (Inr p)
  then have p: "canonical p" by (rule normalize_result)
  let ?k = "rv @ CHR 0x00 # p"
  have same: "rr_readDirectory g rv path = rr_readDirectory g rv p" for g
    by (simp add: rr_readDirectory_def Inr p pure_form)
  obtain o' c' where get: "cache_getEntry ?k c = (o', c')" by (cases "cache_getEntry ?k c")
  have c': "cache_true truth c'" using cache_true_getEntry [OF assms(1), of ?k] get by simp
  have o': "o' = map_of (rc_entries c) ?k" using getEntry_value [of ?k c] get by simp
  show ?thesis
  proof (cases "\<exists>es w. o' = Some (DirCacheEntry es w)")
    case True
    then obtain es w where hit: "o' = Some (DirCacheEntry es w)" by blast
    with o' assms p have "entry_true truth rv p (DirCacheEntry es w)" by (simp add: cache_true_def)
    with c' Inr p get hit same show ?thesis
      by (simp add: served_def reader_readDirectory_def bindS_apply cache_getDirectory_def
          entry_true_def pure_form)
  next
    case False
    then have miss: "cache_getDirectory rv p c = Inr (None, c')"
      using get p by (auto simp: cache_getDirectory_def pure_form split: option.splits cache_entry.splits)
    show ?thesis
    proof (cases "andThen (withReadDeadline (rd_dir h rv p)) (validateDirectoryEntries p)")
      case fails: (Inl e)
      then have "rr_readDirectory h rv path = Inl e"
        using Inr by (simp add: rr_readDirectory_def)
      moreover have "reader_readDirectory h rv path c = (Inl e, c')"
        using fails miss Inr
        by (auto simp: reader_readDirectory_def bindS_apply andThen_Inl_iff split: sum.splits)
      ultimately show ?thesis using c' by (simp add: served_def)
    next
      case content: (Inr es)
      let ?e = "DirCacheEntry es (estimateKeyWeight ?k + estimateDirectoryWeight es)"
      have "rr_readDirectory h rv p = Inr es"
        using content p by (simp add: rr_readDirectory_def pure_form)
      with assms(2) have truth: "rr_readDirectory truth rv p = Inr es" by (simp add: agrees_def)
      then have "cache_true truth (cache_setEntry ?k ?e c')"
        using c' assms(3) p dir_weight_pos
        by (intro cache_true_setEntry) (simp_all add: entry_true_def)
      moreover have "reader_readDirectory h rv path c = (Inr es, cache_setEntry ?k ?e c')"
        using content miss Inr p
        by (auto simp: reader_readDirectory_def bindS_apply modifyS_apply cache_setDirectory_def pure_form)
      ultimately show ?thesis using truth same by (simp add: served_def)
    qed
  qed
qed

text \<open>With the host itself as the truth, the cached reader is the uncached one.\<close>

lemma served_self: "served h r r rc \<Longrightarrow> \<exists>c'. cache_true h c' \<and> rc = (r, c')"
  by (cases rc; cases "fst rc") (auto simp: served_def)

lemma reader_readDirectory_self:
  "cache_true h c \<Longrightarrow> nul_free rv \<Longrightarrow> \<exists>c'. cache_true h c' \<and>
     reader_readDirectory h rv path c = (rr_readDirectory h rv path, c')"
  by (intro served_self reader_readDirectory_served) simp_all

lemma reader_stat_self:
  assumes "cache_true h c" and "nul_free rv"
  shows "\<exists>c'. cache_true h c' \<and> reader_stat h rv path c = (rr_stat h rv path, c')"
proof (cases "normalizeRepoPath path")
  case (Inl e)
  with assms show ?thesis by (auto simp: reader_stat_def rr_stat_def bindS_apply)
next
  case (Inr p)
  then have p: "canonical p" by (rule normalize_result)
  show ?thesis
  proof (cases "p = []")
    case True
    with assms Inr show ?thesis by (auto simp: reader_stat_def rr_stat_def bindS_apply)
  next
    case False
    obtain c' where c': "cache_true h c'" and
      read: "reader_readDirectory h rv (parent_of p) c = (rr_readDirectory h rv (parent_of p), c')"
      using reader_readDirectory_self [OF assms] by blast
    then show ?thesis
      using Inr False p
      by (cases "rr_readDirectory h rv (parent_of p)")
        (auto simp: reader_stat_def rr_stat_def bindS_apply pure_form)
  qed
qed

lemma reader_tryStat_self:
  assumes "cache_true h c" and "nul_free rv"
  shows "\<exists>c'. cache_true h c' \<and> reader_tryStat h rv path c = (rr_tryStat h rv path, c')"
  using reader_stat_self [OF assms, of path] by (auto simp: reader_tryStat_def rr_tryStat_def)

end
