(* ===== verification/SeedExamples.thy ===== *)
theory SeedExamples
  imports Publication PublishedRevision CachedReader
begin

section \<open>The seeded repository as an example\<close>

text \<open>
  Facts about commit \<open>C3\<close> of the repository of \<open>packages/adapter-fixture/src/seed.ts\<close>, the head of
  its branch \<open>main\<close>, and about working trees over it.
\<close>

abbreviation seed_host :: host where
  "seed_host \<equiv> fixture_host code_unit_compare createFixtureRepository"

abbreviation seed_tree :: tree where
  "seed_tree \<equiv> map_of c3Files"

lemma seed_served: "served_revision seed_host ''C3'' seed_tree"
  by (rule c3.served_revision_axioms)

lemma seed_paths: "keys c3Files =
    [''README.md'', ''src/index.ts'', ''assets/sample.bin'', ''package.json'', ''src/util.ts'']"
  by code_simp

lemma is_dir_keys: "is_dir (map_of fs) d \<longleftrightarrow> d = [] \<or> list_ex (\<lambda>q. same_or_child q d \<and> q \<noteq> d) (keys fs)"
  by (auto simp: is_dir_def list_ex_iff dom_map_of_conv_image_fst)

lemma map_of_none_keys: "map_of fs p = None \<longleftrightarrow> \<not> list_ex (\<lambda>q. q = p) (keys fs)"
  by (auto simp: map_of_eq_None_iff list_ex_iff)

lemma seed_is_dir: "is_dir seed_tree d \<longleftrightarrow> d = [] \<or> list_ex (\<lambda>q. same_or_child q d \<and> q \<noteq> d)
    [''README.md'', ''src/index.ts'', ''assets/sample.bin'', ''package.json'', ''src/util.ts'']"
  unfolding is_dir_keys seed_paths ..

lemma seed_none: "seed_tree p = None \<longleftrightarrow> \<not> list_ex (\<lambda>q. q = p)
    [''README.md'', ''src/index.ts'', ''assets/sample.bin'', ''package.json'', ''src/util.ts'']"
  unfolding map_of_none_keys seed_paths ..

lemma seed_kind: "kind_at seed_tree empty_overlay p = (if p = [] then Some DirEntry
    else if seed_tree p \<noteq> None then Some FileEntry else if is_dir seed_tree p then Some DirEntry else None)"
  by (simp add: kind_at_def) (simp add: empty_overlay_def)

lemma seed_new_file:
  "kind_at seed_tree empty_overlay ''src/new.ts'' = None"
  "kind_at seed_tree empty_overlay ''src'' = Some DirEntry"
  "kind_at seed_tree empty_overlay ''src/util.ts'' = Some FileEntry"
  "\<not> is_dir seed_tree ''src/new.ts''" "\<not> is_dir seed_tree ''src/util.ts''"
  unfolding seed_kind seed_none seed_is_dir by code_simp+

lemma seed_paths_canonical [simp]:
  "normalizeRepoPath ''/src/new.ts'' = Inr ''src/new.ts''" "parent_of ''src/new.ts'' = ''src''"
  "normalizeRepoPath ''src/util.ts'' = Inr ''src/util.ts''" "parent_of ''src/util.ts'' = ''src''"
  by code_simp+

text \<open>A working tree over \<open>C3\<close> with one new file.\<close>

definition seed_edit :: overlay where
  "seed_edit = put_file ''src/new.ts'' [7] empty_overlay"

lemma seed_tree_ok: "file_tree seed_tree"
  by (rule tree_check) code_simp

lemma new_path: "canonical ''src/new.ts''" "''src/new.ts'' \<noteq> []"
  using normalize_result [OF seed_paths_canonical(1)] by simp_all

lemma seed_edit_ok: "overlay_ok seed_tree seed_edit" "visible seed_tree seed_edit = seed_tree(''src/new.ts'' \<mapsto> [7])"
  using put_file_effect [OF overlay_ok_empty seed_tree_ok new_path, where c = "[7]"] seed_new_file
  by (simp_all add: seed_edit_def)

lemma seed_edit_sel: "ov_files seed_edit = [(''src/new.ts'', [7])]" "ov_directories seed_edit = []"
  "ov_deletedPaths seed_edit = []" "ov_renames seed_edit = []"
  by (simp_all add: seed_edit_def put_file_def, simp_all add: empty_overlay_def set_remove_def)

lemma seed_edit_changes: "\<exists>cs. buildCommitChanges seed_host ''C3'' seed_edit None = Inr cs \<and> cs \<noteq> []"
proof -
  note served = seed_served
  obtain cs where cs: "buildAllCommitChanges seed_host ''C3'' seed_edit = Inr cs"
    using served_revision.buildAll_total [OF served seed_edit_ok(1)
        served_revision.deletedBaseFiles_none [OF served seed_edit_sel(3)]] by blast
  have "seed_tree ''src/new.ts'' = None" unfolding seed_none by code_simp
  then have "served_revision.change_at seed_tree seed_edit ''src/new.ts'' = Some (AddChange ''src/new.ts'' [7])"
    by (simp add: served_revision.change_at_def [OF served] served_revision.file_change_def [OF served] seed_edit_sel)
  with served_revision.buildAll_changes(2) [OF served overlay_okD(1) [OF seed_edit_ok(1)]
      overlay_ok_live [OF seed_edit_ok(1)] cs, of "AddChange ''src/new.ts'' [7]"]
  have "cs \<noteq> []" by auto
  with cs show ?thesis by (simp add: buildCommitChanges_def)
qed

lemma seed_inv: "fixture_inv createFixtureRepository"
proof -
  have "fx_commits createFixtureRepository = seed_commits" "fx_sequence createFixtureRepository = 100"
    "fx_branches createFixtureRepository = [(''main'', ''C3''), (''feature/test'', ''F2'')]"
    by (simp_all add: createFixtureRepository_def)
  moreover have "keys seed_commits = [''C1'', ''C2'', ''C3'', ''F1'', ''F2'']"
    by (simp add: seed_commits_def)
  moreover have "parents_before [] seed_commits" by code_simp
  ultimately show ?thesis by (simp add: fixture_inv_def fixture_revision_def)
qed

lemma seed_paths_flat:
  "list_all (\<lambda>q. canonical q \<and> length (segs q) \<le> 2)
     [''README.md'', ''src/index.ts'', ''assets/sample.bin'', ''package.json'', ''src/util.ts'']"
  by code_simp

lemma seed_dirs_flat:
  assumes "canonical d" "d \<noteq> []" "segment n"
  shows "\<not> is_dir seed_tree (child_path d n)"
proof
  let ?ps = "[''README.md'', ''src/index.ts'', ''assets/sample.bin'', ''package.json'', ''src/util.ts'']"
  assume "is_dir seed_tree (child_path d n)"
  then obtain q where q: "q \<in> set ?ps" "same_or_child q (child_path d n)" "q \<noteq> child_path d n"
    unfolding seed_is_dir list_ex_iff using assms(3) child_path_not_Nil by metis
  have flat: "canonical q" "length (segs q) \<le> 2" using q(1) seed_paths_flat unfolding list_all_iff by blast+
  have d: "canonical (child_path d n)" using assms by simp
  obtain m where m: "segment m" "inside q (child_path (child_path d n) m)"
    using inside_proper_cases [OF flat(1) d] q(2,3) by (auto simp: inside_def)
  from m(1) d have "canonical (child_path (child_path d n) m)" by simp
  from inside_length [OF flat(1) this m(2)] flat(2)
  have "length (segs (child_path (child_path d n) m)) \<le> 2" by simp
  moreover have "segs d \<noteq> []" using assms(2) by simp
  ultimately show False using m(1) assms(3) by simp
qed

text \<open>A listing of a directory below the root holds files only, and few.\<close>

lemma seed_listing_flat:
  assumes d: "canonical d" "d \<noteq> []"
    and listed: "lists (\<lambda>p. kind_at seed_tree empty_overlay p = Some FileEntry)
      (\<lambda>p. kind_at seed_tree empty_overlay p = Some DirEntry) d es"
  shows "\<forall>e \<in> set es. de_type e = FileEntry" "length es \<le> 5"
proof -
  let ?ps = "[''README.md'', ''src/index.ts'', ''assets/sample.bin'', ''package.json'', ''src/util.ts'']"
  have ok: "listing_ok d es" using listed by (simp add: lists_def)
  show files: "\<forall>e \<in> set es. de_type e = FileEntry"
  proof
    fix e assume e: "e \<in> set es"
    show "de_type e = FileEntry"
    proof (cases "de_type e")
      case DirEntry
      have "segment (de_name e)" using listing_okD(1) [OF ok e] .
      with e DirEntry listed have "kind_at seed_tree empty_overlay (child_path d (de_name e)) = Some DirEntry"
        unfolding lists_def by blast
      then show ?thesis using seed_dirs_flat [OF d \<open>segment (de_name e)\<close>] \<open>segment (de_name e)\<close>
        by (auto simp: seed_kind split: if_splits)
    qed
  qed
  have "seed_tree (de_path e) \<noteq> None" if "e \<in> set es" for e
  proof -
    have "segment (de_name e)" "de_path e = child_path d (de_name e)" using listing_okD [OF ok that] .
    moreover from this have "kind_at seed_tree empty_overlay (child_path d (de_name e)) = Some FileEntry"
      using listed that files unfolding lists_def by blast
    ultimately show ?thesis by (auto simp: seed_kind split: if_splits)
  qed
  then have "set (map de_path es) \<subseteq> set ?ps"
    unfolding seed_none list_ex_iff by auto
  then have "card (set (map de_path es)) \<le> card (set ?ps)" by (intro card_mono) simp_all
  also have "\<dots> \<le> 5" using card_length [of ?ps] by simp
  finally have "card (set (map de_path es)) \<le> 5" .
  moreover have "distinct (map de_path es)"
  proof -
    have "map de_path es = map (child_path d) (map de_name es)" using listing_okD(2) [OF ok] by simp
    moreover have "inj_on (child_path d) (set (map de_name es))"
      using listing_okD(1) [OF ok] child_path_inject by (intro inj_onI) (metis (mono_tags, lifting) imageE list.set_map)
    moreover have "distinct (map de_name es)" using ok by (simp add: listing_ok_def)
    ultimately show ?thesis by (metis distinct_map)
  qed
  ultimately show "length es \<le> 5" by (metis distinct_card length_map)
qed

end
