(* ===== verification/Environment.thy ===== *)
theory Environment
  imports PublishedRevision
begin

section \<open>What a workspace works in\<close>

text \<open>
  The editing operations of the class \<open>WorkingTree\<close>, the durable snapshot types of
  \<open>packages/core/src/persistence/workspace-storage.ts\<close>, the storage interface with its in-memory
  provider \<open>memory-workspace-storage.ts\<close>, and the state that the operations of a workspace share:
  the branch workspaces, the publication journal, the events sent so far, the world of the adapter
  and the storage.
\<close>

subsection \<open>Editing operations of a working tree\<close>

definition wt_mutate :: "(revision \<Rightarrow> (overlay, 'a) st) \<Rightarrow> (working_tree, 'a) st" where
  "wt_mutate m = (\<lambda>wt. case m (wt_baseRevision wt) (wt_overlay wt) of
     (r, ov) \<Rightarrow> (r, wt\<lparr>wt_overlay := ov\<rparr>))"

definition wt_writeFile :: "host \<Rightarrow> path \<Rightarrow> bytes \<Rightarrow> bool \<Rightarrow> bool \<Rightarrow> (working_tree, unit) st" where
  "wt_writeFile h path content create overwrite =
     wt_mutate (\<lambda>base. mu_writeFile h base path content create overwrite)"

definition wt_createDirectory :: "host \<Rightarrow> path \<Rightarrow> (working_tree, unit) st" where
  "wt_createDirectory h path = wt_mutate (\<lambda>base. mu_createDirectory h base path)"

definition wt_delete :: "host \<Rightarrow> path \<Rightarrow> bool \<Rightarrow> (working_tree, unit) st" where
  "wt_delete h path recursive = wt_mutate (\<lambda>base. mu_delete h base path recursive)"

definition wt_rename :: "host \<Rightarrow> path \<Rightarrow> path \<Rightarrow> bool \<Rightarrow> (working_tree, unit) st" where
  "wt_rename h source target overwrite = wt_mutate (\<lambda>base. mu_rename h base source target overwrite)"

definition wt_getChanges :: "host \<Rightarrow> working_tree \<Rightarrow> working_tree_change list res" where
  "wt_getChanges h wt = getWorkingTreeChanges h (wt_baseRevision wt) (wt_overlay wt)"

definition wt_revert :: "path \<Rightarrow> (working_tree, unit) st" where
  "wt_revert path = wt_mutate (\<lambda>_. mu_revert path)"

definition wt_revertAll :: "(working_tree, unit) st" where
  "wt_revertAll = wt_mutate (\<lambda>_. mu_revertAll)"

definition wt_buildCommitChanges :: "host \<Rightarrow> path list option \<Rightarrow> working_tree \<Rightarrow> change list res" where
  "wt_buildCommitChanges h selectedPaths wt =
     buildCommitChanges h (wt_baseRevision wt) (wt_overlay wt) selectedPaths"

subsection \<open>Durable snapshots and their storage\<close>

datatype pending_publication =
    Prepared (pp_branch: branch_name) (pp_expected: revision)
  | Published (pp_branch: branch_name) (pp_expected: revision) (pp_published: revision)

record workspace_snapshot =
  sp_selectedBranch :: branch_name
  sp_branches :: "(branch_name \<times> working_tree_snapshot) list"
  sp_pending :: "pending_publication option"

record 's storage =
  so_load :: "repository_id \<Rightarrow> ('s, workspace_snapshot option) st"
  so_save :: "repository_id \<Rightarrow> workspace_snapshot \<Rightarrow> ('s, unit) st"
  so_delete :: "repository_id \<Rightarrow> ('s, unit) st"

text \<open>\<open>MemoryWorkspaceStorage\<close>: a map; \<open>structuredClone\<close> is invisible on values.\<close>

definition memory_storage :: "(repository_id \<times> workspace_snapshot) list storage" where
  "memory_storage = \<lparr>
     so_load = (\<lambda>repositoryId. askS (\<lambda>values. Inr (map_of values repositoryId))),
     so_save = (\<lambda>repositoryId snapshot. modifyS (\<lambda>values.
       Inr (AList.update repositoryId snapshot values))),
     so_delete = (\<lambda>repositoryId. modifyS (\<lambda>values. Inr (AList.delete repositoryId values)))\<rparr>"

text \<open>
  The contract a workspace relies on: a load answers the stored snapshot, a save that succeeds
  stores it, a save that fails has stored it or left the old one, and the snapshots of other
  repositories stay. A snapshot names a branch at most once: it is an object of the source.
\<close>

locale workspace_storage =
  fixes so :: "'s storage" and stored :: "'s \<Rightarrow> repository_id \<Rightarrow> workspace_snapshot option"
  assumes load_stored: "so_load so r s = (Inr v, s') \<Longrightarrow> v = stored s r"
    and load_keeps: "so_load so r s = (res, s') \<Longrightarrow> stored s' = stored s"
    and save_stores: "distinct (keys (sp_branches x)) \<Longrightarrow> so_save so r x s = (Inr u, s') \<Longrightarrow>
      stored s' = (stored s)(r \<mapsto> x)"
    and save_fails: "distinct (keys (sp_branches x)) \<Longrightarrow> so_save so r x s = (Inl e, s') \<Longrightarrow>
      stored s' = stored s \<or> stored s' = (stored s)(r \<mapsto> x)"
    and save_other: "so_save so r x s = (res', s') \<Longrightarrow> q \<noteq> r \<Longrightarrow> stored s' q = stored s q"
begin

lemma save_cases:
  assumes "so_save so r x s = (res, s')" and "distinct (keys (sp_branches x))"
  shows "stored s' = (stored s)(r \<mapsto> x) \<or> (\<exists>e. res = Inl e) \<and> stored s' = stored s"
  using assms save_stores save_fails by (cases res) blast+

lemma load_after_save:
  assumes "so_save so r x s = (Inr u, s1)" and "so_load so r s1 = (Inr v, s2)" and "distinct (keys (sp_branches x))"
  shows "v = Some x"
  using save_stores [OF assms(3,1)] load_stored [OF assms(2)] by simp

end

interpretation memory: workspace_storage memory_storage map_of
  by unfold_locales (auto simp: memory_storage_def modifyS_apply)

subsection \<open>The state of a workspace and its surroundings\<close>

record branch_workspaces =
  bw_trees :: "(branch_name \<times> working_tree) list"
  bw_selected :: branch_name

record changed_event =
  ce_branch :: branch_name
  ce_baseRevision :: revision

record ('w, 's) env =
  en_info :: repository_info
  en_branches :: branch_workspaces
  en_pending :: "pending_publication option"
  en_events :: "changed_event list"
  en_remote :: 'w
  en_store :: 's

text \<open>What does not change: the adapter, the storage and the collation.\<close>

record ('w, 's) services =
  sv_adapter :: "'w adapter"
  sv_storage :: "'s storage"
  sv_collate :: "string comparator"

definition sv_host :: "('w, 's) services \<Rightarrow> ('w, 's) env \<Rightarrow> host" where
  "sv_host sv env = adapter_host (sv_collate sv) (sv_adapter sv) (en_remote env)"

text \<open>A call of the adapter and a call of the storage.\<close>

definition remoteS :: "('w, 'a) st \<Rightarrow> (('w, 's) env, 'a) st" where
  "remoteS m = (\<lambda>env. case m (en_remote env) of (r, w) \<Rightarrow> (r, env\<lparr>en_remote := w\<rparr>))"

definition storeS :: "('s, 'a) st \<Rightarrow> (('w, 's) env, 'a) st" where
  "storeS m = (\<lambda>env. case m (en_store env) of (r, s) \<Rightarrow> (r, env\<lparr>en_store := s\<rparr>))"

text \<open>\<open>try m catch (error) { cleanup; throw error }\<close> and \<open>try m catch {}\<close>.\<close>

definition onErrorS :: "('s, 'a) st \<Rightarrow> ('s, unit) st \<Rightarrow> ('s, 'a) st" where
  "onErrorS m cleanup = (\<lambda>s. case m s of
     (Inr x, s') \<Rightarrow> (Inr x, s')
   | (Inl e, s') \<Rightarrow> (case cleanup s' of (Inl e', s'') \<Rightarrow> (Inl e', s'') | (Inr _, s'') \<Rightarrow> (Inl e, s'')))"

definition ignoreS :: "('s, unit) st \<Rightarrow> ('s, unit) st" where
  "ignoreS m = (\<lambda>s. case m s of (_, s') \<Rightarrow> (Inr (), s'))"

lemma remoteS_apply: "remoteS m env = (case m (en_remote env) of (r, w) \<Rightarrow> (r, env\<lparr>en_remote := w\<rparr>))"
  by (simp add: remoteS_def)

lemma storeS_apply: "storeS m env = (case m (en_store env) of (r, s) \<Rightarrow> (r, env\<lparr>en_store := s\<rparr>))"
  by (simp add: storeS_def)

lemma onErrorS_Inr_iff: "onErrorS m c s = (Inr x, t) \<longleftrightarrow> m s = (Inr x, t)"
  by (auto simp: onErrorS_def split: prod.splits sum.splits)

lemma ignoreS_apply: "ignoreS m s = (Inr (), snd (m s))"
  by (simp add: ignoreS_def split: prod.split)

lemma preserves_onErrorS [preserves_intro]:
  "preserves P m \<Longrightarrow> preserves P c \<Longrightarrow> preserves P (onErrorS m c)"
proof -
  assume m: "preserves P m" and c: "preserves P c"
  have "P t" if "P s" and run: "onErrorS m c s = (r, t)" for s r t
  proof -
    obtain r' s' where s': "m s = (r', s')" by fastforce
    have "P s'" using preservesD [OF m s' that(1)] .
    moreover obtain r'' s'' where s'': "c s' = (r'', s'')" by fastforce
    ultimately show ?thesis
      using run s' preservesD [OF c s''] by (cases r'; cases r'') (simp_all add: onErrorS_def)
  qed
  then show ?thesis by (auto simp: preserves_def)
qed

lemma preserves_ignoreS [preserves_intro]: "preserves P m \<Longrightarrow> preserves P (ignoreS m)"
  by (force simp: preserves_def ignoreS_def split: prod.splits)

end
