(* ===== verification/BranchWorkspaces.thy ===== *)
theory BranchWorkspaces
  imports Environment
begin

section \<open>Branch workspaces and the branch service\<close>

text \<open>
  The classes \<open>BranchWorkspaces\<close> of \<open>packages/core/src/workspace/branch-workspaces.ts\<close> and
  \<open>WorkspaceBranchService\<close> of \<open>packages/core/src/workspace/branch-service.ts\<close>: an independent pinned
  base and overlay for every visited branch, and the operations on remote branches.
\<close>

subsection \<open>The working trees of the visited branches\<close>

definition bw_current :: "branch_workspaces \<Rightarrow> working_tree res" where
  "bw_current bw = (case map_of (bw_trees bw) (bw_selected bw) of
     None \<Rightarrow> Inl OtherError | Some tree \<Rightarrow> Inr tree)"

definition currentS :: "(('w, 's) env, working_tree) st" where
  "currentS = askS (\<lambda>env. bw_current (en_branches env))"

definition selectedS :: "(('w, 's) env, branch_name) st" where
  "selectedS = askS (\<lambda>env. Inr (bw_selected (en_branches env)))"

definition put_tree :: "branch_name \<Rightarrow> working_tree \<Rightarrow> ('w, 's) env \<Rightarrow> ('w, 's) env" where
  "put_tree b tree env = env\<lparr>en_branches := (en_branches env)
     \<lparr>bw_trees := AList.update b tree (bw_trees (en_branches env))\<rparr>\<rparr>"

text \<open>An operation on the current working tree, which the map holds by reference.\<close>

definition onCurrent :: "(working_tree, 'a) st \<Rightarrow> (('w, 's) env, 'a) st" where
  "onCurrent m = bindS currentS (\<lambda>tree env. case m tree of
     (r, tree') \<Rightarrow> (r, put_tree (bw_selected (en_branches env)) tree' env))"

definition bw_createWorkspace ::
  "branch_name \<Rightarrow> revision \<Rightarrow> overlay_snapshot option \<Rightarrow> (('w, 's) env, unit) st" where
  "bw_createWorkspace b baseRevision ov =
     bindS (askS (\<lambda>_. newWorkingTree baseRevision ov)) (\<lambda>tree. modifyS (\<lambda>env. Inr (put_tree b tree env)))"

definition bw_ensureWorkspace :: "('w, 's) services \<Rightarrow> branch_name \<Rightarrow> (('w, 's) env, unit) st" where
  "bw_ensureWorkspace sv b =
     bindS (askS (\<lambda>env. Inr (b \<in> set (keys (bw_trees (en_branches env)))))) (\<lambda>has.
       if has then returnS ()
       else bindS (remoteS (ad_getBranches (sv_adapter sv))) (\<lambda>branches.
         case find (\<lambda>candidate. br_name candidate = b) branches of
           None \<Rightarrow> throwS not_found
         | Some remote \<Rightarrow> bw_createWorkspace b (br_revision remote) None))"

definition bw_clear :: "branch_name \<Rightarrow> (('w, 's) env, unit) st" where
  "bw_clear selected = modifyS (\<lambda>env. Inr (env\<lparr>en_branches := \<lparr>bw_trees = [], bw_selected = selected\<rparr>\<rparr>))"

definition bw_fill :: "(branch_name \<times> working_tree_snapshot) list \<Rightarrow> (('w, 's) env, unit) st" where
  "bw_fill branches = forS branches (\<lambda>(b, snapshot).
     bw_createWorkspace b (ws_baseRevision snapshot) (Some (ws_overlay snapshot)))"

definition bw_create :: "('w, 's) services \<Rightarrow> branch_name \<Rightarrow> workspace_snapshot option \<Rightarrow>
    (('w, 's) env, unit) st" where
  "bw_create sv defaultBranch persisted =
     (let selected = (case persisted of None \<Rightarrow> defaultBranch | Some p \<Rightarrow> sp_selectedBranch p) in
      bindS (bw_clear selected) (\<lambda>_.
      bindS (case persisted of None \<Rightarrow> returnS () | Some p \<Rightarrow> bw_fill (sp_branches p)) (\<lambda>_.
        bw_ensureWorkspace sv selected)))"

definition bw_select :: "branch_name \<Rightarrow> (('w, 's) env, unit) st" where
  "bw_select b = modifyS (\<lambda>env. Inr (env\<lparr>en_branches := (en_branches env)\<lparr>bw_selected := b\<rparr>\<rparr>))"

definition bw_switchTo :: "('w, 's) services \<Rightarrow> branch_name \<Rightarrow> (('w, 's) env, unit) st" where
  "bw_switchTo sv b = bindS (bw_ensureWorkspace sv b) (\<lambda>_. bw_select b)"

definition bw_add :: "branch \<Rightarrow> (('w, 's) env, unit) st" where
  "bw_add b = bw_createWorkspace (br_name b) (br_revision b) None"

definition bw_hasChanges :: "branch_name \<Rightarrow> branch_workspaces \<Rightarrow> bool" where
  "bw_hasChanges b bw = (case map_of (bw_trees bw) b of None \<Rightarrow> False | Some tree \<Rightarrow> wt_hasChanges tree)"

definition bw_remove :: "branch_name \<Rightarrow> (('w, 's) env, unit) st" where
  "bw_remove b = modifyS (\<lambda>env. Inr (env\<lparr>en_branches := (en_branches env)
     \<lparr>bw_trees := AList.delete b (bw_trees (en_branches env))\<rparr>\<rparr>))"

definition bw_listRemoteBranches :: "('w, 's) services \<Rightarrow> (('w, 's) env, branch list) st" where
  "bw_listRemoteBranches sv = remoteS (ad_getBranches (sv_adapter sv))"

definition bw_snapshot :: "string comparator \<Rightarrow> branch_workspaces \<Rightarrow> workspace_snapshot" where
  "bw_snapshot collate bw = \<lparr>sp_selectedBranch = bw_selected bw,
     sp_branches = map (\<lambda>(b, tree). (b, wt_snapshot collate tree)) (bw_trees bw), sp_pending = None\<rparr>"

text \<open>The selected branch is set last; if an overlay of the snapshot is invalid it stays.\<close>

definition bw_restore :: "workspace_snapshot \<Rightarrow> (('w, 's) env, unit) st" where
  "bw_restore snapshot =
     bindS selectedS (\<lambda>old.
     bindS (bw_clear old) (\<lambda>_.
     bindS (bw_fill (sp_branches snapshot)) (\<lambda>_. bw_select (sp_selectedBranch snapshot))))"

subsection \<open>The branch service\<close>

datatype head_refresh =
    HeadCurrent (hr_base: revision) (hr_remote: revision)
  | HeadUpdated (hr_base: revision) (hr_remote: revision)
  | HeadPinned (hr_base: revision) (hr_remote: revision)

definition bs_refresh :: "('w, 's) services \<Rightarrow> (('w, 's) env, head_refresh) st" where
  "bs_refresh sv =
     bindS selectedS (\<lambda>b.
     bindS (bw_listRemoteBranches sv) (\<lambda>branches.
     case find (\<lambda>candidate. br_name candidate = b) branches of
       None \<Rightarrow> throwS not_found
     | Some remote \<Rightarrow> bindS currentS (\<lambda>tree.
         let baseRevision = wt_baseRevision tree; remoteRevision = br_revision remote in
         if remoteRevision = baseRevision then returnS (HeadCurrent baseRevision remoteRevision)
         else if wt_hasChanges tree then returnS (HeadPinned baseRevision remoteRevision)
         else bindS (onCurrent (rebindCleanBase remoteRevision)) (\<lambda>_.
           returnS (HeadUpdated remoteRevision remoteRevision)))))"

definition unsupported :: err where
  "unsupported = RemotishError UNSUPPORTED"

definition bs_create :: "('w, 's) services \<Rightarrow> branch_name \<Rightarrow> bool \<Rightarrow> (('w, 's) env, branch) st" where
  "bs_create sv name switchTo = (case ad_createBranch (sv_adapter sv) of
       None \<Rightarrow> throwS unsupported
     | Some createBranch \<Rightarrow>
         if \<not> flag (cap_createBranch (ad_capabilities (sv_adapter sv))) then throwS unsupported
         else bindS currentS (\<lambda>tree.
           bindS (remoteS (createBranch name (wt_baseRevision tree))) (\<lambda>b.
           bindS (bw_add b) (\<lambda>_.
           bindS (if switchTo then bw_switchTo sv (br_name b) else returnS ()) (\<lambda>_. returnS b)))))"

definition bs_validateDelete :: "('w, 's) services \<Rightarrow> branch_name \<Rightarrow> branch_workspaces \<Rightarrow> unit res" where
  "bs_validateDelete sv name bw =
     (if name = bw_selected bw then Inl invalid_request
      else if bw_hasChanges name bw then Inl invalid_request
      else if \<not> flag (cap_deleteBranch (ad_capabilities (sv_adapter sv))) \<or>
        ad_deleteBranch (sv_adapter sv) = None then Inl unsupported
      else Inr ())"

definition bs_deleteRemote :: "('w, 's) services \<Rightarrow> branch_name \<Rightarrow> (('w, 's) env, unit) st" where
  "bs_deleteRemote sv name = (case ad_deleteBranch (sv_adapter sv) of
       None \<Rightarrow> throwS unsupported | Some deleteBranch \<Rightarrow> remoteS (deleteBranch name))"

end
