(* ===== verification/Workspace.thy ===== *)
theory Workspace
  imports BranchWorkspaces
begin

section \<open>The commit service and the workspace\<close>

text \<open>
  The class \<open>CommitService\<close> of \<open>packages/core/src/commit/commit-service.ts\<close> and the class
  \<open>RemotishWorkspace\<close> of \<open>packages/core/src/workspace/workspace.ts\<close>. Every operation of the workspace
  runs alone behind its serial executor, so an operation is one computation on the state. The
  working tree that a commit was given is the current one throughout.
\<close>

subsection \<open>Executing a commit\<close>

datatype commit_operation = OpNormal | OpForce revision | OpAmend revision

definition build_request ::
  "branch_name \<Rightarrow> revision \<Rightarrow> string \<Rightarrow> change list \<Rightarrow> commit_operation \<Rightarrow> commit_request" where
  "build_request b baseRevision text changes operation =
     (let base = \<lparr>cb_branch = b, cb_baseRevision = baseRevision, cb_message = text, cb_changes = changes\<rparr> in
      case operation of OpNormal \<Rightarrow> NormalCommitRequest base
      | OpForce expected \<Rightarrow> ForceCommitRequest base expected
      | OpAmend expected \<Rightarrow> AmendCommitRequest base expected)"

text \<open>The reconciliation is \<open>'settled'\<close> (True) or \<open>'pending'\<close> (False).\<close>

type_synonym execution = "commit_result \<times> bool"

text \<open>What \<open>execute\<close> does once the adapter has answered.\<close>

definition settle_commit :: "('w, 's) services \<Rightarrow> path list option \<Rightarrow> (revision \<Rightarrow> (('w, 's) env, unit) st) \<Rightarrow>
    commit_result \<Rightarrow> (('w, 's) env, execution) st" where
  "settle_commit sv selectedPaths afterPublish result = (case result of
       CommitRejected _ _ _ \<Rightarrow> returnS (result, True)
     | CommitSuccess r _ \<Rightarrow> bindS (ignoreS (afterPublish r)) (\<lambda>_.
         case selectedPaths of
           None \<Rightarrow> bindS (onCurrent (\<lambda>tree. (Inr (), acceptPublishedRevision r tree))) (\<lambda>_.
             returnS (result, True))
         | Some _ \<Rightarrow> (\<lambda>env. case onCurrent (acceptPartiallyPublishedRevision (sv_host sv env) r) env of
             (Inr _, env') \<Rightarrow> (Inr (result, True), env')
           | (Inl _, env') \<Rightarrow> (Inr (result, False), env'))))"

definition commit_execute :: "('w, 's) services \<Rightarrow> branch_name \<Rightarrow> string \<Rightarrow> commit_operation \<Rightarrow>
    path list option \<Rightarrow> (commit_request \<Rightarrow> (('w, 's) env, unit) st) \<Rightarrow>
    (revision \<Rightarrow> (('w, 's) env, unit) st) \<Rightarrow> (('w, 's) env, execution) st" where
  "commit_execute sv b message operation selectedPaths beforePublish afterPublish =
     (case ad_commit (sv_adapter sv) of None \<Rightarrow> throwS unsupported
      | Some commit \<Rightarrow>
        if \<not> cap_commits (ad_capabilities (sv_adapter sv)) then throwS unsupported
        else if js_trim message = [] then throwS invalid_request
        else bindS currentS (\<lambda>tree.
          bindS (askS (\<lambda>env. wt_buildCommitChanges (sv_host sv env) selectedPaths tree)) (\<lambda>changes.
          if changes = [] \<and> (case operation of OpAmend _ \<Rightarrow> False | _ \<Rightarrow> True) then throwS invalid_request
          else let request = build_request b (wt_baseRevision tree) (js_trim message) changes operation in
            bindS (beforePublish request) (\<lambda>_.
            bindS (remoteS (commit request)) (settle_commit sv selectedPaths afterPublish)))))"

definition commit_normal where
  "commit_normal sv b message selectedPaths beforePublish afterPublish =
     commit_execute sv b message OpNormal selectedPaths beforePublish afterPublish"

definition commit_force where
  "commit_force sv b message expectedRevision selectedPaths beforePublish afterPublish =
     (if \<not> flag (cap_forceWithLease (ad_capabilities (sv_adapter sv))) then throwS unsupported
      else commit_execute sv b message (OpForce expectedRevision) selectedPaths beforePublish afterPublish)"

definition commit_amend where
  "commit_amend sv b message selectedPaths beforePublish afterPublish =
     (if \<not> flag (cap_amend (ad_capabilities (sv_adapter sv))) \<or>
         \<not> flag (cap_forceWithLease (ad_capabilities (sv_adapter sv))) then throwS unsupported
      else bindS currentS (\<lambda>tree. commit_execute sv b message (OpAmend (wt_baseRevision tree)) selectedPaths
        beforePublish afterPublish))"

subsection \<open>Saving, events and guards\<close>

definition saveSnapshot :: "('w, 's) services \<Rightarrow> (('w, 's) env, unit) st" where
  "saveSnapshot sv = (\<lambda>env. storeS (so_save (sv_storage sv) (ri_id (en_info env))
     ((bw_snapshot (sv_collate sv) (en_branches env))\<lparr>sp_pending := en_pending env\<rparr>)) env)"

definition emitChanged :: "(('w, 's) env, unit) st" where
  "emitChanged = bindS currentS (\<lambda>tree. modifyS (\<lambda>env. Inr (env\<lparr>en_events := en_events env @
     [\<lparr>ce_branch = bw_selected (en_branches env), ce_baseRevision = wt_baseRevision tree\<rparr>]\<rparr>)))"

definition setPending :: "pending_publication option \<Rightarrow> (('w, 's) env, unit) st" where
  "setPending p = modifyS (\<lambda>env. Inr (env\<lparr>en_pending := p\<rparr>))"

definition requireWritable :: "('w, 's) services \<Rightarrow> (('w, 's) env, unit) st" where
  "requireWritable sv = (let capabilities = ad_capabilities (sv_adapter sv) in
     if \<not> cap_commits capabilities \<and> cap_localEdits capabilities \<noteq> Some True
     then throwS (RemotishError FORBIDDEN) else returnS ())"

definition requireExpectedState :: "(branch_name \<times> revision) option \<Rightarrow> (('w, 's) env, unit) st" where
  "requireExpectedState expectedState = (case expectedState of None \<Rightarrow> returnS ()
     | Some (b, baseRevision) \<Rightarrow> bindS selectedS (\<lambda>selected. bindS currentS (\<lambda>tree.
         if selected \<noteq> b \<or> wt_baseRevision tree \<noteq> baseRevision then throwS invalid_request
         else returnS ())))"

definition requireNoPendingCommitPublication :: "(('w, 's) env, unit) st" where
  "requireNoPendingCommitPublication = bindS (askS (\<lambda>env. Inr (en_pending env))) (\<lambda>pending.
     if pending \<noteq> None then throwS invalid_request else returnS ())"

definition ws_changed :: "('w, 's) services \<Rightarrow> (('w, 's) env, unit) st" where
  "ws_changed sv = bindS (saveSnapshot sv) (\<lambda>_. emitChanged)"

definition changedAfterRemoteSuccess :: "('w, 's) services \<Rightarrow> (('w, 's) env, unit) st" where
  "changedAfterRemoteSuccess sv = bindS (ignoreS (saveSnapshot sv)) (\<lambda>_. emitChanged)"

definition runLocalMutation ::
  "('w, 's) services \<Rightarrow> (('w, 's) env, 'a) st \<Rightarrow> ('a \<Rightarrow> bool) \<Rightarrow> (('w, 's) env, 'a) st" where
  "runLocalMutation sv operation didChange =
     bindS (askS (\<lambda>env. Inr (bw_snapshot (sv_collate sv) (en_branches env)))) (\<lambda>snapshot.
       onErrorS (bindS operation (\<lambda>result.
           if didChange result then bindS (ws_changed sv) (\<lambda>_. returnS result) else returnS result))
         (bw_restore snapshot))"

definition ws_mutate :: "('w, 's) services \<Rightarrow> (('w, 's) env, unit) st \<Rightarrow> (('w, 's) env, unit) st" where
  "ws_mutate sv operation = bindS requireNoPendingCommitPublication (\<lambda>_.
     runLocalMutation sv operation (\<lambda>_. True))"

subsection \<open>Editing\<close>

text \<open>An operation on the current tree that reads the repository.\<close>

definition treeS :: "('w, 's) services \<Rightarrow> (host \<Rightarrow> (working_tree, 'a) st) \<Rightarrow> (('w, 's) env, 'a) st" where
  "treeS sv m = (\<lambda>env. onCurrent (m (sv_host sv env)) env)"

definition ws_writeFile :: "('w, 's) services \<Rightarrow> path \<Rightarrow> bytes \<Rightarrow> bool \<Rightarrow> bool \<Rightarrow> (('w, 's) env, unit) st" where
  "ws_writeFile sv path content create overwrite = ws_mutate sv (bindS (requireWritable sv) (\<lambda>_.
     treeS sv (\<lambda>h. wt_writeFile h path content create overwrite)))"

definition ws_createDirectory :: "('w, 's) services \<Rightarrow> path \<Rightarrow> (('w, 's) env, unit) st" where
  "ws_createDirectory sv path = ws_mutate sv (bindS (requireWritable sv) (\<lambda>_.
     treeS sv (\<lambda>h. wt_createDirectory h path)))"

definition ws_delete :: "('w, 's) services \<Rightarrow> path \<Rightarrow> bool \<Rightarrow> (('w, 's) env, unit) st" where
  "ws_delete sv path recursive = ws_mutate sv (bindS (requireWritable sv) (\<lambda>_.
     treeS sv (\<lambda>h. wt_delete h path recursive)))"

definition ws_rename :: "('w, 's) services \<Rightarrow> path \<Rightarrow> path \<Rightarrow> bool \<Rightarrow> (('w, 's) env, unit) st" where
  "ws_rename sv source target overwrite = ws_mutate sv (bindS (requireWritable sv) (\<lambda>_.
     treeS sv (\<lambda>h. wt_rename h source target overwrite)))"

definition ws_revert :: "('w, 's) services \<Rightarrow> path \<Rightarrow> (branch_name \<times> revision) option \<Rightarrow> (('w, 's) env, unit) st" where
  "ws_revert sv path expectedState = ws_mutate sv (bindS (requireExpectedState expectedState) (\<lambda>_.
     treeS sv (\<lambda>_. wt_revert path)))"

definition ws_revertAll :: "('w, 's) services \<Rightarrow> (branch_name \<times> revision) option \<Rightarrow> (('w, 's) env, unit) st" where
  "ws_revertAll sv expectedState = ws_mutate sv (bindS (requireExpectedState expectedState) (\<lambda>_.
     treeS sv (\<lambda>_. wt_revertAll)))"

subsection \<open>Reading\<close>

definition ws_read :: "('w, 's) services \<Rightarrow> (host \<Rightarrow> working_tree \<Rightarrow> 'a res) \<Rightarrow> ('w, 's) env \<Rightarrow> 'a res" where
  "ws_read sv f env = andThen (bw_current (en_branches env)) (f (sv_host sv env))"

definition ws_stat where
  "ws_stat sv path = ws_read sv (\<lambda>h tree. wt_stat h (wt_baseRevision tree) (wt_overlay tree) path)"

definition ws_readDirectory where
  "ws_readDirectory sv path = ws_read sv (\<lambda>h tree. wt_readDirectory h (wt_baseRevision tree) (wt_overlay tree) path)"

definition ws_readFile where
  "ws_readFile sv path = ws_read sv (\<lambda>h tree. wt_readFile h (wt_baseRevision tree) (wt_overlay tree) path)"

definition ws_readBaseFile where
  "ws_readBaseFile sv path = ws_read sv (\<lambda>h tree. wt_readBaseFile h (wt_baseRevision tree) path)"

definition ws_getChanges where
  "ws_getChanges sv = ws_read sv wt_getChanges"

definition ws_statRevision where
  "ws_statRevision sv r path = ws_read sv (\<lambda>h tree. wt_statRevision h r path)"

definition ws_readRevisionDirectory where
  "ws_readRevisionDirectory sv r path = ws_read sv (\<lambda>h tree. wt_readRevisionDirectory h r path)"

definition ws_readRevisionFile where
  "ws_readRevisionFile sv r path = ws_read sv (\<lambda>h tree. wt_readRevisionFile h r path)"

definition ws_currentBranch :: "('w, 's) env \<Rightarrow> branch_name" where
  "ws_currentBranch env = bw_selected (en_branches env)"

definition ws_currentBase :: "('w, 's) env \<Rightarrow> revision res" where
  "ws_currentBase env = andThen (bw_current (en_branches env)) (\<lambda>tree. Inr (wt_baseRevision tree))"

definition ws_hasChanges :: "('w, 's) env \<Rightarrow> bool res" where
  "ws_hasChanges env = andThen (bw_current (en_branches env)) (\<lambda>tree. Inr (wt_hasChanges tree))"

definition ws_listBranches :: "('w, 's) services \<Rightarrow> (('w, 's) env, branch list) st" where
  "ws_listBranches sv = remoteS (ad_getBranches (sv_adapter sv))"

definition ws_getCommits :: "('w, 's) services \<Rightarrow> commit_query \<Rightarrow> (('w, 's) env, commit_page) st" where
  "ws_getCommits sv request = remoteS (ad_getCommits (sv_adapter sv) request)"

definition ws_getCommitChanges :: "('w, 's) services \<Rightarrow> revision \<Rightarrow> (('w, 's) env, commit_change list) st" where
  "ws_getCommitChanges sv r = remoteS (ad_getCommitChanges (sv_adapter sv) r)"

subsection \<open>Publishing with a journal\<close>

definition journal_before :: "('w, 's) services \<Rightarrow> commit_request \<Rightarrow> (('w, 's) env, unit) st" where
  "journal_before sv request =
     bindS (setPending (Some (Prepared (cb_branch (cr_base request)) (case request of
         NormalCommitRequest base \<Rightarrow> cb_baseRevision base
       | ForceCommitRequest _ expectedRevision \<Rightarrow> expectedRevision
       | AmendCommitRequest _ expectedRevision \<Rightarrow> expectedRevision)))) (\<lambda>_.
     onErrorS (saveSnapshot sv) (setPending None))"

definition journal_after :: "('w, 's) services \<Rightarrow> revision \<Rightarrow> (('w, 's) env, unit) st" where
  "journal_after sv revision = bindS (askS (\<lambda>env. Inr (en_pending env))) (\<lambda>prepared.
     case prepared of
       Some (Prepared b expected) \<Rightarrow> bindS (setPending (Some (Published b expected revision))) (\<lambda>_.
         ignoreS (saveSnapshot sv))
     | _ \<Rightarrow> returnS ())"

text \<open>What \<open>mutateCommit\<close> does with the result of the operation.\<close>

definition conclude_commit :: "('w, 's) services \<Rightarrow> execution \<Rightarrow> (('w, 's) env, commit_result) st" where
  "conclude_commit sv execution = (case execution of (result, reconciled) \<Rightarrow>
     (case result of
       CommitSuccess _ _ \<Rightarrow>
         if reconciled then bindS (setPending None) (\<lambda>_. bindS (changedAfterRemoteSuccess sv) (\<lambda>_. returnS result))
         else bindS (ignoreS (saveSnapshot sv)) (\<lambda>_. bindS emitChanged (\<lambda>_. returnS result))
     | CommitRejected _ _ _ \<Rightarrow> bindS (askS (\<lambda>env. Inr (en_pending env))) (\<lambda>pending.
         if pending \<noteq> None
         then bindS (setPending None) (\<lambda>_. bindS (saveSnapshot sv) (\<lambda>_. returnS result))
         else returnS result)))"

definition ws_mutateCommit :: "('w, 's) services \<Rightarrow>
    ((commit_request \<Rightarrow> (('w, 's) env, unit) st) \<Rightarrow> (revision \<Rightarrow> (('w, 's) env, unit) st) \<Rightarrow>
       (('w, 's) env, execution) st) \<Rightarrow> (('w, 's) env, commit_result) st" where
  "ws_mutateCommit sv operation = bindS requireNoPendingCommitPublication (\<lambda>_.
     bindS (operation (journal_before sv) (journal_after sv)) (conclude_commit sv))"

definition ws_commitAndPush :: "('w, 's) services \<Rightarrow> string \<Rightarrow> path list option \<Rightarrow>
    (branch_name \<times> revision) option \<Rightarrow> (('w, 's) env, commit_result) st" where
  "ws_commitAndPush sv message selectedPaths expectedState =
     ws_mutateCommit sv (\<lambda>beforePublish afterPublish. bindS (requireExpectedState expectedState) (\<lambda>_.
       bindS selectedS (\<lambda>b. bindS currentS (\<lambda>_.
         commit_normal sv b message selectedPaths beforePublish afterPublish))))"

definition ws_commitAndPushForceWithLease :: "('w, 's) services \<Rightarrow> string \<Rightarrow> revision \<Rightarrow> path list option \<Rightarrow>
    (branch_name \<times> revision) option \<Rightarrow> (('w, 's) env, commit_result) st" where
  "ws_commitAndPushForceWithLease sv message expectedRevision selectedPaths expectedState =
     ws_mutateCommit sv (\<lambda>beforePublish afterPublish. bindS (requireExpectedState expectedState) (\<lambda>_.
       bindS selectedS (\<lambda>b. bindS currentS (\<lambda>_.
         commit_force sv b message expectedRevision selectedPaths beforePublish afterPublish))))"

definition ws_amendAndPushForceWithLease :: "('w, 's) services \<Rightarrow> string \<Rightarrow> path list option \<Rightarrow>
    (branch_name \<times> revision) option \<Rightarrow> (('w, 's) env, commit_result) st" where
  "ws_amendAndPushForceWithLease sv message selectedPaths expectedState =
     ws_mutateCommit sv (\<lambda>beforePublish afterPublish. bindS (requireExpectedState expectedState) (\<lambda>_.
       bindS selectedS (\<lambda>b. bindS currentS (\<lambda>_.
         commit_amend sv b message selectedPaths beforePublish afterPublish))))"

subsection \<open>Branches\<close>

definition ws_switchBranch :: "('w, 's) services \<Rightarrow> branch_name \<Rightarrow> (('w, 's) env, unit) st" where
  "ws_switchBranch sv b = ws_mutate sv (bw_switchTo sv b)"

definition ws_refreshRemoteHead :: "('w, 's) services \<Rightarrow> (('w, 's) env, head_refresh) st" where
  "ws_refreshRemoteHead sv = bindS requireNoPendingCommitPublication (\<lambda>_.
     runLocalMutation sv (bs_refresh sv) (\<lambda>result. case result of HeadUpdated _ _ \<Rightarrow> True | _ \<Rightarrow> False))"

definition ws_mutateRemoteWithResult ::
  "('w, 's) services \<Rightarrow> (('w, 's) env, 'a) st \<Rightarrow> (('w, 's) env, 'a) st" where
  "ws_mutateRemoteWithResult sv operation = bindS requireNoPendingCommitPublication (\<lambda>_.
     bindS operation (\<lambda>result. bindS (changedAfterRemoteSuccess sv) (\<lambda>_. returnS result)))"

definition ws_createBranch :: "('w, 's) services \<Rightarrow> branch_name \<Rightarrow> bool \<Rightarrow>
    (branch_name \<times> revision) option \<Rightarrow> (('w, 's) env, branch) st" where
  "ws_createBranch sv name switchTo expectedState = ws_mutateRemoteWithResult sv
     (bindS (requireExpectedState expectedState) (\<lambda>_. bs_create sv name switchTo))"

definition ws_deleteBranch :: "('w, 's) services \<Rightarrow> branch_name \<Rightarrow> (('w, 's) env, unit) st" where
  "ws_deleteBranch sv name = bindS requireNoPendingCommitPublication (\<lambda>_.
     bindS (askS (\<lambda>env. bs_validateDelete sv name (en_branches env))) (\<lambda>_.
     bindS (askS (\<lambda>env. Inr (bw_snapshot (sv_collate sv) (en_branches env)))) (\<lambda>snapshot.
     bindS (bw_remove name) (\<lambda>_.
     bindS (onErrorS (saveSnapshot sv) (bw_restore snapshot)) (\<lambda>_.
     bindS (onErrorS (bs_deleteRemote sv name)
         (bindS (bw_restore snapshot) (\<lambda>_. ignoreS (saveSnapshot sv)))) (\<lambda>_.
       emitChanged))))))"

definition ws_persist :: "('w, 's) services \<Rightarrow> (('w, 's) env, unit) st" where
  "ws_persist sv = saveSnapshot sv"

subsection \<open>Recovery of a publication\<close>

datatype resolution = NotPublished | PublishedAs revision

text \<open>The second half of \<open>resolvePendingCommitPublication\<close>: the outcome was a publication.\<close>

definition resolve_published :: "('w, 's) services \<Rightarrow> pending_publication \<Rightarrow> revision \<Rightarrow> (('w, 's) env, unit) st" where
  "resolve_published sv pending publishedRevision =
     bindS (askS (\<lambda>env. Inr (bw_snapshot (sv_collate sv) (en_branches env)))) (\<lambda>snapshot.
     bindS (onErrorS
         (bindS (treeS sv (\<lambda>h. acceptPartiallyPublishedRevision h publishedRevision)) (\<lambda>_.
          bindS (setPending None) (\<lambda>_. saveSnapshot sv)))
         (bindS (bw_restore snapshot) (\<lambda>_. setPending (Some pending)))) (\<lambda>_.
       emitChanged))"

definition ws_resolvePendingCommitPublication :: "('w, 's) services \<Rightarrow> resolution \<Rightarrow> (('w, 's) env, unit) st" where
  "ws_resolvePendingCommitPublication sv resolution =
     bindS (askS (\<lambda>env. Inr (en_pending env))) (\<lambda>pending. case pending of
       None \<Rightarrow> returnS ()
     | Some p \<Rightarrow> (case resolution of
         NotPublished \<Rightarrow> (case p of
             Published _ _ _ \<Rightarrow> throwS invalid_request
           | Prepared _ _ \<Rightarrow> bindS (setPending None) (\<lambda>_.
               bindS (onErrorS (saveSnapshot sv) (setPending (Some p))) (\<lambda>_. emitChanged)))
       | PublishedAs publishedRevision \<Rightarrow>
           if js_trim publishedRevision = [] then throwS invalid_request
           else if (case p of Published _ _ r \<Rightarrow> r \<noteq> publishedRevision | Prepared _ _ \<Rightarrow> False)
           then throwS invalid_request
           else resolve_published sv p publishedRevision))"

definition recover_prepared :: "('w, 's) services \<Rightarrow> branch_name \<Rightarrow> revision \<Rightarrow> (('w, 's) env, unit) st" where
  "recover_prepared sv b expected = (\<lambda>env. case remoteS (ad_getBranches (sv_adapter sv)) env of
       (Inl _, env') \<Rightarrow> (Inr (), env')
     | (Inr branches, env') \<Rightarrow> (case find (\<lambda>candidate. br_name candidate = b) branches of
           None \<Rightarrow> (Inr (), env')
         | Some remote \<Rightarrow> if br_revision remote \<noteq> expected then (Inr (), env')
             else bindS (setPending None) (\<lambda>_. ignoreS (saveSnapshot sv)) env'))"

definition recover_published :: "('w, 's) services \<Rightarrow> revision \<Rightarrow> (('w, 's) env, unit) st" where
  "recover_published sv revision = (\<lambda>env.
     case treeS sv (\<lambda>h. acceptPartiallyPublishedRevision h revision) env of
       (Inl _, env') \<Rightarrow> (Inr (), env')
     | (Inr _, env') \<Rightarrow> bindS (setPending None) (\<lambda>_. ignoreS (saveSnapshot sv)) env')"

definition recoverPendingCommitPublication :: "('w, 's) services \<Rightarrow> (('w, 's) env, unit) st" where
  "recoverPendingCommitPublication sv = bindS (askS (\<lambda>env. Inr (en_pending env))) (\<lambda>pending. case pending of
       None \<Rightarrow> returnS ()
     | Some p \<Rightarrow> bindS selectedS (\<lambda>b.
         if b \<noteq> pp_branch p then throwS invalid_request
         else case p of Prepared branch expected \<Rightarrow> recover_prepared sv branch expected
           | Published _ _ revision \<Rightarrow> recover_published sv revision))"

definition ws_open :: "('w, 's) services \<Rightarrow> (('w, 's) env, unit) st" where
  "ws_open sv =
     bindS (askS (\<lambda>_. validateAdapterContract (sv_adapter sv))) (\<lambda>_.
     bindS (remoteS (ad_getRepository (sv_adapter sv))) (\<lambda>info.
     bindS (storeS (so_load (sv_storage sv) (ri_id info))) (\<lambda>persisted.
     bindS (bw_create sv (ri_defaultBranch info) persisted) (\<lambda>_.
     bindS (modifyS (\<lambda>env. Inr (env\<lparr>en_info := info,
         en_pending := (case persisted of None \<Rightarrow> None | Some p \<Rightarrow> sp_pending p), en_events := []\<rparr>))) (\<lambda>_.
       recoverPendingCommitPublication sv)))))"

end
