(* ===== verification/MutationSafety.thy ===== *)
theory MutationSafety
  imports Mutations
begin

section \<open>Mutations keep overlays well formed\<close>

text \<open>
  Whatever the adapter answers and whatever paths a mutation is given, and whether it succeeds or
  throws half way, a well-formed overlay stays well formed: every path it stores is canonical and
  none is the root. What an adapter lists is checked by the reader, so that no path of a
  traversal, and none that a directory rename builds from one, can leave this form.
\<close>

subsection \<open>Paths of listings and traversals\<close>

lemma set_update_subset: "set (AList.update k v m) \<subseteq> insert (k, v) (set m)"
proof
  fix x assume "x \<in> set (AList.update k v m)"
  then show "x \<in> insert (k, v) (set m)" by (induction m) (auto split: if_splits)
qed

definition entries_stored :: "(string \<times> directory_entry) list \<Rightarrow> bool" where
  "entries_stored m \<longleftrightarrow> (\<forall>e \<in> snd ` set m. stored_path (de_path e))"

lemma entries_stored_update:
  "entries_stored m \<Longrightarrow> stored_path (de_path e) \<Longrightarrow> entries_stored (AList.update k e m)"
  using set_update_subset [of k e m] by (fastforce simp: entries_stored_def)

lemma base_entries_stored:
  assumes "base_entries ov es = Inr m" and "\<forall>e \<in> set es. stored_path (de_path e)"
  shows "entries_stored m"
proof -
  have "entries_stored []" by (simp add: entries_stored_def)
  with assms(1) [unfolded base_entries_def] show ?thesis
    by (rule fold_res_invariant) (use assms(2) entries_stored_update in \<open>auto split: if_splits\<close>)
qed

lemma overlay_entries_stored:
  assumes "overlay_entries children m = Inr m'" and "entries_stored m"
    and "\<forall>c \<in> set children. stored_path (oe_path c)"
  shows "entries_stored m'"
  using assms(1) [unfolded overlay_entries_def] assms(2)
  by (rule fold_res_invariant) (use assms(3) entries_stored_update in auto)

lemma directChildren_stored:
  assumes "overlay_wf ov" and "overlay_directChildren path ov = Inr cs"
  shows "\<forall>c \<in> set cs. stored_path (oe_path c)"
proof -
  let ?P = "\<lambda>m :: (path \<times> overlay_entry) list. \<forall>c \<in> snd ` set m. stored_path (oe_path c)"
  have upd: "?P (AList.update k c m)" if "?P m" "stored_path (oe_path c)" for k c m
    using set_update_subset [of k c m] that by fastforce
  from assms(2) obtain normalized m m' where
    files: "fold_res (\<lambda>(file, content) result.
         andThen (visible_child normalized ov file) (\<lambda>b. Inr (if b then AList.update file
           \<lparr>oe_path = file, oe_type = FileEntry, oe_size = length content\<rparr> result else result)))
         (ov_files ov) [] = Inr m"
    and dirs: "fold_res (\<lambda>directory result.
         andThen (visible_child normalized ov directory) (\<lambda>b. Inr (if b then AList.update directory
           \<lparr>oe_path = directory, oe_type = DirEntry, oe_size = 0\<rparr> result else result)))
         (ov_directories ov) m = Inr m'"
    and cs: "cs = map snd m'"
    by (auto simp: overlay_directChildren_def)
  have "?P []" by simp
  with files have "?P m"
  proof (rule fold_res_invariant)
    fix x and s t :: "(path \<times> overlay_entry) list"
    assume x: "x \<in> set (ov_files ov)" and s: "?P s"
      and step: "(case x of (file, content) \<Rightarrow> \<lambda>result.
         andThen (visible_child normalized ov file) (\<lambda>b. Inr (if b then AList.update file
           \<lparr>oe_path = file, oe_type = FileEntry, oe_size = length content\<rparr> result else result))) s = Inr t"
    obtain p c where pc: "x = (p, c)" by (cases x)
    with x have "stored_path p" using overlay_wfD(1) [OF assms(1)] by (simp add: stored_path_def)
    with step pc s upd [OF s] show "?P t" by (simp split: if_splits) (metis overlay_entry.select_convs(1))
  qed
  with dirs have "?P m'"
  proof (rule fold_res_invariant)
    fix p and s t :: "(path \<times> overlay_entry) list"
    assume p: "p \<in> set (ov_directories ov)" and s: "?P s"
      and step: "andThen (visible_child normalized ov p) (\<lambda>b. Inr (if b then AList.update p
           \<lparr>oe_path = p, oe_type = DirEntry, oe_size = 0\<rparr> s else s)) = Inr t"
    from p have "stored_path p" using overlay_wfD(3) [OF assms(1)] by (simp add: stored_path_def)
    with step s upd [OF s] show "?P t" by (simp split: if_splits) (metis overlay_entry.select_convs(1))
  qed
  then show ?thesis by (simp add: cs)
qed

lemma rr_readDirectory_stored:
  assumes "rr_readDirectory h rv d = Inr es" and "canonical d" and "e \<in> set es"
  shows "stored_path (de_path e)"
  using listing_okD [OF readDirectory_listing_ok [OF assms(1,2)] assms(3)] assms(2)
  by (simp add: stored_path_def)

lemma wt_readDirectory_stored:
  assumes "overlay_wf ov" and "wt_readDirectory h rv ov d = Inr es"
  shows "\<forall>e \<in> set es. stored_path (de_path e)"
proof -
  from assms(2) obtain p stat cs m m' where p: "normalizeRepoPath d = Inr p"
    and m: "andThen (rr_tryStat h rv p) (\<lambda>baseStat. case baseStat of
            Some s \<Rightarrow> if st_type s = DirEntry
               then andThen (rr_readDirectory h rv p) (base_entries ov) else Inr []
           | None \<Rightarrow> Inr []) = Inr m"
    and cs: "overlay_directChildren p ov = Inr cs" and m': "overlay_entries cs m = Inr m'"
    and es: "es = sort_by (compareDirectoryEntries (rd_collate h)) (map snd m')"
    by (auto simp: wt_readDirectory_def andThen_if_Inr)
  have "entries_stored m"
  proof -
    from m consider "m = []" | es where "rr_readDirectory h rv p = Inr es" "base_entries ov es = Inr m"
      by (auto split: option.splits if_splits)
    then show ?thesis
      by cases (use base_entries_stored rr_readDirectory_stored [OF _ normalize_result [OF p]] in
        \<open>auto simp: entries_stored_def\<close>)
  qed
  from overlay_entries_stored [OF m' this directChildren_stored [OF assms(1) cs]]
  have "entries_stored m'" .
  then show ?thesis by (auto simp: es entries_stored_def)
qed

lemma reach_stored:
  assumes "overlay_wf ov"
  shows "reach (wt_readDirectory h rv ov) d e \<Longrightarrow> stored_path (de_path e)"
  by (induction rule: reach.induct) (use wt_readDirectory_stored [OF assms] in blast)+

lemma listVisibleFiles_stored:
  assumes "overlay_wf ov" and "listVisibleFiles (wt_stat h rv ov) (wt_readDirectory h rv ov) d = Inr ps"
    and "stored_path d"
  shows "\<forall>p \<in> set ps. stored_path p"
proof -
  have "normalizeRepoPath d = Inr d" using assms(3) by (auto simp: pure_form)
  with assms(2) consider "ps = [d]"
    | n where "walk (wt_readDirectory h rv ov) is_file_entry d 0 ([], 0) = Inr (ps, n)"
    by (auto simp: listVisibleFiles_def split: if_splits)
  then show ?thesis
    by cases (use assms(3) walk_Inr(1) reach_stored [OF assms(1)] in auto)
qed

lemma listVisibleDirectories_stored:
  assumes "overlay_wf ov" and "listVisibleDirectories (wt_readDirectory h rv ov) d = Inr ps"
  shows "\<forall>p \<in> set ps. stored_path p"
proof -
  from assms(2) obtain p n where
    "walk (wt_readDirectory h rv ov) is_directory_entry p 0 ([], 0) = Inr (ps, n)"
    by (auto simp: listVisibleDirectories_def)
  from walk_Inr(1) [OF this] reach_stored [OF assms(1)] show ?thesis by auto
qed

subsection \<open>The paths of a directory rename\<close>

lemma strip_slashes_hd: "s \<noteq> [] \<Longrightarrow> hd s \<noteq> CHR ''/'' \<Longrightarrow> strip_slashes s \<noteq> []"
proof -
  assume ne: "s \<noteq> []" and hd: "hd s \<noteq> CHR ''/''"
  then have "dropWhile (\<lambda>c. c = CHR ''/'') s = s" by (cases s) auto
  moreover have "hd s \<in> set s" using ne by simp
  ultimately show ?thesis
    using hd by (auto simp: strip_slashes_def trim_ends_def dropWhile_eq_Nil_conv)
qed

text \<open>A path that begins with a stored path never normalises to the root.\<close>

lemma normalize_moved:
  assumes "stored_path t" and "normalizeRepoPath (t @ x) = Inr p"
  shows "stored_path p"
proof -
  have "t \<noteq> []" "canonical t" using assms(1) by auto
  then have "hd t \<noteq> CHR ''/''" "hd t \<noteq> CHR 0x5C"
    using split_hd_last [of t] canonical_no_backslash [of t]
    by (auto simp: canonical_def list_all_iff dest: segment_not_Nil) (metis list.set_sel(1))
  with \<open>t \<noteq> []\<close> have "hd (replaceAll CHR 0x5C CHR ''/'' (t @ x)) \<noteq> CHR ''/''"
    "replaceAll CHR 0x5C CHR ''/'' (t @ x) \<noteq> []"
    by (auto simp: replaceAll_def hd_append hd_map)
  from strip_slashes_hd [OF this(2,1)] assms(2) have "p \<noteq> []"
    by (auto simp: normalizeRepoPath_def Let_def split: if_splits)
  with normalize_result [OF assms(2)] show ?thesis by (simp add: stored_path_def)
qed

lemma preserves_normalized:
  assumes "\<And>p. normalizeRepoPath path = Inr p \<Longrightarrow> preserves P (modifyS (f p))"
    and "\<And>p. normalizeRepoPath path = Inr p \<Longrightarrow> f path = f p"
    and "\<And>e. normalizeRepoPath path = Inl e \<Longrightarrow> f path = (\<lambda>_. Inl e)"
  shows "preserves P (modifyS (f path))"
proof (cases "normalizeRepoPath path")
  case (Inl e)
  from assms(3) [OF this] show ?thesis by (simp add: preserves_def modifyS_apply)
next
  case (Inr p)
  with assms(1,2) show ?thesis by simp
qed

lemma moved_steps:
  assumes "stored_path t"
  shows "preserves overlay_wf (modifyS (overlay_setDirectory (moved s t q)))"
    and "preserves overlay_wf (modifyS (overlay_setFile (moved s t q) c))"
proof -
  have st: "stored_path p" if "normalizeRepoPath (moved s t q) = Inr p" for p
    using normalize_moved [OF assms] that unfolding moved_def by blast
  show "preserves overlay_wf (modifyS (overlay_setDirectory (moved s t q)))"
    by (rule preserves_normalized [where f = overlay_setDirectory])
      (use st wf_steps_nonroot in \<open>auto simp: overlay_setDirectory_def pure_form fun_eq_iff dest: normalize_result\<close>)
  show "preserves overlay_wf (modifyS (overlay_setFile (moved s t q) c))"
    by (rule preserves_normalized [where f = "\<lambda>p. overlay_setFile p c"])
      (use st wf_steps_nonroot in \<open>auto simp: overlay_setFile_def pure_form fun_eq_iff dest: normalize_result\<close>)
qed

lemma addRename_step:
  assumes "stored_path s" and "stored_path t"
  shows "preserves overlay_wf (modifyS (overlay_addRename s (t @ x)))"
proof (rule preserves_modifyS)
  fix ov ov' assume wf: "overlay_wf ov" and run: "overlay_addRename s (t @ x) ov = Inr ov'"
  have "normalizeRepoPath s = Inr s" using assms(1) by (auto simp: pure_form)
  with run obtain p where p: "normalizeRepoPath (t @ x) = Inr p"
    and ov': "ov' = ov\<lparr>ov_renames := ov_renames ov @ [\<lparr>rn_from = s, rn_to = p\<rparr>]\<rparr>"
    by (auto simp: overlay_addRename_def)
  from wf_add_rename [OF wf assms(1) normalize_moved [OF assms(2) p]] show "overlay_wf ov'"
    by (simp only: ov')
qed

subsection \<open>The mutations\<close>

text \<open>Reading first and then doing something that depends on what was read.\<close>

lemma preserves_ask:
  assumes "\<And>x s. P s \<Longrightarrow> f s = Inr x \<Longrightarrow> preserves P (g x)"
  shows "preserves P (bindS (askS f) g)"
proof -
  have "P t" if "P s" "bindS (askS f) g s = (r, t)" for s r t
    using that preservesD [OF assms [OF that(1)]] by (cases "f s") (auto simp: bindS_apply)
  then show ?thesis by (simp add: preserves_def)
qed

lemma wf_forS:
  "(\<And>x. x \<in> set xs \<Longrightarrow> preserves P (f x)) \<Longrightarrow> preserves P (forS xs f)"
  by (induction xs) (simp_all add: preserves_returnS preserves_bindS)

lemma requireNonRoot_stored: "requireNonRoot path = Inr p \<Longrightarrow> stored_path p"
  by (auto simp: requireNonRoot_def stored_path_def andThen_if_Inr dest: normalize_result)

lemma rr_tryStat_root: "stat_is FileEntry stat \<Longrightarrow> rr_tryStat h rv p = Inr stat \<Longrightarrow> p \<noteq> []"
  by (auto simp: rr_tryStat_def rr_stat_def or_undefined_def stat_is_def pure_form)

lemma wf_deleteFileInternal [preserves_intro]: "preserves overlay_wf (mu_deleteFileInternal h rv path)"
  unfolding mu_deleteFileInternal_def
proof (intro preserves_ask preserves_bindS wf_steps)
  fix p stat assume p: "normalizeRepoPath path = Inr p" and stat: "rr_tryStat h rv p = Inr stat"
  show "preserves overlay_wf (if stat_is FileEntry stat then modifyS (overlay_markDeleted p)
      else modifyS (overlay_unmarkDeleted p True))"
    using rr_tryStat_root [OF _ stat] normalize_result [OF p]
    by (auto simp: stored_path_def intro!: wf_steps wf_steps_nonroot)
qed

lemma wf_deleteInternal: "stored_path p \<Longrightarrow> preserves overlay_wf (mu_deleteInternal h rv p recursive)"
  unfolding mu_deleteInternal_def
  by (intro preserves_ask preserves_intro wf_deleteFileInternal wf_steps wf_steps_nonroot)

lemma wf_renameFile: "stored_path t \<Longrightarrow> stored_path s \<Longrightarrow> preserves overlay_wf (mu_renameFile h rv s t)"
  unfolding mu_renameFile_def
  using addRename_step [of s t "[]"]
  by (intro preserves_ask preserves_bindS wf_deleteFileInternal wf_steps_nonroot) simp_all

lemma wf_renameDirectory:
  assumes "stored_path s" "stored_path t"
  shows "preserves overlay_wf (mu_renameDirectory h rv s t)"
  unfolding mu_renameDirectory_def
proof (intro preserves_ask preserves_bindS wf_forS)
  fix files path ov assume ov: "overlay_wf ov" and path: "path \<in> set files"
    and files: "listVisibleFiles (wt_stat h rv ov) (wt_readDirectory h rv ov) s = Inr files"
  then show "preserves overlay_wf (modifyS (overlay_addRename path (moved s t path)))"
    using listVisibleFiles_stored [OF ov files assms(1)] addRename_step [OF _ assms(2)]
    by (auto simp: moved_def)
next
  fix contents :: "(path \<times> bytes) list" and x assume "x \<in> set contents"
  show "preserves overlay_wf (case x of (path, content) \<Rightarrow>
      modifyS (overlay_setFile (moved s t path) content))"
    by (cases x) (simp add: moved_steps(2) [OF assms(2)])
qed (rule moved_steps(1) [OF assms(2)] wf_steps_nonroot(2) [OF assms(2)] wf_deleteInternal [OF assms(1)])+

lemma wf_renameChecked:
  "stored_path s \<Longrightarrow> stored_path t \<Longrightarrow> preserves overlay_wf (mu_renameChecked h rv s t overwrite)"
  unfolding mu_renameChecked_def
  by (intro preserves_ask preserves_intro wf_deleteInternal wf_renameFile wf_renameDirectory)

lemma wf_mutations:
  "preserves overlay_wf (mu_writeFile h rv path content create overwrite)"
  "preserves overlay_wf (mu_createDirectory h rv path)"
  "preserves overlay_wf (mu_delete h rv path recursive)"
  "preserves overlay_wf (mu_rename h rv source target overwrite)"
  "preserves overlay_wf (mu_revert path)"
  "preserves overlay_wf mu_revertAll"
proof -
  show "preserves overlay_wf (mu_writeFile h rv path content create overwrite)"
    unfolding mu_writeFile_def
    by (intro preserves_ask preserves_intro wf_steps wf_steps_nonroot) (rule requireNonRoot_stored)
  show "preserves overlay_wf (mu_createDirectory h rv path)"
    unfolding mu_createDirectory_def
    by (intro preserves_ask preserves_intro wf_steps wf_steps_nonroot) (rule requireNonRoot_stored)
  show "preserves overlay_wf (mu_delete h rv path recursive)"
    unfolding mu_delete_def by (intro preserves_ask wf_deleteInternal) (rule requireNonRoot_stored)
  show "preserves overlay_wf (mu_rename h rv source target overwrite)"
    unfolding mu_rename_def
    by (intro preserves_ask preserves_intro wf_renameChecked) (rule requireNonRoot_stored, assumption)+
  show "preserves overlay_wf (mu_revert path)"
    unfolding mu_revert_def
    by (intro preserves_ask preserves_bindS preserves_case_option wf_steps)
      (auto simp: preserves_def overlay_removeRenameTo_def split: sum.splits)
  show "preserves overlay_wf mu_revertAll"
    unfolding mu_revertAll_def by (rule preserves_modifyS) (auto simp: overlay_clear_def)
qed

end
