(* ===== verification/WorkspaceFacts.thy ===== *)
theory WorkspaceFacts
  imports Workspace MutationSafety
begin

section \<open>What every operation of a workspace keeps\<close>

text \<open>
  The invariant of a workspace, for any adapter and any storage that honours its contract: every
  branch has one working tree with a well-formed overlay, the selected branch has one, a publication
  journal names the selected branch, and every stored snapshot has the same properties, so that it
  can be opened again. The step relation has one rule for every public operation of
  \<open>RemotishWorkspace\<close> and one for what other clients do to the remote repository.
\<close>

subsection \<open>Well-formed workspaces and snapshots\<close>

definition bw_ok :: "branch_workspaces \<Rightarrow> bool" where
  "bw_ok bw \<longleftrightarrow> distinct (keys (bw_trees bw)) \<and>
     list_all (\<lambda>(_, tree). overlay_wf (wt_overlay tree)) (bw_trees bw) \<and>
     bw_selected bw \<in> set (keys (bw_trees bw))"

lemma bw_ok_keys: "bw_ok bw \<Longrightarrow> distinct (keys (bw_trees bw))"
  by (simp add: bw_ok_def)

definition journal_ok :: "branch_name \<Rightarrow> pending_publication option \<Rightarrow> bool" where
  "journal_ok selected pending \<longleftrightarrow> (case pending of None \<Rightarrow> True | Some p \<Rightarrow> pp_branch p = selected)"

definition stored_snapshot_ok :: "workspace_snapshot \<Rightarrow> bool" where
  "stored_snapshot_ok s \<longleftrightarrow> distinct (keys (sp_branches s)) \<and>
     list_all (\<lambda>(_, t). snapshot_wf (ws_overlay t)) (sp_branches s) \<and>
     sp_selectedBranch s \<in> set (keys (sp_branches s)) \<and> journal_ok (sp_selectedBranch s) (sp_pending s)"

lemma stored_snapshot_ok_keys: "stored_snapshot_ok s \<Longrightarrow> distinct (keys (sp_branches s))"
  by (simp add: stored_snapshot_ok_def)

definition env_ok :: "('s \<Rightarrow> repository_id \<Rightarrow> workspace_snapshot option) \<Rightarrow> ('w, 's) env \<Rightarrow> bool" where
  "env_ok stored env \<longleftrightarrow> bw_ok (en_branches env) \<and>
     journal_ok (bw_selected (en_branches env)) (en_pending env) \<and>
     (\<forall>r s. stored (en_store env) r = Some s \<longrightarrow> stored_snapshot_ok s)"

lemma env_okD: "env_ok stored env \<Longrightarrow> bw_ok (en_branches env)"
  by (simp add: env_ok_def)

definition same_tree :: "working_tree \<Rightarrow> working_tree \<Rightarrow> bool" where
  "same_tree a b \<longleftrightarrow> wt_baseRevision a = wt_baseRevision b \<and> same_overlay (wt_overlay a) (wt_overlay b)"

text \<open>The same branches in the same order with the same contents.\<close>

definition same_branches :: "branch_workspaces \<Rightarrow> branch_workspaces \<Rightarrow> bool" where
  "same_branches a b \<longleftrightarrow> bw_selected a = bw_selected b \<and>
     list_all2 (\<lambda>x y. fst x = fst y \<and> same_tree (snd x) (snd y)) (bw_trees a) (bw_trees b)"

lemma keys_snapshot [simp]: "keys (sp_branches (bw_snapshot collate bw)) = keys (bw_trees bw)"
  by (simp add: bw_snapshot_def case_prod_unfold comp_def)

lemma selected_snapshot [simp]: "sp_selectedBranch (bw_snapshot collate bw) = bw_selected bw"
  by (simp add: bw_snapshot_def)

lemma snapshot_ok:
  "bw_ok bw \<Longrightarrow> journal_ok (bw_selected bw) p \<Longrightarrow> stored_snapshot_ok ((bw_snapshot collate bw)\<lparr>sp_pending := p\<rparr>)"
  by (auto simp: stored_snapshot_ok_def bw_ok_def bw_snapshot_def wt_snapshot_def list_all_iff
      case_prod_unfold comp_def)

subsection \<open>Restoring\<close>

definition restored :: "workspace_snapshot \<Rightarrow> branch_workspaces" where
  "restored s = \<lparr>bw_trees = map (\<lambda>(b, t). (b, \<lparr>wt_baseRevision = ws_baseRevision t,
       wt_overlay = of_snapshot (ws_overlay t)\<rparr>)) (sp_branches s), bw_selected = sp_selectedBranch s\<rparr>"

lemma createWorkspace_Some: "snapshot_wf ov \<Longrightarrow> bw_createWorkspace b rv (Some ov) env =
    (Inr (), put_tree b \<lparr>wt_baseRevision = rv, wt_overlay = of_snapshot ov\<rparr> env)"
  by (simp add: bw_createWorkspace_def bindS_apply newWorkingTree_def fromSnapshot_wf modifyS_apply)

lemma createWorkspace_None: "bw_createWorkspace b rv None env =
    (Inr (), put_tree b \<lparr>wt_baseRevision = rv, wt_overlay = empty_overlay\<rparr> env)"
  by (simp add: bw_createWorkspace_def bindS_apply newWorkingTree_def overlay_fromSnapshot_def modifyS_apply)

lemma fill_loop:
  assumes "list_all (\<lambda>(_, t). snapshot_wf (ws_overlay t)) bs"
    and "distinct (keys (bw_trees (en_branches env)) @ keys bs)"
  shows "bw_fill bs env = (Inr (), env\<lparr>en_branches := (en_branches env)\<lparr>bw_trees := bw_trees (en_branches env) @
    map (\<lambda>(b, t). (b, \<lparr>wt_baseRevision = ws_baseRevision t, wt_overlay = of_snapshot (ws_overlay t)\<rparr>)) bs\<rparr>\<rparr>)"
  using assms
proof (induction bs arbitrary: env)
  case Nil
  then show ?case by (simp add: bw_fill_def)
next
  case (Cons x bs)
  obtain b t where x: "x = (b, t)" by (cases x)
  let ?t = "\<lparr>wt_baseRevision = ws_baseRevision t, wt_overlay = of_snapshot (ws_overlay t)\<rparr>"
  have "b \<notin> fst ` set (bw_trees (en_branches env))" using Cons.prems(2) by (auto simp: x)
  then have put: "put_tree b ?t env =
      env\<lparr>en_branches := (en_branches env)\<lparr>bw_trees := bw_trees (en_branches env) @ [(b, ?t)]\<rparr>\<rparr>"
    by (simp add: put_tree_def update_fresh)
  have "bw_fill bs (put_tree b ?t env) = (Inr (), (put_tree b ?t env)\<lparr>en_branches :=
      (en_branches (put_tree b ?t env))\<lparr>bw_trees := bw_trees (en_branches (put_tree b ?t env)) @
      map (\<lambda>(b, t). (b, \<lparr>wt_baseRevision = ws_baseRevision t, wt_overlay = of_snapshot (ws_overlay t)\<rparr>)) bs\<rparr>\<rparr>)"
    by (rule Cons.IH) (use Cons.prems in \<open>auto simp: x put\<close>)
  moreover have "bw_fill (x # bs) env = bw_fill bs (put_tree b ?t env)"
    using Cons.prems(1) by (simp add: bw_fill_def x bindS_apply createWorkspace_Some)
  ultimately show ?case by (simp add: put x)
qed

lemma restore_ok:
  assumes "distinct (keys (sp_branches s))" "list_all (\<lambda>(_, t). snapshot_wf (ws_overlay t)) (sp_branches s)"
  shows "bw_restore s env = (Inr (), env\<lparr>en_branches := restored s\<rparr>)"
  using assms(1) fill_loop [OF assms(2),
      of "env\<lparr>en_branches := \<lparr>bw_trees = [], bw_selected = bw_selected (en_branches env)\<rparr>\<rparr>"]
  by (simp add: bw_restore_def bindS_apply selectedS_def bw_clear_def modifyS_apply bw_select_def restored_def)

lemma restore_snapshot:
  assumes "bw_ok bw"
  shows "bw_restore (bw_snapshot collate bw) env = (Inr (), env\<lparr>en_branches := restored (bw_snapshot collate bw)\<rparr>)"
  by (rule restore_ok) (use snapshot_ok [OF assms, of None collate] in
    \<open>auto simp: stored_snapshot_ok_def journal_ok_def\<close>)

lemma restored_ok: "stored_snapshot_ok s \<Longrightarrow> bw_ok (restored s)"
  by (auto simp: stored_snapshot_ok_def bw_ok_def restored_def list_all_iff case_prod_unfold comp_def
      intro: of_snapshot_wf)

lemma restored_snapshot_ok: "bw_ok bw \<Longrightarrow> bw_ok (restored (bw_snapshot collate bw))"
  using restored_ok [OF snapshot_ok [of bw None collate]] by (simp add: journal_ok_def restored_def)

lemma restored_selected [simp]: "bw_selected (restored s) = sp_selectedBranch s"
  by (simp add: restored_def)

lemma restored_same: "bw_ok bw \<Longrightarrow> same_branches (restored (bw_snapshot collate bw)) bw"
  by (auto simp: same_branches_def restored_def bw_snapshot_def wt_snapshot_def same_tree_def bw_ok_def
      list_all2_conv_all_nth list_all_length case_prod_unfold intro!: of_snapshot_same)

lemma same_overlay_refl [simp]: "same_overlay ov ov"
  by (simp add: same_overlay_def)

lemma same_branches_refl [simp]: "same_branches bw bw"
  by (simp add: same_branches_def same_tree_def list_all2_refl)

subsection \<open>Steps that keep the invariant\<close>

text \<open>The invariant together with a property of the selected branch and the journal.\<close>

definition inv_with :: "('s \<Rightarrow> repository_id \<Rightarrow> workspace_snapshot option) \<Rightarrow>
    (branch_name \<Rightarrow> pending_publication option \<Rightarrow> bool) \<Rightarrow> ('w, 's) env \<Rightarrow> bool" where
  "inv_with stored K env \<longleftrightarrow> env_ok stored env \<and> K (bw_selected (en_branches env)) (en_pending env)"

lemma inv_withD:
  assumes "inv_with stored K env"
  shows "env_ok stored env" "bw_ok (en_branches env)"
    "journal_ok (bw_selected (en_branches env)) (en_pending env)" "K (bw_selected (en_branches env)) (en_pending env)"
  using assms by (auto simp: inv_with_def env_ok_def)

lemma inv_cong:
  assumes "inv_with stored K env" and "en_branches env' = en_branches env" and "en_pending env' = en_pending env"
    and "stored (en_store env') = stored (en_store env)"
  shows "inv_with stored K env'"
  using assms by (simp add: inv_with_def env_ok_def)

lemma put_tree_ok: "bw_ok (en_branches env) \<Longrightarrow> overlay_wf (wt_overlay tree) \<Longrightarrow> bw_ok (en_branches (put_tree b tree env))"
  using set_update_subset [of b tree "bw_trees (en_branches env)"]
  by (fastforce simp: bw_ok_def put_tree_def list_all_iff)

lemma put_tree_sel [simp]:
  "bw_selected (en_branches (put_tree b tree env)) = bw_selected (en_branches env)"
  "en_pending (put_tree b tree env) = en_pending env" "en_store (put_tree b tree env) = en_store env"
  "en_remote (put_tree b tree env) = en_remote env" "en_info (put_tree b tree env) = en_info env"
  "en_events (put_tree b tree env) = en_events env"
  "fst ` set (bw_trees (en_branches (put_tree b tree env))) = insert b (fst ` set (bw_trees (en_branches env)))"
  by (simp_all add: put_tree_def)

lemma inv_put_tree:
  "inv_with stored K env \<Longrightarrow> overlay_wf (wt_overlay tree) \<Longrightarrow> inv_with stored K (put_tree b tree env)"
  by (simp add: inv_with_def env_ok_def put_tree_ok)

lemma current_wf: "bw_ok bw \<Longrightarrow> bw_current bw = Inr tree \<Longrightarrow> overlay_wf (wt_overlay tree)"
  by (auto simp: bw_current_def bw_ok_def list_all_iff split: option.splits dest!: map_of_SomeD)

lemma current_ok: "bw_ok bw \<Longrightarrow> \<exists>tree. bw_current bw = Inr tree"
  by (auto simp: bw_current_def bw_ok_def split: option.splits)

lemma inv_onCurrent:
  fixes stored :: "'s \<Rightarrow> repository_id \<Rightarrow> workspace_snapshot option"
  assumes "preserves (\<lambda>t. overlay_wf (wt_overlay t)) m"
  shows "preserves (inv_with stored K :: ('w, 's) env \<Rightarrow> bool) (onCurrent m)"
  unfolding onCurrent_def currentS_def
proof (rule preserves_ask)
  fix tree and env :: "('w, 's) env"
  assume "inv_with stored K env" and "bw_current (en_branches env) = Inr tree"
  then have "overlay_wf (wt_overlay tree)" by (blast dest: inv_withD(2) current_wf)
  then show "preserves (inv_with stored K) (\<lambda>env. case m tree of (r, tree') \<Rightarrow>
      (r, put_tree (bw_selected (en_branches env)) tree' env))"
    using preservesD [OF assms] inv_put_tree by (fastforce simp: preserves_def split: prod.splits)
qed

lemma inv_treeS:
  assumes "\<And>h. preserves (\<lambda>t. overlay_wf (wt_overlay t)) (m h)"
  shows "preserves (inv_with stored K) (treeS sv m)"
  unfolding preserves_def treeS_def
  using preservesD [OF inv_onCurrent [OF assms]] by blast

lemma inv_remoteS: "preserves (inv_with stored K) (remoteS m)"
proof -
  have "inv_with stored K env'" if "inv_with stored K env" "remoteS m env = (r, env')" for env env' r
    using that by (auto simp: remoteS_apply intro: inv_cong split: prod.splits)
  then show ?thesis by (simp add: preserves_def)
qed

lemma inv_emitChanged: "preserves (inv_with stored K) emitChanged"
  unfolding emitChanged_def currentS_def
  by (intro preserves_bindS preserves_askS preserves_modifyS) (auto intro: inv_cong)

lemma inv_createWorkspace_None:
  fixes stored :: "'s \<Rightarrow> repository_id \<Rightarrow> workspace_snapshot option"
  shows "preserves (inv_with stored K :: ('w, 's) env \<Rightarrow> bool) (bw_createWorkspace b rv None)"
proof -
  have "inv_with stored K env'" if "inv_with stored K env" "bw_createWorkspace b rv None env = (r, env')"
    for env env' :: "('w, 's) env" and r
    using that inv_put_tree [of stored K env "\<lparr>wt_baseRevision = rv, wt_overlay = empty_overlay\<rparr>" b]
    by (simp add: createWorkspace_None)
  then show ?thesis by (auto simp: preserves_def)
qed

lemma inv_ensureWorkspace: "preserves (inv_with stored K) (bw_ensureWorkspace sv b)"
  unfolding bw_ensureWorkspace_def
  by (intro preserves_intro inv_remoteS inv_createWorkspace_None)

lemma ensureWorkspace_present:
  assumes "bw_ensureWorkspace sv b env = (Inr u, env')"
  shows "b \<in> fst ` set (bw_trees (en_branches env'))"
  using assms
  by (auto simp: bw_ensureWorkspace_def st_Inr_iffs createWorkspace_None split: if_splits option.splits)

lemma inv_setPending:
  assumes "\<And>sel old. K sel old \<Longrightarrow> journal_ok sel old \<Longrightarrow> K sel p \<and> journal_ok sel p"
  shows "preserves (inv_with stored K) (setPending p)"
  unfolding setPending_def
  by (rule preserves_modifyS) (use assms in \<open>auto simp: inv_with_def env_ok_def\<close>)

lemma inv_restore:
  fixes stored :: "'s \<Rightarrow> repository_id \<Rightarrow> workspace_snapshot option"
  assumes s: "distinct (keys (sp_branches s))" "list_all (\<lambda>(_, t). snapshot_wf (ws_overlay t)) (sp_branches s)"
      "sp_selectedBranch s \<in> set (keys (sp_branches s))"
    and K: "\<And>sel p. K sel p \<Longrightarrow> journal_ok sel p \<Longrightarrow> K (sp_selectedBranch s) p \<and> journal_ok (sp_selectedBranch s) p"
  shows "preserves (inv_with stored K :: ('w, 's) env \<Rightarrow> bool) (bw_restore s)"
proof -
  have "bw_ok (restored s)"
    using s by (auto simp: bw_ok_def restored_def list_all_iff case_prod_unfold comp_def intro: of_snapshot_wf)
  then have "inv_with stored K (env\<lparr>en_branches := restored s\<rparr>)" if "inv_with stored K env" for env :: "('w, 's) env"
    using that K [of "bw_selected (en_branches env)" "en_pending env"] by (simp add: inv_with_def env_ok_def)
  then show ?thesis by (simp add: preserves_def restore_ok [OF s(1,2)])
qed

lemma inv_restore_snapshot:
  assumes "bw_ok bw"
    and K: "\<And>sel p. K sel p \<Longrightarrow> journal_ok sel p \<Longrightarrow> K (bw_selected bw) p \<and> journal_ok (bw_selected bw) p"
  shows "preserves (inv_with stored K) (bw_restore (bw_snapshot collate bw))"
  by (rule inv_restore) (use assms(2) snapshot_ok [OF assms(1), of None collate] in
    \<open>auto simp: stored_snapshot_ok_def journal_ok_def\<close>)

subsection \<open>Operations that need the storage contract\<close>

abbreviation any_state :: "branch_name \<Rightarrow> pending_publication option \<Rightarrow> bool" where
  "any_state \<equiv> \<lambda>_ _. True"

abbreviation idle :: "branch_name \<Rightarrow> pending_publication option \<Rightarrow> bool" where
  "idle \<equiv> \<lambda>_ p. p = None"

abbreviation on_branch :: "branch_name \<Rightarrow> branch_name \<Rightarrow> pending_publication option \<Rightarrow> bool" where
  "on_branch b \<equiv> \<lambda>sel _. sel = b"

lemma inv_pending:
  assumes "preserves (inv_with stored idle) m"
  shows "preserves (inv_with stored any_state) (bindS requireNoPendingCommitPublication (\<lambda>_. m))"
proof -
  have "inv_with stored any_state env'"
    if "inv_with stored any_state env" "bindS requireNoPendingCommitPublication (\<lambda>_. m) env = (r, env')" for env env' r
    using that preservesD [OF assms]
    by (cases "en_pending env")
      (auto simp: requireNoPendingCommitPublication_def bindS_apply inv_with_def)
  then show ?thesis by (simp add: preserves_def)
qed

context workspace_storage
begin

lemma inv_save:
  assumes "sv_storage sv = so"
  shows "preserves (inv_with stored K) (saveSnapshot sv)"
proof -
  have "inv_with stored K env'" if inv: "inv_with stored K env" and run: "saveSnapshot sv env = (r, env')" for env env' r
  proof -
    let ?x = "(bw_snapshot (sv_collate sv) (en_branches env))\<lparr>sp_pending := en_pending env\<rparr>"
    obtain res s' where s': "so_save so (ri_id (en_info env)) ?x (en_store env) = (res, s')" by fastforce
    have "stored_snapshot_ok ?x" using snapshot_ok inv_withD(2,3) [OF inv] by blast
    moreover have "\<forall>r s. stored (en_store env) r = Some s \<longrightarrow> stored_snapshot_ok s"
      using inv by (simp add: inv_with_def env_ok_def)
    ultimately have "\<forall>r s. stored s' r = Some s \<longrightarrow> stored_snapshot_ok s"
      using save_cases [OF s' stored_snapshot_ok_keys] by (auto split: if_splits)
    moreover have "env' = env\<lparr>en_store := s'\<rparr>"
      using run s' by (simp add: saveSnapshot_def assms storeS_apply)
    ultimately show ?thesis using inv by (simp add: inv_with_def env_ok_def)
  qed
  then show ?thesis by (simp add: preserves_def)
qed

lemma inv_changed: "sv_storage sv = so \<Longrightarrow> preserves (inv_with stored K) (ws_changed sv)"
  unfolding ws_changed_def by (intro preserves_bindS inv_save inv_emitChanged)

lemma inv_changedAfterRemoteSuccess:
  "sv_storage sv = so \<Longrightarrow> preserves (inv_with stored K) (changedAfterRemoteSuccess sv)"
  unfolding changedAfterRemoteSuccess_def
  by (intro preserves_bindS preserves_ignoreS inv_save inv_emitChanged)

lemma inv_runLocalMutation:
  fixes sv :: "('w, 's) services"
  assumes "sv_storage sv = so" and "preserves (inv_with stored idle) m"
  shows "preserves (inv_with stored idle) (runLocalMutation sv m d)"
  unfolding runLocalMutation_def
proof (rule preserves_ask)
  fix snapshot and env :: "('w, 's) env"
  assume inv: "inv_with stored idle env"
    and snapshot: "Inr (bw_snapshot (sv_collate sv) (en_branches env)) = Inr snapshot"
  have "preserves (inv_with stored idle) (bw_restore (bw_snapshot (sv_collate sv) (en_branches env)))"
    by (rule inv_restore_snapshot [OF inv_withD(2) [OF inv]]) (simp add: journal_ok_def)
  with snapshot assms show "preserves (inv_with stored idle) (onErrorS (bindS m (\<lambda>result.
      if d result then bindS (ws_changed sv) (\<lambda>_. returnS result) else returnS result)) (bw_restore snapshot))"
    by (intro preserves_intro inv_changed) simp_all
qed

lemma inv_mutate:
  assumes "sv_storage sv = so" and "preserves (inv_with stored idle) m"
  shows "preserves (inv_with stored any_state) (ws_mutate sv m)"
  unfolding ws_mutate_def by (rule inv_pending [OF inv_runLocalMutation [OF assms]])

end

end
