(* ===== verification/WorkspaceInvariant.thy ===== *)
theory WorkspaceInvariant
  imports WorkspaceFacts
begin

section \<open>The invariant of a workspace over any sequence of operations\<close>

text \<open>
  Every public operation of \<open>RemotishWorkspace\<close>, whether it succeeds or throws, keeps the invariant
  of the previous theory, and so does whatever other clients do to the remote repository between
  the operations.
\<close>

subsection \<open>Working trees\<close>

lemma wf_wt_mutate:
  "(\<And>base. preserves overlay_wf (m base)) \<Longrightarrow> preserves (\<lambda>t. overlay_wf (wt_overlay t)) (wt_mutate m)"
  unfolding preserves_def wt_mutate_def by (fastforce split: prod.splits)

lemma wf_tree_operations:
  "preserves (\<lambda>t. overlay_wf (wt_overlay t)) (wt_writeFile h path content create overwrite)"
  "preserves (\<lambda>t. overlay_wf (wt_overlay t)) (wt_createDirectory h path)"
  "preserves (\<lambda>t. overlay_wf (wt_overlay t)) (wt_delete h path recursive)"
  "preserves (\<lambda>t. overlay_wf (wt_overlay t)) (wt_rename h source target overwrite)"
  "preserves (\<lambda>t. overlay_wf (wt_overlay t)) (wt_revert path)"
  "preserves (\<lambda>t. overlay_wf (wt_overlay t)) wt_revertAll"
  unfolding wt_writeFile_def wt_createDirectory_def wt_delete_def wt_rename_def wt_revert_def wt_revertAll_def
  by (rule wf_wt_mutate, rule wf_mutations)+

lemma wf_rebindCleanBase: "preserves (\<lambda>t. overlay_wf (wt_overlay t)) (rebindCleanBase rv)"
  by (auto simp: preserves_def rebindCleanBase_def split: if_splits)

lemma wf_acceptPublished: "preserves (\<lambda>t. overlay_wf (wt_overlay t))
    (\<lambda>tree. (Inr (), acceptPublishedRevision rv tree))"
  by (simp add: preserves_def acceptPublishedRevision_def overlay_clear_def)

lemma wf_acceptPartially: "preserves (\<lambda>t. overlay_wf (wt_overlay t)) (acceptPartiallyPublishedRevision h rv)"
proof -
  have "overlay_wf (wt_overlay wt')"
    if wf: "overlay_wf (wt_overlay wt)" and run: "acceptPartiallyPublishedRevision h rv wt = (r, wt')" for wt wt' r
  proof -
    let ?copy = "of_snapshot (overlay_snapshot_of (rd_collate h) (wt_overlay wt))"
    have copy: "overlay_wf ?copy" using wf by (intro of_snapshot_wf) simp
    have "overlay_restore (overlay_snapshot_of (rd_collate h) ov) (wt_overlay wt) = (Inr (), of_snapshot
        (overlay_snapshot_of (rd_collate h) ov))" if "overlay_wf ov" for ov
      using that by (intro restore_wf) simp
    with run wf copy preservesD [OF rebase_preserves_wf _ copy] show ?thesis
      by (auto simp: acceptPartiallyPublishedRevision_def fromSnapshot_wf of_snapshot_wf split: sum.splits prod.splits)
  qed
  then show ?thesis by (auto simp: preserves_def)
qed

subsection \<open>Local operations\<close>

lemma inv_requireWritable: "preserves P (requireWritable sv)"
  by (simp add: requireWritable_def Let_def preserves_intro)

lemma inv_requireExpectedState: "preserves P (requireExpectedState expectedState)"
  unfolding requireExpectedState_def selectedS_def currentS_def by (intro preserves_intro)

lemma inv_select:
  assumes "inv_with stored idle env" and "b \<in> fst ` set (bw_trees (en_branches env))"
    and "bw_select b env = (r, env')"
  shows "inv_with stored idle env'"
proof -
  have "env' = env\<lparr>en_branches := (en_branches env)\<lparr>bw_selected := b\<rparr>\<rparr>"
    using assms(3) by (simp add: bw_select_def modifyS_apply)
  with assms(1,2) show ?thesis by (simp add: inv_with_def env_ok_def bw_ok_def journal_ok_def)
qed

lemma inv_switchTo: "preserves (inv_with stored idle) (bw_switchTo sv b)"
proof -
  have "inv_with stored idle env'" if inv: "inv_with stored idle env" and run: "bw_switchTo sv b env = (r, env')"
    for env env' r
  proof -
    obtain r1 env1 where env1: "bw_ensureWorkspace sv b env = (r1, env1)" by fastforce
    have "inv_with stored idle env1" using preservesD [OF inv_ensureWorkspace env1 inv] .
    then show ?thesis
    proof (cases r1)
      case (Inl e)
      with run env1 \<open>inv_with stored idle env1\<close> show ?thesis by (simp add: bw_switchTo_def bindS_apply)
    next
      case (Inr u)
      with run env1 have "bw_select b env1 = (r, env')" by (simp add: bw_switchTo_def bindS_apply)
      with \<open>inv_with stored idle env1\<close> ensureWorkspace_present [OF env1 [unfolded Inr]] show ?thesis
        by (rule inv_select)
    qed
  qed
  then show ?thesis by (simp add: preserves_def)
qed

lemma inv_refresh: "preserves (inv_with stored K) (bs_refresh sv)"
  unfolding bs_refresh_def selectedS_def currentS_def bw_listRemoteBranches_def Let_def
  by (intro preserves_intro inv_remoteS inv_onCurrent wf_rebindCleanBase)

lemma inv_create: "preserves (inv_with stored idle) (bs_create sv name switchTo)"
  unfolding bs_create_def currentS_def bw_add_def
  by (intro preserves_intro inv_remoteS inv_switchTo inv_createWorkspace_None)

lemma inv_deleteRemote: "preserves (inv_with stored K) (bs_deleteRemote sv name)"
  unfolding bs_deleteRemote_def by (intro preserves_intro inv_remoteS)

lemma remove_ok:
  assumes "bw_ok bw" and "bw_selected bw \<noteq> name"
  shows "bw_ok (bw\<lparr>bw_trees := AList.delete name (bw_trees bw)\<rparr>)"
proof -
  have "set (AList.delete name (bw_trees bw)) \<subseteq> set (bw_trees bw)"
    by (auto simp: AList.delete_eq)
  with assms show ?thesis by (auto simp: bw_ok_def list_all_iff simp del: map_of_delete)
qed

lemma inv_remove: "preserves (inv_with stored (\<lambda>sel p. p = None \<and> sel \<noteq> name)) (bw_remove name)"
  unfolding bw_remove_def
  by (rule preserves_modifyS)
    (use remove_ok in \<open>auto simp: inv_with_def env_ok_def\<close>)

lemma inv_by_branch:
  "(\<And>b. preserves (inv_with stored (on_branch b)) m) \<Longrightarrow> preserves (inv_with stored any_state) m"
  unfolding preserves_def inv_with_def by blast

lemma inv_setPending_None: "preserves (inv_with stored (on_branch b)) (setPending None)"
  by (rule inv_setPending) (simp add: journal_ok_def)

lemma inv_setPending_Some: "pp_branch p = b \<Longrightarrow> preserves (inv_with stored (on_branch b)) (setPending (Some p))"
  by (rule inv_setPending) (simp add: journal_ok_def)

subsection \<open>Commits\<close>

lemma cr_base_build: "cb_branch (cr_base (build_request b rv text changes operation)) = b"
  by (simp add: build_request_def Let_def split: commit_operation.split)

lemma inv_settle:
  assumes "\<And>r. preserves (inv_with stored K) (after r)"
  shows "preserves (inv_with stored K) (settle_commit sv sel after result)"
proof -
  have part: "preserves (inv_with stored K) (\<lambda>env.
      case onCurrent (acceptPartiallyPublishedRevision (sv_host sv env) r) env of
        (Inr _, env') \<Rightarrow> (Inr (result, True), env') | (Inl _, env') \<Rightarrow> (Inr (result, False), env'))" for r result
    unfolding preserves_def
    by (auto split: prod.splits sum.splits dest: preservesD [OF inv_onCurrent [OF wf_acceptPartially]])
  show ?thesis
    unfolding settle_commit_def
    by (cases result)
      (simp_all add: preserves_intro preserves_bindS preserves_ignoreS assms part inv_onCurrent
        [OF wf_acceptPublished] preserves_returnS split: option.split)
qed

lemma inv_execute:
  assumes "\<And>request. cb_branch (cr_base request) = b \<Longrightarrow> preserves (inv_with stored K) (before request)"
    and "\<And>r. preserves (inv_with stored K) (after r)"
  shows "preserves (inv_with stored K) (commit_execute sv b message operation sel before after)"
  unfolding commit_execute_def currentS_def Let_def
  by (intro preserves_intro inv_remoteS inv_settle assms) (simp_all add: cr_base_build)

lemmas commit_kinds = commit_normal_def commit_force_def commit_amend_def

lemma inv_commit_kinds:
  assumes "\<And>request. cb_branch (cr_base request) = b \<Longrightarrow> preserves (inv_with stored K) (before request)"
    and "\<And>r. preserves (inv_with stored K) (after r)"
  shows "preserves (inv_with stored K) (commit_normal sv b message sel before after)"
    and "preserves (inv_with stored K) (commit_force sv b message expected sel before after)"
    and "preserves (inv_with stored K) (commit_amend sv b message sel before after)"
  unfolding commit_kinds currentS_def
  by (intro preserves_intro inv_execute assms; assumption)+

context workspace_storage
begin

lemma inv_journal_before:
  assumes "sv_storage sv = so" and "cb_branch (cr_base request) = b"
  shows "preserves (inv_with stored (on_branch b)) (journal_before sv request)"
  unfolding journal_before_def
  using assms(2)
  by (intro preserves_bindS preserves_onErrorS inv_setPending_None inv_save [OF assms(1)] inv_setPending_Some)
    (simp split: commit_request.split)

lemma inv_journal_after:
  assumes "sv_storage sv = so"
  shows "preserves (inv_with stored (on_branch b)) (journal_after sv r)"
  unfolding journal_after_def
proof (rule preserves_ask)
  fix prepared and env :: "('w, 's) env"
  assume "inv_with stored (on_branch b) env" and "Inr (en_pending env) = Inr prepared"
  then have "journal_ok b prepared" by (auto simp: inv_with_def env_ok_def)
  then show "preserves (inv_with stored (on_branch b)) (case prepared of
       Some (Prepared b expected) \<Rightarrow> bindS (setPending (Some (Published b expected r))) (\<lambda>_.
         ignoreS (saveSnapshot sv))
     | _ \<Rightarrow> returnS ())"
    by (auto simp: journal_ok_def preserves_returnS split: option.split pending_publication.split
        intro!: preserves_bindS preserves_ignoreS inv_save assms inv_setPending_Some)
qed

lemma inv_conclude:
  assumes "sv_storage sv = so"
  shows "preserves (inv_with stored (on_branch b)) (conclude_commit sv execution)"
  unfolding conclude_commit_def
  by (auto split: prod.split commit_result.split
      intro!: preserves_intro inv_setPending_None inv_changedAfterRemoteSuccess inv_save inv_emitChanged assms)

lemma inv_requireNoPending: "preserves P requireNoPendingCommitPublication"
  unfolding requireNoPendingCommitPublication_def by (intro preserves_intro)

lemma preserves_selected:
  assumes "preserves (inv_with stored (on_branch b)) (g b)"
  shows "preserves (inv_with stored (on_branch b)) (bindS selectedS g)"
  unfolding selectedS_def
  by (rule preserves_ask) (use assms in \<open>auto simp: inv_with_def\<close>)

lemma inv_commits:
  fixes sv :: "('w, 's) services"
  assumes "sv_storage sv = so"
  shows "preserves (inv_with stored any_state) (ws_commitAndPush sv message sel expectedState)"
    and "preserves (inv_with stored any_state) (ws_commitAndPushForceWithLease sv message lease sel expectedState)"
    and "preserves (inv_with stored any_state) (ws_amendAndPushForceWithLease sv message sel expectedState)"
  unfolding ws_commitAndPush_def ws_commitAndPushForceWithLease_def ws_amendAndPushForceWithLease_def
    ws_mutateCommit_def currentS_def
  by (intro inv_by_branch preserves_bindS [OF inv_requireNoPending] preserves_bindS [OF _ inv_conclude [OF assms]]
      preserves_bindS [OF inv_requireExpectedState] preserves_selected preserves_bindS [OF preserves_askS]
      inv_commit_kinds inv_journal_before [OF assms] inv_journal_after [OF assms]; assumption)+

lemma inv_edits:
  assumes "sv_storage sv = so"
  shows "preserves (inv_with stored any_state) (ws_writeFile sv path content create overwrite)"
    and "preserves (inv_with stored any_state) (ws_createDirectory sv path)"
    and "preserves (inv_with stored any_state) (ws_delete sv path recursive)"
    and "preserves (inv_with stored any_state) (ws_rename sv source target overwrite)"
    and "preserves (inv_with stored any_state) (ws_revert sv path expectedState)"
    and "preserves (inv_with stored any_state) (ws_revertAll sv expectedState)"
    and "preserves (inv_with stored any_state) (ws_switchBranch sv b)"
  unfolding ws_writeFile_def ws_createDirectory_def ws_delete_def ws_rename_def ws_revert_def
    ws_revertAll_def ws_switchBranch_def
  by (intro inv_mutate [OF assms] preserves_bindS [OF inv_requireWritable]
      preserves_bindS [OF inv_requireExpectedState] inv_treeS wf_tree_operations inv_switchTo)+

lemma inv_refreshRemoteHead:
  "sv_storage sv = so \<Longrightarrow> preserves (inv_with stored any_state) (ws_refreshRemoteHead sv)"
  unfolding ws_refreshRemoteHead_def by (intro inv_pending inv_runLocalMutation inv_refresh)

lemma inv_createBranch:
  "sv_storage sv = so \<Longrightarrow> preserves (inv_with stored any_state) (ws_createBranch sv name switchTo expectedState)"
  unfolding ws_createBranch_def ws_mutateRemoteWithResult_def
  by (intro inv_pending preserves_bindS inv_changedAfterRemoteSuccess inv_requireExpectedState inv_create
      preserves_returnS)

lemma inv_deleteBranch:
  fixes sv :: "('w, 's) services"
  assumes "sv_storage sv = so"
  shows "preserves (inv_with stored any_state) (ws_deleteBranch sv name)"
proof -
  let ?other = "\<lambda>sel p. p = None \<and> sel \<noteq> name"
  let ?rest = "bindS (askS (\<lambda>env. Inr (bw_snapshot (sv_collate sv) (en_branches env)))) (\<lambda>snapshot.
     bindS (bw_remove name) (\<lambda>_.
     bindS (onErrorS (saveSnapshot sv) (bw_restore snapshot)) (\<lambda>_.
     bindS (onErrorS (bs_deleteRemote sv name)
         (bindS (bw_restore snapshot) (\<lambda>_. ignoreS (saveSnapshot sv)))) (\<lambda>_.
       emitChanged)))) :: (('w, 's) env, unit) st"
  have rest: "preserves (inv_with stored ?other) ?rest"
  proof (rule preserves_ask)
    fix snapshot and env :: "('w, 's) env"
    assume inv: "inv_with stored ?other env" and "Inr (bw_snapshot (sv_collate sv) (en_branches env)) = Inr snapshot"
    then have snapshot: "snapshot = bw_snapshot (sv_collate sv) (en_branches env)" by simp
    have "preserves (inv_with stored ?other) (bw_restore snapshot)"
      unfolding snapshot
      by (rule inv_restore_snapshot [OF inv_withD(2) [OF inv]]) (use inv_withD(4) [OF inv] in
          \<open>simp add: journal_ok_def\<close>)
    then show "preserves (inv_with stored ?other) (bindS (bw_remove name) (\<lambda>_.
       bindS (onErrorS (saveSnapshot sv) (bw_restore snapshot)) (\<lambda>_.
       bindS (onErrorS (bs_deleteRemote sv name)
           (bindS (bw_restore snapshot) (\<lambda>_. ignoreS (saveSnapshot sv)))) (\<lambda>_. emitChanged))))"
      by (intro preserves_bindS preserves_onErrorS preserves_ignoreS inv_remove inv_save [OF assms]
          inv_deleteRemote inv_emitChanged)
  qed
  have "preserves (inv_with stored idle)
      (bindS (askS (\<lambda>env. bs_validateDelete sv name (en_branches env))) (\<lambda>_. ?rest))"
  proof -
    have "inv_with stored idle env'"
      if inv: "inv_with stored idle env"
        and run: "bindS (askS (\<lambda>env. bs_validateDelete sv name (en_branches env))) (\<lambda>_. ?rest) env = (r, env')"
      for env env' r
    proof (cases "bs_validateDelete sv name (en_branches env)")
      case (Inl e)
      with run inv show ?thesis by (simp add: bindS_apply)
    next
      case (Inr u)
      with inv have "inv_with stored ?other env"
        by (auto simp: bs_validateDelete_def inv_with_def split: if_splits)
      moreover have "?rest env = (r, env')" using run Inr by (simp add: bindS_apply)
      ultimately have "inv_with stored ?other env'" using preservesD [OF rest] by blast
      then show ?thesis by (simp add: inv_with_def)
    qed
    then show ?thesis by (simp add: preserves_def)
  qed
  then show ?thesis unfolding ws_deleteBranch_def by (rule inv_pending)
qed

lemma inv_resolve_published:
  fixes sv :: "('w, 's) services"
  assumes "sv_storage sv = so" and "pp_branch p = b"
  shows "preserves (inv_with stored (on_branch b)) (resolve_published sv p r)"
  unfolding resolve_published_def
proof (rule preserves_ask)
  fix snapshot and env :: "('w, 's) env"
  assume inv: "inv_with stored (on_branch b) env"
    and "Inr (bw_snapshot (sv_collate sv) (en_branches env)) = Inr snapshot"
  then have snapshot: "snapshot = bw_snapshot (sv_collate sv) (en_branches env)" by simp
  have "preserves (inv_with stored (on_branch b)) (bw_restore snapshot)"
    unfolding snapshot
    by (rule inv_restore_snapshot [OF inv_withD(2) [OF inv]]) (use inv_withD(4) [OF inv] in simp)
  then show "preserves (inv_with stored (on_branch b)) (bindS (onErrorS
         (bindS (treeS sv (\<lambda>h. acceptPartiallyPublishedRevision h r)) (\<lambda>_.
          bindS (setPending None) (\<lambda>_. saveSnapshot sv)))
         (bindS (bw_restore snapshot) (\<lambda>_. setPending (Some p)))) (\<lambda>_. emitChanged))"
    by (intro preserves_bindS preserves_onErrorS inv_treeS wf_acceptPartially inv_setPending_None
        inv_save [OF assms(1)] inv_setPending_Some [OF assms(2)] inv_emitChanged)
qed

lemma preserves_pending:
  assumes "preserves (inv_with stored (on_branch b)) (g None)"
    and "\<And>p. pp_branch p = b \<Longrightarrow> preserves (inv_with stored (on_branch b)) (g (Some p))"
  shows "preserves (inv_with stored (on_branch b)) (bindS (askS (\<lambda>env. Inr (en_pending env))) g)"
proof (rule preserves_ask)
  fix pending and env :: "('w, 's) env"
  assume "inv_with stored (on_branch b) env" and "Inr (en_pending env) = Inr pending"
  then have "journal_ok b pending" by (auto simp: inv_with_def env_ok_def)
  with assms show "preserves (inv_with stored (on_branch b)) (g pending)"
    by (cases pending) (auto simp: journal_ok_def)
qed

lemma inv_resolve:
  assumes "sv_storage sv = so"
  shows "preserves (inv_with stored any_state) (ws_resolvePendingCommitPublication sv resolution)"
  unfolding ws_resolvePendingCommitPublication_def
proof (rule inv_by_branch, rule preserves_pending)
  fix b p assume p: "pp_branch p = b"
  show "preserves (inv_with stored (on_branch b)) (case Some p of None \<Rightarrow> returnS ()
     | Some p \<Rightarrow> (case resolution of
         NotPublished \<Rightarrow> (case p of
             Published _ _ _ \<Rightarrow> throwS invalid_request
           | Prepared _ _ \<Rightarrow> bindS (setPending None) (\<lambda>_.
               bindS (onErrorS (saveSnapshot sv) (setPending (Some p))) (\<lambda>_. emitChanged)))
       | PublishedAs publishedRevision \<Rightarrow>
           if js_trim publishedRevision = [] then throwS invalid_request
           else if (case p of Published _ _ r \<Rightarrow> r \<noteq> publishedRevision | Prepared _ _ \<Rightarrow> False)
           then throwS invalid_request
           else resolve_published sv p publishedRevision))"
    using p
    by (auto simp: preserves_throwS inv_resolve_published [OF assms] split: resolution.split pending_publication.split
        intro!: preserves_bindS preserves_onErrorS inv_setPending_None inv_save [OF assms] inv_setPending_Some
          inv_emitChanged)
qed (simp add: preserves_returnS)

lemma inv_persist: "sv_storage sv = so \<Longrightarrow> preserves (inv_with stored any_state) (ws_persist sv)"
  unfolding ws_persist_def by (rule inv_save)

end

end
