(* ===== verification/WorkspaceLifecycle.thy ===== *)
theory WorkspaceLifecycle
  imports WorkspaceInvariant
begin

section \<open>Opening a workspace and its reachable states\<close>

text \<open>
  \<open>RemotishWorkspace.open\<close> and the recovery of a publication, and the states a workspace can reach
  by its public operations while other clients change the remote repository.
\<close>

inductive ws_step :: "('w, 's) services \<Rightarrow> ('w, 's) env \<Rightarrow> ('w, 's) env \<Rightarrow> bool" for sv where
  step_write: "ws_writeFile sv path content create overwrite env = (r, env') \<Longrightarrow> ws_step sv env env'"
| step_createDirectory: "ws_createDirectory sv path env = (r, env') \<Longrightarrow> ws_step sv env env'"
| step_delete: "ws_delete sv path recursive env = (r, env') \<Longrightarrow> ws_step sv env env'"
| step_rename: "ws_rename sv source target overwrite env = (r, env') \<Longrightarrow> ws_step sv env env'"
| step_revert: "ws_revert sv path expectedState env = (r, env') \<Longrightarrow> ws_step sv env env'"
| step_revertAll: "ws_revertAll sv expectedState env = (r, env') \<Longrightarrow> ws_step sv env env'"
| step_switch: "ws_switchBranch sv b env = (r, env') \<Longrightarrow> ws_step sv env env'"
| step_refresh: "ws_refreshRemoteHead sv env = (head, env') \<Longrightarrow> ws_step sv env env'"
| step_createBranch: "ws_createBranch sv name switchTo expectedState env = (br, env') \<Longrightarrow> ws_step sv env env'"
| step_deleteBranch: "ws_deleteBranch sv name env = (r, env') \<Longrightarrow> ws_step sv env env'"
| step_commit: "ws_commitAndPush sv message sel expectedState env = (c, env') \<Longrightarrow> ws_step sv env env'"
| step_force: "ws_commitAndPushForceWithLease sv message lease sel expectedState env = (c, env') \<Longrightarrow> ws_step sv env env'"
| step_amend: "ws_amendAndPushForceWithLease sv message sel expectedState env = (c, env') \<Longrightarrow> ws_step sv env env'"
| step_resolve: "ws_resolvePendingCommitPublication sv resolution env = (r, env') \<Longrightarrow> ws_step sv env env'"
| step_persist: "ws_persist sv env = (r, env') \<Longrightarrow> ws_step sv env env'"
| step_reopen: "ws_open sv env = (Inr (), env') \<Longrightarrow> ws_step sv env env'"
| step_remote: "ws_step sv env (env\<lparr>en_remote := w\<rparr>)"

text \<open>What a store must hold to be opened.\<close>

definition store_ok :: "('s \<Rightarrow> repository_id \<Rightarrow> workspace_snapshot option) \<Rightarrow> 's \<Rightarrow> bool" where
  "store_ok stored s \<longleftrightarrow> (\<forall>r x. stored s r = Some x \<longrightarrow> stored_snapshot_ok x)"

lemma env_ok_store: "env_ok stored env \<Longrightarrow> store_ok stored (en_store env)"
  by (simp add: env_ok_def store_ok_def)

lemma inv_any [simp]: "inv_with stored any_state env = env_ok stored env"
  by (simp add: inv_with_def)

subsection \<open>Creating the branch workspaces\<close>

lemma create_persisted:
  assumes "stored_snapshot_ok s"
  shows "bw_create sv b (Some s) env = (Inr (), env\<lparr>en_branches := restored s\<rparr>)"
proof -
  let ?clear = "env\<lparr>en_branches := \<lparr>bw_trees = [], bw_selected = sp_selectedBranch s\<rparr>\<rparr>"
  have bs: "list_all (\<lambda>(_, t). snapshot_wf (ws_overlay t)) (sp_branches s)" "distinct (keys (sp_branches s))"
    "sp_selectedBranch s \<in> set (keys (sp_branches s))"
    using assms by (auto simp: stored_snapshot_ok_def)
  then have "bw_fill (sp_branches s) ?clear = (Inr (), env\<lparr>en_branches := restored s\<rparr>)"
    using fill_loop [OF bs(1), of ?clear] by (simp add: restored_def)
  moreover have "bw_ensureWorkspace sv (sp_selectedBranch s) (env\<lparr>en_branches := restored s\<rparr>) =
      (Inr (), env\<lparr>en_branches := restored s\<rparr>)"
    using bs(3) by (simp add: bw_ensureWorkspace_def bindS_apply restored_def case_prod_unfold comp_def image_image)
  ultimately show ?thesis
    by (simp add: bw_create_def bindS_apply bw_clear_def modifyS_apply Let_def)
qed

lemma create_fresh:
  assumes "bw_create sv b None env = (Inr u, env')"
  shows "bw_ok (en_branches env')" and "en_store env' = en_store env"
proof -
  let ?clear = "env\<lparr>en_branches := \<lparr>bw_trees = [], bw_selected = b\<rparr>\<rparr>"
  have "bw_ensureWorkspace sv b ?clear = (Inr u, env')"
    using assms by (simp add: bw_create_def bindS_apply bw_clear_def modifyS_apply)
  then obtain w rv where "env' = put_tree b \<lparr>wt_baseRevision = rv, wt_overlay = empty_overlay\<rparr> (?clear\<lparr>en_remote := w\<rparr>)"
    by (auto simp: bw_ensureWorkspace_def st_Inr_iffs createWorkspace_None remoteS_apply split: if_splits
        option.splits prod.splits)
  then show "bw_ok (en_branches env')" "en_store env' = en_store env"
    by (simp_all add: bw_ok_def put_tree_def)
qed

subsection \<open>Recovery\<close>

text \<open>Recovery throws only when the journal names another branch than the selected one.\<close>

lemma recover_total:
  assumes "journal_ok (bw_selected (en_branches env)) (en_pending env)"
  shows "\<exists>env'. recoverPendingCommitPublication sv env = (Inr (), env')"
  using assms
  by (auto simp: recoverPendingCommitPublication_def bindS_apply selectedS_def journal_ok_def
      recover_prepared_def recover_published_def setPending_def modifyS_apply ignoreS_apply
      split: option.split pending_publication.split prod.split sum.split)

context workspace_storage
begin

lemma inv_clear_journal:
  "sv_storage sv = so \<Longrightarrow>
     preserves (inv_with stored (on_branch b)) (bindS (setPending None) (\<lambda>_. ignoreS (saveSnapshot sv)))"
  by (intro preserves_bindS preserves_ignoreS inv_setPending_None inv_save)

lemma inv_recover_prepared:
  assumes "sv_storage sv = so"
  shows "preserves (inv_with stored (on_branch b)) (recover_prepared sv b' expected)"
  unfolding preserves_def recover_prepared_def
  by (auto split: prod.splits sum.splits option.splits if_splits
      dest: preservesD [OF inv_remoteS] preservesD [OF inv_clear_journal [OF assms]])

lemma inv_recover_published:
  assumes "sv_storage sv = so"
  shows "preserves (inv_with stored (on_branch b)) (recover_published sv r)"
  unfolding preserves_def recover_published_def
  by (auto split: prod.splits sum.splits
      dest: preservesD [OF inv_treeS [OF wf_acceptPartially]] preservesD [OF inv_clear_journal [OF assms]])

lemma inv_recover:
  assumes "sv_storage sv = so"
  shows "preserves (inv_with stored any_state) (recoverPendingCommitPublication sv)"
  unfolding recoverPendingCommitPublication_def selectedS_def
  by (intro inv_by_branch preserves_bindS [OF preserves_askS] preserves_case_option preserves_if preserves_throwS
      preserves_returnS)
    (simp split: pending_publication.split add: inv_recover_prepared [OF assms] inv_recover_published [OF assms])

lemma open_ok:
  assumes "sv_storage sv = so" and "store_ok stored (en_store env)" and "ws_open sv env = (Inr u, env')"
  shows "env_ok stored env'"
proof -
  from assms(3) obtain info env1 persisted env2 env3 where
    repo: "remoteS (ad_getRepository (sv_adapter sv)) env = (Inr info, env1)"
    and load: "storeS (so_load (sv_storage sv) (ri_id info)) env1 = (Inr persisted, env2)"
    and create: "bw_create sv (ri_defaultBranch info) persisted env2 = (Inr (), env3)"
    and recover: "recoverPendingCommitPublication sv (env3\<lparr>en_info := info,
         en_pending := (case persisted of None \<Rightarrow> None | Some p \<Rightarrow> sp_pending p), en_events := []\<rparr>) = (Inr u, env')"
    by (auto simp: ws_open_def st_Inr_iffs)
  obtain s where s: "so_load so (ri_id info) (en_store env1) = (Inr persisted, s)" "en_store env2 = s"
    using load assms(1) by (auto simp: storeS_apply split: prod.splits)
  have "en_store env1 = en_store env" using repo by (auto simp: remoteS_apply split: prod.splits)
  then have persisted: "persisted = stored (en_store env) (ri_id info)" and store2: "store_ok stored (en_store env2)"
    using load_stored [OF s(1)] load_keeps [OF s(1)] assms(2) s(2) by (simp_all add: store_ok_def)
  let ?env = "env3\<lparr>en_info := info, en_pending := (case persisted of None \<Rightarrow> None | Some p \<Rightarrow> sp_pending p),
      en_events := []\<rparr>"
  have "env_ok stored ?env"
  proof (cases persisted)
    case None
    with create store2 show ?thesis
      using create_fresh by (fastforce simp: env_ok_def store_ok_def journal_ok_def)
  next
    case (Some p)
    with persisted assms(2) have p: "stored_snapshot_ok p" by (simp add: store_ok_def)
    then have "env3 = env2\<lparr>en_branches := restored p\<rparr>" using create Some by (simp add: create_persisted)
    with p Some store2 restored_ok [OF p] show ?thesis
      by (simp add: env_ok_def store_ok_def stored_snapshot_ok_def)
  qed
  then show ?thesis using preservesD [OF inv_recover [OF assms(1)] recover] by simp
qed

lemma step_ok:
  assumes "sv_storage sv = so" and "ws_step sv env env'" and "env_ok stored env"
  shows "env_ok stored env'"
proof -
  have keep: "m env = (r, env') \<Longrightarrow> env_ok stored env'" if "preserves (inv_with stored any_state) m" for m r
    using preservesD [OF that] assms(3) by simp
  note facts = inv_edits [OF assms(1)] inv_refreshRemoteHead [OF assms(1)] inv_createBranch [OF assms(1)]
    inv_deleteBranch [OF assms(1)] inv_commits [OF assms(1)] inv_resolve [OF assms(1)] inv_persist [OF assms(1)]
  from assms(2) show ?thesis
  proof cases
    case step_reopen
    then show ?thesis using open_ok [OF assms(1) env_ok_store [OF assms(3)]] by blast
  next
    case (step_remote w)
    with assms(3) show ?thesis by (simp add: env_ok_def)
  qed (erule keep [rotated], rule facts)+
qed

lemma steps_ok:
  assumes "sv_storage sv = so" and "(ws_step sv)\<^sup>*\<^sup>* env env'" and "env_ok stored env"
  shows "env_ok stored env'"
  using assms(2,3) by (induction rule: rtranclp_induct) (auto intro: step_ok [OF assms(1)])

text \<open>A workspace whose state was stored opens again.\<close>

lemma reopen:
  assumes "sv_storage sv = so" and "store_ok stored (en_store env)"
    and "validateAdapterContract (sv_adapter sv) = Inr ()"
    and "ad_getRepository (sv_adapter sv) (en_remote env) = (Inr info, w)"
    and "so_load so (ri_id info) (en_store env) = (Inr p, s')"
    and "stored (en_store env) (ri_id info) = Some snapshot"
  shows "\<exists>env'. ws_open sv env = (Inr (), env')"
proof -
  have p: "p = Some snapshot" using load_stored [OF assms(5)] assms(6) by simp
  have ok: "stored_snapshot_ok snapshot" using assms(2,6) by (simp add: store_ok_def)
  let ?env = "env\<lparr>en_remote := w, en_store := s', en_branches := restored snapshot, en_info := info,
      en_pending := sp_pending snapshot, en_events := []\<rparr>"
  have "ws_open sv env = recoverPendingCommitPublication sv ?env"
    using assms p by (simp add: ws_open_def bindS_apply remoteS_apply storeS_apply create_persisted [OF ok]
        modifyS_apply)
  with recover_total [of ?env sv] ok show ?thesis by (simp add: stored_snapshot_ok_def)
qed

end

end
