(* ===== verification/WorkspaceOperations.thy ===== *)
theory WorkspaceOperations
  imports WorkspaceLifecycle
begin

section \<open>What the operations of a workspace do\<close>

text \<open>
  The functional behaviour of the operations of \<open>RemotishWorkspace\<close>: local operations happen as a
  whole or not at all, publications are journalled before they are sent, and a pending journal blocks
  every change.
\<close>

lemma bindS_Inl: "m s = (Inl e, t) \<Longrightarrow> bindS m f s = (Inl e, t)"
  by (simp add: bindS_apply)

lemma bindS_Inr: "m s = (Inr x, t) \<Longrightarrow> bindS m f s = f x t"
  by (simp add: bindS_apply)

subsection \<open>Edits\<close>

datatype edit =
    WriteFile path bytes bool bool
  | CreateDirectory path
  | Delete path bool
  | Rename path path bool
  | Revert path "(branch_name \<times> revision) option"
  | RevertAll "(branch_name \<times> revision) option"

text \<open>An edit as a method of the workspace and as a method of its working tree.\<close>

fun run_edit :: "('w, 's) services \<Rightarrow> edit \<Rightarrow> (('w, 's) env, unit) st" where
  "run_edit sv (WriteFile path content create overwrite) = ws_writeFile sv path content create overwrite"
| "run_edit sv (CreateDirectory path) = ws_createDirectory sv path"
| "run_edit sv (Delete path recursive) = ws_delete sv path recursive"
| "run_edit sv (Rename source target overwrite) = ws_rename sv source target overwrite"
| "run_edit sv (Revert path expectedState) = ws_revert sv path expectedState"
| "run_edit sv (RevertAll expectedState) = ws_revertAll sv expectedState"

fun tree_edit :: "edit \<Rightarrow> host \<Rightarrow> (working_tree, unit) st" where
  "tree_edit (WriteFile path content create overwrite) h = wt_writeFile h path content create overwrite"
| "tree_edit (CreateDirectory path) h = wt_createDirectory h path"
| "tree_edit (Delete path recursive) h = wt_delete h path recursive"
| "tree_edit (Rename source target overwrite) h = wt_rename h source target overwrite"
| "tree_edit (Revert path _) h = wt_revert path"
| "tree_edit (RevertAll _) h = wt_revertAll"

fun edit_guard :: "('w, 's) services \<Rightarrow> edit \<Rightarrow> (('w, 's) env, unit) st" where
  "edit_guard sv (Revert _ expectedState) = requireExpectedState expectedState"
| "edit_guard sv (RevertAll expectedState) = requireExpectedState expectedState"
| "edit_guard sv _ = requireWritable sv"

lemma run_edit_eq: "run_edit sv e = ws_mutate sv (bindS (edit_guard sv e) (\<lambda>_. treeS sv (tree_edit e)))"
  by (cases e) (simp_all add: ws_writeFile_def ws_createDirectory_def ws_delete_def ws_rename_def ws_revert_def
      ws_revertAll_def treeS_def)

lemma wf_tree_edit: "preserves (\<lambda>t. overlay_wf (wt_overlay t)) (tree_edit e h)"
  by (cases e) (simp_all add: wf_tree_operations)

lemma edit_guard_pure: "edit_guard sv e env = (fst (edit_guard sv e env), env)"
  by (cases e)
    (auto simp: requireWritable_def requireExpectedState_def Let_def bindS_apply selectedS_def currentS_def
      split: option.split sum.split)

subsection \<open>Local operations happen as a whole\<close>

definition changed_env :: "('w, 's) services \<Rightarrow> 's \<Rightarrow> ('w, 's) env \<Rightarrow> ('w, 's) env" where
  "changed_env sv s env = env\<lparr>en_store := s, en_events := en_events env @
     [\<lparr>ce_branch = bw_selected (en_branches env),
       ce_baseRevision = wt_baseRevision (projr (bw_current (en_branches env)))\<rparr>]\<rparr>"

abbreviation save_call :: "('w, 's) services \<Rightarrow> ('w, 's) env \<Rightarrow> unit res \<times> 's" where
  "save_call sv env \<equiv> so_save (sv_storage sv) (ri_id (en_info env))
     ((bw_snapshot (sv_collate sv) (en_branches env))\<lparr>sp_pending := en_pending env\<rparr>) (en_store env)"

lemma saveSnapshot_apply: "saveSnapshot sv env = (case save_call sv env of (r, s) \<Rightarrow> (r, env\<lparr>en_store := s\<rparr>))"
  by (simp add: saveSnapshot_def storeS_apply)

lemma emitChanged_apply:
  assumes "bw_ok (en_branches env)"
  shows "emitChanged env = (Inr (), changed_env sv (en_store env) env)"
  using current_ok [OF assms]
  by (auto simp: emitChanged_def currentS_def bindS_apply modifyS_apply changed_env_def)

lemma ws_changed_apply:
  assumes "bw_ok (en_branches env)"
  shows "ws_changed sv env = (case save_call sv env of
     (Inl e, s) \<Rightarrow> (Inl e, env\<lparr>en_store := s\<rparr>) | (Inr _, s) \<Rightarrow> (Inr (), changed_env sv s env))"
  using assms emitChanged_apply [of "env\<lparr>en_store := s\<rparr>" sv for s]
  by (auto simp: ws_changed_def bindS_apply saveSnapshot_apply changed_env_def split: prod.split sum.split)

lemma changedAfterRemoteSuccess_apply:
  assumes "bw_ok (en_branches env)"
  shows "changedAfterRemoteSuccess sv env = (Inr (), changed_env sv (snd (save_call sv env)) env)"
proof -
  let ?s = "snd (save_call sv env)"
  have "emitChanged (env\<lparr>en_store := ?s\<rparr>) = (Inr (), changed_env sv ?s env)"
    using emitChanged_apply [of "env\<lparr>en_store := ?s\<rparr>" sv] assms by (simp add: changed_env_def)
  moreover have "ignoreS (saveSnapshot sv) env = (Inr (), env\<lparr>en_store := ?s\<rparr>)"
    by (simp add: ignoreS_apply saveSnapshot_apply split: prod.split)
  ultimately show ?thesis by (auto simp: changedAfterRemoteSuccess_def bindS_apply)
qed

text \<open>Why an edit may fail: an unresolved journal, its guard, the working tree or the storage.\<close>

definition edit_refused :: "('w, 's) services \<Rightarrow> edit \<Rightarrow> ('w, 's) env \<Rightarrow> bool" where
  "edit_refused sv e env \<longleftrightarrow> en_pending env \<noteq> None \<or> isl (fst (edit_guard sv e env)) \<or>
     (case bw_current (en_branches env) of Inl _ \<Rightarrow> True | Inr tree \<Rightarrow>
       (case tree_edit e (sv_host sv env) tree of (r, tree') \<Rightarrow>
          isl r \<or> isl (fst (save_call sv (put_tree (bw_selected (en_branches env)) tree' env)))))"

text \<open>The reasons that are known before anything is saved.\<close>

definition edit_rejected :: "('w, 's) services \<Rightarrow> edit \<Rightarrow> ('w, 's) env \<Rightarrow> bool" where
  "edit_rejected sv e env \<longleftrightarrow> en_pending env \<noteq> None \<or> isl (fst (edit_guard sv e env)) \<or>
     (case bw_current (en_branches env) of Inl _ \<Rightarrow> True
      | Inr tree \<Rightarrow> isl (fst (tree_edit e (sv_host sv env) tree)))"

text \<open>The three ways a local operation ends.\<close>

lemma runLocalMutation_cases:
  assumes ok: "bw_ok (en_branches env)" and m: "m env = (r1, env1)" and ok1: "bw_ok (en_branches env1)"
    and d: "\<And>x. r1 = Inr x \<Longrightarrow> d x"
  shows "case runLocalMutation sv m d env of
      (Inr x, env') \<Rightarrow> \<exists>s. r1 = Inr x \<and> save_call sv env1 = (Inr (), s) \<and> env' = changed_env sv s env1
    | (Inl e, env') \<Rightarrow> \<exists>s. env' = env1\<lparr>en_branches := restored (bw_snapshot (sv_collate sv) (en_branches env)),
        en_store := s\<rparr> \<and> (r1 = Inl e \<and> s = en_store env1 \<or> (\<exists>x. r1 = Inr x) \<and> save_call sv env1 = (Inl e, s))"
proof -
  let ?restore = "bw_restore (bw_snapshot (sv_collate sv) (en_branches env))"
  have restore: "?restore env' = (Inr (), env'\<lparr>en_branches := restored (bw_snapshot (sv_collate sv) (en_branches env))\<rparr>)"
    for env' :: "('a, 'b) env" by (rule restore_snapshot [OF ok])
  show ?thesis
  proof (cases r1)
    case (Inl e)
    with m show ?thesis by (simp add: runLocalMutation_def bindS_apply onErrorS_def restore)
  next
    case (Inr x)
    obtain r s where s: "save_call sv env1 = (r, s)" by fastforce
    with m d [OF Inr] Inr show ?thesis
      by (cases r) (simp_all add: runLocalMutation_def bindS_apply onErrorS_def restore ws_changed_apply [OF ok1])
  qed
qed

lemma mutate_idle: "en_pending env = None \<Longrightarrow> ws_mutate sv m env = runLocalMutation sv m (\<lambda>_. True) env"
  by (simp add: ws_mutate_def bindS_apply requireNoPendingCommitPublication_def)

lemma mutate_pending: "en_pending env \<noteq> None \<Longrightarrow> ws_mutate sv m env = (Inl invalid_request, env)"
  by (auto simp: ws_mutate_def bindS_apply requireNoPendingCommitPublication_def)

lemma run_edit_outcome:
  assumes storage: "workspace_storage (sv_storage sv) stored" and env: "env_ok stored env"
  shows "case run_edit sv e env of
      (Inr _, env') \<Rightarrow> \<not> edit_refused sv e env \<and> (\<exists>tree tree' s. bw_current (en_branches env) = Inr tree \<and>
        tree_edit e (sv_host sv env) tree = (Inr (), tree') \<and>
        save_call sv (put_tree (bw_selected (en_branches env)) tree' env) = (Inr (), s) \<and>
        env' = changed_env sv s (put_tree (bw_selected (en_branches env)) tree' env) \<and>
        stored s = (stored (en_store env))(ri_id (en_info env) \<mapsto> bw_snapshot (sv_collate sv) (en_branches env')))
    | (Inl x, env') \<Rightarrow> edit_refused sv e env \<and> same_branches (en_branches env') (en_branches env) \<and>
        env' = env\<lparr>en_branches := en_branches env', en_store := en_store env'\<rparr> \<and>
        (if edit_rejected sv e env then en_store env' = en_store env
         else (\<exists>tree tree'. bw_current (en_branches env) = Inr tree \<and>
             tree_edit e (sv_host sv env) tree = (Inr (), tree') \<and>
             save_call sv (put_tree (bw_selected (en_branches env)) tree' env) = (Inl x, en_store env'))) \<and>
        (\<forall>r. r \<noteq> ri_id (en_info env) \<longrightarrow> stored (en_store env') r = stored (en_store env) r)"
proof (cases "en_pending env")
  case (Some p)
  then have "run_edit sv e env = (Inl invalid_request, env)"
    by (simp add: run_edit_eq mutate_pending)
  then show ?thesis using Some by (simp add: edit_refused_def edit_rejected_def)
next
  case None
  let ?m = "bindS (edit_guard sv e) (\<lambda>_. treeS sv (tree_edit e))"
  note ok = env [unfolded env_ok_def, THEN conjunct1]
  obtain tree where tree: "bw_current (en_branches env) = Inr tree" using current_ok [OF ok] by blast
  obtain r2 tree' where tree': "tree_edit e (sv_host sv env) tree = (r2, tree')" by fastforce
  let ?put = "put_tree (bw_selected (en_branches env)) tree' env"
  have run: "?m env = (case fst (edit_guard sv e env) of Inl x \<Rightarrow> (Inl x, env) | Inr _ \<Rightarrow> (r2, ?put))"
    by (subst bindS_apply, subst edit_guard_pure)
      (simp add: treeS_def onCurrent_def currentS_def bindS_apply tree tree' split: sum.split)
  obtain r1 env1 where env1: "?m env = (r1, env1)" by fastforce
  have put_ok: "bw_ok (en_branches ?put)"
    using preservesD [OF wf_tree_edit tree'] current_wf [OF ok tree] ok by (intro put_tree_ok) auto
  have frame: "env1 = env\<lparr>en_branches := en_branches env1\<rparr>" and ok1: "bw_ok (en_branches env1)"
    using run env1 ok put_ok by (auto simp: put_tree_def split: sum.splits)
  obtain res env' where env': "run_edit sv e env = (res, env')" by fastforce
  then have local: "runLocalMutation sv ?m (\<lambda>_. True) env = (res, env')"
    by (simp add: run_edit_eq mutate_idle [OF None])
  note cases = runLocalMutation_cases [where m = ?m and d = "\<lambda>_. True" and sv = sv, OF ok env1 ok1 TrueI, unfolded local]
  show ?thesis
  proof (cases res)
    case (Inr x)
    with cases obtain s where s: "r1 = Inr ()" "save_call sv env1 = (Inr (), s)" "env' = changed_env sv s env1" by auto
    with run env1 have put: "env1 = ?put" "r2 = Inr ()" by (auto split: sum.splits)
    have "stored s = (stored (en_store env))(ri_id (en_info env) \<mapsto> bw_snapshot (sv_collate sv) (en_branches env'))"
      using workspace_storage.save_stores [OF storage _ s(2)] s(3) put(1) None bw_ok_keys [OF ok1]
      by (simp add: changed_env_def bw_snapshot_def comp_def case_prod_unfold)
    moreover have "\<not> isl (fst (edit_guard sv e env))"
      using run [unfolded env1 s(1)] by (cases "fst (edit_guard sv e env)") (auto, metis sum.disc(2))
    then have "\<not> edit_refused sv e env"
      using s(2) [unfolded put(1)] put(2) None tree tree' by (simp add: edit_refused_def)
    moreover have "save_call sv ?put = (Inr (), s)" using s(2) unfolding put(1) .
    ultimately show ?thesis using env' Inr s(3) put tree tree' by (auto intro!: exI [of _ s])
  next
    case (Inl x)
    with cases obtain s where s: "env' = env1\<lparr>en_branches := restored (bw_snapshot (sv_collate sv) (en_branches env)),
        en_store := s\<rparr>" "s = en_store env1 \<or> (\<exists>r. save_call sv env1 = (r, s))"
      and how: "r1 = Inl x \<and> s = en_store env1 \<or> (\<exists>y. r1 = Inr y) \<and> save_call sv env1 = (Inl x, s)" by auto
    have store: "if edit_rejected sv e env then s = en_store env
         else r2 = Inr () \<and> save_call sv ?put = (Inl x, s)"
    proof (cases "fst (edit_guard sv e env)")
      case guard: (Inl g)
      with run env1 have "r1 = Inl g" "env1 = env" by simp_all
      with how guard show ?thesis by (simp add: edit_rejected_def)
    next
      case guard: (Inr g)
      with run env1 have "r1 = r2" "env1 = ?put" by simp_all
      with how guard None tree tree' show ?thesis by (cases r2) (auto simp: edit_rejected_def)
    qed
    from s(2) have "stored s r = stored (en_store env) r" if "r \<noteq> ri_id (en_info env)" for r
      using workspace_storage.save_other [OF storage, of "ri_id (en_info env1)" _ "en_store env1" _ s r] that frame
      by (metis (no_types) env.select_convs env.surjective env.update_convs)
    moreover have "env' = env\<lparr>en_branches := restored (bw_snapshot (sv_collate sv) (en_branches env)), en_store := s\<rparr>"
      unfolding s(1) by (subst frame) simp
    moreover have "edit_refused sv e env"
      using cases Inl run env1 tree tree' by (auto simp: edit_refused_def split: sum.splits)
    ultimately show ?thesis using env' Inl restored_same [OF ok] store tree tree'
      by (cases "edit_rejected sv e env") simp_all
  qed
qed

subsection \<open>A pending publication and a read-only repository\<close>

text \<open>Every operation that changes something while a publication is unresolved.\<close>

datatype operation =
    Edit edit
  | SwitchBranch branch_name
  | RefreshHead
  | CreateBranch branch_name bool "(branch_name \<times> revision) option"
  | DeleteBranch branch_name
  | Commit string "path list option" "(branch_name \<times> revision) option"
  | CommitForce string revision "path list option" "(branch_name \<times> revision) option"
  | CommitAmend string "path list option" "(branch_name \<times> revision) option"

text \<open>The result is forgotten, its failure is not.\<close>

definition discard :: "('s, 'a) st \<Rightarrow> ('s, unit) st" where
  "discard m = bindS m (\<lambda>_. returnS ())"

fun run_operation :: "('w, 's) services \<Rightarrow> operation \<Rightarrow> (('w, 's) env, unit) st" where
  "run_operation sv (Edit e) = run_edit sv e"
| "run_operation sv (SwitchBranch b) = ws_switchBranch sv b"
| "run_operation sv RefreshHead = discard (ws_refreshRemoteHead sv)"
| "run_operation sv (CreateBranch name switchTo expectedState) = discard (ws_createBranch sv name switchTo expectedState)"
| "run_operation sv (DeleteBranch name) = ws_deleteBranch sv name"
| "run_operation sv (Commit message sel expectedState) = discard (ws_commitAndPush sv message sel expectedState)"
| "run_operation sv (CommitForce message lease sel expectedState) =
     discard (ws_commitAndPushForceWithLease sv message lease sel expectedState)"
| "run_operation sv (CommitAmend message sel expectedState) =
     discard (ws_amendAndPushForceWithLease sv message sel expectedState)"

lemma pending_blocks:
  assumes "en_pending env \<noteq> None"
  shows "run_operation sv operation env = (Inl invalid_request, env)"
proof -
  have guard: "bindS requireNoPendingCommitPublication (\<lambda>_. m) env = (Inl invalid_request, env)" for m
    using assms by (simp add: requireNoPendingCommitPublication_def bindS_apply)
  have guard': "bindS (bindS requireNoPendingCommitPublication (\<lambda>_. m)) f env = (Inl invalid_request, env)" for m f
    using guard [of m] by (simp add: bindS_apply [of "bindS _ _"])
  have mutate: "ws_mutate sv m env = (Inl invalid_request, env)" for m using mutate_pending [OF assms] .
  show ?thesis
    by (cases operation)
      (simp_all add: run_edit_eq mutate guard guard' discard_def ws_switchBranch_def ws_refreshRemoteHead_def
        ws_createBranch_def ws_mutateRemoteWithResult_def ws_deleteBranch_def ws_commitAndPush_def
        ws_commitAndPushForceWithLease_def ws_amendAndPushForceWithLease_def ws_mutateCommit_def)
qed

lemma read_only_forbids:
  assumes env: "bw_ok (en_branches env)" and idle: "en_pending env = None"
    and ro: "\<not> cap_commits (ad_capabilities (sv_adapter sv))" "cap_localEdits (ad_capabilities (sv_adapter sv)) \<noteq> Some True"
    and e: "case e of Revert _ _ \<Rightarrow> False | RevertAll _ \<Rightarrow> False | _ \<Rightarrow> True"
  shows "\<exists>env'. run_edit sv e env = (Inl (RemotishError FORBIDDEN), env') \<and>
    env' = env\<lparr>en_branches := en_branches env'\<rparr> \<and> same_branches (en_branches env') (en_branches env)"
proof -
  let ?m = "bindS (edit_guard sv e) (\<lambda>_. treeS sv (tree_edit e))"
  have "edit_guard sv e env = (Inl (RemotishError FORBIDDEN), env)"
    using e ro by (cases e) (simp_all add: requireWritable_def Let_def)
  then have m: "?m env = (Inl (RemotishError FORBIDDEN), env)" by (simp add: bindS_apply)
  have "runLocalMutation sv ?m (\<lambda>_. True) env = (Inl (RemotishError FORBIDDEN),
      env\<lparr>en_branches := restored (bw_snapshot (sv_collate sv) (en_branches env))\<rparr>)"
    by (simp add: runLocalMutation_def bindS_apply [of "askS _"] bindS_apply [of ?m] onErrorS_def m
        restore_snapshot [OF env])
  then show ?thesis
    using restored_same [OF env] by (simp add: run_edit_eq mutate_idle [OF idle])
qed

end
