(* ===== verification/CommitJournal.thy ===== *)
theory CommitJournal
  imports WorkspaceOperations
begin

section \<open>The journal of a publication\<close>

text \<open>
  How \<open>mutateCommit\<close> of \<open>packages/core/src/workspace/workspace.ts\<close> and \<open>execute\<close> of
  \<open>packages/core/src/commit/commit-service.ts\<close> work together: the journal is stored before the
  request is sent, the answer decides what becomes of it, and the working tree moves to the new
  revision only after a success.
\<close>

subsection \<open>The phases of a commit\<close>

text \<open>A commit stops before anything happens, or sends one request.\<close>

lemma execute_cases:
  assumes "bw_current (en_branches env) = Inr tree"
  obtains (stopped) e where "\<And>before after. commit_execute sv b message operation sel before after env = (Inl e, env)"
  | (sent) commit changes where "ad_commit (sv_adapter sv) = Some commit"
      "cap_commits (ad_capabilities (sv_adapter sv))" "js_trim message \<noteq> []"
      "wt_buildCommitChanges (sv_host sv env) sel tree = Inr changes"
      "changes \<noteq> [] \<or> (\<exists>expected. operation = OpAmend expected)"
      "\<And>before after. commit_execute sv b message operation sel before after env =
         bindS (before (build_request b (wt_baseRevision tree) (js_trim message) changes operation)) (\<lambda>_.
           bindS (remoteS (commit (build_request b (wt_baseRevision tree) (js_trim message) changes operation)))
             (settle_commit sv sel after)) env"
proof (cases "ad_commit (sv_adapter sv)")
  case None
  then show ?thesis by (intro stopped) (simp add: commit_execute_def)
next
  case (Some commit)
  show ?thesis
  proof (cases "cap_commits (ad_capabilities (sv_adapter sv)) \<and> js_trim message \<noteq> []")
    case False
    then show ?thesis
      by (intro stopped [of "if cap_commits (ad_capabilities (sv_adapter sv)) then invalid_request else unsupported"])
        (auto simp: commit_execute_def Some)
  next
    case True
    show ?thesis
    proof (cases "wt_buildCommitChanges (sv_host sv env) sel tree")
      case (Inl e)
      with True assms show ?thesis by (intro stopped) (simp add: commit_execute_def Some bindS_apply currentS_def)
    next
      case (Inr changes)
      show ?thesis
      proof (cases "changes \<noteq> [] \<or> (\<exists>expected. operation = OpAmend expected)")
        case False
        with True assms Inr show ?thesis
          by (intro stopped) (auto simp: commit_execute_def Some bindS_apply currentS_def split: commit_operation.split)
      next
        case go: True
        with True assms Inr show ?thesis
          by (intro sent [OF Some _ _ Inr go])
            (auto simp: commit_execute_def Some bindS_apply [of "askS _"] currentS_def Let_def
              split: commit_operation.split)
      qed
    qed
  qed
qed

definition expected_remote :: "commit_request \<Rightarrow> revision" where
  "expected_remote request = (case request of NormalCommitRequest base \<Rightarrow> cb_baseRevision base
     | ForceCommitRequest _ expected \<Rightarrow> expected | AmendCommitRequest _ expected \<Rightarrow> expected)"

definition journal_entry :: "commit_request \<Rightarrow> pending_publication" where
  "journal_entry request = Prepared (cb_branch (cr_base request)) (expected_remote request)"

text \<open>The snapshot with the journal of a request.\<close>

definition journal_snapshot :: "('w, 's) services \<Rightarrow> ('w, 's) env \<Rightarrow> commit_request \<Rightarrow> workspace_snapshot" where
  "journal_snapshot sv env request =
     (bw_snapshot (sv_collate sv) (en_branches env))\<lparr>sp_pending := Some (journal_entry request)\<rparr>"

lemma journal_before_apply:
  "journal_before sv request env =
     (case so_save (sv_storage sv) (ri_id (en_info env)) (journal_snapshot sv env request) (en_store env) of
       (Inl e, s) \<Rightarrow> (Inl e, env\<lparr>en_pending := None, en_store := s\<rparr>)
     | (Inr _, s) \<Rightarrow> (Inr (), env\<lparr>en_pending := Some (journal_entry request), en_store := s\<rparr>))"
  by (auto simp: journal_before_def bindS_apply setPending_def modifyS_apply onErrorS_def saveSnapshot_apply
      journal_snapshot_def journal_entry_def expected_remote_def split: prod.split sum.split)

text \<open>After the commit: the journal says published, and an attempt was made to save that.\<close>

definition publish_journal :: "('w, 's) services \<Rightarrow> pending_publication \<Rightarrow> ('w, 's) env \<Rightarrow> ('w, 's) env" where
  "publish_journal sv entry env =
     (let env1 = env\<lparr>en_pending := Some entry\<rparr> in env1\<lparr>en_store := snd (save_call sv env1)\<rparr>)"

lemma publish_journal_sel [simp]:
  "en_pending (publish_journal sv entry env) = Some entry" "en_branches (publish_journal sv entry env) = en_branches env"
  "en_remote (publish_journal sv entry env) = en_remote env" "en_info (publish_journal sv entry env) = en_info env"
  "en_events (publish_journal sv entry env) = en_events env"
  by (simp_all add: publish_journal_def Let_def)

lemma publish_journal_store:
  "\<exists>s. publish_journal sv entry env = env\<lparr>en_pending := Some entry, en_store := s\<rparr>"
  by (auto simp: publish_journal_def Let_def)

lemma journal_after_apply:
  assumes "en_pending env = Some (Prepared b expected)"
  shows "ignoreS (journal_after sv r) env = (Inr (), publish_journal sv (Published b expected r) env)"
  using assms
  by (auto simp: journal_after_def bindS_apply setPending_def modifyS_apply ignoreS_apply saveSnapshot_apply
      publish_journal_def split: prod.split)

text \<open>
  How an execution with the journal ends: it stops with nothing sent, the adapter throws, it
  rejects, or it publishes.
\<close>

lemma execute_journal:
  assumes tree: "bw_current (en_branches env) = Inr tree" and idle: "en_pending env = None"
  shows "case commit_execute sv b message operation sel (journal_before sv) (journal_after sv) env of
      (Inl e, env') \<Rightarrow>
        (\<exists>s. env' = env\<lparr>en_store := s\<rparr>) \<or>
        (\<exists>commit request s w. ad_commit (sv_adapter sv) = Some commit \<and> cb_branch (cr_base request) = b \<and>
          so_save (sv_storage sv) (ri_id (en_info env)) (journal_snapshot sv env request) (en_store env) = (Inr (), s) \<and>
          commit request (en_remote env) = (Inl e, w) \<and>
          env' = env\<lparr>en_pending := Some (journal_entry request), en_store := s, en_remote := w\<rparr>)
    | (Inr (result, reconciled), env') \<Rightarrow>
        (\<exists>commit changes request s w. ad_commit (sv_adapter sv) = Some commit \<and>
          wt_buildCommitChanges (sv_host sv env) sel tree = Inr changes \<and>
          request = build_request b (wt_baseRevision tree) (js_trim message) changes operation \<and>
          so_save (sv_storage sv) (ri_id (en_info env)) (journal_snapshot sv env request) (en_store env) = (Inr (), s) \<and>
          commit request (en_remote env) = (Inr result, w) \<and>
          (case result of
             CommitRejected _ _ _ \<Rightarrow> reconciled \<and>
               env' = env\<lparr>en_pending := Some (journal_entry request), en_store := s, en_remote := w\<rparr>
           | CommitSuccess r _ \<Rightarrow> (let env1 = publish_journal sv (Published b (expected_remote request) r)
                 (env\<lparr>en_remote := w, en_store := s\<rparr>) in
               case sel of None \<Rightarrow> reconciled \<and>
                   env' = put_tree (bw_selected (en_branches env)) (acceptPublishedRevision r tree) env1
               | Some _ \<Rightarrow> \<exists>res tree'. acceptPartiallyPublishedRevision (sv_host sv env1) r tree = (res, tree') \<and>
                   (reconciled \<longleftrightarrow> res = Inr ()) \<and> env' = put_tree (bw_selected (en_branches env)) tree' env1)))"
proof (cases rule: execute_cases [OF tree, of sv b message operation sel])
  case (1 e)
  have "\<exists>s. env = env\<lparr>en_store := s\<rparr>" by (rule exI [of _ "en_store env"]) simp
  with 1 show ?thesis by simp
next
  case (2 commit changes)
  let ?r = "build_request b (wt_baseRevision tree) (js_trim message) changes operation"
  let ?save = "so_save (sv_storage sv) (ri_id (en_info env)) (journal_snapshot sv env ?r) (en_store env)"
  obtain res s where s: "?save = (res, s)" by fastforce
  show ?thesis
  proof (cases res)
    case (Inl e)
    with s idle show ?thesis by (simp add: 2(6) bindS_apply journal_before_apply) (metis env.surjective env.update_convs)
  next
    case (Inr u)
    let ?env1 = "env\<lparr>en_pending := Some (journal_entry ?r), en_store := s\<rparr>"
    have before: "journal_before sv ?r env = (Inr (), ?env1)" using s Inr by (simp add: journal_before_apply)
    obtain answer w where w: "commit ?r (en_remote env) = (answer, w)" by fastforce
    let ?env2 = "?env1\<lparr>en_remote := w\<rparr>"
    have sent: "bindS (journal_before sv ?r) (\<lambda>_. bindS (remoteS (commit ?r)) (settle_commit sv sel (journal_after sv))) env =
      (case answer of Inl e \<Rightarrow> (Inl e, ?env2) | Inr result \<Rightarrow> settle_commit sv sel (journal_after sv) result ?env2)"
      using before w by (simp add: bindS_apply remoteS_apply split: sum.split)
    show ?thesis
    proof (cases answer)
      case answer: (Inl e)
      with sent w s Inr 2(1) show ?thesis
        by (simp add: 2(6)) (metis cr_base_build)
    next
      case answer: (Inr result)
      show ?thesis
      proof (cases result)
        case (CommitRejected x1 x2 x3)
        with sent w s Inr answer 2(1,4) show ?thesis by (simp add: 2(6) settle_commit_def)
      next
        case (CommitSuccess r i)
        have "en_pending ?env2 = Some (Prepared b (expected_remote ?r))"
          by (simp add: journal_entry_def cr_base_build)
        note after = journal_after_apply [OF this, of sv r]
        let ?env3 = "publish_journal sv (Published b (expected_remote ?r) r) (env\<lparr>en_remote := w, en_store := s\<rparr>)"
        have env3: "publish_journal sv (Published b (expected_remote ?r) r) ?env2 = ?env3"
          by (simp add: publish_journal_def)
        show ?thesis
        proof (cases sel)
          case None
          have "commit_execute sv b message operation sel (journal_before sv) (journal_after sv) env =
              (Inr (result, True), put_tree (bw_selected (en_branches env)) (acceptPublishedRevision r tree) ?env3)"
            unfolding 2(6) sent
            using after tree
            by (simp add: answer CommitSuccess None settle_commit_def bindS_apply onCurrent_def currentS_def env3)
          with w s Inr answer 2(1,4) CommitSuccess None show ?thesis by (simp add: Let_def)
        next
          case (Some ps)
          obtain res' tree' where part: "acceptPartiallyPublishedRevision (sv_host sv ?env3) r tree = (res', tree')"
            by fastforce
          have "commit_execute sv b message operation sel (journal_before sv) (journal_after sv) env =
              (Inr (result, res' = Inr ()), put_tree (bw_selected (en_branches env)) tree' ?env3)"
            unfolding 2(6) sent
            using after tree part
            by (cases res') (simp_all add: answer CommitSuccess Some settle_commit_def bindS_apply onCurrent_def
                currentS_def env3)
          with w s Inr answer 2(1,4) CommitSuccess Some part show ?thesis by (simp add: Let_def)
        qed
      qed
    qed
  qed
qed

subsection \<open>The three kinds of commit\<close>

datatype commit_kind = NormalPush | ForcePush revision | AmendPush

fun run_commit :: "('w, 's) services \<Rightarrow> commit_kind \<Rightarrow> string \<Rightarrow> path list option \<Rightarrow>
    (branch_name \<times> revision) option \<Rightarrow> (('w, 's) env, commit_result) st" where
  "run_commit sv NormalPush message sel expectedState = ws_commitAndPush sv message sel expectedState"
| "run_commit sv (ForcePush lease) message sel expectedState =
     ws_commitAndPushForceWithLease sv message lease sel expectedState"
| "run_commit sv AmendPush message sel expectedState = ws_amendAndPushForceWithLease sv message sel expectedState"

fun kind_operation :: "commit_kind \<Rightarrow> working_tree \<Rightarrow> commit_operation" where
  "kind_operation NormalPush _ = OpNormal"
| "kind_operation (ForcePush lease) _ = OpForce lease"
| "kind_operation AmendPush tree = OpAmend (wt_baseRevision tree)"

lemma requireExpectedState_pure: "requireExpectedState x env = (fst (requireExpectedState x env), env)"
  by (auto simp: requireExpectedState_def bindS_apply selectedS_def currentS_def split: option.split sum.split)

lemma run_commit_cases:
  assumes tree: "bw_current (en_branches env) = Inr tree" and idle: "en_pending env = None"
  obtains (stopped) e where "run_commit sv kind message sel expectedState env = (Inl e, env)"
  | (executed) "run_commit sv kind message sel expectedState env =
      bindS (commit_execute sv (bw_selected (en_branches env)) message (kind_operation kind tree) sel
        (journal_before sv) (journal_after sv)) (conclude_commit sv) env"
proof -
  have guard: "bindS requireNoPendingCommitPublication (\<lambda>_. m) env = m env" for m
    using idle by (simp add: requireNoPendingCommitPublication_def bindS_apply)
  have sel: "bindS (bindS (requireExpectedState expectedState) (\<lambda>_. bindS selectedS (\<lambda>b. bindS currentS (\<lambda>_. m b)))) k env =
     (case fst (requireExpectedState expectedState env) of Inl e \<Rightarrow> (Inl e, env)
      | Inr _ \<Rightarrow> bindS (m (bw_selected (en_branches env))) k env)" for m k
    using requireExpectedState_pure [of expectedState env] tree
    by (cases "fst (requireExpectedState expectedState env)")
      (simp_all add: bindS_apply selectedS_def currentS_def)
  have throw: "bindS (throwS e) k env = (Inl e, env)" for e k by (simp add: bindS_apply)
  have amend: "bindS (bindS currentS f) k env = bindS (f tree) k env" for f k
    using tree by (simp add: bindS_apply currentS_def)
  show ?thesis
    by (cases kind; cases "fst (requireExpectedState expectedState env)";
        cases "flag (cap_forceWithLease (ad_capabilities (sv_adapter sv)))";
        cases "flag (cap_amend (ad_capabilities (sv_adapter sv)))")
      (auto simp: ws_commitAndPush_def ws_commitAndPushForceWithLease_def ws_amendAndPushForceWithLease_def
        ws_mutateCommit_def commit_kinds guard sel throw amend intro: stopped executed)
qed

subsection \<open>What a commit leaves behind\<close>

lemma conclude_success:
  assumes "bw_ok (en_branches env)"
  shows "conclude_commit sv (CommitSuccess r i, True) env = (Inr (CommitSuccess r i),
      changed_env sv (snd (save_call sv (env\<lparr>en_pending := None\<rparr>))) (env\<lparr>en_pending := None\<rparr>))"
    and "conclude_commit sv (CommitSuccess r i, False) env =
      (Inr (CommitSuccess r i), changed_env sv (snd (save_call sv env)) env)"
proof -
  have "conclude_commit sv (CommitSuccess r i, False) env =
      bindS (changedAfterRemoteSuccess sv) (\<lambda>_. returnS (CommitSuccess r i)) env"
    by (simp add: conclude_commit_def changedAfterRemoteSuccess_def bindS_apply split: prod.split sum.split)
  with assms changedAfterRemoteSuccess_apply [of env sv]
  show "conclude_commit sv (CommitSuccess r i, False) env =
      (Inr (CommitSuccess r i), changed_env sv (snd (save_call sv env)) env)" by (simp add: bindS_apply)
  show "conclude_commit sv (CommitSuccess r i, True) env = (Inr (CommitSuccess r i),
      changed_env sv (snd (save_call sv (env\<lparr>en_pending := None\<rparr>))) (env\<lparr>en_pending := None\<rparr>))"
    using changedAfterRemoteSuccess_apply [of "env\<lparr>en_pending := None\<rparr>" sv] assms
    by (simp add: conclude_commit_def setPending_def bindS_apply modifyS_apply)
qed

lemma conclude_rejected:
  assumes "en_pending env \<noteq> None"
  shows "conclude_commit sv (CommitRejected x1 x2 x3, reconciled) env =
    (case save_call sv (env\<lparr>en_pending := None\<rparr>) of
       (Inl e, s) \<Rightarrow> (Inl e, env\<lparr>en_pending := None, en_store := s\<rparr>)
     | (Inr _, s) \<Rightarrow> (Inr (CommitRejected x1 x2 x3), env\<lparr>en_pending := None, en_store := s\<rparr>))"
  using assms
  by (auto simp: conclude_commit_def setPending_def bindS_apply modifyS_apply saveSnapshot_apply split: prod.split sum.split)

text \<open>The request was sent after its journal was saved, and this was the answer.\<close>

definition sent :: "('w, 's) services \<Rightarrow> commit_request \<Rightarrow> ('w, 's) env \<Rightarrow> 's \<Rightarrow> commit_result res \<Rightarrow> 'w \<Rightarrow> bool" where
  "sent sv request env s answer w \<longleftrightarrow>
     so_save (sv_storage sv) (ri_id (en_info env)) (journal_snapshot sv env request) (en_store env) = (Inr (), s) \<and>
     (case ad_commit (sv_adapter sv) of None \<Rightarrow> False | Some commit \<Rightarrow> commit request (en_remote env) = (answer, w))"

lemma execute_Inl:
  assumes "bw_current (en_branches env) = Inr tree" and "en_pending env = None"
    and "commit_execute sv b message operation sel (journal_before sv) (journal_after sv) env = (Inl e, env')"
  obtains (stopped) s where "env' = env\<lparr>en_store := s\<rparr>"
  | (threw) request s w where "sent sv request env s (Inl e) w" "cb_branch (cr_base request) = b"
      "env' = env\<lparr>en_pending := Some (journal_entry request), en_store := s, en_remote := w\<rparr>"
proof -
  from execute_journal [OF assms(1,2), where sv = sv and b = b and message = message and operation = operation and sel = sel] assms(3)
  consider s where "env' = env\<lparr>en_store := s\<rparr>"
    | commit request s w where "ad_commit (sv_adapter sv) = Some commit" "cb_branch (cr_base request) = b"
      "so_save (sv_storage sv) (ri_id (en_info env)) (journal_snapshot sv env request) (en_store env) = (Inr (), s)"
      "commit request (en_remote env) = (Inl e, w)"
      "env' = env\<lparr>en_pending := Some (journal_entry request), en_store := s, en_remote := w\<rparr>"
    by auto
  then show ?thesis
  proof cases
    case 1
    then show ?thesis by (rule stopped)
  next
    case (2 commit request s w)
    have "sent sv request env s (Inl e) w" using 2(1,3,4) by (simp add: sent_def)
    then show ?thesis using 2(2,5) by (rule threw)
  qed
qed

lemma execute_rejected:
  assumes "bw_current (en_branches env) = Inr tree" and "en_pending env = None"
    and "commit_execute sv b message operation sel (journal_before sv) (journal_after sv) env =
      (Inr (CommitRejected x1 x2 x3, reconciled), env')"
  obtains changes request s w where "wt_buildCommitChanges (sv_host sv env) sel tree = Inr changes"
    "request = build_request b (wt_baseRevision tree) (js_trim message) changes operation"
    "sent sv request env s (Inr (CommitRejected x1 x2 x3)) w"
    "env' = env\<lparr>en_pending := Some (journal_entry request), en_store := s, en_remote := w\<rparr>"
proof -
  from execute_journal [OF assms(1,2), where sv = sv and b = b and message = message and operation = operation and sel = sel] assms(3)
  obtain commit changes request s w where "ad_commit (sv_adapter sv) = Some commit"
      and facts: "wt_buildCommitChanges (sv_host sv env) sel tree = Inr changes"
      "request = build_request b (wt_baseRevision tree) (js_trim message) changes operation"
      "env' = env\<lparr>en_pending := Some (journal_entry request), en_store := s, en_remote := w\<rparr>"
      and "so_save (sv_storage sv) (ri_id (en_info env)) (journal_snapshot sv env request) (en_store env) = (Inr (), s)"
      "commit request (en_remote env) = (Inr (CommitRejected x1 x2 x3), w)"
    by auto
  then have "sent sv request env s (Inr (CommitRejected x1 x2 x3)) w" by (simp add: sent_def)
  then show ?thesis using facts by (intro that)
qed

lemma execute_success:
  assumes "bw_current (en_branches env) = Inr tree" and "en_pending env = None"
    and "commit_execute sv b message operation sel (journal_before sv) (journal_after sv) env =
      (Inr (CommitSuccess r i, reconciled), env')"
  obtains changes request s w env1 res tree' where "wt_buildCommitChanges (sv_host sv env) sel tree = Inr changes"
    "request = build_request b (wt_baseRevision tree) (js_trim message) changes operation"
    "sent sv request env s (Inr (CommitSuccess r i)) w"
    "env1 = publish_journal sv (Published b (expected_remote request) r) (env\<lparr>en_remote := w, en_store := s\<rparr>)"
    "(res, tree') = (case sel of None \<Rightarrow> (Inr (), acceptPublishedRevision r tree)
       | Some _ \<Rightarrow> acceptPartiallyPublishedRevision (sv_host sv env1) r tree)"
    "reconciled = (res = Inr ())" "env' = put_tree (bw_selected (en_branches env)) tree' env1"
proof -
  obtain commit changes request s w where facts: "ad_commit (sv_adapter sv) = Some commit"
      "wt_buildCommitChanges (sv_host sv env) sel tree = Inr changes"
      "request = build_request b (wt_baseRevision tree) (js_trim message) changes operation"
      "so_save (sv_storage sv) (ri_id (en_info env)) (journal_snapshot sv env request) (en_store env) = (Inr (), s)"
      "commit request (en_remote env) = (Inr (CommitSuccess r i), w)"
    and cases: "let env1 = publish_journal sv (Published b (expected_remote request) r)
                 (env\<lparr>en_remote := w, en_store := s\<rparr>) in
               case sel of None \<Rightarrow> reconciled \<and>
                   env' = put_tree (bw_selected (en_branches env)) (acceptPublishedRevision r tree) env1
               | Some _ \<Rightarrow> \<exists>res tree'. acceptPartiallyPublishedRevision (sv_host sv env1) r tree = (res, tree') \<and>
                   (reconciled \<longleftrightarrow> res = Inr ()) \<and> env' = put_tree (bw_selected (en_branches env)) tree' env1"
    using execute_journal [OF assms(1,2), where sv = sv and b = b and message = message and operation = operation and sel = sel] assms(3) by auto
  have sent: "sent sv request env s (Inr (CommitSuccess r i)) w" using facts by (simp add: sent_def)
  from cases show ?thesis
    by (cases sel) (auto simp: Let_def intro!: that [OF facts(2,3) sent refl])
qed

lemma sent_stored:
  assumes "workspace_storage (sv_storage sv) stored" and "bw_ok (en_branches env)"
    and "sent sv request env s answer w"
  shows "stored s = (stored (en_store env))(ri_id (en_info env) \<mapsto> journal_snapshot sv env request)"
  using workspace_storage.save_stores [OF assms(1)] assms(3) bw_ok_keys [OF assms(2)]
  by (simp add: sent_def journal_snapshot_def)

lemma success_tree_wf:
  assumes "overlay_wf (wt_overlay tree)"
    and "(res, tree') = (case sel of None \<Rightarrow> (Inr (), acceptPublishedRevision r tree)
       | Some _ \<Rightarrow> acceptPartiallyPublishedRevision h r tree)"
  shows "overlay_wf (wt_overlay tree')"
  using assms preservesD [OF wf_acceptPublished, of r tree "Inr ()"] preservesD [OF wf_acceptPartially, of h r tree res tree']
  by (cases sel) auto

text \<open>A commit that publishes.\<close>

lemma commit_published:
  assumes env: "env_ok stored env" and idle: "en_pending env = None" and tree: "bw_current (en_branches env) = Inr tree"
    and run: "run_commit sv kind message sel expectedState env = (Inr (CommitSuccess r i), env')"
  obtains changes request s w env1 env2 res tree' where
    "wt_buildCommitChanges (sv_host sv env) sel tree = Inr changes"
    "request = build_request (bw_selected (en_branches env)) (wt_baseRevision tree) (js_trim message) changes
       (kind_operation kind tree)"
    "sent sv request env s (Inr (CommitSuccess r i)) w"
    "env1 = publish_journal sv (Published (bw_selected (en_branches env)) (expected_remote request) r)
       (env\<lparr>en_remote := w, en_store := s\<rparr>)"
    "(res, tree') = (case sel of None \<Rightarrow> (Inr (), acceptPublishedRevision r tree)
       | Some _ \<Rightarrow> acceptPartiallyPublishedRevision (sv_host sv env1) r tree)"
    "env2 = (put_tree (bw_selected (en_branches env)) tree' env1)
       \<lparr>en_pending := if res = Inr () then None else en_pending env1\<rparr>"
    "env' = changed_env sv (snd (save_call sv env2)) env2"
proof -
  note ok = env [unfolded env_ok_def, THEN conjunct1]
  let ?b = "bw_selected (en_branches env)" and ?op = "kind_operation kind tree"
  let ?exec = "commit_execute sv ?b message ?op sel (journal_before sv) (journal_after sv)"
  from run run_commit_cases [OF tree idle, of sv kind message sel expectedState]
  have eq: "bindS ?exec (conclude_commit sv) env = (Inr (CommitSuccess r i), env')" by (metis Inl_Inr_False prod.inject)
  then obtain result reconciled env2 where exec: "?exec env = (Inr (result, reconciled), env2)"
    and concl: "conclude_commit sv (result, reconciled) env2 = (Inr (CommitSuccess r i), env')"
    by (auto simp: bindS_Inr_iff)
  have "result = CommitSuccess r i"
    using concl by (cases result) (auto simp: conclude_commit_def st_Inr_iffs split: if_splits)
  note exec = exec [unfolded this] and concl = concl [unfolded this]
  from execute_success [OF tree idle exec] obtain changes request s w env1 res tree' where
    sent: "wt_buildCommitChanges (sv_host sv env) sel tree = Inr changes"
      "request = build_request ?b (wt_baseRevision tree) (js_trim message) changes ?op"
      "sent sv request env s (Inr (CommitSuccess r i)) w"
    and env1: "env1 = publish_journal sv (Published ?b (expected_remote request) r) (env\<lparr>en_remote := w, en_store := s\<rparr>)"
    and res: "(res, tree') = (case sel of None \<Rightarrow> (Inr (), acceptPublishedRevision r tree)
       | Some _ \<Rightarrow> acceptPartiallyPublishedRevision (sv_host sv env1) r tree)"
    and recon: "reconciled = (res = Inr ())" and env2: "env2 = put_tree ?b tree' env1" .
  have "bw_ok (en_branches env2)"
    unfolding env2 using success_tree_wf [OF current_wf [OF ok tree] res] ok by (intro put_tree_ok) (simp_all add: env1)
  note fin = conclude_success [OF this, of sv r i]
  show ?thesis
  proof (cases "res = Inr ()")
    case True
    with fin(1) concl recon have "env' = changed_env sv (snd (save_call sv (env2\<lparr>en_pending := None\<rparr>))) (env2\<lparr>en_pending := None\<rparr>)"
      by simp
    with True show ?thesis by (intro that [OF sent env1 res refl]) (simp add: env2)
  next
    case False
    with fin(2) concl recon have "env' = changed_env sv (snd (save_call sv env2)) env2" by simp
    moreover have "(put_tree ?b tree' env1)\<lparr>en_pending := en_pending env1\<rparr> = env2"
      unfolding env2 by (rule env.equality) simp_all
    ultimately show ?thesis using False by (intro that [OF sent env1 res refl]) simp
  qed
qed

text \<open>A commit that the adapter rejects, and a commit that fails.\<close>

lemma commit_rejected:
  assumes env: "env_ok stored env" and idle: "en_pending env = None"
    and run: "run_commit sv kind message sel expectedState env = (Inr (CommitRejected x1 x2 x3), env')"
  obtains request s s' w where "sent sv request env s (Inr (CommitRejected x1 x2 x3)) w"
    "so_save (sv_storage sv) (ri_id (en_info env)) (bw_snapshot (sv_collate sv) (en_branches env)) s = (Inr (), s')"
    "env' = env\<lparr>en_remote := w, en_store := s'\<rparr>"
proof -
  obtain tree where tree: "bw_current (en_branches env) = Inr tree"
    using current_ok [of "en_branches env"] env unfolding env_ok_def by blast
  let ?exec = "commit_execute sv (bw_selected (en_branches env)) message (kind_operation kind tree) sel
    (journal_before sv) (journal_after sv)"
  from run run_commit_cases [OF tree idle, of sv kind message sel expectedState]
  have "bindS ?exec (conclude_commit sv) env = (Inr (CommitRejected x1 x2 x3), env')" by (metis Inl_Inr_False prod.inject)
  then obtain result reconciled env2 where exec: "?exec env = (Inr (result, reconciled), env2)"
    and concl: "conclude_commit sv (result, reconciled) env2 = (Inr (CommitRejected x1 x2 x3), env')"
    by (auto simp: bindS_Inr_iff)
  have "result = CommitRejected x1 x2 x3"
    using concl by (cases result) (auto simp: conclude_commit_def st_Inr_iffs split: if_splits)
  note exec = exec [unfolded this] and concl = concl [unfolded this]
  from execute_rejected [OF tree idle exec] obtain request s w where
    sent: "sent sv request env s (Inr (CommitRejected x1 x2 x3)) w"
    and env2: "env2 = env\<lparr>en_pending := Some (journal_entry request), en_store := s, en_remote := w\<rparr>" by metis
  have clean: "env2\<lparr>en_pending := None, en_store := s'\<rparr> = env\<lparr>en_remote := w, en_store := s'\<rparr>" for s'
    using idle by (simp add: env2)
  have "en_pending env2 \<noteq> None" by (simp add: env2)
  from concl [unfolded conclude_rejected [OF this]] obtain s' where
    "save_call sv (env2\<lparr>en_pending := None\<rparr>) = (Inr (), s')" "env' = env\<lparr>en_remote := w, en_store := s'\<rparr>"
    by (auto simp: clean split: prod.splits sum.splits)
  then show ?thesis by (intro that [OF sent]) (simp_all add: env2 bw_snapshot_def)
qed

lemma commit_failed:
  assumes env: "env_ok stored env" and idle: "en_pending env = None"
    and run: "run_commit sv kind message sel expectedState env = (Inl e, env')"
  obtains (stopped) s where "env' = env\<lparr>en_store := s\<rparr>"
  | (threw) request s w where "sent sv request env s (Inl e) w"
      "cb_branch (cr_base request) = bw_selected (en_branches env)"
      "env' = env\<lparr>en_pending := Some (journal_entry request), en_store := s, en_remote := w\<rparr>"
  | (not_saved) request s s' w x1 x2 x3 where "sent sv request env s (Inr (CommitRejected x1 x2 x3)) w"
      "env' = env\<lparr>en_remote := w, en_store := s'\<rparr>"
proof -
  note ok = env [unfolded env_ok_def, THEN conjunct1]
  obtain tree where tree: "bw_current (en_branches env) = Inr tree" using current_ok [OF ok] by blast
  let ?exec = "commit_execute sv (bw_selected (en_branches env)) message (kind_operation kind tree) sel
    (journal_before sv) (journal_after sv)"
  show ?thesis
  proof (cases rule: run_commit_cases [OF tree idle, of sv kind message sel expectedState])
    case (1 e')
    with run show ?thesis by (intro stopped [of "en_store env"]) simp
  next
    case 2
    obtain res env2 where exec: "?exec env = (res, env2)" by fastforce
    show ?thesis
    proof (cases res)
      case (Inl e')
      with 2 run exec have "e' = e" "env2 = env'" by (simp_all add: bindS_apply)
      with execute_Inl [OF tree idle exec [unfolded Inl]] stopped threw show ?thesis by metis
    next
      case (Inr execution)
      obtain result reconciled where x: "execution = (result, reconciled)" by (cases execution)
      have concl: "conclude_commit sv (result, reconciled) env2 = (Inl e, env')"
        using run 2 exec Inr x by (simp add: bindS_apply)
      show ?thesis
      proof (cases result)
        case (CommitSuccess r i)
        from execute_success [OF tree idle exec [unfolded Inr x CommitSuccess]] obtain w request s env1 res' tree' where
          env1: "env1 = publish_journal sv (Published (bw_selected (en_branches env)) (expected_remote request) r)
            (env\<lparr>en_remote := w, en_store := s\<rparr>)"
          and res': "(res', tree') = (case sel of None \<Rightarrow> (Inr (), acceptPublishedRevision r tree)
             | Some _ \<Rightarrow> acceptPartiallyPublishedRevision (sv_host sv env1) r tree)"
          and env2: "env2 = put_tree (bw_selected (en_branches env)) tree' env1" by metis
        have "bw_ok (en_branches env2)"
          unfolding env2 using success_tree_wf [OF current_wf [OF ok tree] res'] ok
          by (intro put_tree_ok) (simp_all add: env1)
        with concl CommitSuccess conclude_success [of env2 sv r i] show ?thesis by (cases reconciled) auto
      next
        case (CommitRejected x1 x2 x3)
        from execute_rejected [OF tree idle exec [unfolded Inr x CommitRejected]] obtain request s w where
          sent: "sent sv request env s (Inr (CommitRejected x1 x2 x3)) w"
          and env2: "env2 = env\<lparr>en_pending := Some (journal_entry request), en_store := s, en_remote := w\<rparr>" by metis
        have clean: "env2\<lparr>en_pending := None, en_store := s'\<rparr> = env\<lparr>en_remote := w, en_store := s'\<rparr>" for s'
          using idle by (simp add: env2)
        have "en_pending env2 \<noteq> None" by (simp add: env2)
        from concl [unfolded CommitRejected conclude_rejected [OF this]] obtain s' where
          "env' = env\<lparr>en_remote := w, en_store := s'\<rparr>"
          by (auto simp: clean split: prod.splits sum.splits)
        with sent show ?thesis by (rule not_saved)
      qed
    qed
  qed
qed

end
