(* ===== verification/BranchOperations.thy ===== *)
theory BranchOperations
  imports WorkspaceOperations
begin

section \<open>Branches and recovery\<close>

text \<open>
  What \<open>refreshRemoteHead\<close>, \<open>createBranch\<close>, \<open>deleteBranch\<close> and the recovery of a publication of
  \<open>packages/core/src/workspace/workspace.ts\<close> do, on every branch of the code.
\<close>

lemma bindS_guard: "en_pending env = None \<Longrightarrow> bindS requireNoPendingCommitPublication (\<lambda>_. m) env = m env"
  by (simp add: requireNoPendingCommitPublication_def bindS_apply)

subsection \<open>Refreshing the remote head\<close>

text \<open>The remote branch of the selected branch, as a listing shows it.\<close>

definition remote_branch :: "branch_name \<Rightarrow> branch list \<Rightarrow> branch option" where
  "remote_branch b branches = find (\<lambda>candidate. br_name candidate = b) branches"

lemma refresh_apply:
  assumes tree: "bw_current (en_branches env) = Inr tree"
    and list: "ad_getBranches (sv_adapter sv) (en_remote env) = (res, w)"
  shows "bs_refresh sv env = (case res of Inl e \<Rightarrow> (Inl e, env\<lparr>en_remote := w\<rparr>)
     | Inr branches \<Rightarrow> (case remote_branch (bw_selected (en_branches env)) branches of
         None \<Rightarrow> (Inl not_found, env\<lparr>en_remote := w\<rparr>)
       | Some remote \<Rightarrow>
           if br_revision remote = wt_baseRevision tree
           then (Inr (HeadCurrent (wt_baseRevision tree) (br_revision remote)), env\<lparr>en_remote := w\<rparr>)
           else if wt_hasChanges tree
           then (Inr (HeadPinned (wt_baseRevision tree) (br_revision remote)), env\<lparr>en_remote := w\<rparr>)
           else (Inr (HeadUpdated (br_revision remote) (br_revision remote)),
             put_tree (bw_selected (en_branches env)) (tree\<lparr>wt_baseRevision := br_revision remote\<rparr>)
               (env\<lparr>en_remote := w\<rparr>))))"
  using assms
  by (auto simp: bs_refresh_def bindS_apply selectedS_def currentS_def bw_listRemoteBranches_def remoteS_apply
      remote_branch_def Let_def onCurrent_def rebindCleanBase_def split: sum.split option.split)

lemma runLocalMutation_unchanged:
  "m env = (Inr x, env1) \<Longrightarrow> \<not> d x \<Longrightarrow> runLocalMutation sv m d env = (Inr x, env1)"
  by (simp add: runLocalMutation_def bindS_apply onErrorS_def)

lemma refresh_outcome:
  assumes env: "bw_ok (en_branches env)" and idle: "en_pending env = None"
    and tree: "bw_current (en_branches env) = Inr tree"
  shows "case ws_refreshRemoteHead sv env of
      (Inr head, env') \<Rightarrow> (\<exists>branches remote. ad_getBranches (sv_adapter sv) (en_remote env) =
            (Inr branches, en_remote env') \<and>
          remote_branch (bw_selected (en_branches env)) branches = Some remote \<and> hr_remote head = br_revision remote \<and>
          (case head of
             HeadCurrent b r \<Rightarrow> b = wt_baseRevision tree \<and> r = b \<and> env' = env\<lparr>en_remote := en_remote env'\<rparr>
           | HeadPinned b r \<Rightarrow> b = wt_baseRevision tree \<and> r \<noteq> b \<and> wt_hasChanges tree \<and>
               env' = env\<lparr>en_remote := en_remote env'\<rparr>
           | HeadUpdated b r \<Rightarrow> b = r \<and> r \<noteq> wt_baseRevision tree \<and> \<not> wt_hasChanges tree \<and>
               (\<exists>s. env' = changed_env sv s (put_tree (bw_selected (en_branches env))
                  (tree\<lparr>wt_baseRevision := r\<rparr>) (env\<lparr>en_remote := en_remote env'\<rparr>)))))
    | (Inl _, env') \<Rightarrow> same_branches (en_branches env') (en_branches env) \<and> en_pending env' = None \<and>
        en_events env' = en_events env"
proof -
  let ?d = "\<lambda>result. case result of HeadUpdated _ _ \<Rightarrow> True | _ \<Rightarrow> False"
  obtain res w where w: "ad_getBranches (sv_adapter sv) (en_remote env) = (res, w)" by fastforce
  note form = refresh_apply [OF tree w]
  have run: "ws_refreshRemoteHead sv env = runLocalMutation sv (bs_refresh sv) ?d env"
    unfolding ws_refreshRemoteHead_def by (rule bindS_guard [OF idle])
  have fail: ?thesis if "bs_refresh sv env = (Inl e, env\<lparr>en_remote := w\<rparr>)" for e
    using runLocalMutation_cases [where m = "bs_refresh sv" and d = ?d and sv = sv, OF env that] env restored_same [OF env] idle
    by (auto simp: run split: prod.splits sum.splits)
  have wf: "overlay_wf (wt_overlay tree)" using current_wf [OF env tree] .
  show ?thesis
  proof (cases res)
    case (Inl e)
    with form show ?thesis by (intro fail) simp
  next
    case (Inr branches)
    show ?thesis
    proof (cases "remote_branch (bw_selected (en_branches env)) branches")
      case None
      with form Inr show ?thesis by (intro fail) simp
    next
      case (Some remote)
      let ?up = "put_tree (bw_selected (en_branches env)) (tree\<lparr>wt_baseRevision := br_revision remote\<rparr>)
        (env\<lparr>en_remote := w\<rparr>)"
      consider "br_revision remote = wt_baseRevision tree" | "br_revision remote \<noteq> wt_baseRevision tree" "wt_hasChanges tree"
        | "br_revision remote \<noteq> wt_baseRevision tree" "\<not> wt_hasChanges tree" by blast
      then show ?thesis
      proof cases
        case 1
        with form Inr Some have "bs_refresh sv env = (Inr (HeadCurrent (wt_baseRevision tree) (br_revision remote)),
          env\<lparr>en_remote := w\<rparr>)" by simp
        from runLocalMutation_unchanged [where m = "bs_refresh sv" and d = ?d and sv = sv, OF this] 1 w Inr Some show ?thesis by (simp add: run)
      next
        case 2
        with form Inr Some have "bs_refresh sv env = (Inr (HeadPinned (wt_baseRevision tree) (br_revision remote)),
          env\<lparr>en_remote := w\<rparr>)" by simp
        from runLocalMutation_unchanged [where m = "bs_refresh sv" and d = ?d and sv = sv, OF this] 2 w Inr Some show ?thesis by (simp add: run)
      next
        case 3
        with form Inr Some have up: "bs_refresh sv env =
          (Inr (HeadUpdated (br_revision remote) (br_revision remote)), ?up)" by simp
        have "bw_ok (en_branches ?up)" using wf env by (intro put_tree_ok) simp_all
        from runLocalMutation_cases [where m = "bs_refresh sv" and d = ?d and sv = sv, OF env up this] 3 w Inr Some restored_same [OF env] idle show ?thesis
          by (auto simp: run changed_env_def split: prod.splits sum.splits)
      qed
    qed
  qed
qed

subsection \<open>Deleting a branch\<close>

definition without_branch :: "branch_name \<Rightarrow> ('w, 's) env \<Rightarrow> ('w, 's) env" where
  "without_branch name env = env\<lparr>en_branches := (en_branches env)
     \<lparr>bw_trees := AList.delete name (bw_trees (en_branches env))\<rparr>\<rparr>"

lemma bw_remove_apply: "bw_remove name env = (Inr (), without_branch name env)"
  by (simp add: bw_remove_def modifyS_apply without_branch_def)

lemma deleteBranch_outcome:
  assumes env: "bw_ok (en_branches env)" and idle: "en_pending env = None"
  shows "case ws_deleteBranch sv name env of
      (Inr _, env') \<Rightarrow> name \<noteq> bw_selected (en_branches env) \<and> \<not> bw_hasChanges name (en_branches env) \<and>
        (\<exists>deleteBranch s. ad_deleteBranch (sv_adapter sv) = Some deleteBranch \<and>
          save_call sv (without_branch name env) = (Inr (), s) \<and>
          deleteBranch name (en_remote env) = (Inr (), en_remote env') \<and>
          env' = changed_env sv s (without_branch name (env\<lparr>en_remote := en_remote env'\<rparr>)))
    | (Inl e, env') \<Rightarrow> same_branches (en_branches env') (en_branches env) \<and> en_pending env' = None \<and>
        en_events env' = en_events env \<and>
        (en_remote env' = en_remote env \<or> (\<exists>deleteBranch s. ad_deleteBranch (sv_adapter sv) = Some deleteBranch \<and>
          save_call sv (without_branch name env) = (Inr (), s) \<and>
          deleteBranch name (en_remote env) = (Inl e, en_remote env')))"
proof (cases "bs_validateDelete sv name (en_branches env)")
  case (Inl e)
  have "ws_deleteBranch sv name env = (Inl e, env)"
    unfolding ws_deleteBranch_def bindS_guard [OF idle] by (simp add: bindS_apply Inl)
  then show ?thesis using idle by simp
next
  case (Inr u)
  let ?snapshot = "bw_snapshot (sv_collate sv) (en_branches env)" and ?gone = "without_branch name env"
  have valid: "name \<noteq> bw_selected (en_branches env)" "\<not> bw_hasChanges name (en_branches env)"
    and "ad_deleteBranch (sv_adapter sv) \<noteq> None"
    using Inr by (auto simp: bs_validateDelete_def split: if_splits)
  then obtain deleteBranch where delete: "ad_deleteBranch (sv_adapter sv) = Some deleteBranch" by blast
  have restore: "bw_restore ?snapshot e = (Inr (), e\<lparr>en_branches := restored ?snapshot\<rparr>)" for e :: "('a, 'b) env"
    by (rule restore_snapshot [OF env])
  have gone_ok: "bw_ok (en_branches ?gone)" using remove_ok [OF env] valid(1) by (simp add: without_branch_def)
  have run: "ws_deleteBranch sv name env = bindS (onErrorS (saveSnapshot sv) (bw_restore ?snapshot)) (\<lambda>_.
     bindS (onErrorS (bs_deleteRemote sv name)
         (bindS (bw_restore ?snapshot) (\<lambda>_. ignoreS (saveSnapshot sv)))) (\<lambda>_. emitChanged)) ?gone"
    unfolding ws_deleteBranch_def bindS_guard [OF idle] by (simp add: bindS_apply [of "askS _"] Inr bindS_Inr [OF bw_remove_apply])
  obtain r s where save: "save_call sv ?gone = (r, s)" by fastforce
  show ?thesis
  proof (cases r)
    case (Inl e)
    have "ws_deleteBranch sv name env = (Inl e, ?gone\<lparr>en_store := s, en_branches := restored ?snapshot\<rparr>)"
      unfolding run by (simp add: bindS_apply onErrorS_def saveSnapshot_apply save Inl restore)
    then show ?thesis using idle restored_same [OF env] by (simp add: without_branch_def)
  next
    case (Inr v)
    have "onErrorS (saveSnapshot sv) (bw_restore ?snapshot) ?gone = (Inr (), ?gone\<lparr>en_store := s\<rparr>)"
      by (simp add: onErrorS_def saveSnapshot_apply save Inr)
    then have saved: "ws_deleteBranch sv name env = bindS (onErrorS (bs_deleteRemote sv name)
         (bindS (bw_restore ?snapshot) (\<lambda>_. ignoreS (saveSnapshot sv)))) (\<lambda>_. emitChanged) (?gone\<lparr>en_store := s\<rparr>)"
      unfolding run by (simp add: bindS_apply)
    obtain res w where w: "deleteBranch name (en_remote env) = (res, w)" by fastforce
    have remote: "bs_deleteRemote sv name (?gone\<lparr>en_store := s\<rparr>) = (res, ?gone\<lparr>en_store := s, en_remote := w\<rparr>)"
      by (simp add: bs_deleteRemote_def delete remoteS_apply w without_branch_def)
    show ?thesis
    proof (cases res)
      case res: (Inl e)
      have "\<exists>s'. ws_deleteBranch sv name env =
          (Inl e, ?gone\<lparr>en_remote := w, en_branches := restored ?snapshot, en_store := s'\<rparr>)"
        unfolding saved
        by (simp add: bindS_apply onErrorS_def remote res restore ignoreS_apply saveSnapshot_apply split: prod.split) blast
      then show ?thesis using idle restored_same [OF env] delete save Inr w res by (auto simp: without_branch_def)
    next
      case res: (Inr v')
      have "emitChanged (?gone\<lparr>en_store := s, en_remote := w\<rparr>) =
          (Inr (), changed_env sv s (without_branch name (env\<lparr>en_remote := w\<rparr>)))"
        using emitChanged_apply [of "?gone\<lparr>en_store := s, en_remote := w\<rparr>" sv] gone_ok
        by (simp add: changed_env_def without_branch_def)
      then have "ws_deleteBranch sv name env = (Inr (), changed_env sv s (without_branch name (env\<lparr>en_remote := w\<rparr>)))"
        unfolding saved by (simp add: bindS_apply onErrorS_def remote res)
      then show ?thesis using valid delete save Inr w res by (simp add: changed_env_def without_branch_def)
    qed
  qed
qed

subsection \<open>Creating a branch\<close>

text \<open>
  The new branch starts at the pinned base of the current one. A working tree that was kept under the
  same name is replaced, whatever its changes.
\<close>

lemma createBranch_effect:
  assumes env: "bw_ok (en_branches env)" and idle: "en_pending env = None"
    and tree: "bw_current (en_branches env) = Inr tree"
    and adapter: "ad_createBranch (sv_adapter sv) = Some createBranch"
      "flag (cap_createBranch (ad_capabilities (sv_adapter sv)))"
    and created: "createBranch name (wt_baseRevision tree) (en_remote env) = (Inr b, w)"
  shows "ws_createBranch sv name switchTo None env = (Inr b,
    (let env1 = put_tree (br_name b) \<lparr>wt_baseRevision = br_revision b, wt_overlay = empty_overlay\<rparr> (env\<lparr>en_remote := w\<rparr>);
       env2 = (if switchTo then env1\<lparr>en_branches := (en_branches env1)\<lparr>bw_selected := br_name b\<rparr>\<rparr> else env1)
     in changed_env sv (snd (save_call sv env2)) env2))"
proof -
  let ?env1 = "put_tree (br_name b) \<lparr>wt_baseRevision = br_revision b, wt_overlay = empty_overlay\<rparr> (env\<lparr>en_remote := w\<rparr>)"
  let ?env2 = "if switchTo then ?env1\<lparr>en_branches := (en_branches ?env1)\<lparr>bw_selected := br_name b\<rparr>\<rparr> else ?env1"
  have present: "br_name b \<in> fst ` set (bw_trees (en_branches ?env1))" by simp
  then have switch: "bw_switchTo sv (br_name b) ?env1 =
      (Inr (), ?env1\<lparr>en_branches := (en_branches ?env1)\<lparr>bw_selected := br_name b\<rparr>\<rparr>)"
    by (simp add: bw_switchTo_def bw_ensureWorkspace_def bindS_apply bw_select_def modifyS_apply del: put_tree_sel)
  have create: "bs_create sv name switchTo env = (Inr b, ?env2)"
    using adapter tree created switch
    by (simp add: bs_create_def bindS_apply currentS_def remoteS_apply bw_add_def createWorkspace_None)
  have "bw_ok (en_branches ?env1)" using env by (intro put_tree_ok) simp_all
  then have ok2: "bw_ok (en_branches ?env2)" using present by (simp add: bw_ok_def del: put_tree_sel)
  note changed = changedAfterRemoteSuccess_apply [OF ok2, of sv]
  have "ws_createBranch sv name switchTo None env =
      bindS (bs_create sv name switchTo) (\<lambda>b. bindS (changedAfterRemoteSuccess sv) (\<lambda>_. returnS b)) env"
    unfolding ws_createBranch_def ws_mutateRemoteWithResult_def bindS_guard [OF idle]
    by (simp add: requireExpectedState_def bindS_apply [of "bindS _ _"] bindS_apply [of "returnS _"] bindS_apply [of "bs_create _ _ _"])
  then show ?thesis
    by (simp only: bindS_apply create changed prod.case sum.case returnS_apply Let_def)
qed

end
