(* ===== verification/Recovery.thy ===== *)
theory Recovery
  imports CommitJournal BranchOperations
begin

section \<open>Recovery of a publication\<close>

text \<open>
  What \<open>open\<close> and \<open>resolvePendingCommitPublication\<close> of \<open>packages/core/src/workspace/workspace.ts\<close> make of
  a journal they find.
\<close>

subsection \<open>Opening a stored workspace\<close>

lemma accept_failed_same:
  assumes "overlay_wf (wt_overlay tree)" and "acceptPartiallyPublishedRevision h rv tree = (Inl e, tree')"
  shows "tree' = tree"
  using acceptPartially_atomic [OF assms] .

lemma put_same:
  assumes "bw_current (en_branches env) = Inr tree"
  shows "put_tree (bw_selected (en_branches env)) tree env = env"
proof -
  have "AList.update (bw_selected (en_branches env)) tree (bw_trees (en_branches env)) = bw_trees (en_branches env)"
    using assms by (intro AList.update_triv) (auto simp: bw_current_def split: option.splits)
  then show ?thesis by (simp add: put_tree_def)
qed

text \<open>The state right after the snapshot has been loaded, before the recovery.\<close>

definition loaded_env :: "repository_info \<Rightarrow> workspace_snapshot \<Rightarrow> ('w, 's) env \<Rightarrow> ('w, 's) env" where
  "loaded_env info snapshot env = env\<lparr>en_branches := restored snapshot, en_info := info,
     en_pending := sp_pending snapshot, en_events := []\<rparr>"

lemma open_loaded:
  assumes storage: "workspace_storage (sv_storage sv) stored" and ok: "store_ok stored (en_store env)"
    and contract: "validateAdapterContract (sv_adapter sv) = Inr ()"
    and repo: "ad_getRepository (sv_adapter sv) (en_remote env) = (Inr info, w)"
    and load: "so_load (sv_storage sv) (ri_id info) (en_store env) = (Inr p, s)"
    and snapshot: "stored (en_store env) (ri_id info) = Some snapshot"
  shows "ws_open sv env = recoverPendingCommitPublication sv
    (loaded_env info snapshot (env\<lparr>en_remote := w, en_store := s\<rparr>))"
    and "bw_ok (restored snapshot)" and "journal_ok (bw_selected (restored snapshot)) (sp_pending snapshot)"
proof -
  have p: "p = Some snapshot" using workspace_storage.load_stored [OF storage load] snapshot by simp
  have sok: "stored_snapshot_ok snapshot" using ok snapshot by (simp add: store_ok_def)
  show "ws_open sv env = recoverPendingCommitPublication sv
    (loaded_env info snapshot (env\<lparr>en_remote := w, en_store := s\<rparr>))"
    using contract repo load p
    by (simp add: ws_open_def bindS_apply remoteS_apply storeS_apply create_persisted [OF sok] modifyS_apply loaded_env_def)
  show "bw_ok (restored snapshot)" using sok by (rule restored_ok)
  show "journal_ok (bw_selected (restored snapshot)) (sp_pending snapshot)" using sok by (simp add: stored_snapshot_ok_def)
qed

lemma clear_journal_apply: "\<exists>s. bindS (setPending None) (\<lambda>_. ignoreS (saveSnapshot sv)) env =
    (Inr (), env\<lparr>en_pending := None, en_store := s\<rparr>)"
  by (simp add: bindS_apply setPending_def modifyS_apply ignoreS_apply saveSnapshot_apply split: prod.split) blast

lemma onErrorS_Inl: "m s = (Inl e, s') \<Longrightarrow> c s' = (Inr u, s'') \<Longrightarrow> onErrorS m c s = (Inl e, s'')"
  by (simp add: onErrorS_def)

text \<open>
  A journal that was prepared: when the remote branch still points where it pointed, nothing was
  published; otherwise, or when the branches cannot be listed, the journal stays.
\<close>

lemma recover_prepared_outcome:
  assumes pending: "en_pending env = Some (Prepared b expected)" and b: "bw_selected (en_branches env) = b"
    and list: "ad_getBranches (sv_adapter sv) (en_remote env) = (res, w)"
  shows "\<exists>env'. recoverPendingCommitPublication sv env = (Inr (), env') \<and> en_branches env' = en_branches env \<and>
    en_remote env' = w \<and> en_events env' = en_events env \<and> en_info env' = en_info env \<and>
    en_pending env' = (if \<exists>branches remote. res = Inr branches \<and> remote_branch b branches = Some remote \<and>
        br_revision remote = expected then None else Some (Prepared b expected))"
proof -
  let ?env = "env\<lparr>en_remote := w\<rparr>"
  have run: "recoverPendingCommitPublication sv env = recover_prepared sv b expected env"
    using assms by (simp add: recoverPendingCommitPublication_def bindS_apply selectedS_def)
  obtain s where clear: "bindS (setPending None) (\<lambda>_. ignoreS (saveSnapshot sv)) ?env =
      (Inr (), ?env\<lparr>en_pending := None, en_store := s\<rparr>)" using clear_journal_apply [of sv ?env] ..
  show ?thesis
    unfolding run using assms clear
    by (auto simp: recover_prepared_def remoteS_apply remote_branch_def split: sum.splits option.splits)
qed

text \<open>
  A journal of a known publication: the working tree is rebased onto the published revision and the
  journal removed; when the revision cannot be read, both stay.
\<close>

lemma recover_published_outcome:
  assumes pending: "en_pending env = Some (Published b expected r)" and b: "bw_selected (en_branches env) = b"
    and env: "bw_ok (en_branches env)" and tree: "bw_current (en_branches env) = Inr tree"
  shows "\<exists>env' res tree'. recoverPendingCommitPublication sv env = (Inr (), env') \<and>
    acceptPartiallyPublishedRevision (sv_host sv env) r tree = (res, tree') \<and>
    en_branches env' = en_branches (put_tree b tree' env) \<and> (res \<noteq> Inr () \<longrightarrow> en_branches env' = en_branches env) \<and>
    en_remote env' = en_remote env \<and> en_pending env' = (if res = Inr () then None else Some (Published b expected r))"
proof -
  obtain res tree' where accept: "acceptPartiallyPublishedRevision (sv_host sv env) r tree = (res, tree')" by fastforce
  let ?put = "put_tree b tree' env"
  have run: "recoverPendingCommitPublication sv env = recover_published sv r env"
    using pending b by (simp add: recoverPendingCommitPublication_def bindS_apply selectedS_def)
  have tr: "treeS sv (\<lambda>h. acceptPartiallyPublishedRevision h r) env = (res, ?put)"
    using tree accept b by (simp add: treeS_def onCurrent_def currentS_def bindS_apply)
  obtain s where clear: "bindS (setPending None) (\<lambda>_. ignoreS (saveSnapshot sv)) ?put =
      (Inr (), ?put\<lparr>en_pending := None, en_store := s\<rparr>)" using clear_journal_apply [of sv ?put] ..
  show ?thesis
  proof (cases res)
    case (Inl e)
    have "?put = env"
      using accept_failed_same [OF current_wf [OF env tree] accept [unfolded Inl]] put_same [OF tree] b by simp
    with run tr Inl accept pending show ?thesis by (simp add: recover_published_def)
  next
    case (Inr u)
    with run tr clear accept show ?thesis by (simp add: recover_published_def)
  qed
qed

subsection \<open>Resolving a publication by hand\<close>

lemma resolve_outcome:
  assumes env: "bw_ok (en_branches env)" and tree: "bw_current (en_branches env) = Inr tree"
    and pending: "en_pending env = Some p"
  shows "case ws_resolvePendingCommitPublication sv resolution env of
      (Inr _, env') \<Rightarrow> en_pending env' = None \<and> (\<exists>s. case resolution of
          NotPublished \<Rightarrow> (\<exists>b expected. p = Prepared b expected) \<and>
            save_call sv (env\<lparr>en_pending := None\<rparr>) = (Inr (), s) \<and> env' = changed_env sv s (env\<lparr>en_pending := None\<rparr>)
        | PublishedAs r \<Rightarrow> js_trim r \<noteq> [] \<and> (case p of Published _ _ q \<Rightarrow> q = r | Prepared _ _ \<Rightarrow> True) \<and>
            (\<exists>tree'. acceptPartiallyPublishedRevision (sv_host sv env) r tree = (Inr (), tree') \<and>
              save_call sv ((put_tree (bw_selected (en_branches env)) tree' env)\<lparr>en_pending := None\<rparr>) = (Inr (), s) \<and>
              env' = changed_env sv s ((put_tree (bw_selected (en_branches env)) tree' env)\<lparr>en_pending := None\<rparr>)))
    | (Inl e, env') \<Rightarrow> same_branches (en_branches env') (en_branches env) \<and> en_pending env' = Some p \<and>
        en_events env' = en_events env \<and> en_remote env' = en_remote env \<and>
        (en_store env' = en_store env \<or> (case resolution of
           NotPublished \<Rightarrow> (\<exists>b expected. p = Prepared b expected) \<and>
             save_call sv (env\<lparr>en_pending := None\<rparr>) = (Inl e, en_store env')
         | PublishedAs r \<Rightarrow> js_trim r \<noteq> [] \<and> (case p of Published _ _ q \<Rightarrow> q = r | Prepared _ _ \<Rightarrow> True) \<and>
             (\<exists>tree'. acceptPartiallyPublishedRevision (sv_host sv env) r tree = (Inr (), tree') \<and>
               save_call sv ((put_tree (bw_selected (en_branches env)) tree' env)\<lparr>en_pending := None\<rparr>) =
                 (Inl e, en_store env'))))"
proof (cases resolution)
  case NotPublished
  show ?thesis
  proof (cases p)
    case (Published b expected r)
    with NotPublished pending show ?thesis by (simp add: ws_resolvePendingCommitPublication_def bindS_apply)
  next
    case (Prepared b expected)
    let ?env = "env\<lparr>en_pending := None\<rparr>"
    obtain r s where save: "save_call sv ?env = (r, s)" by fastforce
    have emit: "emitChanged (?env\<lparr>en_store := s\<rparr>) = (Inr (), changed_env sv s ?env)"
      using emitChanged_apply [of "?env\<lparr>en_store := s\<rparr>" sv] env by (simp add: changed_env_def)
    show ?thesis
    proof (cases r)
      case (Inl e)
      with NotPublished Prepared pending save show ?thesis
        by (simp add: ws_resolvePendingCommitPublication_def bindS_apply setPending_def modifyS_apply
          onErrorS_def saveSnapshot_apply)
    next
      case (Inr u)
      with NotPublished Prepared pending save emit
      have "ws_resolvePendingCommitPublication sv resolution env = (Inr (), changed_env sv s ?env)"
        by (simp add: ws_resolvePendingCommitPublication_def bindS_apply setPending_def modifyS_apply
          onErrorS_def saveSnapshot_apply)
      moreover have "en_pending (changed_env sv s ?env) = None" by (simp add: changed_env_def)
      ultimately show ?thesis using NotPublished Prepared save Inr by auto
    qed
  qed
next
  case (PublishedAs rv)
  show ?thesis
  proof (cases "js_trim rv = [] \<or> (case p of Published _ _ q \<Rightarrow> q \<noteq> rv | Prepared _ _ \<Rightarrow> False)")
    case True
    with PublishedAs pending show ?thesis by (auto simp: ws_resolvePendingCommitPublication_def bindS_apply)
  next
    case False
    then have ok: "js_trim rv \<noteq> []" "case p of Published _ _ q \<Rightarrow> q = rv | Prepared _ _ \<Rightarrow> True"
      by (auto split: pending_publication.splits)
    obtain res tree' where accept: "acceptPartiallyPublishedRevision (sv_host sv env) rv tree = (res, tree')" by fastforce
    let ?put = "put_tree (bw_selected (en_branches env)) tree' env"
    let ?snapshot = "bw_snapshot (sv_collate sv) (en_branches env)"
    have tr: "treeS sv (\<lambda>h. acceptPartiallyPublishedRevision h rv) env = (res, ?put)"
      using tree accept by (simp add: treeS_def onCurrent_def currentS_def bindS_apply)
    have restore: "bw_restore ?snapshot e = (Inr (), e\<lparr>en_branches := restored ?snapshot\<rparr>)" for e :: "('a, 'b) env"
      by (rule restore_snapshot [OF env])
    have run: "ws_resolvePendingCommitPublication sv resolution env = resolve_published sv p rv env"
      using PublishedAs False pending by (simp add: ws_resolvePendingCommitPublication_def bindS_apply)
    show ?thesis
    proof (cases res)
      case (Inl e)
      have "resolve_published sv p rv env = (Inl e, ?put\<lparr>en_branches := restored ?snapshot, en_pending := Some p\<rparr>)"
        by (simp add: resolve_published_def bindS_apply onErrorS_def tr Inl restore setPending_def modifyS_apply)
      then show ?thesis using restored_same [OF env] by (simp add: run)
    next
      case (Inr u)
      let ?env = "?put\<lparr>en_pending := None\<rparr>"
      have "overlay_wf (wt_overlay tree')"
        using preservesD [OF wf_acceptPartially accept] current_wf [OF env tree] by simp
      then have put_ok: "bw_ok (en_branches ?env)" using put_tree_ok [OF env] by simp
      obtain r s where save: "save_call sv ?env = (r, s)" by fastforce
      have emit: "emitChanged (?env\<lparr>en_store := s\<rparr>) = (Inr (), changed_env sv s ?env)"
        using emitChanged_apply [of "?env\<lparr>en_store := s\<rparr>" sv] put_ok by (simp add: changed_env_def)
      have body: "bindS (treeS sv (\<lambda>h. acceptPartiallyPublishedRevision h rv)) (\<lambda>_.
          bindS (setPending None) (\<lambda>_. saveSnapshot sv)) env = (r, ?env\<lparr>en_store := s\<rparr>)"
        using save by (simp add: bindS_apply tr Inr setPending_def modifyS_apply saveSnapshot_apply)
      show ?thesis
      proof (cases r)
        case r: (Inl e)
        let ?undone = "?env\<lparr>en_store := s, en_branches := restored ?snapshot, en_pending := Some p\<rparr>"
        have "onErrorS (bindS (treeS sv (\<lambda>h. acceptPartiallyPublishedRevision h rv)) (\<lambda>_.
            bindS (setPending None) (\<lambda>_. saveSnapshot sv)))
            (bindS (bw_restore ?snapshot) (\<lambda>_. setPending (Some p))) env = (Inl e, ?undone)"
          by (rule onErrorS_Inl, rule body [unfolded r])
            (simp add: bindS_apply restore setPending_def modifyS_apply)
        then have out: "ws_resolvePendingCommitPublication sv resolution env = (Inl e, ?undone)"
          by (simp add: run resolve_published_def bindS_apply)
        have "save_call sv ?env = (Inl e, en_store ?undone)" using save r by simp
        then show ?thesis unfolding out using restored_same [OF env] ok accept Inr PublishedAs by auto
      next
        case r: (Inr v)
        have "resolve_published sv p rv env = (Inr (), changed_env sv s ?env)"
          using body r emit by (simp add: resolve_published_def bindS_apply onErrorS_Inr_iff [THEN iffD2])
        then have out: "ws_resolvePendingCommitPublication sv resolution env = (Inr (), changed_env sv s ?env)"
          by (simp add: run)
        have "en_pending (changed_env sv s ?env) = None" by (simp add: changed_env_def)
        moreover have "save_call sv ?env = (Inr (), s)" using save r by simp
        ultimately show ?thesis unfolding out using ok accept Inr PublishedAs by (auto intro!: exI [of _ s])
      qed
    qed
  qed
qed

end
