(* ===== verification/EndToEnd.thy ===== *)
theory EndToEnd
  imports Publication Recovery
begin

section \<open>A workspace over the fixture repository\<close>

text \<open>
  The workspace of \<open>packages/core\<close> put together with the in-memory adapter of
  \<open>packages/adapter-fixture\<close> and the in-memory storage: what a commit of the visible tree does from the
  call of the user to the commit in the repository and the stored snapshot.
\<close>

definition fixture_services :: "string comparator \<Rightarrow> (fixture, (repository_id \<times> workspace_snapshot) list) services" where
  "fixture_services collate = \<lparr>sv_adapter = fixture_adapter collate, sv_storage = memory_storage, sv_collate = collate\<rparr>"

lemma fixture_services_sel [simp]:
  "sv_storage (fixture_services collate) = memory_storage" "sv_adapter (fixture_services collate) = fixture_adapter collate"
  "sv_collate (fixture_services collate) = collate"
  "sv_host (fixture_services collate) env = fixture_host collate (en_remote env)"
  by (simp_all add: fixture_services_def sv_host_def)

lemma memory_save: "so_save memory_storage r x s = (Inr (), AList.update r x s)"
  by (simp add: memory_storage_def modifyS_apply)

lemma memory_workspace_storage: "workspace_storage (sv_storage (fixture_services collate)) map_of"
  by (simp add: memory.workspace_storage_axioms)

text \<open>A commit with nothing in its way sends its request.\<close>

lemma execute_sent:
  assumes "ad_commit (sv_adapter sv) = Some commit" "cap_commits (ad_capabilities (sv_adapter sv))"
    "js_trim message \<noteq> []" "bw_current (en_branches env) = Inr tree"
    "wt_buildCommitChanges (sv_host sv env) sel tree = Inr changes" "changes \<noteq> []"
  shows "commit_execute sv b message operation sel before after env =
         bindS (before (build_request b (wt_baseRevision tree) (js_trim message) changes operation)) (\<lambda>_.
           bindS (remoteS (commit (build_request b (wt_baseRevision tree) (js_trim message) changes operation)))
             (settle_commit sv sel after)) env"
  using assms by (simp add: commit_execute_def bindS_apply [of "askS _"] currentS_def Let_def)

lemma commitAndPush_eq:
  assumes "en_pending env = None" "bw_current (en_branches env) = Inr tree"
  shows "ws_commitAndPush sv message sel None env =
    bindS (commit_execute sv (bw_selected (en_branches env)) message OpNormal sel (journal_before sv) (journal_after sv))
      (conclude_commit sv) env"
  using assms
  by (simp add: ws_commitAndPush_def ws_mutateCommit_def requireNoPendingCommitPublication_def requireExpectedState_def
      bindS_apply selectedS_def currentS_def commit_normal_def)

lemma fixture_commit_healthy:
  "healthy fx \<Longrightarrow> ad_commit (fixture_adapter collate) = Some commit \<Longrightarrow> commit request fx = engine_execute request fx"
  by (auto simp: fixture_adapter_def bindS_apply fault_before_def healthy_def)

lemma js_trim_idem [simp]: "js_trim (js_trim s) = js_trim s"
  by (simp add: js_trim_def)

lemma workspace_commit:
  fixes env :: "(fixture, (repository_id \<times> workspace_snapshot) list) env"
  assumes env: "bw_ok (en_branches env)" and idle: "en_pending env = None" and tree: "bw_current (en_branches env) = Inr tree"
    and fx: "fixture_inv (en_remote env)" "healthy (en_remote env)"
    and c: "map_of (fx_commits (en_remote env)) (wt_baseRevision tree) = Some c" "servable (sc_files c)"
    and ok: "overlay_ok (map_of (sc_files c)) (wt_overlay tree)"
    and head: "map_of (fx_branches (en_remote env)) (bw_selected (en_branches env)) = Some (wt_baseRevision tree)"
    and build: "wt_buildCommitChanges (fixture_host collate (en_remote env)) None tree = Inr cs" "cs \<noteq> []"
    and message: "js_trim message \<noteq> []"
  shows "\<exists>files r i env'. ws_commitAndPush (fixture_services collate) message None None env =
      (Inr (CommitSuccess r i), env') \<and>
    published_commit (en_remote env) (bw_selected (en_branches env)) [wt_baseRevision tree] files (CommitSuccess r i)
      (en_remote env') \<and>
    map_of files = visible (map_of (sc_files c)) (wt_overlay tree) \<and>
    en_branches env' = en_branches (put_tree (bw_selected (en_branches env))
      \<lparr>wt_baseRevision = r, wt_overlay = empty_overlay\<rparr> env) \<and>
    en_pending env' = None \<and>
    map_of (en_store env') (ri_id (en_info env)) = Some (bw_snapshot collate (en_branches env'))"
proof -
  let ?sv = "fixture_services collate" and ?b = "bw_selected (en_branches env)" and ?base = "wt_baseRevision tree"
  let ?request = "build_request ?b ?base (js_trim message) cs OpNormal"
  have request: "?request = commit_of ?b ?base (js_trim message) cs" by (simp add: build_request_def commit_of_def Let_def)
  obtain commit where commit: "ad_commit (fixture_adapter collate) = Some commit" by (simp add: fixture_adapter_def)
  have "buildCommitChanges (fixture_host collate (en_remote env)) ?base (wt_overlay tree) None = Inr cs"
    using build(1) by (simp add: wt_buildCommitChanges_def)
  from commit_succeeds [OF fx c ok this head build(2), of "js_trim message"] message obtain files result fx' where
    engine: "engine_execute ?request (en_remote env) = (Inr result, fx')"
    and published: "published_commit (en_remote env) ?b [?base] files result fx'"
    and files: "map_of files = visible (map_of (sc_files c)) (wt_overlay tree)" unfolding request by auto
  from published obtain r i where result: "result = CommitSuccess r i" by (auto simp: published_commit_def Let_def)
  let ?env1 = "env\<lparr>en_pending := Some (journal_entry ?request),
    en_store := AList.update (ri_id (en_info env)) (journal_snapshot ?sv env ?request) (en_store env)\<rparr>"
  let ?env2 = "?env1\<lparr>en_remote := fx'\<rparr>"
  have before: "journal_before ?sv ?request env = (Inr (), ?env1)" by (simp add: journal_before_apply memory_save)
  have remote: "remoteS (commit ?request) ?env1 = (Inr result, ?env2)"
    using engine fixture_commit_healthy [OF fx(2) commit] by (simp add: remoteS_apply)
  have "en_pending ?env2 = Some (Prepared ?b (expected_remote ?request))" by (simp add: journal_entry_def cr_base_build)
  note after_apply = journal_after_apply [OF this, of ?sv r]
  obtain s where "publish_journal ?sv (Published ?b (expected_remote ?request) r) ?env2 =
      ?env2\<lparr>en_pending := Some (Published ?b (expected_remote ?request) r), en_store := s\<rparr>"
    using publish_journal_store ..
  note after = after_apply [unfolded this]
  let ?env3 = "?env2\<lparr>en_pending := Some (Published ?b (expected_remote ?request) r), en_store := s\<rparr>"
  let ?tree = "acceptPublishedRevision r tree"
  let ?env4 = "put_tree ?b ?tree ?env3"
  have settle: "settle_commit ?sv None (journal_after ?sv) result ?env2 = (Inr (result, True), ?env4)"
    using after tree by (simp add: settle_commit_def result bindS_apply onCurrent_def currentS_def)
  have "commit_execute ?sv ?b message OpNormal None (journal_before ?sv) (journal_after ?sv) env =
      bindS (journal_before ?sv ?request) (\<lambda>_. bindS (remoteS (commit ?request)) (settle_commit ?sv None (journal_after ?sv))) env"
    using commit message tree build by (intro execute_sent) (simp_all add: fixture_adapter_def fixture_capabilities_def)
  also have "\<dots> = (Inr (result, True), ?env4)" by (simp only: bindS_apply before remote settle prod.case sum.case)
  finally have exec: "commit_execute ?sv ?b message OpNormal None (journal_before ?sv) (journal_after ?sv) env =
      (Inr (result, True), ?env4)" .
  have tree': "?tree = \<lparr>wt_baseRevision = r, wt_overlay = empty_overlay\<rparr>"
    by (simp add: acceptPublishedRevision_def overlay_clear_def)
  obtain env4 where env4: "env4 = ?env4" by simp
  have "bw_ok (en_branches env4)" unfolding env4 using env by (intro put_tree_ok) (simp_all add: tree')
  note s2 = conclude_success(1) [OF this, of ?sv r i]
  let ?s2 = "snd (save_call ?sv (env4\<lparr>en_pending := None\<rparr>))"
  let ?env' = "changed_env ?sv ?s2 (env4\<lparr>en_pending := None\<rparr>)"
  have "ws_commitAndPush ?sv message None None env = (Inr (CommitSuccess r i), ?env')"
    unfolding commitAndPush_eq [OF idle tree] by (simp only: bindS_apply exec [folded env4, unfolded result] s2 prod.case sum.case)
  moreover have "en_branches ?env' = en_branches (put_tree ?b \<lparr>wt_baseRevision = r, wt_overlay = empty_overlay\<rparr> env)"
    by (simp add: changed_env_def put_tree_def tree' env4)
  moreover have "map_of (en_store ?env') (ri_id (en_info env)) = Some (bw_snapshot collate (en_branches ?env'))"
    by (simp add: memory_save changed_env_def bw_snapshot_def env4)
  moreover have "en_remote ?env' = fx'" "en_pending ?env' = None" by (simp_all add: changed_env_def env4)
  ultimately show ?thesis using published files unfolding result by metis
qed

end
