(* ===== verification/SeedWorkspace.thy ===== *)
theory SeedWorkspace
  imports SeedExamples EndToEnd
begin

section \<open>A workspace over the seeded repository\<close>

text \<open>
  Workspaces on branch \<open>main\<close> of the repository of \<open>packages/adapter-fixture/src/seed.ts\<close>, with the
  in-memory storage, as inputs for the examples.
\<close>

abbreviation seed_services :: "(fixture, (repository_id \<times> workspace_snapshot) list) services" where
  "seed_services \<equiv> fixture_services code_unit_compare"

definition seed_env :: "overlay \<Rightarrow> pending_publication option \<Rightarrow> (fixture, (repository_id \<times> workspace_snapshot) list) env" where
  "seed_env ov pending = \<lparr>en_info = fx_info createFixtureRepository,
     en_branches = \<lparr>bw_trees = [(''main'', \<lparr>wt_baseRevision = ''C3'', wt_overlay = ov\<rparr>)], bw_selected = ''main''\<rparr>,
     en_pending = pending, en_events = [], en_remote = createFixtureRepository, en_store = []\<rparr>"

lemma seed_env_sel [simp]:
  "en_pending (seed_env ov p) = p" "en_remote (seed_env ov p) = createFixtureRepository"
  "bw_selected (en_branches (seed_env ov p)) = ''main''" "en_store (seed_env ov p) = []"
  "en_events (seed_env ov p) = []" "en_info (seed_env ov p) = fx_info createFixtureRepository"
  "bw_current (en_branches (seed_env ov p)) = Inr \<lparr>wt_baseRevision = ''C3'', wt_overlay = ov\<rparr>"
  by (simp_all add: seed_env_def bw_current_def)

lemma seed_bw_ok: "overlay_wf ov \<Longrightarrow> bw_ok (en_branches (seed_env ov p))"
  by (simp add: seed_env_def bw_ok_def)

lemma seed_env_ok: "overlay_wf ov \<Longrightarrow> journal_ok ''main'' p \<Longrightarrow> env_ok map_of (seed_env ov p)"
  by (simp add: env_ok_def seed_bw_ok)

lemma seed_storage: "workspace_storage (sv_storage seed_services) map_of"
  by (rule memory_workspace_storage)

lemma seed_head: "map_of (fx_branches createFixtureRepository) ''main'' = Some ''C3''"
  by (simp add: createFixtureRepository_def)

lemma seed_contract: "validateAdapterContract (fixture_adapter collate) = Inr ()"
  by (simp add: validateAdapterContract_def fixture_adapter_def fixture_capabilities_def)

lemma seed_message: "js_trim ''Add'' \<noteq> []"
  by code_simp

lemma seed_branches:
  "ad_getBranches (fixture_adapter collate) createFixtureRepository =
     (Inr (view_getBranches collate createFixtureRepository), createFixtureRepository)"
  "\<exists>remote. remote_branch ''main'' (view_getBranches collate createFixtureRepository) = Some remote \<and>
     br_revision remote = ''C3''"
proof -
  show "ad_getBranches (fixture_adapter collate) createFixtureRepository =
     (Inr (view_getBranches collate createFixtureRepository), createFixtureRepository)"
    using seed_healthy by (simp add: fixture_adapter_def fault_before_def healthy_def)
  have "fx_branches createFixtureRepository = [(''main'', ''C3''), (''feature/test'', ''F2'')]"
    by (simp add: createFixtureRepository_def)
  then show "\<exists>remote. remote_branch ''main'' (view_getBranches collate createFixtureRepository) = Some remote \<and>
     br_revision remote = ''C3''"
    by (simp add: view_getBranches_def remote_branch_def)
qed

lemma seed_repository:
  "ad_getRepository (fixture_adapter collate) createFixtureRepository =
     (Inr (fx_info createFixtureRepository), createFixtureRepository)"
  using seed_healthy by (simp add: fixture_adapter_def fault_before_def healthy_def)

lemma memory_load: "so_load memory_storage r s = (Inr (map_of s r), s)"
  by (simp add: memory_storage_def)

end
