(* ===== verification/SerialExecutor.thy ===== *)
theory SerialExecutor
  imports Prelude
begin

section \<open>The serial executor\<close>

text \<open>
  The class \<open>SerialExecutor\<close> of \<open>packages/core/src/util/serial-executor.ts\<close>. An asynchronous operation
  is a sequence of atomic pieces between its suspensions, each of which may change the shared state;
  between two pieces any other code may run. Every call of \<open>run\<close> chains the operation to the promise
  in \<open>tail\<close>, whether that one is fulfilled or rejected, and makes the new promise the tail.

  The theory shows what the queue is for: whatever the interleaving of pieces and of new calls, the
  shared state and the results are those of running the operations one after the other in the order
  of the calls, and a call never gets stuck behind another.
\<close>

subsection \<open>Asynchronous operations\<close>

datatype ('s, 'a) async = Finish "'a res" | Piece "'s \<Rightarrow> 's \<times> ('s, 'a) async"

primrec run_alone :: "('s, 'a) async \<Rightarrow> 's \<Rightarrow> 'a res \<times> 's" where
  "run_alone (Finish r) s = (r, s)"
| "run_alone (Piece f) s = (case map_prod id run_alone (f s) of (s', continue) \<Rightarrow> continue s')"

lemma run_alone_Piece: "f s = (s', p) \<Longrightarrow> run_alone (Piece f) s = run_alone p s'"
  by simp

declare run_alone.simps(2) [simp del]

text \<open>Operations one after the other, each whatever became of those before it.\<close>

fun run_sequence :: "('s, 'a) async list \<Rightarrow> 's \<Rightarrow> 'a res list \<times> 's" where
  "run_sequence [] s = ([], s)"
| "run_sequence (p # ps) s = (case run_alone p s of (r, s') \<Rightarrow>
     (case run_sequence ps s' of (rs, s'') \<Rightarrow> (r # rs, s'')))"

lemma run_sequence_snoc: "run_sequence (ps @ [p]) s =
    (case run_sequence ps s of (rs, s') \<Rightarrow> (case run_alone p s' of (r, s'') \<Rightarrow> (rs @ [r], s'')))"
  by (induction ps arbitrary: s) (auto split: prod.split)

lemma length_run_sequence [simp]: "length (fst (run_sequence ps s)) = length ps"
  by (induction ps arbitrary: s) (simp_all add: case_prod_beta)

subsection \<open>The chain of promises\<close>

datatype ('s, 'a) status = Waiting | Running "('s, 'a) async" | Settled "'a res"

record ('s, 'a) task =
  tk_operation :: "('s, 'a) async"
  tk_after :: "nat option"
  tk_status :: "('s, 'a) status"

record ('s, 'a) serial_executor =
  se_tasks :: "('s, 'a) task list"
  se_tail :: "nat option"

definition new_executor :: "('s, 'a) serial_executor" where
  "new_executor = \<lparr>se_tasks = [], se_tail = None\<rparr>"

definition se_run :: "('s, 'a) async \<Rightarrow> ('s, 'a) serial_executor \<Rightarrow> ('s, 'a) serial_executor" where
  "se_run operation ex = ex\<lparr>
     se_tasks := se_tasks ex @ [\<lparr>tk_operation = operation, tk_after = se_tail ex, tk_status = Waiting\<rparr>],
     se_tail := Some (length (se_tasks ex))\<rparr>"

definition set_status :: "nat \<Rightarrow> ('s, 'a) status \<Rightarrow> ('s, 'a) serial_executor \<Rightarrow> ('s, 'a) serial_executor" where
  "set_status i st ex = ex\<lparr>se_tasks := (se_tasks ex)[i := (se_tasks ex ! i)\<lparr>tk_status := st\<rparr>]\<rparr>"

definition is_settled :: "('s, 'a) status \<Rightarrow> bool" where
  "is_settled st \<longleftrightarrow> (case st of Settled _ \<Rightarrow> True | _ \<Rightarrow> False)"

text \<open>The promise a task is chained to: the initial one is resolved.\<close>

definition may_start :: "('s, 'a) serial_executor \<Rightarrow> nat \<Rightarrow> bool" where
  "may_start ex i \<longleftrightarrow> (case tk_after (se_tasks ex ! i) of None \<Rightarrow> True
     | Some j \<Rightarrow> is_settled (tk_status (se_tasks ex ! j)))"

text \<open>What the event loop can do next, apart from new calls.\<close>

inductive se_internal :: "('s, 'a) serial_executor \<times> 's \<Rightarrow> ('s, 'a) serial_executor \<times> 's \<Rightarrow> bool" where
  start: "i < length (se_tasks ex) \<Longrightarrow> tk_status (se_tasks ex ! i) = Waiting \<Longrightarrow> may_start ex i \<Longrightarrow>
    se_internal (ex, s) (set_status i (Running (tk_operation (se_tasks ex ! i))) ex, s)"
| piece: "i < length (se_tasks ex) \<Longrightarrow> tk_status (se_tasks ex ! i) = Running (Piece f) \<Longrightarrow> f s = (s', p) \<Longrightarrow>
    se_internal (ex, s) (set_status i (Running p) ex, s')"
| finish: "i < length (se_tasks ex) \<Longrightarrow> tk_status (se_tasks ex ! i) = Running (Finish r) \<Longrightarrow>
    se_internal (ex, s) (set_status i (Settled r) ex, s)"

inductive se_step :: "('s, 'a) serial_executor \<times> 's \<Rightarrow> ('s, 'a) serial_executor \<times> 's \<Rightarrow> bool" where
  call: "se_step (ex, s) (se_run operation ex, s)"
| internal: "se_internal c c' \<Longrightarrow> se_step c c'"

subsection \<open>The invariant\<close>

text \<open>
  The first \<open>k\<close> tasks are settled as a sequential run settles them; the next one may be running, and
  then what is left of it does to the present state what it would have done alone; the others wait.
\<close>

definition chained :: "('s, 'a) serial_executor \<Rightarrow> bool" where
  "chained ex \<longleftrightarrow> se_tail ex = (if se_tasks ex = [] then None else Some (length (se_tasks ex) - 1)) \<and>
     (\<forall>i < length (se_tasks ex). tk_after (se_tasks ex ! i) = (if i = 0 then None else Some (i - 1)))"

definition serial_at :: "nat \<Rightarrow> 's \<Rightarrow> ('s, 'a) serial_executor \<times> 's \<Rightarrow> bool" where
  "serial_at k s0 c \<longleftrightarrow> (case c of (ex, s) \<Rightarrow>
     let tasks = se_tasks ex; before = run_sequence (map tk_operation (take k tasks)) s0 in
     k \<le> length tasks \<and> map tk_status (take k tasks) = map Settled (fst before) \<and>
     (\<forall>i. k < i \<and> i < length tasks \<longrightarrow> tk_status (tasks ! i) = Waiting) \<and>
     (if k < length tasks then (case tk_status (tasks ! k) of
         Waiting \<Rightarrow> s = snd before
       | Running p \<Rightarrow> run_alone p s = run_alone (tk_operation (tasks ! k)) (snd before)
       | Settled _ \<Rightarrow> False)
      else s = snd before))"

definition serial_inv :: "'s \<Rightarrow> ('s, 'a) serial_executor \<times> 's \<Rightarrow> bool" where
  "serial_inv s0 c \<longleftrightarrow> chained (fst c) \<and> (\<exists>k. serial_at k s0 c)"

lemma tasks_set_status [simp]:
  "length (se_tasks (set_status i st ex)) = length (se_tasks ex)"
  "se_tail (set_status i st ex) = se_tail ex"
  "j < length (se_tasks ex) \<Longrightarrow> tk_status (se_tasks (set_status i st ex) ! j) =
     (if j = i then st else tk_status (se_tasks ex ! j))"
  "j < length (se_tasks ex) \<Longrightarrow> tk_operation (se_tasks (set_status i st ex) ! j) = tk_operation (se_tasks ex ! j)"
  "j < length (se_tasks ex) \<Longrightarrow> tk_after (se_tasks (set_status i st ex) ! j) = tk_after (se_tasks ex ! j)"
  by (cases "j = i"; simp add: set_status_def)+

lemma operations_set_status [simp]:
  "i < length (se_tasks ex) \<Longrightarrow>
     map tk_operation (take k (se_tasks (set_status i st ex))) = map tk_operation (take k (se_tasks ex))"
  by (simp add: list_eq_iff_nth_eq)

lemma status_take_set_status [simp]:
  "k \<le> i \<Longrightarrow> map tk_status (take k (se_tasks (set_status i st ex))) = map tk_status (take k (se_tasks ex))"
  by (simp add: set_status_def)

lemma chained_set_status [simp]: "i < length (se_tasks ex) \<Longrightarrow> chained (set_status i st ex) = chained ex"
  by (auto simp: chained_def) (metis length_greater_0_conv tasks_set_status(1))+

lemma chained_run: "chained ex \<Longrightarrow> chained (se_run operation ex)"
  by (auto simp: chained_def se_run_def nth_append)

lemma serial_run: "serial_at k s0 (ex, s) \<Longrightarrow> serial_at k s0 (se_run operation ex, s)"
proof -
  assume at: "serial_at k s0 (ex, s)"
  let ?t = "\<lparr>tk_operation = operation, tk_after = se_tail ex, tk_status = Waiting\<rparr>"
  have tasks: "se_tasks (se_run operation ex) = se_tasks ex @ [?t]" by (simp add: se_run_def)
  have k: "k \<le> length (se_tasks ex)" using at by (simp add: serial_at_def Let_def)
  then have take: "take k (se_tasks ex @ [?t]) = take k (se_tasks ex)" by simp
  have wait: "\<forall>i. k < i \<and> i < length (se_tasks ex @ [?t]) \<longrightarrow> tk_status ((se_tasks ex @ [?t]) ! i) = Waiting"
    using at by (auto simp: serial_at_def Let_def nth_append less_Suc_eq)
  show ?thesis
  proof (cases "k < length (se_tasks ex)")
    case True
    then have "(se_tasks ex @ [?t]) ! k = se_tasks ex ! k" by (simp add: nth_append)
    with True at take wait k show ?thesis by (simp add: serial_at_def tasks Let_def cong: status.case_cong)
  next
    case False
    with k have "k = length (se_tasks ex)" by simp
    with at wait show ?thesis by (simp add: serial_at_def tasks Let_def)
  qed
qed

text \<open>The only task that can move is the first one that is not settled.\<close>

lemma serial_settled:
  assumes "serial_at k s0 (ex, s)" and "i < k"
  shows "is_settled (tk_status (se_tasks ex ! i))"
proof -
  have k: "k \<le> length (se_tasks ex)" and eq: "map tk_status (take k (se_tasks ex)) =
      map Settled (fst (run_sequence (map tk_operation (take k (se_tasks ex))) s0))"
    using assms(1) by (auto simp: serial_at_def Let_def)
  have "tk_status (se_tasks ex ! i) = map tk_status (take k (se_tasks ex)) ! i"
    using assms(2) k by simp
  then have "tk_status (se_tasks ex ! i) =
      Settled (fst (run_sequence (map tk_operation (take k (se_tasks ex))) s0) ! i)"
    unfolding eq using assms(2) k by simp
  then show ?thesis by (simp add: is_settled_def)
qed

lemma moving_task:
  assumes inv: "chained ex" "serial_at k s0 (ex, s)" and i: "i < length (se_tasks ex)"
    and moves: "\<not> is_settled (tk_status (se_tasks ex ! i))" "tk_status (se_tasks ex ! i) = Waiting \<Longrightarrow> may_start ex i"
  shows "i = k"
proof (rule ccontr)
  assume "i \<noteq> k"
  moreover have "\<not> i < k" using serial_settled [OF inv(2)] moves(1) by blast
  ultimately have "k < i" by simp
  then have wait: "tk_status (se_tasks ex ! i) = Waiting" and k: "k < length (se_tasks ex)"
    using inv(2) i by (auto simp: serial_at_def Let_def)
  have "tk_after (se_tasks ex ! i) = Some (i - 1)" using inv(1) i \<open>k < i\<close> by (auto simp: chained_def)
  with moves(2) [OF wait] have prev: "is_settled (tk_status (se_tasks ex ! (i - 1)))" by (simp add: may_start_def)
  show False
  proof (cases "k = i - 1")
    case True
    with inv(2) k prev show ?thesis by (auto simp: serial_at_def Let_def is_settled_def split: status.splits)
  next
    case False
    with \<open>k < i\<close> i have "k < i - 1" "i - 1 < length (se_tasks ex)" by simp_all
    then have "tk_status (se_tasks ex ! (i - 1)) = Waiting"
      using inv(2) unfolding serial_at_def Let_def by blast
    with prev show ?thesis by (simp add: is_settled_def)
  qed
qed

lemma serial_internal:
  assumes "se_internal (ex, s) (ex', s')" and inv: "chained ex" "serial_at k s0 (ex, s)"
  shows "chained ex' \<and> (\<exists>k. serial_at k s0 (ex', s'))"
  using assms(1)
proof cases
  case (start i)
  have "i = k" using start moving_task [OF inv, of i] by (simp add: is_settled_def)
  with inv start have "serial_at k s0 (ex', s')" by (simp add: serial_at_def Let_def)
  with start inv(1) show ?thesis by auto
next
  case (piece i f p)
  have "i = k" using piece moving_task [OF inv, of i] by (simp add: is_settled_def)
  moreover have "run_alone (Piece f) s = run_alone p s'" using piece(4) by (rule run_alone_Piece)
  ultimately have "serial_at k s0 (ex', s')" using inv piece by (simp add: serial_at_def Let_def)
  with piece inv(1) show ?thesis by auto
next
  case (finish i r)
  have k: "i = k" using finish moving_task [OF inv, of i] by (simp add: is_settled_def)
  let ?before = "run_sequence (map tk_operation (take k (se_tasks ex))) s0"
  have len: "k < length (se_tasks ex)" using finish k by simp
  have alone: "run_alone (tk_operation (se_tasks ex ! k)) (snd ?before) = (r, s)"
    using inv(2) finish k by (simp add: serial_at_def Let_def)
  then have seq: "run_sequence (map tk_operation (take (Suc k) (se_tasks ex))) s0 = (fst ?before @ [r], s)"
    using len by (cases ?before) (simp add: take_Suc_conv_app_nth run_sequence_snoc)
  have status: "map tk_status (take (Suc k) (se_tasks ex')) = map tk_status (take k (se_tasks ex)) @ [Settled r]"
    using finish k len by (simp add: take_Suc_conv_app_nth)
  have "serial_at (Suc k) s0 (ex', s')"
    using inv(2) finish k len seq status by (simp add: serial_at_def Let_def Suc_le_eq del: take_all take_all_iff)
  with finish inv(1) show ?thesis by auto
qed

lemma serial_step: "se_step c c' \<Longrightarrow> serial_inv s0 c \<Longrightarrow> serial_inv s0 c'"
proof (induction rule: se_step.induct)
  case (call ex s operation)
  then obtain k where "chained ex" "serial_at k s0 (ex, s)" by (auto simp: serial_inv_def)
  then show ?case by (simp add: serial_inv_def chained_run) (blast intro: serial_run)
next
  case (internal c c')
  obtain ex s ex' s' where c: "c = (ex, s)" "c' = (ex', s')" by (cases c; cases c')
  with internal obtain k where "chained ex" "serial_at k s0 (ex, s)" by (auto simp: serial_inv_def)
  with serial_internal internal(1) c show ?case by (simp add: serial_inv_def)
qed

lemma serial_start: "serial_inv s0 (new_executor, s0)"
  by (simp add: serial_inv_def chained_def new_executor_def serial_at_def Let_def)

lemma serial_steps: "se_step\<^sup>*\<^sup>* (new_executor, s0) c \<Longrightarrow> serial_inv s0 c"
  by (induction rule: rtranclp_induct) (auto intro: serial_start serial_step)

subsection \<open>No operation waits for ever\<close>

text \<open>While a task is not settled something can happen, and calls can only add work at the end.\<close>

lemma serial_progress:
  assumes "serial_inv s0 (ex, s)" and "\<exists>i < length (se_tasks ex). \<not> is_settled (tk_status (se_tasks ex ! i))"
  shows "\<exists>c. se_internal (ex, s) c"
proof -
  obtain k where inv: "chained ex" "serial_at k s0 (ex, s)" using assms(1) by (auto simp: serial_inv_def)
  obtain i where i: "i < length (se_tasks ex)" "\<not> is_settled (tk_status (se_tasks ex ! i))" using assms(2) by blast
  then have "\<not> i < k" using serial_settled [OF inv(2)] by blast
  then have k: "k < length (se_tasks ex)" using i(1) by simp
  have nset: "\<not> is_settled (tk_status (se_tasks ex ! k))"
    using inv(2) k by (auto simp: serial_at_def Let_def is_settled_def split: status.splits)
  show ?thesis
  proof (cases "tk_status (se_tasks ex ! k)")
    case Waiting
    have "may_start ex k"
    proof (cases "k = 0")
      case True
      with inv(1) k show ?thesis by (auto simp: chained_def may_start_def)
    next
      case False
      with inv(1) k have "tk_after (se_tasks ex ! k) = Some (k - 1)" by (auto simp: chained_def)
      with serial_settled [OF inv(2), of "k - 1"] False show ?thesis by (simp add: may_start_def)
    qed
    with Waiting k show ?thesis by (blast intro: se_internal.start)
  next
    case (Running p)
    show ?thesis
    proof (cases p)
      case (Finish r)
      with Running k show ?thesis by (blast intro: se_internal.finish)
    next
      case (Piece f)
      obtain s' q where "f s = (s', q)" by fastforce
      with Piece Running k show ?thesis by (blast intro: se_internal.piece)
    qed
  next
    case (Settled r)
    with nset show ?thesis by (simp add: is_settled_def)
  qed
qed

end
