(* ===== verification/EventSource.thy ===== *)
theory EventSource
  imports Prelude
begin

section \<open>The event source\<close>

text \<open>
  The class \<open>EventSource\<close> of \<open>packages/core/src/events/events.ts\<close>: a set of listener functions, one
  disposable per registration, and an emission that calls the listeners registered at its start, each
  of which may throw and may register or dispose listeners while it runs. A listener is an
  identity, what it does is an argument of \<open>emit\<close>.
\<close>

subsection \<open>Registrations\<close>

record 'l registration =
  rg_listener :: 'l
  rg_disposed :: bool

record 'l event_source =
  es_listeners :: "'l list"
  es_registrations :: "'l registration list"

definition new_event_source :: "'l event_source" where
  "new_event_source = \<lparr>es_listeners = [], es_registrations = []\<rparr>"

text \<open>The disposable that \<open>on\<close> returns is the number of its registration.\<close>

definition es_on :: "'l \<Rightarrow> 'l event_source \<Rightarrow> nat \<times> 'l event_source" where
  "es_on listener es = (length (es_registrations es),
     es\<lparr>es_listeners := set_add listener (es_listeners es),
       es_registrations := es_registrations es @ [\<lparr>rg_listener = listener, rg_disposed = False\<rparr>]\<rparr>)"

definition es_dispose :: "nat \<Rightarrow> 'l event_source \<Rightarrow> 'l event_source" where
  "es_dispose i es = (let r = es_registrations es ! i in
     if rg_disposed r then es
     else es\<lparr>es_registrations := (es_registrations es)[i := r\<lparr>rg_disposed := True\<rparr>],
       es_listeners := set_remove (rg_listener r) (es_listeners es)\<rparr>)"

text \<open>
  \<open>emit\<close> walks over a copy of the set. An exception of a listener goes to \<open>report\<close>, which passes it
  to the handler of the source and, if that throws too, to the console.
\<close>

definition es_report :: "(err \<Rightarrow> ('s, unit) st) \<Rightarrow> (err \<Rightarrow> 's \<Rightarrow> 's) \<Rightarrow> err \<Rightarrow> 's \<Rightarrow> 's" where
  "es_report onListenerError reportListenerError e s = (case onListenerError e s of
     (Inl e', s') \<Rightarrow> reportListenerError e' s' | (Inr _, s') \<Rightarrow> s')"

definition es_emit :: "('s \<Rightarrow> 'l event_source) \<Rightarrow> ('l \<Rightarrow> 'e \<Rightarrow> ('s, unit) st) \<Rightarrow> (err \<Rightarrow> ('s, unit) st) \<Rightarrow>
    (err \<Rightarrow> 's \<Rightarrow> 's) \<Rightarrow> 'e \<Rightarrow> ('s, unit) st" where
  "es_emit source listen onListenerError reportListenerError event = (\<lambda>s.
     forS (es_listeners (source s)) (\<lambda>listener s. case listen listener event s of
         (Inl e, s') \<Rightarrow> (Inr (), es_report onListenerError reportListenerError e s')
       | (Inr _, s') \<Rightarrow> (Inr (), s')) s)"

subsection \<open>Who listens\<close>

text \<open>As long as no function is registered twice, the listeners are the registrations not disposed.\<close>

definition active :: "'l event_source \<Rightarrow> 'l list" where
  "active es = map rg_listener (filter (\<lambda>r. \<not> rg_disposed r) (es_registrations es))"

definition source_ok :: "'l event_source \<Rightarrow> bool" where
  "source_ok es \<longleftrightarrow> distinct (map rg_listener (es_registrations es)) \<and> es_listeners es = active es"

lemma source_ok_new: "source_ok new_event_source"
  by (simp add: source_ok_def new_event_source_def active_def)

lemma source_ok_on:
  assumes "source_ok es" and "listener \<notin> rg_listener ` set (es_registrations es)"
  shows "source_ok (snd (es_on listener es))"
proof -
  have "listener \<notin> set (active es)" using assms(2) by (auto simp: active_def)
  with assms show ?thesis by (simp add: source_ok_def es_on_def set_add_def active_def)
qed

lemma filter_distinct_remove:
  "distinct (map f xs) \<Longrightarrow> i < length xs \<Longrightarrow> P (xs ! i) \<Longrightarrow> \<not> P y \<Longrightarrow> f y = f (xs ! i) \<Longrightarrow>
     map f (filter P (xs[i := y])) = filter (\<lambda>z. z \<noteq> f (xs ! i)) (map f (filter P xs))"
proof (induction xs arbitrary: i)
  case (Cons x xs)
  show ?case
  proof (cases i)
    case 0
    have "filter (\<lambda>z. z \<noteq> f x) (map f (filter P xs)) = map f (filter P xs)"
      using Cons.prems(1) by (intro filter_True) (auto, metis imageI)
    with Cons.prems 0 show ?thesis by simp
  next
    case (Suc j)
    have "f x \<noteq> f (xs ! j)" using Cons.prems Suc by auto
    with Cons.prems Cons.IH [of j] Suc show ?thesis by simp
  qed
qed simp

lemma source_ok_dispose:
  assumes "source_ok es" and "i < length (es_registrations es)"
  shows "source_ok (es_dispose i es)"
    and "es_listeners (es_dispose i es) = filter (\<lambda>l. l \<noteq> rg_listener (es_registrations es ! i)) (es_listeners es)"
proof -
  let ?rs = "es_registrations es" and ?r = "es_registrations es ! i"
  have distinct: "distinct (map rg_listener ?rs)" and eq: "es_listeners es = active es"
    using assms(1) by (simp_all add: source_ok_def)
  have same: "map rg_listener (?rs[i := ?r\<lparr>rg_disposed := True\<rparr>]) = map rg_listener ?rs"
    using assms(2) by (simp add: list_eq_iff_nth_eq nth_list_update)
  show "source_ok (es_dispose i es)"
  proof (cases "rg_disposed ?r")
    case True
    with assms(1) show ?thesis by (simp add: es_dispose_def Let_def)
  next
    case False
    have "map rg_listener (filter (\<lambda>r. \<not> rg_disposed r) (?rs[i := ?r\<lparr>rg_disposed := True\<rparr>])) =
        filter (\<lambda>z. z \<noteq> rg_listener ?r) (map rg_listener (filter (\<lambda>r. \<not> rg_disposed r) ?rs))"
      by (rule filter_distinct_remove) (use distinct assms(2) False in auto)
    with False same distinct eq show ?thesis
      by (simp add: source_ok_def es_dispose_def Let_def active_def set_remove_def)
  qed
  show "es_listeners (es_dispose i es) = filter (\<lambda>l. l \<noteq> rg_listener ?r) (es_listeners es)"
  proof (cases "rg_disposed ?r")
    case True
    have "rg_listener ?r \<notin> set (active es)"
    proof
      assume "rg_listener ?r \<in> set (active es)"
      then obtain j where j: "j < length ?rs" "\<not> rg_disposed (?rs ! j)" "rg_listener (?rs ! j) = rg_listener ?r"
        by (auto simp: active_def in_set_conv_nth)
      then have "j = i" using distinct assms(2) by (auto simp: distinct_conv_nth)
      with j True show False by simp
    qed
    with True eq show ?thesis by (simp add: es_dispose_def Let_def) (metis (mono_tags, lifting) filter_True)
  qed (simp add: es_dispose_def Let_def set_remove_def)
qed

text \<open>Disposing twice is disposing once.\<close>

lemma dispose_idempotent:
  "i < length (es_registrations es) \<Longrightarrow> es_dispose i (es_dispose i es) = es_dispose i es"
  by (simp add: es_dispose_def Let_def)

text \<open>
  A function registered twice is one member of the set: disposing one of its registrations stops it
  although the other one was not disposed.
\<close>

lemma registered_twice:
  "let (i, es1) = es_on l new_event_source; (j, es2) = es_on l es1; es3 = es_dispose i es2 in
     es_listeners es3 = [] \<and> \<not> rg_disposed (es_registrations es3 ! j)"
  by (simp add: es_on_def new_event_source_def es_dispose_def Let_def set_add_def set_remove_def)

subsection \<open>Emission\<close>

text \<open>
  One call of a listener with its exception handled; an emission is one such call for every
  listener of the set at its start, in the order of their registration, whatever they do.
\<close>

definition notify :: "('l \<Rightarrow> 'e \<Rightarrow> ('s, unit) st) \<Rightarrow> (err \<Rightarrow> ('s, unit) st) \<Rightarrow> (err \<Rightarrow> 's \<Rightarrow> 's) \<Rightarrow> 'e \<Rightarrow>
    'l \<Rightarrow> 's \<Rightarrow> 's" where
  "notify listen onListenerError reportListenerError event listener s =
     (case listen listener event s of
       (Inl e, s') \<Rightarrow> es_report onListenerError reportListenerError e s' | (Inr _, s') \<Rightarrow> s')"

lemma emit_notifies:
  "es_emit source listen onListenerError reportListenerError event s =
     (Inr (), fold (notify listen onListenerError reportListenerError event) (es_listeners (source s)) s)"
proof -
  have "forS ls (\<lambda>listener s. case listen listener event s of
         (Inl e, s') \<Rightarrow> (Inr (), es_report onListenerError reportListenerError e s')
       | (Inr _, s') \<Rightarrow> (Inr (), s')) s =
     (Inr (), fold (notify listen onListenerError reportListenerError event) ls s)" for ls
    by (induction ls arbitrary: s) (auto simp: bindS_apply notify_def split: prod.split sum.split)
  then show ?thesis by (simp add: es_emit_def)
qed

text \<open>
  Seen from outside: when every call of a listener appends it to a log and neither the rest of the
  listener nor the handlers of errors touch the log, the log of an emission is the list of listeners
  at its start, each once, whichever of them throw, register or dispose.
\<close>

lemma emit_log:
  assumes "\<And>l s r s'. listen l event s = (r, s') \<Longrightarrow> log s' = log s @ [l]"
    and "\<And>e s r s'. onListenerError e s = (r, s') \<Longrightarrow> log s' = log s"
    and "\<And>e s. log (reportListenerError e s) = log s"
  shows "log (snd (es_emit source listen onListenerError reportListenerError event s)) =
    log s @ es_listeners (source s)"
proof -
  have "log (notify listen onListenerError reportListenerError event l s) = log s @ [l]" for l s
    using assms by (auto simp: notify_def es_report_def split: prod.split sum.split)
  then have "log (fold (notify listen onListenerError reportListenerError event) ls s) = log s @ ls" for ls
    by (induction ls arbitrary: s) simp_all
  then show ?thesis by (simp add: emit_notifies)
qed

end
