(* ===== verification/Base64.thy ===== *)
theory Base64
  imports JsText
begin

section \<open>Base64 of binary strings\<close>

text \<open>
  \<open>btoa\<close> and \<open>atob\<close> of the JavaScript platform on strings of 8-bit code units, and the copies
  between byte arrays and binary strings that \<open>adapters/rpc\<close> and the persistence of the editor make
  around them. \<open>atob\<close> is the forgiving decoder: it drops white space, accepts missing padding and
  ignores the bits that do not fill a byte, so that it accepts more than \<open>btoa\<close> writes.
\<close>

subsection \<open>The alphabet\<close>

text \<open>The upper case letters, the lower case letters, the digits, plus and slash.\<close>

definition sextet_code :: "nat \<Rightarrow> nat" where
  "sextet_code n = (if n < 26 then n + 65 else if n < 52 then n + 71 else if n < 62 then n - 4
     else if n = 62 then 43 else 47)"

definition sextet_char :: "nat \<Rightarrow> char" where
  "sextet_char n = char_of (sextet_code n)"

definition sextet_of :: "char \<Rightarrow> nat option" where
  "sextet_of c = (let n = (of_char c :: nat) in
     if 65 \<le> n \<and> n \<le> 90 then Some (n - 65)
     else if 97 \<le> n \<and> n \<le> 122 then Some (n - 71)
     else if 48 \<le> n \<and> n \<le> 57 then Some (n + 4)
     else if n = 43 then Some 62
     else if n = 47 then Some 63
     else None)"

text \<open>ASCII white space: tab, line feed, form feed, carriage return and space.\<close>

definition ascii_space :: "char \<Rightarrow> bool" where
  "ascii_space c \<longleftrightarrow> (of_char c :: nat) \<in> {9, 10, 12, 13, 32}"

lemma sextet_code: "(of_char (sextet_char n) :: nat) = sextet_code n"
  by (simp add: sextet_char_def sextet_code_def)

lemma sextet_char [simp]:
  assumes "n < 64"
  shows "sextet_of (sextet_char n) = Some n"
  using assms unfolding sextet_of_def sextet_code Let_def by (auto simp: sextet_code_def)

lemma sextet_char_proper [simp]: "sextet_char n \<noteq> CHR ''=''" "\<not> ascii_space (sextet_char n)"
proof -
  have "sextet_code n \<noteq> (of_char CHR ''='' :: nat)" by (auto simp: sextet_code_def)
  then show "sextet_char n \<noteq> CHR ''=''" using sextet_code [of n] by metis
  show "\<not> ascii_space (sextet_char n)"
    unfolding ascii_space_def sextet_code by (auto simp: sextet_code_def)
qed

lemma padding_not_space: "\<not> ascii_space CHR ''=''"
  by (simp add: ascii_space_def)

lemma sextet_of_range: "sextet_of c = Some n \<Longrightarrow> n < 64"
  by (auto simp: sextet_of_def Let_def split: if_splits)

lemma sextet_of_char: "sextet_of c = Some n \<Longrightarrow> sextet_char n = c"
proof -
  assume some: "sextet_of c = Some n"
  then have "sextet_code n = of_char c"
    by (auto simp: sextet_of_def sextet_code_def Let_def split: if_splits)
  then show ?thesis by (simp add: sextet_char_def)
qed

subsection \<open>Encoding and decoding groups\<close>

fun base64_groups :: "nat list \<Rightarrow> string" where
  "base64_groups [] = []"
| "base64_groups [a] =
     [sextet_char (a div 4), sextet_char ((a mod 4) * 16), CHR ''='', CHR ''='']"
| "base64_groups [a, b] =
     [sextet_char (a div 4), sextet_char ((a mod 4) * 16 + b div 16), sextet_char ((b mod 16) * 4),
      CHR ''='']"
| "base64_groups (a # b # c # xs) =
     sextet_char (a div 4) # sextet_char ((a mod 4) * 16 + b div 16) #
     sextet_char ((b mod 16) * 4 + c div 64) # sextet_char (c mod 64) # base64_groups xs"

fun base64_octets :: "nat list \<Rightarrow> nat list" where
  "base64_octets (p # q # r # s # xs) =
     (p * 4 + q div 16) # ((q mod 16) * 16 + r div 4) # ((r mod 4) * 64 + s) # base64_octets xs"
| "base64_octets [p, q, r] = [p * 4 + q div 16, (q mod 16) * 16 + r div 4]"
| "base64_octets [p, q] = [p * 4 + q div 16]"
| "base64_octets xs = []"

definition btoa :: "string \<Rightarrow> string" where
  "btoa binary = base64_groups (map of_char binary)"

text \<open>One or two padding characters at the end of a text of whole groups are dropped.\<close>

definition unpad :: "string \<Rightarrow> string" where
  "unpad t = (if length t mod 4 \<noteq> 0 \<or> t = [] \<or> last t \<noteq> CHR ''='' then t
     else if butlast t = [] \<or> last (butlast t) \<noteq> CHR ''='' then butlast t
     else butlast (butlast t))"

definition atob :: "string \<Rightarrow> string option" where
  "atob text' =
     (let t = unpad (filter (\<lambda>c. \<not> ascii_space c) text') in
      if length t mod 4 = 1 \<or> list_ex (\<lambda>c. sextet_of c = None) t then None
      else Some (map char_of (base64_octets (map (\<lambda>c. the (sextet_of c)) t))))"

subsection \<open>Decoding what was encoded\<close>

lemma three_octets:
  fixes a b c :: nat
  assumes "a < 256" "b < 256" "c < 256"
  shows "a div 4 < 64" "(a mod 4) * 16 + b div 16 < 64" "(b mod 16) * 4 + c div 64 < 64" "c mod 64 < 64"
    and "(a div 4) * 4 + ((a mod 4) * 16 + b div 16) div 16 = a"
    and "(((a mod 4) * 16 + b div 16) mod 16) * 16 + ((b mod 16) * 4 + c div 64) div 4 = b"
    and "(((b mod 16) * 4 + c div 64) mod 4) * 64 + c mod 64 = c"
proof -
  have bounds: "a div 4 < 64" "b div 16 < 16" "c div 64 < 4" "a mod 4 < 4" "b mod 16 < 16"
    using assms by auto
  then show "a div 4 < 64" "(a mod 4) * 16 + b div 16 < 64" "(b mod 16) * 4 + c div 64 < 64" "c mod 64 < 64"
    by auto
  have "((a mod 4) * 16 + b div 16) div 16 = a mod 4" "((a mod 4) * 16 + b div 16) mod 16 = b div 16"
    "((b mod 16) * 4 + c div 64) div 4 = b mod 16" "((b mod 16) * 4 + c div 64) mod 4 = c div 64"
    using bounds by auto
  then show "(a div 4) * 4 + ((a mod 4) * 16 + b div 16) div 16 = a"
    and "(((a mod 4) * 16 + b div 16) mod 16) * 16 + ((b mod 16) * 4 + c div 64) div 4 = b"
    and "(((b mod 16) * 4 + c div 64) mod 4) * 64 + c mod 64 = c"
    by (simp_all add: div_mult_mod_eq)
qed

text \<open>The text of an encoding: sextets that decode to the octets, and the padding.\<close>

lemma base64_groups_form:
  "\<forall>x \<in> set xs. x < 256 \<Longrightarrow> \<exists>ts pad. base64_groups xs = map sextet_char ts @ pad \<and>
     (\<forall>t \<in> set ts. t < 64) \<and> base64_octets ts = xs \<and> pad \<in> {[], ''='', ''==''} \<and>
     (length ts + length pad) mod 4 = 0"
proof (induction xs rule: base64_groups.induct)
  case (2 a)
  then have "a < 256" by simp
  then show ?case using three_octets [of a 0 0]
    by (intro exI [of _ "[a div 4, (a mod 4) * 16]"] exI [of _ "''==''"]) simp
next
  case (3 a b)
  then have "a < 256" "b < 256" by simp_all
  then show ?case using three_octets [of a b 0]
    by (intro exI [of _ "[a div 4, (a mod 4) * 16 + b div 16, (b mod 16) * 4]"] exI [of _ "''=''"]) simp
next
  case (4 a b c xs)
  then have octets: "\<forall>x \<in> set xs. x < 256" by simp
  obtain ts pad where rest: "base64_groups xs = map sextet_char ts @ pad \<and>
      (\<forall>t \<in> set ts. t < 64) \<and> base64_octets ts = xs \<and> pad \<in> {[], ''='', ''==''} \<and>
      (length ts + length pad) mod 4 = 0"
    using 4(1) [OF octets] by (elim exE)
  from 4 have "a < 256" "b < 256" "c < 256" by simp_all
  note facts = three_octets [OF this]
  show ?case using rest facts
    by (intro exI [of _ "[a div 4, (a mod 4) * 16 + b div 16, (b mod 16) * 4 + c div 64, c mod 64] @ ts"]
        exI [of _ pad]) (simp del: div_mult_self3 div_mult_self4 add: mod_simps)
qed simp

lemma unpad_form:
  assumes "\<forall>c \<in> set t. c \<noteq> CHR ''=''" and "pad \<in> {[], ''='', ''==''}"
    and "(length t + length pad) mod 4 = 0"
  shows "unpad (t @ pad) = t"
proof -
  have "last t \<noteq> CHR ''=''" if "t \<noteq> []" using that assms(1) by simp
  then show ?thesis using assms(2,3)
    by (auto simp: unpad_def butlast_append last_append)
qed

theorem atob_btoa: "atob (btoa binary) = Some binary"
proof -
  have "\<forall>x \<in> set (map of_char binary). x < (256::nat)" by auto
  from base64_groups_form [OF this] obtain ts pad where "btoa binary = map sextet_char ts @ pad \<and>
      (\<forall>t \<in> set ts. t < 64) \<and> base64_octets ts = map of_char binary \<and> pad \<in> {[], ''='', ''==''} \<and>
      (length ts + length pad) mod 4 = 0"
    unfolding btoa_def by (elim exE)
  then have form: "btoa binary = map sextet_char ts @ pad" "\<forall>t \<in> set ts. t < 64"
      "base64_octets ts = map of_char binary" "pad \<in> {[], ''='', ''==''}"
      "(length ts + length pad) mod 4 = 0" by simp_all
  have "filter (\<lambda>c. \<not> ascii_space c) (btoa binary) = btoa binary"
    using form padding_not_space by (auto simp: filter_id_conv)
  then have unpadded: "unpad (filter (\<lambda>c. \<not> ascii_space c) (btoa binary)) = map sextet_char ts"
    using unpad_form [of "map sextet_char ts" pad] form by auto
  have "length ts mod 4 \<noteq> 1" using form(4,5) by auto presburger+
  moreover have "map (\<lambda>c. the (sextet_of c)) (map sextet_char ts) = ts"
    using form(2) by (simp add: map_idI)
  moreover have "\<not> list_ex (\<lambda>c. sextet_of c = None) (map sextet_char ts)"
    using form(2) by (auto simp: list_ex_iff)
  moreover have "map char_of (map of_char binary :: nat list) = binary" by (simp add: comp_def)
  ultimately show ?thesis
    unfolding atob_def Let_def unpadded by (simp only: form(3) length_map) simp
qed

text \<open>What an encoding consists of.\<close>

lemma btoa_form:
  obtains ts pad where "btoa binary = map sextet_char ts @ pad" "\<forall>t \<in> set ts. t < 64"
    "pad \<in> {[], ''='', ''==''}" "length (btoa binary) mod 4 = 0"
proof -
  have "\<forall>x \<in> set (map of_char binary). x < (256::nat)" by auto
  from base64_groups_form [OF this] obtain ts pad where "btoa binary = map sextet_char ts @ pad \<and>
      (\<forall>t \<in> set ts. t < 64) \<and> base64_octets ts = map of_char binary \<and> pad \<in> {[], ''='', ''==''} \<and>
      (length ts + length pad) mod 4 = 0"
    unfolding btoa_def by (elim exE)
  then show thesis by (intro that [of ts pad]) simp_all
qed

lemma btoa_inject: "btoa a = btoa b \<longleftrightarrow> a = b"
  by (metis atob_btoa option.inject)

subsection \<open>Byte arrays and binary strings\<close>

text \<open>\<open>String.fromCharCode\<close> and \<open>charCodeAt\<close>, character by character.\<close>

definition byte_char :: "byte \<Rightarrow> char" where
  "byte_char b = char_of (unat b)"

definition char_byte :: "char \<Rightarrow> byte" where
  "char_byte c = of_nat (of_char c)"

lemma char_byte_char [simp]: "char_byte (byte_char b) = b"
proof -
  have "unat b < 256" using unsigned_less [where w = b] by simp
  then show ?thesis by (simp add: char_byte_def byte_char_def)
qed

lemma byte_char_byte [simp]: "byte_char (char_byte c) = c"
proof -
  have "(of_char c :: nat) < 256" by simp
  then have "unat (of_nat (of_char c) :: byte) = of_char c"
    by (simp add: unat_of_nat)
  then show ?thesis by (simp add: char_byte_def byte_char_def)
qed

lemma map_char_byte [simp]: "map char_byte (map byte_char bs) = bs"
  by (simp add: comp_def)

lemma map_byte_char [simp]: "map byte_char (map char_byte s) = s"
  by (simp add: comp_def)

end
