(* ===== verification/RpcPrimitives.thy ===== *)
theory RpcPrimitives
  imports Base64 AdapterSdk
begin

section \<open>Primitives of the RPC codecs\<close>

text \<open>
  \<open>adapters/rpc/src/rpc-codec-primitives.ts\<close> and the operation names of \<open>rpc-types.ts\<close>: the checks
  from which the codecs of requests and results are built. Every check fails with the same error,
  of code \<open>UNKNOWN\<close>; its message is not modelled. A value is an object for the codec when it is an
  array-free plain object with no property outside the listed ones.
\<close>

definition rpc_invalid :: "'a res" where
  "rpc_invalid = Inl (RemotishError UNKNOWN)"

lemma rpc_invalid_neq [simp]: "rpc_invalid \<noteq> Inr x" "Inr x \<noteq> rpc_invalid"
  by (simp_all add: rpc_invalid_def)

definition REMOTISH_RPC_VERSION :: nat where
  "REMOTISH_RPC_VERSION = 1"

datatype rpc_operation =
    GetRepository
  | ReadDirectory
  | ReadFile
  | GetBranches
  | GetCommits
  | GetCommitChanges
  | DoCommit
  | CreateBranch
  | DeleteBranch

fun operation_name :: "rpc_operation \<Rightarrow> string" where
  "operation_name GetRepository = ''getRepository''"
| "operation_name ReadDirectory = ''readDirectory''"
| "operation_name ReadFile = ''readFile''"
| "operation_name GetBranches = ''getBranches''"
| "operation_name GetCommits = ''getCommits''"
| "operation_name GetCommitChanges = ''getCommitChanges''"
| "operation_name DoCommit = ''commit''"
| "operation_name CreateBranch = ''createBranch''"
| "operation_name DeleteBranch = ''deleteBranch''"

definition isOperation :: "string \<Rightarrow> rpc_operation option" where
  "isOperation value = map_of (map (\<lambda>op. (operation_name op, op))
     [GetRepository, ReadDirectory, ReadFile, GetBranches, GetCommits, GetCommitChanges, DoCommit,
      CreateBranch, DeleteBranch]) value"

fun error_code_name :: "error_code \<Rightarrow> string" where
  "error_code_name NOT_FOUND = ''NOT_FOUND''"
| "error_code_name UNAUTHORIZED = ''UNAUTHORIZED''"
| "error_code_name FORBIDDEN = ''FORBIDDEN''"
| "error_code_name RATE_LIMITED = ''RATE_LIMITED''"
| "error_code_name OFFLINE = ''OFFLINE''"
| "error_code_name UNSUPPORTED = ''UNSUPPORTED''"
| "error_code_name INVALID_REQUEST = ''INVALID_REQUEST''"
| "error_code_name CANCELLED = ''CANCELLED''"
| "error_code_name UNKNOWN = ''UNKNOWN''"

definition isErrorCode :: "string \<Rightarrow> error_code option" where
  "isErrorCode value = map_of (map (\<lambda>code. (error_code_name code, code))
     [NOT_FOUND, UNAUTHORIZED, FORBIDDEN, RATE_LIMITED, OFFLINE, UNSUPPORTED, INVALID_REQUEST,
      CANCELLED, UNKNOWN]) value"

lemma isOperation_name [simp]: "isOperation (operation_name op) = Some op"
  by (cases op) (simp_all add: isOperation_def)

lemma isErrorCode_name [simp]: "isErrorCode (error_code_name code) = Some code"
  by (cases code) (simp_all add: isErrorCode_def)

lemma isOperation_Some: "isOperation s = Some op \<Longrightarrow> s = operation_name op"
  by (auto simp: isOperation_def split: if_splits)

subsection \<open>Checks of values\<close>

fun rpc_record :: "jsval \<Rightarrow> string list \<Rightarrow> jsval res" where
  "rpc_record (JObj kvs) allowed =
     (if list_ex (\<lambda>k. k \<notin> set allowed) (map fst kvs) then rpc_invalid else Inr (JObj kvs))"
| "rpc_record value allowed = rpc_invalid"

fun rpc_array :: "jsval \<Rightarrow> jsval list res" where
  "rpc_array (JArr items) = Inr items"
| "rpc_array value = rpc_invalid"

fun rpc_string :: "jsval \<Rightarrow> string res" where
  "rpc_string (JStr s) = Inr s"
| "rpc_string value = rpc_invalid"

definition rpc_nonempty :: "jsval \<Rightarrow> string res" where
  "rpc_nonempty value = andThen (rpc_string value) (\<lambda>result.
     if result = [] then rpc_invalid else Inr result)"

definition optionalString :: "jsval \<Rightarrow> string option res" where
  "optionalString value = (if value = JUndefined then Inr None
     else andThen (rpc_string value) (\<lambda>s. Inr (Some s)))"

fun rpc_boolean :: "jsval \<Rightarrow> bool res" where
  "rpc_boolean (JBool b) = Inr b"
| "rpc_boolean value = rpc_invalid"

definition optionalBoolean :: "jsval \<Rightarrow> bool option res" where
  "optionalBoolean value = (if value = JUndefined then Inr None
     else andThen (rpc_boolean value) (\<lambda>b. Inr (Some b)))"

definition requireVersion :: "jsval \<Rightarrow> unit res" where
  "requireVersion value = (if value = jnat REMOTISH_RPC_VERSION then Inr () else rpc_invalid)"

definition repoPath :: "jsval \<Rightarrow> path res" where
  "repoPath value = andThen (rpc_string value) (\<lambda>input.
     if normalizeRepoPath input = Inr input then Inr input else rpc_invalid)"

text \<open>\<open>key in object\<close>, for the keys the codec asks for.\<close>

fun js_has :: "jsval \<Rightarrow> string \<Rightarrow> bool" where
  "js_has (JObj kvs) k \<longleftrightarrow> k \<in> fst ` set kvs"
| "js_has value k \<longleftrightarrow> False"

subsection \<open>Bytes\<close>

text \<open>The binary string is built in chunks of 32768 bytes.\<close>

function rpc_binary :: "bytes \<Rightarrow> string" where
  "rpc_binary bs = (if bs = [] then [] else map byte_char (take 0x8000 bs) @ rpc_binary (drop 0x8000 bs))"
  by auto
termination by (relation "measure length") auto

declare rpc_binary.simps [simp del]

definition encodeRpcBytes :: "bytes \<Rightarrow> jsval" where
  "encodeRpcBytes bs = JObj [(''base64'', JStr (btoa (rpc_binary bs)))]"

text \<open>Letters, digits, plus and slash, and the padding in the last two positions.\<close>

definition rpc_base64_valid :: "string \<Rightarrow> bool" where
  "rpc_base64_valid base64 \<longleftrightarrow> length base64 mod 4 = 0 \<and>
     list_all (\<lambda>index. let code = (of_char (base64 ! index) :: nat) in
       65 \<le> code \<and> code \<le> 90 \<or> 97 \<le> code \<and> code \<le> 122 \<or> 48 \<le> code \<and> code \<le> 57 \<or>
       code = 43 \<or> code = 47 \<or> code = 61 \<and> int index \<ge> int (length base64) - 2)
     [0..<length base64]"

definition decodeRpcBytes :: "jsval \<Rightarrow> bytes res" where
  "decodeRpcBytes value = andThen (rpc_record value [''base64'']) (\<lambda>data.
     andThen (rpc_string (js_get data ''base64'')) (\<lambda>base64.
     if \<not> rpc_base64_valid base64 then rpc_invalid
     else case atob base64 of
       None \<Rightarrow> rpc_invalid
     | Some binary \<Rightarrow>
         if btoa binary \<noteq> base64 then rpc_invalid else Inr (map char_byte binary)))"

lemma rpc_binary_eq: "rpc_binary bs = map byte_char bs"
proof (induction bs rule: rpc_binary.induct)
  case (1 bs)
  show ?case
  proof (cases "bs = []")
    case False
    with 1 have "rpc_binary bs = map byte_char (take 0x8000 bs) @ map byte_char (drop 0x8000 bs)"
      by (subst rpc_binary.simps) simp
    then show ?thesis by (metis append_take_drop_id map_append)
  qed (simp add: rpc_binary.simps)
qed

lemma rpc_base64_valid_btoa: "rpc_base64_valid (btoa binary)"
proof -
  obtain ts pad where form: "btoa binary = map sextet_char ts @ pad" "\<forall>t \<in> set ts. t < 64"
    "pad \<in> {[], ''='', ''==''}" "length (btoa binary) mod 4 = 0"
    by (rule btoa_form)
  let ?valid = "\<lambda>index. let code = (of_char (btoa binary ! index) :: nat) in
       65 \<le> code \<and> code \<le> 90 \<or> 97 \<le> code \<and> code \<le> 122 \<or> 48 \<le> code \<and> code \<le> 57 \<or>
       code = 43 \<or> code = 47 \<or> code = 61 \<and> int index \<ge> int (length (btoa binary)) - 2"
  have "?valid i" if "i < length (btoa binary)" for i
  proof (cases "i < length ts")
    case True
    then have "(of_char (btoa binary ! i) :: nat) = sextet_code (ts ! i)"
      by (simp add: form(1) nth_append sextet_code)
    moreover have "ts ! i < 64" using True form(2) by simp
    ultimately show ?thesis by (auto simp: Let_def sextet_code_def)
  next
    case False
    then have "btoa binary ! i = pad ! (i - length ts)" "i - length ts < length pad"
      using that by (simp_all add: form(1) nth_append)
    moreover have "\<forall>j < length pad. pad ! j = CHR ''=''" and "length pad \<le> 2"
      using form(3) by (auto simp: less_Suc_eq)
    ultimately have "btoa binary ! i = CHR ''=''" "int i \<ge> int (length (btoa binary)) - 2"
      using False by (auto simp: form(1))
    then show ?thesis by (simp add: Let_def)
  qed
  then show ?thesis using form(4) by (simp add: rpc_base64_valid_def list_all_iff)
qed

text \<open>Facts about the checks that the round trips of the codecs rest on.\<close>

lemma rpc_record_Inr:
  "rpc_record v allowed = Inr data \<longleftrightarrow>
     (\<exists>kvs. v = JObj kvs \<and> data = v \<and> fst ` set kvs \<subseteq> set allowed)"
  by (cases v) (auto simp: list_ex_iff)

lemma rpc_string_Inr [simp]: "rpc_string v = Inr s \<longleftrightarrow> v = JStr s"
  by (cases v) auto

text \<open>The accepted values are exactly the objects whose text is the encoding of the bytes.\<close>

lemma decodeRpcBytes_iff:
  "decodeRpcBytes v = Inr bs \<longleftrightarrow>
     rpc_record v [''base64''] = Inr v \<and> js_get v ''base64'' = JStr (btoa (map byte_char bs))"
proof
  assume "decodeRpcBytes v = Inr bs"
  then obtain base64 binary where "rpc_record v [''base64''] = Inr v"
    "js_get v ''base64'' = JStr base64" "atob base64 = Some binary" "btoa binary = base64"
    "bs = map char_byte binary"
    unfolding decodeRpcBytes_def by (auto simp: rpc_record_Inr split: if_splits option.splits)
  then show "rpc_record v [''base64''] = Inr v \<and> js_get v ''base64'' = JStr (btoa (map byte_char bs))"
    by (simp only: map_byte_char)
next
  assume "rpc_record v [''base64''] = Inr v \<and> js_get v ''base64'' = JStr (btoa (map byte_char bs))"
  then show "decodeRpcBytes v = Inr bs"
    by (simp add: decodeRpcBytes_def rpc_base64_valid_btoa atob_btoa del: map_map)
qed

lemma decode_encode_bytes [simp]: "decodeRpcBytes (encodeRpcBytes bs) = Inr bs"
  by (simp add: decodeRpcBytes_iff encodeRpcBytes_def rpc_binary_eq)

lemma rpc_nonempty_Inr [simp]: "rpc_nonempty v = Inr s \<longleftrightarrow> v = JStr s \<and> s \<noteq> []"
  by (auto simp: rpc_nonempty_def)

lemma repoPath_Inr [simp]: "repoPath v = Inr p \<longleftrightarrow> v = JStr p \<and> canonical p"
  by (auto simp: repoPath_def normalize_fixpoint_iff)

lemma rpc_boolean_Inr [simp]: "rpc_boolean v = Inr b \<longleftrightarrow> v = JBool b"
  by (cases v) auto

lemma rpc_array_Inr [simp]: "rpc_array v = Inr items \<longleftrightarrow> v = JArr items"
  by (cases v) auto

lemma requireVersion_Inr [simp]: "requireVersion v = Inr u \<longleftrightarrow> v = jnat REMOTISH_RPC_VERSION"
  by (simp add: requireVersion_def)

subsection \<open>Typed values as JavaScript values\<close>

text \<open>An optional property is present with its v or absent.\<close>

definition js_opt :: "string \<Rightarrow> ('a \<Rightarrow> jsval) \<Rightarrow> 'a option \<Rightarrow> (string \<times> jsval) list" where
  "js_opt k f x = (case x of None \<Rightarrow> [] | Some v \<Rightarrow> [(k, f v)])"

lemma js_opt_simps [simp]: "js_opt k f None = []" "js_opt k f (Some v) = [(k, f v)]"
  by (simp_all add: js_opt_def)

lemma map_of_js_opt [simp]: "map_of (js_opt k f x) k' = (if k' = k then map_option f x else None)"
  by (cases x) auto

lemma keys_js_opt: "fst ` set (js_opt k f x) \<subseteq> {k}"
  by (cases x) auto

definition js_or :: "('a \<Rightarrow> jsval) \<Rightarrow> 'a option \<Rightarrow> jsval \<Rightarrow> jsval" where
  "js_or f x d = (case x of None \<Rightarrow> d | Some w \<Rightarrow> f w)"

lemma js_get_build [simp]:
  "js_get (JObj []) k' = JUndefined"
  "js_get (JObj ((k, v) # ys)) k' = (if k' = k then v else js_get (JObj ys) k')"
  "js_get (JObj (js_opt k f x @ ys)) k' =
     (if k' = k then js_or f x (js_get (JObj ys) k') else js_get (JObj ys) k')"
  "js_get (JObj (js_opt k f x)) k' =
     (if k' = k then js_or f x JUndefined else JUndefined)"
  by (cases x; simp add: js_or_def)+

declare js_get.simps(1) [simp del]

lemma rpc_record_build:
  "rpc_record (JObj kvs) allowed = Inr (JObj kvs) \<longleftrightarrow> fst ` set kvs \<subseteq> set allowed"
  unfolding rpc_record_Inr by auto

lemma optionalString_opt [simp]:
  "optionalString (js_or JStr x JUndefined) = Inr x"
  by (cases x) (auto simp: optionalString_def js_or_def)

lemma optionalBoolean_opt [simp]:
  "optionalBoolean (js_or JBool x JUndefined) = Inr x"
  by (cases x) (auto simp: optionalBoolean_def js_or_def)

lemma optionalString_Inr:
  "optionalString v = Inr x \<longleftrightarrow> (case x of None \<Rightarrow> v = JUndefined | Some s \<Rightarrow> v = JStr s)"
  by (cases v; cases x) (auto simp: optionalString_def)

lemma optionalBoolean_Inr:
  "optionalBoolean v = Inr x \<longleftrightarrow> (case x of None \<Rightarrow> v = JUndefined | Some b \<Rightarrow> v = JBool b)"
  by (cases v; cases x) (auto simp: optionalBoolean_def)

subsection \<open>Failing with the one error of the protocol\<close>

named_theorems closes \<open>rules to show that a decoder fails only with the error of the protocol\<close>

definition fails_closed :: "'a res \<Rightarrow> bool" where
  "fails_closed m \<longleftrightarrow> (\<forall>e. m = Inl e \<longrightarrow> e = RemotishError UNKNOWN)"

lemma fails_closedD: "fails_closed m \<Longrightarrow> m = Inl e \<Longrightarrow> e = RemotishError UNKNOWN"
  by (simp add: fails_closed_def)

lemma fails_closed_invalid [closes]: "fails_closed rpc_invalid"
  by (simp add: fails_closed_def rpc_invalid_def)

lemma fails_closed_Inr [closes]: "fails_closed (Inr x)"
  by (simp add: fails_closed_def)

lemma fails_closed_andThen [closes]:
  "fails_closed m \<Longrightarrow> (\<And>x. fails_closed (f x)) \<Longrightarrow> fails_closed (andThen m f)"
  by (auto simp: fails_closed_def andThen_Inl_iff)

lemma fails_closed_if [closes]:
  "(b \<Longrightarrow> fails_closed m) \<Longrightarrow> (\<not> b \<Longrightarrow> fails_closed n) \<Longrightarrow> fails_closed (if b then m else n)"
  by simp

lemma fails_closed_option [closes]:
  "fails_closed n \<Longrightarrow> (\<And>x. fails_closed (f x)) \<Longrightarrow> fails_closed (case o' of None \<Rightarrow> n | Some x \<Rightarrow> f x)"
  by (cases o') simp_all

lemma fails_closed_map_res [closes]: "(\<And>x. fails_closed (f x)) \<Longrightarrow> fails_closed (map_res f xs)"
  by (induction xs) (auto intro: closes)

lemma fails_closed_checks [closes]:
  "fails_closed (rpc_record v allowed)" "fails_closed (rpc_array v)" "fails_closed (rpc_string v)"
  "fails_closed (rpc_boolean v)" "fails_closed (requireVersion v)"
  by (cases v; auto simp: requireVersion_def intro: closes)+

lemma fails_closed_derived [closes]:
  "fails_closed (rpc_nonempty v)" "fails_closed (optionalString v)" "fails_closed (optionalBoolean v)"
  "fails_closed (repoPath v)" "fails_closed (decodeRpcBytes v)"
  unfolding rpc_nonempty_def optionalString_def optionalBoolean_def repoPath_def decodeRpcBytes_def
  by (intro closes)+

end
