(* ===== verification/RpcRequest.thy ===== *)
theory RpcRequest
  imports RpcPrimitives
begin

section \<open>Requests of the RPC protocol\<close>

text \<open>
  \<open>adapters/rpc/src/rpc-request-codec.ts\<close>: the metadata of a session, the wire form of a commit and
  the validation of a request before an endpoint dispatches it. \<open>js_request\<close> is the object that
  \<open>RpcAdapter.call\<close> hands to its transport. A well formed request survives the round trip, and
  whatever the decoder accepts is well formed.
\<close>

subsection \<open>Sessions\<close>

definition decodeRpcSession :: "jsval \<Rightarrow> capabilities res" where
  "decodeRpcSession v =
     andThen (rpc_record v [''version'', ''capabilities'']) (\<lambda>session.
     andThen (requireVersion (js_get session ''version'')) (\<lambda>_.
     andThen (rpc_record (js_get session ''capabilities'')
       [''commits'', ''localEdits'', ''forceWithLease'', ''amend'', ''createBranch'', ''deleteBranch'']) (\<lambda>caps.
     andThen (rpc_boolean (js_get caps ''commits'')) (\<lambda>commits.
     andThen (optionalBoolean (js_get caps ''localEdits'')) (\<lambda>localEdits.
     andThen (optionalBoolean (js_get caps ''forceWithLease'')) (\<lambda>forceWithLease.
     andThen (optionalBoolean (js_get caps ''amend'')) (\<lambda>amend.
     andThen (optionalBoolean (js_get caps ''createBranch'')) (\<lambda>createBranch.
     andThen (optionalBoolean (js_get caps ''deleteBranch'')) (\<lambda>deleteBranch.
       if flag forceWithLease \<and> \<not> commits \<or> flag amend \<and> \<not> flag forceWithLease then rpc_invalid
       else Inr \<lparr>cap_commits = commits, cap_localEdits = localEdits, cap_forceWithLease = forceWithLease,
         cap_amend = amend, cap_createBranch = createBranch, cap_deleteBranch = deleteBranch\<rparr>)))))))))"

subsection \<open>Requests\<close>

datatype rpc_payload =
    EmptyPayload
  | ReadPayload revision path
  | RevisionPayload revision
  | QueryPayload commit_query
  | CommitPayload commit_request
  | CreateBranchPayload branch_name revision
  | DeleteBranchPayload branch_name

record rpc_request =
  rq_operation :: rpc_operation
  rq_payload :: rpc_payload

fun js_change :: "change \<Rightarrow> jsval" where
  "js_change (AddChange p content) =
     JObj [(''type'', JStr ''add''), (''path'', JStr p), (''content'', encodeRpcBytes content)]"
| "js_change (ModifyChange p content) =
     JObj [(''type'', JStr ''modify''), (''path'', JStr p), (''content'', encodeRpcBytes content)]"
| "js_change (DeleteChange p) = JObj [(''type'', JStr ''delete''), (''path'', JStr p)]"

fun js_push :: "commit_request \<Rightarrow> jsval" where
  "js_push (NormalCommitRequest base) = JObj [(''mode'', JStr ''normal'')]"
| "js_push (ForceCommitRequest base lease) =
     JObj [(''mode'', JStr ''force-with-lease''), (''expectedRevision'', JStr lease)]"
| "js_push (AmendCommitRequest base lease) =
     JObj [(''mode'', JStr ''force-with-lease''), (''expectedRevision'', JStr lease)]"

fun commit_type :: "commit_request \<Rightarrow> string" where
  "commit_type (AmendCommitRequest base lease) = ''amend''"
| "commit_type request = ''commit''"

definition encodeRpcCommit :: "commit_request \<Rightarrow> jsval" where
  "encodeRpcCommit request = (let base = cr_base request in JObj [
     (''type'', JStr (commit_type request)),
     (''branch'', JStr (cb_branch base)),
     (''baseRevision'', JStr (cb_baseRevision base)),
     (''message'', JStr (cb_message base)),
     (''changes'', JArr (map js_change (cb_changes base))),
     (''push'', js_push request)])"

fun decodeLimit :: "jsval \<Rightarrow> jsnum option res" where
  "decodeLimit JUndefined = Inr None"
| "decodeLimit (JNum n) = (case safe_integer n of
       None \<Rightarrow> rpc_invalid
     | Some i \<Rightarrow> if i < 1 then rpc_invalid else Inr (Some n))"
| "decodeLimit v = rpc_invalid"

definition decodeQuery :: "jsval \<Rightarrow> commit_query res" where
  "decodeQuery v =
     andThen (rpc_record v [''branch'', ''revision'', ''cursor'', ''limit'']) (\<lambda>data.
     andThen (optionalString (js_get data ''branch'')) (\<lambda>branch.
     andThen (optionalString (js_get data ''revision'')) (\<lambda>rev'.
     andThen (optionalString (js_get data ''cursor'')) (\<lambda>cursor.
     andThen (decodeLimit (js_get data ''limit'')) (\<lambda>limit.
       Inr \<lparr>cq_branch = branch, cq_revision = rev', cq_cursor = cursor, cq_limit = limit\<rparr>)))))"

definition decodeChange :: "jsval \<Rightarrow> change res" where
  "decodeChange item =
     andThen (rpc_record item [''type'', ''path'', ''content'']) (\<lambda>change.
     if js_get change ''type'' = JStr ''delete'' then
       if js_has change ''content'' then rpc_invalid
       else andThen (repoPath (js_get change ''path'')) (\<lambda>p. Inr (DeleteChange p))
     else if js_get change ''type'' \<noteq> JStr ''add'' \<and> js_get change ''type'' \<noteq> JStr ''modify'' then rpc_invalid
     else andThen (repoPath (js_get change ''path'')) (\<lambda>p.
       andThen (decodeRpcBytes (js_get change ''content'')) (\<lambda>content.
       Inr (if js_get change ''type'' = JStr ''add'' then AddChange p content else ModifyChange p content))))"

text \<open>The push mode must go with the commit type: only a lease can amend.\<close>

definition check_push :: "jsval \<Rightarrow> jsval \<Rightarrow> unit res" where
  "check_push data push =
     (if js_get push ''mode'' = JStr ''normal'' then
        if js_get data ''type'' \<noteq> JStr ''commit'' \<or> js_has push ''expectedRevision'' then rpc_invalid
        else Inr ()
      else if js_get push ''mode'' \<noteq> JStr ''force-with-lease'' then rpc_invalid
      else if js_get data ''type'' \<noteq> JStr ''commit'' \<and> js_get data ''type'' \<noteq> JStr ''amend'' then rpc_invalid
      else Inr ())"

definition decodeCommitRequest :: "jsval \<Rightarrow> commit_request res" where
  "decodeCommitRequest v =
     andThen (rpc_record v [''type'', ''branch'', ''baseRevision'', ''message'', ''changes'', ''push'']) (\<lambda>data.
     andThen (rpc_record (js_get data ''push'') [''mode'', ''expectedRevision'']) (\<lambda>push.
     andThen (check_push data push) (\<lambda>_.
     andThen (rpc_array (js_get data ''changes'')) (\<lambda>items.
     andThen (map_res decodeChange items) (\<lambda>changes.
     andThen (rpc_nonempty (js_get data ''branch'')) (\<lambda>branch.
     andThen (rpc_nonempty (js_get data ''baseRevision'')) (\<lambda>baseRevision.
     andThen (rpc_string (js_get data ''message'')) (\<lambda>message.
       let common = \<lparr>cb_branch = branch, cb_baseRevision = baseRevision, cb_message = message,
         cb_changes = changes\<rparr> in
       if js_get push ''mode'' = JStr ''normal'' then Inr (NormalCommitRequest common)
       else andThen (rpc_nonempty (js_get push ''expectedRevision'')) (\<lambda>expectedRevision.
         Inr (if js_get data ''type'' = JStr ''amend'' then AmendCommitRequest common expectedRevision
              else ForceCommitRequest common expectedRevision))))))))))"

fun decodeRequestPayload :: "rpc_operation \<Rightarrow> jsval \<Rightarrow> rpc_payload res" where
  "decodeRequestPayload GetRepository v = andThen (rpc_record v []) (\<lambda>_. Inr EmptyPayload)"
| "decodeRequestPayload GetBranches v = andThen (rpc_record v []) (\<lambda>_. Inr EmptyPayload)"
| "decodeRequestPayload ReadDirectory v = andThen (rpc_record v [''revision'', ''path'']) (\<lambda>payload.
     andThen (rpc_nonempty (js_get payload ''revision'')) (\<lambda>r.
     andThen (repoPath (js_get payload ''path'')) (\<lambda>p. Inr (ReadPayload r p))))"
| "decodeRequestPayload ReadFile v = andThen (rpc_record v [''revision'', ''path'']) (\<lambda>payload.
     andThen (rpc_nonempty (js_get payload ''revision'')) (\<lambda>r.
     andThen (repoPath (js_get payload ''path'')) (\<lambda>p. Inr (ReadPayload r p))))"
| "decodeRequestPayload GetCommitChanges v = andThen (rpc_record v [''revision'']) (\<lambda>payload.
     andThen (rpc_nonempty (js_get payload ''revision'')) (\<lambda>r. Inr (RevisionPayload r)))"
| "decodeRequestPayload GetCommits v = andThen (decodeQuery v) (\<lambda>q. Inr (QueryPayload q))"
| "decodeRequestPayload DoCommit v = andThen (decodeCommitRequest v) (\<lambda>r. Inr (CommitPayload r))"
| "decodeRequestPayload CreateBranch v = andThen (rpc_record v [''name'', ''revision'']) (\<lambda>payload.
     andThen (rpc_nonempty (js_get payload ''name'')) (\<lambda>n.
     andThen (rpc_nonempty (js_get payload ''revision'')) (\<lambda>r. Inr (CreateBranchPayload n r))))"
| "decodeRequestPayload DeleteBranch v = andThen (rpc_record v [''name'']) (\<lambda>payload.
     andThen (rpc_nonempty (js_get payload ''name'')) (\<lambda>n. Inr (DeleteBranchPayload n)))"

definition decodeRpcRequest :: "jsval \<Rightarrow> rpc_request res" where
  "decodeRpcRequest v =
     andThen (rpc_record v [''version'', ''operation'', ''payload'']) (\<lambda>request.
     andThen (requireVersion (js_get request ''version'')) (\<lambda>_.
     andThen (rpc_string (js_get request ''operation'')) (\<lambda>name.
     case isOperation name of
       None \<Rightarrow> rpc_invalid
     | Some op \<Rightarrow> andThen (decodeRequestPayload op (js_get request ''payload'')) (\<lambda>payload.
         Inr \<lparr>rq_operation = op, rq_payload = payload\<rparr>))))"

subsection \<open>The requests an adapter sends\<close>

definition js_query :: "commit_query \<Rightarrow> jsval" where
  "js_query q = JObj (js_opt ''branch'' JStr (cq_branch q) @ js_opt ''revision'' JStr (cq_revision q) @
     js_opt ''cursor'' JStr (cq_cursor q) @ js_opt ''limit'' JNum (cq_limit q))"

fun js_payload :: "rpc_payload \<Rightarrow> jsval" where
  "js_payload EmptyPayload = JObj []"
| "js_payload (ReadPayload r p) = JObj [(''revision'', JStr r), (''path'', JStr p)]"
| "js_payload (RevisionPayload r) = JObj [(''revision'', JStr r)]"
| "js_payload (QueryPayload q) = js_query q"
| "js_payload (CommitPayload c) = encodeRpcCommit c"
| "js_payload (CreateBranchPayload n r) = JObj [(''name'', JStr n), (''revision'', JStr r)]"
| "js_payload (DeleteBranchPayload n) = JObj [(''name'', JStr n)]"

definition js_request :: "rpc_request \<Rightarrow> jsval" where
  "js_request request = JObj [
     (''version'', jnat REMOTISH_RPC_VERSION),
     (''operation'', JStr (operation_name (rq_operation request))),
     (''payload'', js_payload (rq_payload request))]"

text \<open>The shape each operation gives to its payload, and the values the decoder lets through.\<close>

definition query_ok :: "commit_query \<Rightarrow> bool" where
  "query_ok q \<longleftrightarrow> (case cq_limit q of None \<Rightarrow> True
     | Some n \<Rightarrow> (case safe_integer n of None \<Rightarrow> False | Some i \<Rightarrow> 1 \<le> i))"

definition commit_ok :: "commit_request \<Rightarrow> bool" where
  "commit_ok r \<longleftrightarrow> cb_branch (cr_base r) \<noteq> [] \<and> cb_baseRevision (cr_base r) \<noteq> [] \<and>
     list_all (\<lambda>c. canonical (ch_path c)) (cb_changes (cr_base r)) \<and>
     (case r of NormalCommitRequest b \<Rightarrow> True | ForceCommitRequest b l \<Rightarrow> l \<noteq> []
      | AmendCommitRequest b l \<Rightarrow> l \<noteq> [])"

fun payload_ok :: "rpc_operation \<Rightarrow> rpc_payload \<Rightarrow> bool" where
  "payload_ok GetRepository EmptyPayload = True"
| "payload_ok GetBranches EmptyPayload = True"
| "payload_ok ReadDirectory (ReadPayload r p) = (r \<noteq> [] \<and> canonical p)"
| "payload_ok ReadFile (ReadPayload r p) = (r \<noteq> [] \<and> canonical p)"
| "payload_ok GetCommitChanges (RevisionPayload r) = (r \<noteq> [])"
| "payload_ok GetCommits (QueryPayload q) = query_ok q"
| "payload_ok DoCommit (CommitPayload c) = commit_ok c"
| "payload_ok CreateBranch (CreateBranchPayload n r) = (n \<noteq> [] \<and> r \<noteq> [])"
| "payload_ok DeleteBranch (DeleteBranchPayload n) = (n \<noteq> [])"
| "payload_ok operation payload = False"

definition request_ok :: "rpc_request \<Rightarrow> bool" where
  "request_ok request \<longleftrightarrow> payload_ok (rq_operation request) (rq_payload request)"

subsection \<open>Round trip\<close>

lemma decode_js_change: "canonical (ch_path c) \<Longrightarrow> decodeChange (js_change c) = Inr c"
  by (cases c) (simp_all add: decodeChange_def rpc_record_Inr andThen_def normalize_canonical repoPath_def)

lemma decode_js_changes:
  "list_all (\<lambda>c. canonical (ch_path c)) cs \<Longrightarrow> map_res decodeChange (map js_change cs) = Inr cs"
  by (induction cs) (simp_all add: decode_js_change)

lemma decode_encode_commit: "commit_ok r \<Longrightarrow> decodeCommitRequest (encodeRpcCommit r) = Inr r"
  by (cases r) (simp_all add: decodeCommitRequest_def encodeRpcCommit_def commit_ok_def Let_def
      decode_js_changes check_push_def rpc_nonempty_def)

definition limit_ok :: "jsnum option \<Rightarrow> bool" where
  "limit_ok l \<longleftrightarrow> (case l of None \<Rightarrow> True
     | Some n \<Rightarrow> (case safe_integer n of None \<Rightarrow> False | Some i \<Rightarrow> 1 \<le> i))"

lemma query_ok_limit: "query_ok q \<longleftrightarrow> limit_ok (cq_limit q)"
  by (simp add: query_ok_def limit_ok_def)

lemma decodeLimit_opt:
  "limit_ok l \<Longrightarrow> decodeLimit (js_or JNum l JUndefined) = Inr l"
  by (cases l) (auto simp: limit_ok_def js_or_def split: option.splits)

lemma js_query_record:
  "rpc_record (js_query q) [''branch'', ''revision'', ''cursor'', ''limit''] = Inr (js_query q)"
  unfolding js_query_def rpc_record_build by (auto simp: js_opt_def split: option.splits)

lemma decode_js_query: "query_ok q \<Longrightarrow> decodeQuery (js_query q) = Inr q"
  unfolding decodeQuery_def js_query_record andThen_simps
  by (simp add: js_query_def query_ok_limit decodeLimit_opt)

lemma decode_payload: "payload_ok op p \<Longrightarrow> decodeRequestPayload op (js_payload p) = Inr p"
  by (cases op; cases p) (simp_all add: decode_js_query decode_encode_commit rpc_nonempty_def
      repoPath_def normalize_canonical)

lemma decode_request: "request_ok r \<Longrightarrow> decodeRpcRequest (js_request r) = Inr r"
  by (simp add: decodeRpcRequest_def js_request_def request_ok_def decode_payload requireVersion_def)

subsection \<open>What the decoder lets through\<close>

lemma decodeChange_ok: "decodeChange v = Inr c \<Longrightarrow> canonical (ch_path c)"
  by (auto simp: decodeChange_def split: if_splits)

lemma decodeChanges_ok: "map_res decodeChange vs = Inr cs \<Longrightarrow> list_all (\<lambda>c. canonical (ch_path c)) cs"
  by (induction vs arbitrary: cs) (auto dest: decodeChange_ok)

lemma decodeCommitRequest_ok: "decodeCommitRequest v = Inr r \<Longrightarrow> commit_ok r"
  by (auto simp: decodeCommitRequest_def commit_ok_def Let_def dest: decodeChanges_ok split: if_splits)

lemma decodeLimit_ok: "decodeLimit v = Inr l \<Longrightarrow> limit_ok l"
  by (cases v) (auto simp: limit_ok_def split: option.splits if_splits)

lemma decodeQuery_ok: "decodeQuery v = Inr q \<Longrightarrow> query_ok q"
  by (auto simp: decodeQuery_def query_ok_limit dest: decodeLimit_ok)

lemma decodePayload_ok: "decodeRequestPayload op v = Inr p \<Longrightarrow> payload_ok op p"
  by (cases op) (auto dest: decodeCommitRequest_ok decodeQuery_ok)

lemma decodeRpcRequest_ok: "decodeRpcRequest v = Inr r \<Longrightarrow> request_ok r"
proof -
  assume "decodeRpcRequest v = Inr r"
  then obtain payload where "decodeRequestPayload (rq_operation r) payload = Inr (rq_payload r)"
    by (auto simp: decodeRpcRequest_def split: option.splits)
  then show ?thesis unfolding request_ok_def by (rule decodePayload_ok)
qed

text \<open>A session that is accepted advertises a lease only with commits and an amend only with a lease.\<close>

lemma decodeRpcSession_ok:
  assumes "decodeRpcSession v = Inr caps"
  shows "flag (cap_forceWithLease caps) \<Longrightarrow> cap_commits caps"
    and "flag (cap_amend caps) \<Longrightarrow> flag (cap_forceWithLease caps)"
  using assms by (auto simp: decodeRpcSession_def split: if_splits)

subsection \<open>Refusals\<close>

lemma decodeLimit_closed [closes]: "fails_closed (decodeLimit v)"
  by (cases v) (auto intro!: closes)

lemma decode_request_parts_closed [closes]:
  "fails_closed (decodeQuery v)" "fails_closed (decodeChange v)" "fails_closed (check_push v w)"
  unfolding decodeQuery_def decodeChange_def check_push_def by (intro closes)+

lemma decodeCommitRequest_closed [closes]: "fails_closed (decodeCommitRequest v)"
  unfolding decodeCommitRequest_def Let_def by (intro closes)

lemma decodePayload_closed [closes]: "fails_closed (decodeRequestPayload op v)"
  by (cases op; simp only: decodeRequestPayload.simps; intro closes)

lemma decodeRpcRequest_closed: "fails_closed (decodeRpcRequest v)"
  unfolding decodeRpcRequest_def by (intro closes)

lemma decodeRpcSession_closed: "fails_closed (decodeRpcSession v)"
  unfolding decodeRpcSession_def by (intro closes)

subsection \<open>Sessions survive the round trip\<close>

definition js_session :: "capabilities \<Rightarrow> jsval" where
  "js_session caps = JObj [(''version'', jnat REMOTISH_RPC_VERSION), (''capabilities'', JObj (
     (''commits'', JBool (cap_commits caps)) # js_opt ''localEdits'' JBool (cap_localEdits caps) @
     js_opt ''forceWithLease'' JBool (cap_forceWithLease caps) @ js_opt ''amend'' JBool (cap_amend caps) @
     js_opt ''createBranch'' JBool (cap_createBranch caps) @
     js_opt ''deleteBranch'' JBool (cap_deleteBranch caps)))]"

lemma decode_js_session:
  assumes "flag (cap_forceWithLease caps) \<longrightarrow> cap_commits caps"
    and "flag (cap_amend caps) \<longrightarrow> flag (cap_forceWithLease caps)"
  shows "decodeRpcSession (js_session caps) = Inr caps"
proof -
  let ?caps = "JObj ((''commits'', JBool (cap_commits caps)) # js_opt ''localEdits'' JBool (cap_localEdits caps) @
     js_opt ''forceWithLease'' JBool (cap_forceWithLease caps) @ js_opt ''amend'' JBool (cap_amend caps) @
     js_opt ''createBranch'' JBool (cap_createBranch caps) @ js_opt ''deleteBranch'' JBool (cap_deleteBranch caps))"
  have "rpc_record ?caps [''commits'', ''localEdits'', ''forceWithLease'', ''amend'', ''createBranch'',
      ''deleteBranch''] = Inr ?caps"
    unfolding rpc_record_build by (auto simp: js_opt_def split: option.splits)
  moreover have "rpc_record (js_session caps) [''version'', ''capabilities''] = Inr (js_session caps)"
    "js_get (js_session caps) ''version'' = jnat REMOTISH_RPC_VERSION"
    "js_get (js_session caps) ''capabilities'' = ?caps"
    by (simp_all add: js_session_def)
  ultimately show ?thesis
    using assms unfolding decodeRpcSession_def by (simp del: rpc_record.simps(1) add: requireVersion_def)
qed

end
