(* ===== verification/RpcResult.thy ===== *)
theory RpcResult
  imports RpcPrimitives
begin

section \<open>Results of the RPC protocol\<close>

text \<open>
  \<open>adapters/rpc/src/rpc-result-codec.ts\<close>: the validation of a response envelope and of the result of
  each operation, and the envelopes an endpoint sends. \<open>js_result\<close> is a typed result as the object
  an endpoint hands to \<open>encodeRpcSuccess\<close>. A well formed result survives the round trip, and
  whatever the decoder accepts is well formed.
\<close>

datatype rpc_result =
    RepositoryResult repository_info
  | DirectoryResult "directory_entry list"
  | FileResult bytes
  | BranchesResult "branch list"
  | PageResult commit_page
  | ChangesResult "commit_change list"
  | CommitOutcome commit_result
  | BranchResult branch
  | NoResult

subsection \<open>Decoders of the results\<close>

definition decodeRepository :: "jsval \<Rightarrow> repository_info res" where
  "decodeRepository v =
     andThen (rpc_record v [''id'', ''name'', ''defaultBranch'', ''description'']) (\<lambda>data.
     andThen (optionalString (js_get data ''description'')) (\<lambda>description.
     andThen (rpc_nonempty (js_get data ''id'')) (\<lambda>i.
     andThen (rpc_nonempty (js_get data ''name'')) (\<lambda>n.
     andThen (rpc_nonempty (js_get data ''defaultBranch'')) (\<lambda>d.
       Inr \<lparr>ri_id = i, ri_name = n, ri_defaultBranch = d, ri_description = description\<rparr>)))))"

fun decodeEntryType :: "jsval \<Rightarrow> entry_type res" where
  "decodeEntryType (JStr t) = (if t = ''file'' then Inr FileEntry
     else if t = ''directory'' then Inr DirEntry else rpc_invalid)"
| "decodeEntryType v = rpc_invalid"

fun decodeSize :: "jsval \<Rightarrow> nat option res" where
  "decodeSize JUndefined = Inr None"
| "decodeSize (JNum n) = (case safe_integer n of
       None \<Rightarrow> rpc_invalid
     | Some i \<Rightarrow> if i < 0 then rpc_invalid else Inr (Some (nat i)))"
| "decodeSize v = rpc_invalid"

definition decodeEntry :: "jsval \<Rightarrow> directory_entry res" where
  "decodeEntry v =
     andThen (rpc_record v [''name'', ''path'', ''type'', ''size'']) (\<lambda>data.
     andThen (decodeEntryType (js_get data ''type'')) (\<lambda>t.
     andThen (decodeSize (js_get data ''size'')) (\<lambda>size'.
     andThen (rpc_nonempty (js_get data ''name'')) (\<lambda>n.
     andThen (repoPath (js_get data ''path'')) (\<lambda>entryPath.
       if n = ''.'' \<or> n = ''..'' \<or> CHR ''/'' \<in> set n \<or> CHR 0x5C \<in> set n \<or>
          last (split_on CHR ''/'' entryPath) \<noteq> n
       then rpc_invalid
       else Inr \<lparr>de_name = n, de_path = entryPath, de_type = t, de_size = size'\<rparr>)))))"

definition decodeBranch :: "jsval \<Rightarrow> branch res" where
  "decodeBranch v =
     andThen (rpc_record v [''name'', ''revision'', ''isDefault'']) (\<lambda>data.
     andThen (optionalBoolean (js_get data ''isDefault'')) (\<lambda>isDefault.
     andThen (rpc_nonempty (js_get data ''name'')) (\<lambda>n.
     andThen (rpc_nonempty (js_get data ''revision'')) (\<lambda>r.
       Inr \<lparr>br_name = n, br_revision = r, br_isDefault = isDefault\<rparr>))))"

definition decodeAuthor :: "jsval \<Rightarrow> commit_author option res" where
  "decodeAuthor v = (if v = JUndefined then Inr None
     else andThen (rpc_record v [''name'', ''email'']) (\<lambda>author.
       andThen (optionalString (js_get author ''email'')) (\<lambda>email.
       andThen (rpc_nonempty (js_get author ''name'')) (\<lambda>n.
         Inr (Some \<lparr>au_name = n, au_email = email\<rparr>)))))"

definition decodeCommitInfo :: "jsval \<Rightarrow> commit_info res" where
  "decodeCommitInfo v =
     andThen (rpc_record v [''revision'', ''parents'', ''message'', ''author'', ''authoredAt'']) (\<lambda>data.
     andThen (decodeAuthor (js_get data ''author'')) (\<lambda>author.
     andThen (optionalString (js_get data ''authoredAt'')) (\<lambda>authoredAt.
     andThen (rpc_nonempty (js_get data ''revision'')) (\<lambda>r.
     andThen (rpc_array (js_get data ''parents'')) (\<lambda>items.
     andThen (map_res rpc_nonempty items) (\<lambda>parents.
     andThen (rpc_string (js_get data ''message'')) (\<lambda>message.
       Inr \<lparr>ci_revision = r, ci_parents = parents, ci_message = message, ci_author = author,
         ci_authoredAt = authoredAt\<rparr>)))))))"

definition decodePage :: "jsval \<Rightarrow> commit_page res" where
  "decodePage v =
     andThen (rpc_record v [''commits'', ''nextCursor'']) (\<lambda>data.
     andThen (optionalString (js_get data ''nextCursor'')) (\<lambda>nextCursor.
     andThen (rpc_array (js_get data ''commits'')) (\<lambda>items.
     andThen (map_res decodeCommitInfo items) (\<lambda>commits.
       Inr \<lparr>cp_commits = commits, cp_nextCursor = nextCursor\<rparr>))))"

fun decodeChangeType :: "jsval \<Rightarrow> commit_change_type res" where
  "decodeChangeType (JStr t) = (if t = ''added'' then Inr CAdded else if t = ''modified'' then Inr CModified
     else if t = ''deleted'' then Inr CDeleted else if t = ''renamed'' then Inr CRenamed else rpc_invalid)"
| "decodeChangeType v = rpc_invalid"

definition optionalPath :: "jsval \<Rightarrow> path option res" where
  "optionalPath v = (if v = JUndefined then Inr None else andThen (repoPath v) (\<lambda>p. Inr (Some p)))"

definition decodeCommitChange :: "jsval \<Rightarrow> commit_change res" where
  "decodeCommitChange v =
     andThen (rpc_record v [''type'', ''path'', ''previousPath'']) (\<lambda>data.
     andThen (decodeChangeType (js_get data ''type'')) (\<lambda>t.
     andThen (optionalPath (js_get data ''previousPath'')) (\<lambda>previousPath.
     andThen (repoPath (js_get data ''path'')) (\<lambda>p.
       Inr \<lparr>cc_type = t, cc_path = p, cc_previousPath = previousPath\<rparr>))))"

fun decodeReason :: "jsval \<Rightarrow> rejection_reason res" where
  "decodeReason (JStr t) = (if t = ''REMOTE_CHANGED'' then Inr REMOTE_CHANGED
     else if t = ''FORBIDDEN'' then Inr REJECTED_FORBIDDEN
     else if t = ''UNSUPPORTED'' then Inr REJECTED_UNSUPPORTED else rpc_invalid)"
| "decodeReason v = rpc_invalid"

definition decodeCommitResult :: "jsval \<Rightarrow> commit_result res" where
  "decodeCommitResult v =
     andThen (rpc_record v [''status'', ''revision'', ''commit'', ''reason'', ''remoteRevision'', ''message''])
       (\<lambda>data.
     if js_get data ''status'' = JStr ''success'' then
       if js_has data ''reason'' \<or> js_has data ''remoteRevision'' \<or> js_has data ''message'' then rpc_invalid
       else andThen (rpc_nonempty (js_get data ''revision'')) (\<lambda>r.
         andThen (decodeCommitInfo (js_get data ''commit'')) (\<lambda>i.
         if ci_revision i \<noteq> r then rpc_invalid else Inr (CommitSuccess r i)))
     else if js_get data ''status'' \<noteq> JStr ''rejected'' \<or> js_has data ''revision'' \<or> js_has data ''commit''
       then rpc_invalid
     else andThen (decodeReason (js_get data ''reason'')) (\<lambda>reason.
       andThen (optionalString (js_get data ''remoteRevision'')) (\<lambda>remoteRevision.
       andThen (optionalString (js_get data ''message'')) (\<lambda>message.
         Inr (CommitRejected reason remoteRevision message)))))"

fun decodeRpcResult :: "rpc_operation \<Rightarrow> jsval \<Rightarrow> rpc_result res" where
  "decodeRpcResult GetRepository v = andThen (decodeRepository v) (\<lambda>r. Inr (RepositoryResult r))"
| "decodeRpcResult ReadDirectory v = andThen (rpc_array v) (\<lambda>items.
     andThen (map_res decodeEntry items) (\<lambda>es. Inr (DirectoryResult es)))"
| "decodeRpcResult ReadFile v = andThen (decodeRpcBytes v) (\<lambda>bs. Inr (FileResult bs))"
| "decodeRpcResult GetBranches v = andThen (rpc_array v) (\<lambda>items.
     andThen (map_res decodeBranch items) (\<lambda>bs. Inr (BranchesResult bs)))"
| "decodeRpcResult GetCommits v = andThen (decodePage v) (\<lambda>p. Inr (PageResult p))"
| "decodeRpcResult GetCommitChanges v = andThen (rpc_array v) (\<lambda>items.
     andThen (map_res decodeCommitChange items) (\<lambda>cs. Inr (ChangesResult cs)))"
| "decodeRpcResult DoCommit v = andThen (decodeCommitResult v) (\<lambda>r. Inr (CommitOutcome r))"
| "decodeRpcResult CreateBranch v = andThen (decodeBranch v) (\<lambda>b. Inr (BranchResult b))"
| "decodeRpcResult DeleteBranch v = (if v \<noteq> JNull then rpc_invalid else Inr NoResult)"

subsection \<open>Envelopes\<close>

definition decodeRpcResponse :: "rpc_operation \<Rightarrow> jsval \<Rightarrow> rpc_result res" where
  "decodeRpcResponse op v =
     andThen (rpc_record v [''version'', ''status'', ''result'', ''error'']) (\<lambda>response.
     andThen (requireVersion (js_get response ''version'')) (\<lambda>_.
     if js_get response ''status'' = JStr ''error'' then
       if js_has response ''result'' then rpc_invalid
       else andThen (rpc_record (js_get response ''error'') [''code'']) (\<lambda>failure.
         andThen (rpc_string (js_get failure ''code'')) (\<lambda>code.
         case isErrorCode code of None \<Rightarrow> rpc_invalid | Some c \<Rightarrow> Inl (RemotishError c)))
     else if js_get response ''status'' \<noteq> JStr ''ok'' \<or> js_has response ''error'' \<or>
       \<not> js_has response ''result'' then rpc_invalid
     else decodeRpcResult op (js_get response ''result'')))"

definition encodeRpcFailure :: "error_code \<Rightarrow> jsval" where
  "encodeRpcFailure code = JObj [(''version'', jnat REMOTISH_RPC_VERSION), (''status'', JStr ''error''),
     (''error'', JObj [(''code'', JStr (error_code_name code))])]"

text \<open>File bytes take the wire form; anything else is sent as it is, once it passes the decoder.\<close>

definition wire_result :: "rpc_operation \<Rightarrow> jsval \<Rightarrow> jsval" where
  "wire_result op result = (case result of
     JBytes bs \<Rightarrow> if op = ReadFile then encodeRpcBytes bs else result
   | _ \<Rightarrow> result)"

definition encodeRpcSuccess :: "rpc_operation \<Rightarrow> jsval \<Rightarrow> jsval res" where
  "encodeRpcSuccess op result = (let wireResult = wire_result op result in
     andThen (decodeRpcResult op wireResult) (\<lambda>_.
     Inr (JObj [(''version'', jnat REMOTISH_RPC_VERSION), (''status'', JStr ''ok''),
       (''result'', wireResult)])))"

subsection \<open>Typed results as objects\<close>

definition js_repository :: "repository_info \<Rightarrow> jsval" where
  "js_repository i = JObj ((''id'', JStr (ri_id i)) # (''name'', JStr (ri_name i)) #
     (''defaultBranch'', JStr (ri_defaultBranch i)) # js_opt ''description'' JStr (ri_description i))"

definition js_entry :: "directory_entry \<Rightarrow> jsval" where
  "js_entry e = JObj ((''name'', JStr (de_name e)) # (''path'', JStr (de_path e)) #
     (''type'', JStr (if de_type e = FileEntry then ''file'' else ''directory'')) #
     js_opt ''size'' jnat (de_size e))"

definition js_branch :: "branch \<Rightarrow> jsval" where
  "js_branch b = JObj ((''name'', JStr (br_name b)) # (''revision'', JStr (br_revision b)) #
     js_opt ''isDefault'' JBool (br_isDefault b))"

definition js_author :: "commit_author \<Rightarrow> jsval" where
  "js_author a = JObj ((''name'', JStr (au_name a)) # js_opt ''email'' JStr (au_email a))"

definition js_commit_info :: "commit_info \<Rightarrow> jsval" where
  "js_commit_info i = JObj ((''revision'', JStr (ci_revision i)) #
     (''parents'', JArr (map JStr (ci_parents i))) # (''message'', JStr (ci_message i)) #
     js_opt ''author'' js_author (ci_author i) @ js_opt ''authoredAt'' JStr (ci_authoredAt i))"

definition js_page :: "commit_page \<Rightarrow> jsval" where
  "js_page p = JObj ((''commits'', JArr (map js_commit_info (cp_commits p))) #
     js_opt ''nextCursor'' JStr (cp_nextCursor p))"

fun change_type_name :: "commit_change_type \<Rightarrow> string" where
  "change_type_name CAdded = ''added''"
| "change_type_name CModified = ''modified''"
| "change_type_name CDeleted = ''deleted''"
| "change_type_name CRenamed = ''renamed''"

definition js_commit_change :: "commit_change \<Rightarrow> jsval" where
  "js_commit_change c = JObj ((''type'', JStr (change_type_name (cc_type c))) #
     (''path'', JStr (cc_path c)) # js_opt ''previousPath'' JStr (cc_previousPath c))"

fun reason_name :: "rejection_reason \<Rightarrow> string" where
  "reason_name REMOTE_CHANGED = ''REMOTE_CHANGED''"
| "reason_name REJECTED_FORBIDDEN = ''FORBIDDEN''"
| "reason_name REJECTED_UNSUPPORTED = ''UNSUPPORTED''"

fun js_commit_result :: "commit_result \<Rightarrow> jsval" where
  "js_commit_result (CommitSuccess r i) =
     JObj [(''status'', JStr ''success''), (''revision'', JStr r), (''commit'', js_commit_info i)]"
| "js_commit_result (CommitRejected reason remote message) =
     JObj ((''status'', JStr ''rejected'') # (''reason'', JStr (reason_name reason)) #
       js_opt ''remoteRevision'' JStr remote @ js_opt ''message'' JStr message)"

fun js_result :: "rpc_result \<Rightarrow> jsval" where
  "js_result (RepositoryResult i) = js_repository i"
| "js_result (DirectoryResult es) = JArr (map js_entry es)"
| "js_result (FileResult bs) = JBytes bs"
| "js_result (BranchesResult bs) = JArr (map js_branch bs)"
| "js_result (PageResult p) = js_page p"
| "js_result (ChangesResult cs) = JArr (map js_commit_change cs)"
| "js_result (CommitOutcome r) = js_commit_result r"
| "js_result (BranchResult b) = js_branch b"
| "js_result NoResult = JNull"

subsection \<open>Well formed results\<close>

definition repository_ok :: "repository_info \<Rightarrow> bool" where
  "repository_ok i \<longleftrightarrow> ri_id i \<noteq> [] \<and> ri_name i \<noteq> [] \<and> ri_defaultBranch i \<noteq> []"

definition entry_ok :: "directory_entry \<Rightarrow> bool" where
  "entry_ok e \<longleftrightarrow> segment (de_name e) \<and> canonical (de_path e) \<and>
     last (split_on CHR ''/'' (de_path e)) = de_name e \<and>
     (case de_size e of None \<Rightarrow> True | Some n \<Rightarrow> int n \<le> max_safe_integer)"

definition branch_ok :: "branch \<Rightarrow> bool" where
  "branch_ok b \<longleftrightarrow> br_name b \<noteq> [] \<and> br_revision b \<noteq> []"

definition commit_info_ok :: "commit_info \<Rightarrow> bool" where
  "commit_info_ok i \<longleftrightarrow> ci_revision i \<noteq> [] \<and> [] \<notin> set (ci_parents i) \<and>
     (case ci_author i of None \<Rightarrow> True | Some a \<Rightarrow> au_name a \<noteq> [])"

definition commit_change_ok :: "commit_change \<Rightarrow> bool" where
  "commit_change_ok c \<longleftrightarrow> canonical (cc_path c) \<and>
     (case cc_previousPath c of None \<Rightarrow> True | Some p \<Rightarrow> canonical p)"

fun commit_result_ok :: "commit_result \<Rightarrow> bool" where
  "commit_result_ok (CommitSuccess r i) \<longleftrightarrow> commit_info_ok i \<and> ci_revision i = r"
| "commit_result_ok (CommitRejected reason remote message) \<longleftrightarrow> True"

fun result_ok :: "rpc_operation \<Rightarrow> rpc_result \<Rightarrow> bool" where
  "result_ok GetRepository (RepositoryResult i) = repository_ok i"
| "result_ok ReadDirectory (DirectoryResult es) = list_all entry_ok es"
| "result_ok ReadFile (FileResult bs) = True"
| "result_ok GetBranches (BranchesResult bs) = list_all branch_ok bs"
| "result_ok GetCommits (PageResult p) = list_all commit_info_ok (cp_commits p)"
| "result_ok GetCommitChanges (ChangesResult cs) = list_all commit_change_ok cs"
| "result_ok DoCommit (CommitOutcome r) = commit_result_ok r"
| "result_ok CreateBranch (BranchResult b) = branch_ok b"
| "result_ok DeleteBranch NoResult = True"
| "result_ok operation result = False"

subsection \<open>Round trip\<close>

lemma map_res_decode:
  "list_all P xs \<Longrightarrow> (\<And>x. P x \<Longrightarrow> decode (encode x) = Inr x) \<Longrightarrow> map_res decode (map encode xs) = Inr xs"
  by (induction xs) simp_all

lemma rpc_nonempty_JStr [simp]: "s \<noteq> [] \<Longrightarrow> rpc_nonempty (JStr s) = Inr s"
  by simp

lemma repoPath_JStr [simp]: "canonical p \<Longrightarrow> repoPath (JStr p) = Inr p"
  by simp

lemma decode_js_repository: "repository_ok i \<Longrightarrow> decodeRepository (js_repository i) = Inr i"
  by (cases "ri_description i")
    (simp_all add: decodeRepository_def js_repository_def repository_ok_def optionalString_def)

lemma decodeSize_or:
  "(case x of None \<Rightarrow> True | Some n \<Rightarrow> int n \<le> max_safe_integer) \<Longrightarrow> decodeSize (js_or jnat x JUndefined) = Inr x"
  by (cases x) (simp_all add: js_or_def jnat_def)

lemma decode_js_entry: "entry_ok e \<Longrightarrow> decodeEntry (js_entry e) = Inr e"
proof -
  assume ok: "entry_ok e"
  have "rpc_record (js_entry e) [''name'', ''path'', ''type'', ''size''] = Inr (js_entry e)"
    unfolding js_entry_def rpc_record_build by (auto simp: js_opt_def split: option.splits)
  moreover have "decodeEntryType (js_get (js_entry e) ''type'') = Inr (de_type e)"
    by (cases "de_type e") (simp_all add: js_entry_def)
  moreover have "decodeSize (js_get (js_entry e) ''size'') = Inr (de_size e)"
    using ok decodeSize_or by (simp add: js_entry_def entry_ok_def)
  moreover have "js_get (js_entry e) ''name'' = JStr (de_name e)" "js_get (js_entry e) ''path'' = JStr (de_path e)"
    by (simp_all add: js_entry_def)
  ultimately show ?thesis
    using ok by (simp add: decodeEntry_def entry_ok_def segment_def bad_segment_def)
qed

lemma decode_js_branch: "branch_ok b \<Longrightarrow> decodeBranch (js_branch b) = Inr b"
  by (cases "br_isDefault b")
    (simp_all add: decodeBranch_def js_branch_def branch_ok_def optionalBoolean_def)

lemma decode_js_author: "au_name a \<noteq> [] \<Longrightarrow> decodeAuthor (js_author a) = Inr (Some a)"
  by (cases "au_email a") (simp_all add: decodeAuthor_def js_author_def optionalString_def)

lemma decodeAuthor_or:
  "(case x of None \<Rightarrow> True | Some a \<Rightarrow> au_name a \<noteq> []) \<Longrightarrow> decodeAuthor (js_or js_author x JUndefined) = Inr x"
  by (cases x) (simp_all add: js_or_def decode_js_author, simp add: decodeAuthor_def)

lemma decode_parents: "[] \<notin> set ps \<Longrightarrow> map_res rpc_nonempty (map JStr ps) = Inr ps"
  by (induction ps) auto

lemma decode_js_commit_info: "commit_info_ok i \<Longrightarrow> decodeCommitInfo (js_commit_info i) = Inr i"
proof -
  assume ok: "commit_info_ok i"
  have "rpc_record (js_commit_info i) [''revision'', ''parents'', ''message'', ''author'', ''authoredAt''] =
      Inr (js_commit_info i)"
    unfolding js_commit_info_def rpc_record_build by (auto simp: js_opt_def split: option.splits)
  moreover have "decodeAuthor (js_get (js_commit_info i) ''author'') = Inr (ci_author i)"
    using ok decodeAuthor_or by (simp add: js_commit_info_def commit_info_ok_def)
  moreover have "optionalString (js_get (js_commit_info i) ''authoredAt'') = Inr (ci_authoredAt i)"
    by (simp add: js_commit_info_def)
  moreover have "js_get (js_commit_info i) ''revision'' = JStr (ci_revision i)"
    "js_get (js_commit_info i) ''parents'' = JArr (map JStr (ci_parents i))"
    "js_get (js_commit_info i) ''message'' = JStr (ci_message i)"
    by (simp_all add: js_commit_info_def)
  ultimately show ?thesis
    using ok by (simp add: decodeCommitInfo_def commit_info_ok_def decode_parents)
qed

lemma decode_js_page: "list_all commit_info_ok (cp_commits p) \<Longrightarrow> decodePage (js_page p) = Inr p"
  by (cases "cp_nextCursor p")
    (simp_all add: decodePage_def js_page_def map_res_decode decode_js_commit_info optionalString_def)

lemma decodeChangeType_name: "decodeChangeType (JStr (change_type_name t)) = Inr t"
  by (cases t) simp_all

lemma decode_js_commit_change: "commit_change_ok c \<Longrightarrow> decodeCommitChange (js_commit_change c) = Inr c"
  by (cases "cc_previousPath c") (simp_all add: decodeCommitChange_def js_commit_change_def
      commit_change_ok_def decodeChangeType_name optionalPath_def
      del: decodeChangeType.simps)

lemma decodeReason_name: "decodeReason (JStr (reason_name r)) = Inr r"
  by (cases r) simp_all

lemma decode_js_commit_result: "commit_result_ok r \<Longrightarrow> decodeCommitResult (js_commit_result r) = Inr r"
proof (cases r)
  case (CommitSuccess x11 x12)
  moreover assume "commit_result_ok r"
  ultimately show ?thesis
    by (auto simp: decodeCommitResult_def decode_js_commit_info commit_info_ok_def)
next
  case (CommitRejected x21 x22 x23)
  then show ?thesis
    by (cases x22; cases x23)
      (simp_all add: decodeCommitResult_def decodeReason_name optionalString_def del: decodeReason.simps)
qed

lemma wire_result_simps [simp]:
  "op \<noteq> ReadFile \<Longrightarrow> wire_result op v = v"
  "wire_result ReadFile (JBytes bs) = encodeRpcBytes bs"
  by (simp_all add: wire_result_def split: jsval.split)

lemma decode_result: "result_ok op r \<Longrightarrow> decodeRpcResult op (wire_result op (js_result r)) = Inr r"
  by (cases op; cases r) (simp_all add: decode_js_repository map_res_decode decode_js_entry
      decode_js_branch decode_js_page decode_js_commit_change decode_js_commit_result)

theorem decode_response:
  assumes "result_ok op r"
  obtains response where "encodeRpcSuccess op (js_result r) = Inr response" "decodeRpcResponse op response = Inr r"
  using assms
  by (simp add: encodeRpcSuccess_def decodeRpcResponse_def decode_result requireVersion_def Let_def)

theorem decode_failure: "decodeRpcResponse op (encodeRpcFailure code) = Inl (RemotishError code)"
  by (simp add: encodeRpcFailure_def decodeRpcResponse_def requireVersion_def)

subsection \<open>What the decoder lets through\<close>

lemma map_res_all: "map_res decode vs = Inr xs \<Longrightarrow> (\<And>v x. decode v = Inr x \<Longrightarrow> P x) \<Longrightarrow> list_all P xs"
  by (induction vs arbitrary: xs) auto

lemma decodeRepository_ok: "decodeRepository v = Inr i \<Longrightarrow> repository_ok i"
  by (auto simp: decodeRepository_def repository_ok_def)

lemma decodeSize_ok:
  "decodeSize v = Inr x \<Longrightarrow> (case x of None \<Rightarrow> True | Some n \<Rightarrow> int n \<le> max_safe_integer)"
  by (cases v) (auto dest: safe_integer_bound split: option.splits if_splits)

lemma decodeEntry_ok: "decodeEntry v = Inr e \<Longrightarrow> entry_ok e"
  by (auto simp: decodeEntry_def entry_ok_def segment_def bad_segment_def dest: decodeSize_ok split: if_splits)

lemma decodeBranch_ok: "decodeBranch v = Inr b \<Longrightarrow> branch_ok b"
  by (auto simp: decodeBranch_def branch_ok_def)

lemma decodeAuthor_ok: "decodeAuthor v = Inr x \<Longrightarrow> (case x of None \<Rightarrow> True | Some a \<Rightarrow> au_name a \<noteq> [])"
  by (auto simp: decodeAuthor_def split: if_splits)

lemma decode_parents_ok: "map_res rpc_nonempty vs = Inr ps \<Longrightarrow> [] \<notin> set ps"
  by (induction vs arbitrary: ps) auto

lemma decodeCommitInfo_ok: "decodeCommitInfo v = Inr i \<Longrightarrow> commit_info_ok i"
  by (auto simp: decodeCommitInfo_def commit_info_ok_def dest: decodeAuthor_ok decode_parents_ok)

lemma decodePage_ok: "decodePage v = Inr p \<Longrightarrow> list_all commit_info_ok (cp_commits p)"
  by (auto simp: decodePage_def intro: map_res_all decodeCommitInfo_ok)

lemma decodeCommitChange_ok: "decodeCommitChange v = Inr c \<Longrightarrow> commit_change_ok c"
  by (auto simp: decodeCommitChange_def commit_change_ok_def optionalPath_def split: if_splits)

lemma decodeCommitResult_ok: "decodeCommitResult v = Inr r \<Longrightarrow> commit_result_ok r"
  by (auto simp: decodeCommitResult_def dest: decodeCommitInfo_ok split: if_splits)

lemmas decoded_ok = decodeRepository_ok decodeBranch_ok decodePage_ok decodeCommitResult_ok
  map_res_all [OF _ decodeEntry_ok] map_res_all [OF _ decodeBranch_ok] map_res_all [OF _ decodeCommitChange_ok]

lemma decodeRpcResult_ok: "decodeRpcResult op v = Inr r \<Longrightarrow> result_ok op r"
  by (cases op) (auto intro: decoded_ok split: if_splits)

text \<open>Every answer a decoder gives is well formed, or an error of the protocol.\<close>

theorem decodeRpcResponse_ok: "decodeRpcResponse op v = Inr r \<Longrightarrow> result_ok op r"
proof -
  assume "decodeRpcResponse op v = Inr r"
  then obtain w where "decodeRpcResult op w = Inr r"
    by (auto simp: decodeRpcResponse_def split: if_splits option.splits)
  then show ?thesis by (rule decodeRpcResult_ok)
qed

lemma entry_ok_child:
  assumes "entry_ok e"
  obtains d where "canonical d" "de_path e = child_path d (de_name e)"
proof -
  have "de_path e \<noteq> []" using assms by (auto simp: entry_ok_def dest: segment_not_Nil)
  moreover have "canonical (de_path e)" using assms by (simp add: entry_ok_def)
  ultimately obtain d n where "canonical d" "segment n" "de_path e = child_path d n"
    by (metis canonical_cases)
  moreover from this have "n = de_name e"
    using assms segs_child_path [of n d] by (auto simp: entry_ok_def segs_def split: if_splits)
  ultimately show thesis using that by blast
qed

subsection \<open>Refusals\<close>

lemma decode_leaf_closed [closes]:
  "fails_closed (decodeEntryType v)" "fails_closed (decodeSize v)" "fails_closed (decodeChangeType v)"
  "fails_closed (decodeReason v)"
  by (cases v; auto intro!: closes)+

lemma optionalPath_closed [closes]: "fails_closed (optionalPath v)"
  unfolding optionalPath_def by (intro closes)

lemma decodeAuthor_closed [closes]: "fails_closed (decodeAuthor v)"
  unfolding decodeAuthor_def by (intro closes)

lemma decodeCommitInfo_closed [closes]: "fails_closed (decodeCommitInfo v)"
  unfolding decodeCommitInfo_def by (intro closes)

lemma decode_result_parts_closed [closes]:
  "fails_closed (decodeRepository v)" "fails_closed (decodeEntry v)" "fails_closed (decodeBranch v)"
  "fails_closed (decodePage v)" "fails_closed (decodeCommitChange v)" "fails_closed (decodeCommitResult v)"
  unfolding decodeRepository_def decodeEntry_def decodeBranch_def decodePage_def decodeCommitChange_def
    decodeCommitResult_def by (intro closes)+

lemma decodeRpcResult_closed: "fails_closed (decodeRpcResult op v)"
  by (cases op; simp only: decodeRpcResult.simps; intro closes)

end
