(* ===== verification/RpcAdapter.thy ===== *)
theory RpcAdapter
  imports RpcRequest RpcResult
begin

section \<open>The RPC adapter and the endpoint it talks to\<close>

text \<open>
  \<open>adapters/rpc/src/rpc-adapter.ts\<close>, and the part of \<open>handleRequest\<close> in
  \<open>extensions/browser-rpc-provider/src/transport/userscript.ts\<close> that decodes a request, runs the
  handler and encodes its outcome. A transport is a computation on the state of the remote: it
  takes the request object and gives the answer or fails. The abort signal of a call is what it
  does: it never fires, it had fired before the call, or it fires while the call is under way.
\<close>

type_synonym 'w transport = "jsval \<Rightarrow> ('w, jsval) st"

datatype abort_signal = NotAborted | AbortedBefore | AbortedDuring

definition rpc_call :: "'w transport \<Rightarrow> rpc_request \<Rightarrow> abort_signal \<Rightarrow> ('w, rpc_result) st" where
  "rpc_call transport request sig =
     (if sig = AbortedBefore then throwS (RemotishError CANCELLED)
      else (\<lambda>w. case transport (js_request request) w of (answer, w') \<Rightarrow>
        (if sig = AbortedDuring then Inl (RemotishError CANCELLED)
         else case answer of
           Inl e \<Rightarrow> Inl (RemotishError OFFLINE)
         | Inr response \<Rightarrow> decodeRpcResponse (rq_operation request) response, w')))"

text \<open>
  The static type of a result: a result of another shape cannot come out of the decoder
  (\<open>decodeRpcResponse_ok\<close>).
\<close>

definition typed :: "(rpc_result \<Rightarrow> 'a option) \<Rightarrow> ('w, rpc_result) st \<Rightarrow> ('w, 'a) st" where
  "typed f m = bindS m (\<lambda>r. case f r of None \<Rightarrow> throwS OtherError | Some x \<Rightarrow> returnS x)"

fun as_repository :: "rpc_result \<Rightarrow> repository_info option" where
  "as_repository (RepositoryResult i) = Some i"
| "as_repository r = None"

fun as_entries :: "rpc_result \<Rightarrow> directory_entry list option" where
  "as_entries (DirectoryResult es) = Some es"
| "as_entries r = None"

fun as_file :: "rpc_result \<Rightarrow> bytes option" where
  "as_file (FileResult bs) = Some bs"
| "as_file r = None"

fun as_branches :: "rpc_result \<Rightarrow> branch list option" where
  "as_branches (BranchesResult bs) = Some bs"
| "as_branches r = None"

fun as_page :: "rpc_result \<Rightarrow> commit_page option" where
  "as_page (PageResult p) = Some p"
| "as_page r = None"

fun as_changes :: "rpc_result \<Rightarrow> commit_change list option" where
  "as_changes (ChangesResult cs) = Some cs"
| "as_changes r = None"

fun as_outcome :: "rpc_result \<Rightarrow> commit_result option" where
  "as_outcome (CommitOutcome r) = Some r"
| "as_outcome r = None"

fun as_branch :: "rpc_result \<Rightarrow> branch option" where
  "as_branch (BranchResult b) = Some b"
| "as_branch r = None"

subsection \<open>Operations\<close>

definition rpc_getRepository :: "'w transport \<Rightarrow> abort_signal \<Rightarrow> ('w, repository_info) st" where
  "rpc_getRepository transport sig =
     typed as_repository (rpc_call transport \<lparr>rq_operation = GetRepository, rq_payload = EmptyPayload\<rparr> sig)"

text \<open>An entry outside the listed directory, or deeper in it, is refused.\<close>

definition direct_entry :: "path \<Rightarrow> directory_entry \<Rightarrow> bool" where
  "direct_entry p entry =
     (let prefix' = (if p = [] then [] else p @ ''/'');
          child = (if startsWith (de_path entry) prefix' then drop (length prefix') (de_path entry) else [])
      in child \<noteq> [] \<and> CHR ''/'' \<notin> set child)"

definition rpc_readDirectory ::
  "'w transport \<Rightarrow> revision \<Rightarrow> path \<Rightarrow> abort_signal \<Rightarrow> ('w, directory_entry list) st" where
  "rpc_readDirectory transport r p sig =
     bindS (typed as_entries (rpc_call transport \<lparr>rq_operation = ReadDirectory, rq_payload = ReadPayload r p\<rparr> sig))
       (\<lambda>entries. if list_ex (\<lambda>e. \<not> direct_entry p e) entries then throwS (RemotishError UNKNOWN)
         else returnS entries)"

definition rpc_readFile :: "'w transport \<Rightarrow> revision \<Rightarrow> path \<Rightarrow> abort_signal \<Rightarrow> ('w, bytes) st" where
  "rpc_readFile transport r p sig =
     typed as_file (rpc_call transport \<lparr>rq_operation = ReadFile, rq_payload = ReadPayload r p\<rparr> sig)"

definition rpc_getBranches :: "'w transport \<Rightarrow> abort_signal \<Rightarrow> ('w, branch list) st" where
  "rpc_getBranches transport sig =
     typed as_branches (rpc_call transport \<lparr>rq_operation = GetBranches, rq_payload = EmptyPayload\<rparr> sig)"

definition rpc_getCommits :: "'w transport \<Rightarrow> commit_query \<Rightarrow> abort_signal \<Rightarrow> ('w, commit_page) st" where
  "rpc_getCommits transport q sig =
     typed as_page (rpc_call transport \<lparr>rq_operation = GetCommits, rq_payload = QueryPayload q\<rparr> sig)"

definition rpc_getCommitChanges :: "'w transport \<Rightarrow> revision \<Rightarrow> abort_signal \<Rightarrow> ('w, commit_change list) st" where
  "rpc_getCommitChanges transport r sig =
     typed as_changes (rpc_call transport \<lparr>rq_operation = GetCommitChanges, rq_payload = RevisionPayload r\<rparr> sig)"

definition rpc_commit ::
  "capabilities \<Rightarrow> 'w transport \<Rightarrow> commit_request \<Rightarrow> abort_signal \<Rightarrow> ('w, commit_result) st" where
  "rpc_commit caps transport request sig =
     (let leased = (case request of NormalCommitRequest b \<Rightarrow> False | _ \<Rightarrow> True);
          amends = (case request of AmendCommitRequest b l \<Rightarrow> True | _ \<Rightarrow> False) in
      if leased \<and> \<not> flag (cap_forceWithLease caps) then throwS (RemotishError UNSUPPORTED)
      else if amends \<and> \<not> flag (cap_amend caps) then throwS (RemotishError UNSUPPORTED)
      else typed as_outcome
        (rpc_call transport \<lparr>rq_operation = DoCommit, rq_payload = CommitPayload request\<rparr> sig))"

definition rpc_createBranch ::
  "'w transport \<Rightarrow> branch_name \<Rightarrow> revision \<Rightarrow> abort_signal \<Rightarrow> ('w, branch) st" where
  "rpc_createBranch transport name r sig =
     typed as_branch (rpc_call transport \<lparr>rq_operation = CreateBranch, rq_payload = CreateBranchPayload name r\<rparr> sig)"

definition rpc_deleteBranch :: "'w transport \<Rightarrow> branch_name \<Rightarrow> abort_signal \<Rightarrow> ('w, unit) st" where
  "rpc_deleteBranch transport name sig =
     bindS (rpc_call transport \<lparr>rq_operation = DeleteBranch, rq_payload = DeleteBranchPayload name\<rparr> sig)
       (\<lambda>_. returnS ())"

text \<open>
  The adapter a workspace gets. Its reads observe the state of the remote: what a transport does to
  that state for a read is not kept.
\<close>

definition newRpcAdapter :: "'w transport \<Rightarrow> jsval \<Rightarrow> 'w adapter res" where
  "newRpcAdapter transport session = andThen (decodeRpcSession session) (\<lambda>caps. Inr \<lparr>
     ad_capabilities = caps,
     ad_getRepository = rpc_getRepository transport NotAborted,
     ad_readDirectory = (\<lambda>w r p. Settled (andThen (fst (rpc_readDirectory transport r p NotAborted w))
       (\<lambda>es. Inr (JArr (map js_entry es))))),
     ad_readFile = (\<lambda>w r p. Settled (fst (rpc_readFile transport r p NotAborted w))),
     ad_getBranches = rpc_getBranches transport NotAborted,
     ad_getCommits = (\<lambda>q. rpc_getCommits transport q NotAborted),
     ad_getCommitChanges = (\<lambda>r. rpc_getCommitChanges transport r NotAborted),
     ad_commit = (if cap_commits caps then Some (\<lambda>request. rpc_commit caps transport request NotAborted) else None),
     ad_createBranch = (if flag (cap_createBranch caps)
       then Some (\<lambda>name r. rpc_createBranch transport name r NotAborted) else None),
     ad_deleteBranch = (if flag (cap_deleteBranch caps)
       then Some (\<lambda>name. rpc_deleteBranch transport name NotAborted) else None)\<rparr>)"

subsection \<open>The endpoint\<close>

text \<open>\<open>error instanceof RemotishError ? error.code : 'UNKNOWN'\<close>.\<close>

fun sent_code :: "err \<Rightarrow> error_code" where
  "sent_code (RemotishError c) = c"
| "sent_code FileNotFound = UNKNOWN"
| "sent_code OtherError = UNKNOWN"

text \<open>A request that is neither aborted nor overtaken by the disposal of the endpoint.\<close>

definition serve :: "(rpc_request \<Rightarrow> ('w, jsval) st) \<Rightarrow> 'w transport" where
  "serve handle v = (case decodeRpcRequest v of
     Inl e \<Rightarrow> returnS (encodeRpcFailure INVALID_REQUEST)
   | Inr request \<Rightarrow> (\<lambda>w. case handle request w of
       (Inl e, w') \<Rightarrow> (Inr (encodeRpcFailure (sent_code e)), w')
     | (Inr outcome, w') \<Rightarrow> (case encodeRpcSuccess (rq_operation request) outcome of
         Inl e \<Rightarrow> (Inr (encodeRpcFailure (sent_code e)), w')
       | Inr response \<Rightarrow> (Inr response, w'))))"

subsection \<open>Properties\<close>

text \<open>Every adapter that is constructed honours the contract a workspace checks.\<close>

lemma newRpcAdapter_contract:
  assumes "newRpcAdapter transport session = Inr ad"
  shows "validateAdapterContract ad = Inr ()"
proof -
  from assms obtain caps where caps: "decodeRpcSession session = Inr caps" "ad_capabilities ad = caps"
    "ad_commit ad = (if cap_commits caps then Some (\<lambda>request. rpc_commit caps transport request NotAborted) else None)"
    "ad_createBranch ad = (if flag (cap_createBranch caps)
       then Some (\<lambda>name r. rpc_createBranch transport name r NotAborted) else None)"
    "ad_deleteBranch ad = (if flag (cap_deleteBranch caps)
       then Some (\<lambda>name. rpc_deleteBranch transport name NotAborted) else None)"
    by (auto simp: newRpcAdapter_def)
  then show ?thesis
    using decodeRpcSession_ok [OF caps(1)] by (simp add: validateAdapterContract_def Let_def)
qed

text \<open>
  A call to an endpoint: the handler runs once, on the request the caller built; a well formed
  outcome comes back as it is, an error with its code, and anything else is an unknown error.
\<close>

lemma encodeRpcSuccess_closed: "encodeRpcSuccess op v = Inl e \<Longrightarrow> e = RemotishError UNKNOWN"
  using fails_closedD [OF decodeRpcResult_closed] by (auto simp: encodeRpcSuccess_def Let_def andThen_Inl_iff)

lemma decode_success_envelope:
  "encodeRpcSuccess op v = Inr response \<Longrightarrow> decodeRpcResponse op response = decodeRpcResult op (wire_result op v)"
  by (auto simp: encodeRpcSuccess_def decodeRpcResponse_def Let_def requireVersion_def)

theorem call_served:
  assumes "request_ok request"
  shows "rpc_call (serve handle) request NotAborted w =
    (case handle request w of
       (Inl e, w') \<Rightarrow> (Inl (RemotishError (sent_code e)), w')
     | (Inr outcome, w') \<Rightarrow> (decodeRpcResult (rq_operation request) (wire_result (rq_operation request) outcome), w'))"
proof (cases "handle request w")
  case (Pair r w')
  show ?thesis
  proof (cases r)
    case (Inl e)
    then show ?thesis
      by (simp add: rpc_call_def serve_def decode_request [OF assms] Pair decode_failure)
  next
    case (Inr outcome)
    let ?op = "rq_operation request"
    show ?thesis
    proof (cases "encodeRpcSuccess ?op outcome")
      case (Inl e)
      then have "decodeRpcResult ?op (wire_result ?op outcome) = Inl (RemotishError UNKNOWN)"
        using fails_closedD [OF decodeRpcResult_closed] by (auto simp: encodeRpcSuccess_def Let_def andThen_Inl_iff)
      then show ?thesis using Inl \<open>r = Inr outcome\<close> encodeRpcSuccess_closed [OF Inl]
        by (simp add: rpc_call_def serve_def decode_request [OF assms] Pair decode_failure)
    next
      case (Inr response)
      then show ?thesis using \<open>r = Inr outcome\<close>
        by (simp add: rpc_call_def serve_def decode_request [OF assms] Pair decode_success_envelope)
    qed
  qed
qed

corollary call_served_ok:
  assumes "request_ok request" and "handle request w = (Inr (js_result x), w')"
    and "result_ok (rq_operation request) x"
  shows "rpc_call (serve handle) request NotAborted w = (Inr x, w')"
  using assms by (simp add: call_served decode_result)

text \<open>Whatever the transport answers, a call that returns gives a well formed result.\<close>

lemma rpc_call_ok: "rpc_call transport request sig w = (Inr x, w') \<Longrightarrow> result_ok (rq_operation request) x"
  by (auto simp: rpc_call_def split: if_splits prod.splits sum.splits intro: decodeRpcResponse_ok)

lemma rpc_call_aborted:
  "rpc_call transport request AbortedBefore w = (Inl (RemotishError CANCELLED), w)"
  "fst (rpc_call transport request AbortedDuring w) = Inl (RemotishError CANCELLED)"
  by (simp_all add: rpc_call_def split: prod.split)

lemma newRpcAdapter_sel:
  assumes "newRpcAdapter transport session = Inr rpc" and "decodeRpcSession session = Inr caps"
  shows "ad_capabilities rpc = caps" "ad_getBranches rpc = rpc_getBranches transport NotAborted"
    "ad_readFile rpc w r p = Settled (fst (rpc_readFile transport r p NotAborted w))"
    "ad_commit rpc = (if cap_commits caps then Some (\<lambda>request. rpc_commit caps transport request NotAborted) else None)"
  using assms by (auto simp: newRpcAdapter_def)

text \<open>The metadata of an adapter that honours its contract is accepted.\<close>

lemma decode_session_of_contract:
  "validateAdapterContract ad = Inr () \<Longrightarrow> decodeRpcSession (js_session (ad_capabilities ad)) = Inr (ad_capabilities ad)"
  by (rule decode_js_session) (auto dest: validateAdapterContract_honoured)

lemma newRpcAdapter_session:
  assumes "validateAdapterContract ad = Inr ()"
  obtains rpc where "newRpcAdapter transport (js_session (ad_capabilities ad)) = Inr rpc"
  using decode_session_of_contract [OF assms] by (simp add: newRpcAdapter_def)

subsection \<open>An adapter behind an endpoint\<close>

text \<open>
  The endpoint that serves an adapter: one call of the adapter for each operation, as the endpoints
  of \<open>examples/browser-rpc-bitbucket\<close> dispatch to theirs. It is the reference for what a client sees
  of an adapter through the protocol.
\<close>

definition answer :: "('a \<Rightarrow> jsval) \<Rightarrow> ('w, 'a) st \<Rightarrow> ('w, jsval) st" where
  "answer f m = bindS m (\<lambda>x. returnS (f x))"

fun settled_read :: "'a race \<Rightarrow> 'a res" where
  "settled_read (Settled r) = r"
| "settled_read TimedOut = Inl (RemotishError OFFLINE)"

definition optional_call :: "'f option \<Rightarrow> ('f \<Rightarrow> ('w, jsval) st) \<Rightarrow> ('w, jsval) st" where
  "optional_call m run = (case m of None \<Rightarrow> throwS (RemotishError UNSUPPORTED) | Some f \<Rightarrow> run f)"

definition serve_adapter :: "'w adapter \<Rightarrow> rpc_request \<Rightarrow> ('w, jsval) st" where
  "serve_adapter ad request = (case rq_payload request of
     EmptyPayload \<Rightarrow> (if rq_operation request = GetRepository then answer js_repository (ad_getRepository ad)
       else answer (\<lambda>bs. JArr (map js_branch bs)) (ad_getBranches ad))
   | ReadPayload r p \<Rightarrow> (if rq_operation request = ReadFile
       then answer JBytes (askS (\<lambda>w. settled_read (ad_readFile ad w r p)))
       else askS (\<lambda>w. settled_read (ad_readDirectory ad w r p)))
   | RevisionPayload r \<Rightarrow> answer (\<lambda>cs. JArr (map js_commit_change cs)) (ad_getCommitChanges ad r)
   | QueryPayload q \<Rightarrow> answer js_page (ad_getCommits ad q)
   | CommitPayload c \<Rightarrow> optional_call (ad_commit ad) (\<lambda>commit. answer js_commit_result (commit c))
   | CreateBranchPayload n r \<Rightarrow> optional_call (ad_createBranch ad) (\<lambda>create. answer js_branch (create n r))
   | DeleteBranchPayload n \<Rightarrow> optional_call (ad_deleteBranch ad) (\<lambda>delete. answer (\<lambda>_. JNull) (delete n)))"

text \<open>What the client sees of an outcome: the code of an error, the result itself.\<close>

definition relayed :: "'a res \<times> 'w \<Rightarrow> 'a res \<times> 'w" where
  "relayed o' = (case o' of (Inl e, w) \<Rightarrow> (Inl (RemotishError (sent_code e)), w) | (Inr x, w) \<Rightarrow> (Inr x, w))"

lemma relayed_call:
  assumes "request_ok request" and "handle request = answer (js_result \<circ> g) m"
    and "\<And>x w'. m w = (Inr x, w') \<Longrightarrow> result_ok (rq_operation request) (g x)"
    and "\<And>x. f (g x) = Some x"
  shows "typed f (rpc_call (serve handle) request NotAborted) w = relayed (m w)"
proof (cases "m w")
  case (Pair r w')
  show ?thesis
  proof (cases r)
    case (Inl e)
    then show ?thesis
      by (simp add: typed_def bindS_apply call_served [OF assms(1)] assms(2) answer_def Pair relayed_def)
  next
    case (Inr x)
    with Pair assms(3) have "result_ok (rq_operation request) (g x)" by simp
    then show ?thesis using Inr
      by (simp add: typed_def bindS_apply call_served [OF assms(1)] assms(2,4) answer_def Pair relayed_def
          decode_result)
  qed
qed

definition push_supported :: "capabilities \<Rightarrow> commit_request \<Rightarrow> bool" where
  "push_supported caps request \<longleftrightarrow> (case request of NormalCommitRequest b \<Rightarrow> True
     | ForceCommitRequest b l \<Rightarrow> flag (cap_forceWithLease caps)
     | AmendCommitRequest b l \<Rightarrow> flag (cap_forceWithLease caps) \<and> flag (cap_amend caps))"

lemma relayed_commit:
  assumes "commit_ok request" and "ad_commit ad = Some commit"
    and "\<And>r w'. commit request w = (Inr r, w') \<Longrightarrow> commit_result_ok r"
    and "push_supported caps request"
  shows "rpc_commit caps (serve (serve_adapter ad)) request NotAborted w = relayed (commit request w)"
proof -
  have "typed as_outcome (rpc_call (serve (serve_adapter ad))
      \<lparr>rq_operation = DoCommit, rq_payload = CommitPayload request\<rparr> NotAborted) w = relayed (commit request w)"
    by (rule relayed_call [where g = CommitOutcome])
      (use assms(1,3) in \<open>auto simp: request_ok_def serve_adapter_def optional_call_def assms(2) comp_def\<close>)
  with assms(4) show ?thesis by (cases request) (simp_all add: rpc_commit_def push_supported_def)
qed

lemma relayed_createBranch:
  assumes "n \<noteq> []" "r \<noteq> []" "ad_createBranch ad = Some create"
    and "\<And>b w'. create n r w = (Inr b, w') \<Longrightarrow> branch_ok b"
  shows "rpc_createBranch (serve (serve_adapter ad)) n r NotAborted w = relayed (create n r w)"
  unfolding rpc_createBranch_def
  by (rule relayed_call [where g = BranchResult])
    (use assms in \<open>auto simp: request_ok_def serve_adapter_def optional_call_def comp_def\<close>)

lemma relayed_getBranches:
  assumes "\<And>bs w'. ad_getBranches ad w = (Inr bs, w') \<Longrightarrow> list_all branch_ok bs"
  shows "rpc_getBranches (serve (serve_adapter ad)) NotAborted w = relayed (ad_getBranches ad w)"
  unfolding rpc_getBranches_def
  by (rule relayed_call [where g = BranchesResult])
    (use assms in \<open>auto simp: request_ok_def serve_adapter_def comp_def\<close>)

lemma relayed_getCommits:
  assumes "query_ok q" "\<And>p w'. ad_getCommits ad q w = (Inr p, w') \<Longrightarrow> list_all commit_info_ok (cp_commits p)"
  shows "rpc_getCommits (serve (serve_adapter ad)) q NotAborted w = relayed (ad_getCommits ad q w)"
  unfolding rpc_getCommits_def
  by (rule relayed_call [where g = PageResult])
    (use assms in \<open>auto simp: request_ok_def serve_adapter_def comp_def\<close>)

lemma relayed_readFile:
  assumes "r \<noteq> []" "canonical p" "ad_readFile ad w r p = Settled x"
  shows "rpc_readFile (serve (serve_adapter ad)) r p NotAborted w = relayed (x, w)"
proof -
  have "typed as_file (rpc_call (serve (serve_adapter ad))
      \<lparr>rq_operation = ReadFile, rq_payload = ReadPayload r p\<rparr> NotAborted) w =
    relayed (askS (\<lambda>w. settled_read (ad_readFile ad w r p)) w)"
    by (rule relayed_call [where g = FileResult and m = "askS (\<lambda>w. settled_read (ad_readFile ad w r p))"])
      (use assms in \<open>auto simp: request_ok_def serve_adapter_def comp_def\<close>)
  then show ?thesis using assms(3) by (simp add: rpc_readFile_def)
qed

lemma relayed_deleteBranch:
  assumes "n \<noteq> []" "ad_deleteBranch ad = Some delete"
  shows "rpc_deleteBranch (serve (serve_adapter ad)) n NotAborted w = relayed (delete n w)"
proof -
  have "request_ok \<lparr>rq_operation = DeleteBranch, rq_payload = DeleteBranchPayload n\<rparr>"
    using assms(1) by (simp add: request_ok_def)
  from call_served [OF this, of "serve_adapter ad" w] show ?thesis
    by (cases "delete n w"; cases "fst (delete n w)")
      (auto simp: rpc_deleteBranch_def bindS_apply serve_adapter_def optional_call_def assms(2) answer_def relayed_def)
qed

end
