(* ===== verification/PersistenceSchema.thy ===== *)
theory PersistenceSchema
  imports Base64 Environment
begin

section \<open>The schema of stored workspaces\<close>

text \<open>
  \<open>packages/vscode/src/persistence/workspace-persistence-schema.ts\<close>: the validation that both formats of
  a stored workspace pass through, for any form of a stored overlay file, and the rebuilding of the
  snapshot from what was validated. A refusal is an exception whose text is not modelled.
\<close>

record 'f stored_branch =
  sb_baseRevision :: revision
  sb_files :: "'f list"
  sb_directories :: "path list"
  sb_deletedPaths :: "path list"
  sb_renames :: "rename_snapshot list"

record 'f stored_workspace =
  sw_selectedBranch :: branch_name
  sw_branches :: "(branch_name \<times> 'f stored_branch) list"
  sw_pending :: "pending_publication option"

definition persistence_invalid :: "'a res" where
  "persistence_invalid = Inl OtherError"

lemma persistence_invalid_neq [simp]: "persistence_invalid \<noteq> Inr x" "Inr x \<noteq> persistence_invalid"
  by (simp_all add: persistence_invalid_def)

definition requireRecord :: "jsval \<Rightarrow> jsval res" where
  "requireRecord v = (if is_record v then Inr v else persistence_invalid)"

fun requireString :: "jsval \<Rightarrow> string res" where
  "requireString (JStr s) = (if s = [] then persistence_invalid else Inr s)"
| "requireString v = persistence_invalid"

fun requireSafeNat :: "jsval \<Rightarrow> nat res" where
  "requireSafeNat (JNum n) = (case safe_integer n of
       None \<Rightarrow> persistence_invalid
     | Some i \<Rightarrow> if i < 0 then persistence_invalid else Inr (nat i))"
| "requireSafeNat v = persistence_invalid"

fun requireArray :: "jsval \<Rightarrow> jsval list res" where
  "requireArray (JArr items) = Inr items"
| "requireArray v = persistence_invalid"

definition requireStringArray :: "jsval \<Rightarrow> string list res" where
  "requireStringArray v = andThen (requireArray v) (map_res requireString)"

text \<open>\<open>Object.entries\<close>: a byte array has its indices as keys.\<close>

fun js_entries :: "jsval \<Rightarrow> (string \<times> jsval) list" where
  "js_entries (JObj kvs) = kvs"
| "js_entries (JBytes bs) = map (\<lambda>i. (string_of_nat i, jnat (unat (bs ! i)))) [0..<length bs]"
| "js_entries v = []"

definition parsePendingCommitPublication :: "jsval \<Rightarrow> pending_publication res" where
  "parsePendingCommitPublication v =
     andThen (requireRecord v) (\<lambda>pending.
     andThen (requireString (js_get pending ''branch'')) (\<lambda>branch.
     andThen (requireString (js_get pending ''expectedRemoteRevision'')) (\<lambda>expectedRemoteRevision.
     if js_get pending ''phase'' = JUndefined \<or> js_get pending ''phase'' = JStr ''prepared''
     then Inr (Prepared branch expectedRemoteRevision)
     else if js_get pending ''phase'' = JStr ''published''
     then andThen (requireString (js_get pending ''publishedRevision'')) (\<lambda>publishedRevision.
       Inr (Published branch expectedRemoteRevision publishedRevision))
     else persistence_invalid)))"

definition parseRename :: "jsval \<Rightarrow> rename_snapshot res" where
  "parseRename v = andThen (requireRecord v) (\<lambda>item.
     andThen (requireString (js_get item ''from'')) (\<lambda>f.
     andThen (requireString (js_get item ''to'')) (\<lambda>t. Inr \<lparr>rn_from = f, rn_to = t\<rparr>)))"

definition parseStoredBranch :: "(jsval \<Rightarrow> 'f res) \<Rightarrow> jsval \<Rightarrow> 'f stored_branch res" where
  "parseStoredBranch parseFile v =
     andThen (requireRecord v) (\<lambda>branch.
     andThen (requireRecord (js_get branch ''overlay'')) (\<lambda>overlay.
     andThen (requireString (js_get branch ''baseRevision'')) (\<lambda>baseRevision.
     andThen (requireArray (js_get overlay ''files'')) (\<lambda>items.
     andThen (map_res parseFile items) (\<lambda>files.
     andThen (requireStringArray (js_get overlay ''directories'')) (\<lambda>directories.
     andThen (requireStringArray (js_get overlay ''deletedPaths'')) (\<lambda>deletedPaths.
     andThen (requireArray (js_get overlay ''renames'')) (\<lambda>renameItems.
     andThen (map_res parseRename renameItems) (\<lambda>renames.
       Inr \<lparr>sb_baseRevision = baseRevision, sb_files = files, sb_directories = directories,
         sb_deletedPaths = deletedPaths, sb_renames = renames\<rparr>)))))))))"

definition parseBranches ::
  "(jsval \<Rightarrow> 'f res) \<Rightarrow> (string \<times> jsval) list \<Rightarrow> (branch_name \<times> 'f stored_branch) list res" where
  "parseBranches parseFile entries = fold_res (\<lambda>(name, v) branches.
     andThen (parseStoredBranch parseFile v) (\<lambda>branch. Inr (AList.update name branch branches))) entries []"

definition parseStoredWorkspace :: "jsval \<Rightarrow> nat \<Rightarrow> (jsval \<Rightarrow> 'f res) \<Rightarrow> 'f stored_workspace res" where
  "parseStoredWorkspace v expectedVersion parseFile =
     andThen (requireRecord v) (\<lambda>root.
     if js_get root ''version'' \<noteq> jnat expectedVersion then persistence_invalid
     else
     andThen (requireString (js_get root ''selectedBranch'')) (\<lambda>selectedBranch.
     andThen (requireRecord (js_get root ''branches'')) (\<lambda>rawBranches.
     andThen (if js_get root ''pendingCommitPublication'' = JUndefined then Inr None
       else andThen (parsePendingCommitPublication (js_get root ''pendingCommitPublication''))
         (\<lambda>p. Inr (Some p))) (\<lambda>pending.
     andThen (parseBranches parseFile (js_entries rawBranches)) (\<lambda>branches.
     if map_of branches selectedBranch = None then persistence_invalid
     else if (case pending of None \<Rightarrow> False | Some p \<Rightarrow> pp_branch p \<noteq> selectedBranch) then persistence_invalid
     else Inr \<lparr>sw_selectedBranch = selectedBranch, sw_branches = branches, sw_pending = pending\<rparr>)))))"

text \<open>The snapshot of what was validated; reading the contents of the files may fail.\<close>

definition toBranchSnapshot ::
  "('f list \<Rightarrow> (path \<times> bytes) list res) \<Rightarrow> 'f stored_branch \<Rightarrow> working_tree_snapshot res" where
  "toBranchSnapshot decodeFiles b = andThen (decodeFiles (sb_files b)) (\<lambda>files.
     Inr \<lparr>ws_baseRevision = sb_baseRevision b, ws_overlay = \<lparr>sn_files = files,
       sn_directories = sb_directories b, sn_deletedPaths = sb_deletedPaths b, sn_renames = sb_renames b\<rparr>\<rparr>)"

definition toWorkspaceSnapshot ::
  "('f list \<Rightarrow> (path \<times> bytes) list res) \<Rightarrow> 'f stored_workspace \<Rightarrow> workspace_snapshot res" where
  "toWorkspaceSnapshot decodeFiles stored =
     andThen (map_res (\<lambda>(name, branch). andThen (toBranchSnapshot decodeFiles branch) (\<lambda>b. Inr (name, b)))
       (sw_branches stored)) (\<lambda>branches.
     Inr \<lparr>sp_selectedBranch = sw_selectedBranch stored, sp_branches = branches, sp_pending = sw_pending stored\<rparr>)"

subsection \<open>Writing the schema\<close>

text \<open>What both encoders build, given the stored form of the overlay files.\<close>

definition js_rename :: "rename_snapshot \<Rightarrow> jsval" where
  "js_rename r = JObj [(''from'', JStr (rn_from r)), (''to'', JStr (rn_to r))]"

definition js_stored_branch :: "('f \<Rightarrow> jsval) \<Rightarrow> 'f stored_branch \<Rightarrow> jsval" where
  "js_stored_branch js_file b = JObj [
     (''baseRevision'', JStr (sb_baseRevision b)),
     (''overlay'', JObj [
        (''files'', JArr (map js_file (sb_files b))),
        (''directories'', JArr (map JStr (sb_directories b))),
        (''deletedPaths'', JArr (map JStr (sb_deletedPaths b))),
        (''renames'', JArr (map js_rename (sb_renames b)))])]"

fun js_pending :: "pending_publication \<Rightarrow> jsval" where
  "js_pending (Prepared branch expected) = JObj [(''phase'', JStr ''prepared''), (''branch'', JStr branch),
     (''expectedRemoteRevision'', JStr expected)]"
| "js_pending (Published branch expected published) = JObj [(''phase'', JStr ''published''), (''branch'', JStr branch),
     (''expectedRemoteRevision'', JStr expected), (''publishedRevision'', JStr published)]"

definition js_stored_workspace :: "nat \<Rightarrow> ('f \<Rightarrow> jsval) \<Rightarrow> 'f stored_workspace \<Rightarrow> jsval" where
  "js_stored_workspace version js_file w = JObj (
     (''version'', jnat version) # (''selectedBranch'', JStr (sw_selectedBranch w)) #
     (''branches'', JObj (map (\<lambda>(name, b). (name, js_stored_branch js_file b)) (sw_branches w))) #
     (case sw_pending w of None \<Rightarrow> [] | Some p \<Rightarrow> [(''pendingCommitPublication'', js_pending p)]))"

text \<open>The stored form of a snapshot, with the form of a file as an argument.\<close>

definition stored_of_branch :: "(path \<Rightarrow> bytes \<Rightarrow> 'f) \<Rightarrow> working_tree_snapshot \<Rightarrow> 'f stored_branch" where
  "stored_of_branch file t = \<lparr>sb_baseRevision = ws_baseRevision t,
     sb_files = map (\<lambda>(p, content). file p content) (sn_files (ws_overlay t)),
     sb_directories = sn_directories (ws_overlay t), sb_deletedPaths = sn_deletedPaths (ws_overlay t),
     sb_renames = sn_renames (ws_overlay t)\<rparr>"

definition stored_of :: "(path \<Rightarrow> bytes \<Rightarrow> 'f) \<Rightarrow> workspace_snapshot \<Rightarrow> 'f stored_workspace" where
  "stored_of file s = \<lparr>sw_selectedBranch = sp_selectedBranch s,
     sw_branches = map (\<lambda>(name, t). (name, stored_of_branch file t)) (sp_branches s), sw_pending = sp_pending s\<rparr>"

subsection \<open>What can be stored\<close>

definition stored_branch_ok :: "('f \<Rightarrow> bool) \<Rightarrow> 'f stored_branch \<Rightarrow> bool" where
  "stored_branch_ok file_ok b \<longleftrightarrow> sb_baseRevision b \<noteq> [] \<and> list_all file_ok (sb_files b) \<and>
     [] \<notin> set (sb_directories b) \<and> [] \<notin> set (sb_deletedPaths b) \<and>
     list_all (\<lambda>r. rn_from r \<noteq> [] \<and> rn_to r \<noteq> []) (sb_renames b)"

fun pending_ok :: "branch_name \<Rightarrow> pending_publication option \<Rightarrow> bool" where
  "pending_ok selected None = True"
| "pending_ok selected (Some (Prepared branch expected)) = (branch = selected \<and> expected \<noteq> [])"
| "pending_ok selected (Some (Published branch expected published)) =
     (branch = selected \<and> expected \<noteq> [] \<and> published \<noteq> [])"

definition stored_workspace_ok :: "('f \<Rightarrow> bool) \<Rightarrow> 'f stored_workspace \<Rightarrow> bool" where
  "stored_workspace_ok file_ok w \<longleftrightarrow> sw_selectedBranch w \<noteq> [] \<and>
     sw_selectedBranch w \<in> set (keys (sw_branches w)) \<and> distinct (keys (sw_branches w)) \<and>
     list_all (\<lambda>(_, b). stored_branch_ok file_ok b) (sw_branches w) \<and>
     pending_ok (sw_selectedBranch w) (sw_pending w)"

subsection \<open>Parsing what was written\<close>

lemma requireString_Inr [simp]: "requireString v = Inr s \<longleftrightarrow> v = JStr s \<and> s \<noteq> []"
  by (cases v) auto

lemma requireRecord_Inr [simp]: "requireRecord v = Inr w \<longleftrightarrow> is_record v \<and> w = v"
  by (auto simp: requireRecord_def)

lemma requireArray_Inr [simp]: "requireArray v = Inr items \<longleftrightarrow> v = JArr items"
  by (cases v) auto

lemma requireRecord_JObj [simp]: "requireRecord (JObj kvs) = Inr (JObj kvs)"
  by simp

text \<open>Every parser accepts what was written exactly when it can be stored, and reads it back.\<close>

lemma map_res_encoded:
  assumes "\<And>x y. parse (encode x) = Inr y \<longleftrightarrow> P x \<and> y = x"
  shows "map_res parse (map encode xs) = Inr ys \<longleftrightarrow> list_all P xs \<and> ys = xs"
  using assms by (induction xs arbitrary: ys) auto

lemma parse_js_strings: "requireStringArray (JArr (map JStr ps)) = Inr qs \<longleftrightarrow> [] \<notin> set ps \<and> qs = ps"
proof -
  have "requireStringArray (JArr (map JStr ps)) = Inr qs \<longleftrightarrow> list_all (\<lambda>p. p \<noteq> []) ps \<and> qs = ps"
    unfolding requireStringArray_def by (simp, rule map_res_encoded) auto
  then show ?thesis by (auto simp: list_all_iff)
qed

lemma parse_js_rename: "parseRename (js_rename r) = Inr q \<longleftrightarrow> (rn_from r \<noteq> [] \<and> rn_to r \<noteq> []) \<and> q = r"
  by (auto simp: parseRename_def js_rename_def)

lemma parse_js_renames:
  "map_res parseRename (map js_rename rs) = Inr qs \<longleftrightarrow>
    list_all (\<lambda>r. rn_from r \<noteq> [] \<and> rn_to r \<noteq> []) rs \<and> qs = rs"
  by (rule map_res_encoded) (rule parse_js_rename)

lemma parse_js_branch:
  assumes "\<And>f g. parseFile (js_file f) = Inr g \<longleftrightarrow> file_ok f \<and> g = f"
  shows "parseStoredBranch parseFile (js_stored_branch js_file b) = Inr c \<longleftrightarrow> stored_branch_ok file_ok b \<and> c = b"
proof -
  have "map_res parseFile (map js_file fs) = Inr gs \<longleftrightarrow> list_all file_ok fs \<and> gs = fs" for fs gs
    using assms by (rule map_res_encoded)
  then show ?thesis
    by (auto simp: parseStoredBranch_def js_stored_branch_def stored_branch_ok_def parse_js_strings
        parse_js_renames)
qed

lemma parse_js_pending:
  "parsePendingCommitPublication (js_pending p) = Inr q \<longleftrightarrow>
     pp_branch p \<noteq> [] \<and> pp_expected p \<noteq> [] \<and>
     (case p of Prepared _ _ \<Rightarrow> True | Published _ _ r \<Rightarrow> r \<noteq> []) \<and> q = p"
  by (cases p) (auto simp: parsePendingCommitPublication_def)

lemma parse_js_branches:
  assumes elem: "\<And>f g. parseFile (js_file f) = Inr g \<longleftrightarrow> file_ok f \<and> g = f" and "distinct (keys bs)"
  shows "parseBranches parseFile (map (\<lambda>(name, b). (name, js_stored_branch js_file b)) bs) = Inr cs \<longleftrightarrow>
    list_all (\<lambda>(_, b). stored_branch_ok file_ok b) bs \<and> cs = bs"
proof -
  have "distinct (keys (acc @ bs)) \<Longrightarrow>
    fold_res (\<lambda>(name, v) branches. andThen (parseStoredBranch parseFile v)
      (\<lambda>branch. Inr (AList.update name branch branches)))
      (map (\<lambda>(name, b). (name, js_stored_branch js_file b)) bs) acc = Inr cs \<longleftrightarrow>
    list_all (\<lambda>(_, b). stored_branch_ok file_ok b) bs \<and> cs = acc @ bs" for acc
  proof (induction bs arbitrary: acc)
    case (Cons x bs)
    obtain n b where x: "x = (n, b)" by (cases x)
    with Cons.prems have "AList.update n b acc = acc @ [(n, b)]" by (intro update_fresh) auto
    then show ?case using Cons.IH [of "acc @ [(n, b)]"] Cons.prems by (auto simp: x parse_js_branch [OF elem])
  qed auto
  from this [of "[]"] assms(2) show ?thesis by (simp add: parseBranches_def)
qed

lemma js_workspace_get:
  "js_get (js_stored_workspace n js_file w) ''version'' = jnat n"
  "js_get (js_stored_workspace n js_file w) ''selectedBranch'' = JStr (sw_selectedBranch w)"
  "js_get (js_stored_workspace n js_file w) ''branches'' =
     JObj (map (\<lambda>(name, b). (name, js_stored_branch js_file b)) (sw_branches w))"
  "js_get (js_stored_workspace n js_file w) ''pendingCommitPublication'' =
     (case sw_pending w of None \<Rightarrow> JUndefined | Some p \<Rightarrow> js_pending p)"
  "is_record (js_stored_workspace n js_file w)"
  by (simp_all add: js_stored_workspace_def split: option.split)

theorem parse_js_workspace:
  assumes "\<And>f g. parseFile (js_file f) = Inr g \<longleftrightarrow> file_ok f \<and> g = f" and "distinct (keys (sw_branches w))"
  shows "parseStoredWorkspace (js_stored_workspace n js_file w) n parseFile = Inr x \<longleftrightarrow>
    stored_workspace_ok file_ok w \<and> x = w"
proof -
  have defined: "js_pending p \<noteq> JUndefined" for p by (cases p) simp_all
  have present: "map_of (sw_branches w) b = None \<longleftrightarrow> b \<notin> set (keys (sw_branches w))" for b
    by (simp add: map_of_eq_None_iff)
  have pending: "pending_ok b (Some p) \<longleftrightarrow> pp_branch p = b \<and> pp_expected p \<noteq> [] \<and>
      (case p of Prepared _ _ \<Rightarrow> True | Published _ _ r \<Rightarrow> r \<noteq> [])" for b p
    by (cases p) simp_all
  show ?thesis
  proof (cases "sw_pending w")
    case None
    then show ?thesis using assms(2)
      by (auto simp: parseStoredWorkspace_def js_workspace_get stored_workspace_ok_def present
          parse_js_branches [OF assms])
  next
    case (Some p)
    then show ?thesis using assms(2)
      by (auto simp: parseStoredWorkspace_def js_workspace_get stored_workspace_ok_def present pending
          parse_js_branches [OF assms] parse_js_pending defined simp del: pending_ok.simps)
  qed
qed

subsection \<open>What parsing lets through\<close>

lemma map_res_each: "map_res f vs = Inr xs \<Longrightarrow> (\<And>v x. f v = Inr x \<Longrightarrow> P x) \<Longrightarrow> list_all P xs"
  by (induction vs arbitrary: xs) auto

lemma requireStringArray_ok: "requireStringArray v = Inr ps \<Longrightarrow> [] \<notin> set ps"
proof -
  assume "requireStringArray v = Inr ps"
  then obtain vs where "map_res requireString vs = Inr ps" by (auto simp: requireStringArray_def)
  then have "list_all (\<lambda>p. p \<noteq> []) ps" by (rule map_res_each) simp
  then show ?thesis by (auto simp: list_all_iff)
qed

lemma parseRename_ok: "parseRename v = Inr r \<Longrightarrow> rn_from r \<noteq> [] \<and> rn_to r \<noteq> []"
  by (auto simp: parseRename_def)

lemma parseStoredBranch_ok:
  assumes "parseStoredBranch parseFile v = Inr b" and "\<And>v f. parseFile v = Inr f \<Longrightarrow> file_ok f"
  shows "stored_branch_ok file_ok b"
  using assms(1) map_res_each [OF _ assms(2)] map_res_each [OF _ parseRename_ok]
  by (auto simp: parseStoredBranch_def stored_branch_ok_def dest: requireStringArray_ok)

lemma parseBranches_ok:
  assumes "parseBranches parseFile entries = Inr bs" and "\<And>v f. parseFile v = Inr f \<Longrightarrow> file_ok f"
  shows "distinct (keys bs) \<and> list_all (\<lambda>(_, b). stored_branch_ok file_ok b) bs"
proof -
  let ?P = "\<lambda>bs. distinct (keys bs) \<and> (\<forall>b \<in> snd ` set bs. stored_branch_ok file_ok b)"
  have "?P bs"
  proof (rule fold_res_invariant [where P = ?P])
    show "fold_res (\<lambda>(name, v) branches. andThen (parseStoredBranch parseFile v)
      (\<lambda>branch. Inr (AList.update name branch branches))) entries [] = Inr bs"
      using assms(1) by (simp add: parseBranches_def)
    fix x :: "char list \<times> jsval" and s t
    assume "?P s" and "(\<lambda>(name, v) branches. andThen (parseStoredBranch parseFile v)
      (\<lambda>branch. Inr (AList.update name branch branches))) x s = Inr t"
    then obtain b where "t = AList.update (fst x) b s" "parseStoredBranch parseFile (snd x) = Inr b"
      by (cases x) auto
    moreover have "stored_branch_ok file_ok b" using calculation(2) assms(2) by (rule parseStoredBranch_ok)
    moreover have "snd ` set (AList.update k b s) \<subseteq> insert b (snd ` set s)" for k
      by (induction s) auto
    ultimately show "?P t" using \<open>?P s\<close> by fastforce
  qed simp
  then show ?thesis by (auto simp: list_all_iff)
qed

lemma parsePending_ok:
  "parsePendingCommitPublication v = Inr p \<Longrightarrow> pp_branch p = selected \<Longrightarrow> pending_ok selected (Some p)"
  by (auto simp: parsePendingCommitPublication_def split: if_splits)

lemma parseStoredWorkspace_ok:
  assumes "parseStoredWorkspace v n parseFile = Inr w" and "\<And>v f. parseFile v = Inr f \<Longrightarrow> file_ok f"
  shows "stored_workspace_ok file_ok w"
proof -
  have branches: "parseBranches parseFile (js_entries (js_get v ''branches'')) = Inr (sw_branches w)"
    and sel: "sw_selectedBranch w \<noteq> []" "map_of (sw_branches w) (sw_selectedBranch w) \<noteq> None"
    using assms(1) by (auto simp: parseStoredWorkspace_def split: if_splits)
  have "pending_ok (sw_selectedBranch w) (sw_pending w)"
    using assms(1) parsePending_ok [OF _ refl]
    by (auto simp: parseStoredWorkspace_def simp del: pending_ok.simps(2,3) split: if_splits)
  with parseBranches_ok [OF branches assms(2)] sel show ?thesis
    by (simp add: stored_workspace_ok_def map_of_eq_None_iff)
qed

end
