(* ===== verification/UriText.thy ===== *)
theory UriText
  imports JsText
begin

section \<open>Percent encoding\<close>

text \<open>
  \<open>encodeURIComponent\<close> of the JavaScript platform on code units below 256, which the persistence of
  the editor uses to build storage keys and directory names: the unreserved characters stay, the
  octets of the UTF-8 form of any other character are written in hexadecimal. It is injective, but it
  does not escape dots.
\<close>

text \<open>The letters, the digits and the marks \<open>- _ . ! ~ * ' ( )\<close>.\<close>

definition uri_unreserved :: "nat \<Rightarrow> bool" where
  "uri_unreserved n \<longleftrightarrow> (65 \<le> n \<and> n \<le> 90) \<or> (97 \<le> n \<and> n \<le> 122) \<or> (48 \<le> n \<and> n \<le> 57) \<or>
     n \<in> {33, 39, 40, 41, 42, 45, 46, 95, 126}"

definition hex_code :: "nat \<Rightarrow> nat" where
  "hex_code n = (if n < 10 then 48 + n else 55 + n)"

text \<open>UTF-8 of one code unit below 256.\<close>

definition utf8_unit :: "char \<Rightarrow> nat list" where
  "utf8_unit c = (let n = of_char c in if n < 128 then [n] else [192 + n div 64, 128 + n mod 64])"

definition uri_octet :: "nat \<Rightarrow> nat list" where
  "uri_octet n = (if uri_unreserved n then [n] else [37, hex_code (n div 16), hex_code (n mod 16)])"

definition encodeURIComponent :: "string \<Rightarrow> string" where
  "encodeURIComponent s = map char_of (concat (map uri_octet (concat (map utf8_unit s))))"

subsection \<open>Encoding is injective\<close>

lemma same_quotient_and_rest:
  fixes a b :: nat
  shows "a div k = b div k \<Longrightarrow> a mod k = b mod k \<Longrightarrow> a = b"
  by (metis div_mult_mod_eq)

lemma hex_code_inject: "a < 16 \<Longrightarrow> b < 16 \<Longrightarrow> hex_code a = hex_code b \<Longrightarrow> a = b"
  by (cases "a < 10"; cases "b < 10") (simp_all add: hex_code_def)

lemma hex_pair_inject:
  assumes "a < 256" "b < 256" "hex_code (a div 16) = hex_code (b div 16)" "hex_code (a mod 16) = hex_code (b mod 16)"
  shows "a = b"
proof (rule same_quotient_and_rest)
  have "a div 16 < 16" "b div 16 < 16" using assms(1,2) by simp_all
  then show "a div 16 = b div 16" using assms(3) by (rule hex_code_inject)
  show "a mod 16 = b mod 16" using assms(4) by (rule hex_code_inject [rotated 2]) simp_all
qed

lemma uri_octet_cases:
  "uri_octet n = [n] \<and> n \<noteq> 37 \<or> uri_octet n = [37, hex_code (n div 16), hex_code (n mod 16)]"
  by (auto simp: uri_octet_def uri_unreserved_def)

lemma uri_octet_inject:
  assumes "a < 256" "b < 256" "uri_octet a @ r = uri_octet b @ s"
  shows "a = b \<and> r = s"
  using uri_octet_cases [of a] uri_octet_cases [of b]
proof (elim disjE conjE)
  assume "uri_octet a = [37, hex_code (a div 16), hex_code (a mod 16)]"
    and "uri_octet b = [37, hex_code (b div 16), hex_code (b mod 16)]"
  with assms(3) have "hex_code (a div 16) = hex_code (b div 16)" "hex_code (a mod 16) = hex_code (b mod 16)" "r = s"
    by simp_all
  with hex_pair_inject [OF assms(1,2)] show ?thesis by simp
qed (use assms(3) in simp_all)

lemma uri_octet_not_Nil: "uri_octet n \<noteq> []"
  by (simp add: uri_octet_def)

text \<open>A concatenation of units that cannot be confused determines the units.\<close>

lemma concat_units_inject:
  assumes unit: "\<And>a b r s. P a \<Longrightarrow> P b \<Longrightarrow> f a @ r = f b @ s \<Longrightarrow> a = b \<and> r = s" and nonempty: "\<And>a. f a \<noteq> []"
  shows "list_all P xs \<Longrightarrow> list_all P ys \<Longrightarrow> concat (map f xs) = concat (map f ys) \<Longrightarrow> xs = ys"
proof (induction xs arbitrary: ys)
  case Nil
  from Nil.prems(3) show ?case by (cases ys) (simp_all add: nonempty)
next
  case (Cons x xs)
  from Cons.prems(3) obtain y ys' where ys: "ys = y # ys'" by (cases ys) (simp_all add: nonempty)
  have "P x" "P y" "f x @ concat (map f xs) = f y @ concat (map f ys')" using Cons.prems ys by simp_all
  then have "x = y \<and> concat (map f xs) = concat (map f ys')" by (rule unit)
  with ys Cons.IH [of ys'] Cons.prems show ?case by simp
qed

lemma char_code_bound: "(of_char c :: nat) < 256"
  by simp

lemma utf8_unit_range: "list_all (\<lambda>n. n < 256) (utf8_unit c)"
proof -
  have "(of_char c :: nat) div 64 < 4" using char_code_bound [of c] by linarith
  moreover have "(of_char c :: nat) mod 64 < 64" by simp
  ultimately have "192 + (of_char c :: nat) div 64 < 256" "128 + (of_char c :: nat) mod 64 < 256" by linarith+
  then show ?thesis by (simp add: utf8_unit_def Let_def)
qed

lemma utf8_unit_inject:
  assumes "utf8_unit c @ r = utf8_unit d @ s"
  shows "c = d \<and> r = s"
proof -
  let ?c = "of_char c :: nat" and ?d = "of_char d :: nat"
  consider "?c < 128" "?d < 128" | "?c < 128" "\<not> ?d < 128" | "\<not> ?c < 128" "?d < 128" | "\<not> ?c < 128" "\<not> ?d < 128"
    by blast
  then have "?c = ?d \<and> r = s"
  proof cases
    case 4
    with assms have "?c div 64 = ?d div 64" "?c mod 64 = ?d mod 64" "r = s"
      unfolding utf8_unit_def Let_def by simp_all
    then show ?thesis using same_quotient_and_rest by blast
  qed (use assms in \<open>simp_all add: utf8_unit_def Let_def\<close>)
  then show ?thesis by (metis of_char_eq_iff)
qed

lemma utf8_unit_not_Nil: "utf8_unit c \<noteq> []"
  by (simp add: utf8_unit_def Let_def)

text \<open>The encoded text is ASCII.\<close>

lemma uri_octet_ascii: "m < 256 \<Longrightarrow> list_all (\<lambda>n. n < 256) (uri_octet m)"
proof -
  assume "m < 256"
  then have "m div 16 < 201" "m mod 16 < 201" by (simp_all add: less_trans [of _ 16])
  then have "hex_code (m div 16) < 256" "hex_code (m mod 16) < 256" by (simp_all add: hex_code_def)
  then show ?thesis using \<open>m < 256\<close> by (simp add: uri_octet_def)
qed

lemma list_all_concat: "list_all P (concat xss) \<longleftrightarrow> list_all (list_all P) xss"
  by (induction xss) simp_all

lemma map_char_of_code: "list_all (\<lambda>n. n < 256) ns \<Longrightarrow> map of_char (map char_of ns :: string) = (ns :: nat list)"
  by (induction ns) simp_all

theorem encodeURIComponent_inject: "encodeURIComponent s = encodeURIComponent t \<longleftrightarrow> s = t"
proof
  let ?utf8 = "\<lambda>s. concat (map utf8_unit s)" and ?uri = "\<lambda>ns. concat (map uri_octet ns)"
  let ?octet = "\<lambda>n. n < (256 :: nat)"
  assume eq: "encodeURIComponent s = encodeURIComponent t"
  have utf8: "list_all ?octet (?utf8 s)" for s
    by (simp add: list_all_concat list_all_iff [of _ "map _ _"] utf8_unit_range)
  have "list_all ?octet (?uri ns)" if "list_all ?octet ns" for ns
    using that by (induction ns) (simp_all add: uri_octet_ascii)
  then have code: "map of_char (encodeURIComponent s) = ?uri (?utf8 s)" for s
    unfolding encodeURIComponent_def using map_char_of_code utf8 by blast
  have "?uri (?utf8 s) = ?uri (?utf8 t)" using eq code [of s] code [of t] by simp
  then have "?utf8 s = ?utf8 t"
    using concat_units_inject [of ?octet uri_octet "?utf8 s" "?utf8 t", OF uri_octet_inject uri_octet_not_Nil]
      utf8 [of s] utf8 [of t] by metis
  then show "s = t"
    using concat_units_inject [of "\<lambda>_. True" utf8_unit s t, OF utf8_unit_inject utf8_unit_not_Nil]
    by (simp add: list_all_iff)
qed simp

end
