(* ===== verification/SnapshotCodec.thy ===== *)
theory SnapshotCodec
  imports PersistenceSchema UriText
begin

section \<open>Snapshots as JSON values, and the Memento storage\<close>

text \<open>
  \<open>packages/vscode/src/persistence/workspace-snapshot-codec.ts\<close>, which writes the overlay files as
  base64 text, and \<open>memento-workspace-storage.ts\<close>. The Memento of the editor is not in the
  repository: its \<open>get\<close> and \<open>update\<close> are a parameter, and the laws the storage relies on are the
  hypotheses \<open>memento_laws\<close>. The pair of a path and a base64 text is the stored form of a file.
\<close>

type_synonym stored_content = "path \<times> string"

subsection \<open>The codec\<close>

definition encodeBase64 :: "bytes \<Rightarrow> string" where
  "encodeBase64 content = btoa (map byte_char content)"

definition decodeBase64 :: "string \<Rightarrow> bytes res" where
  "decodeBase64 s = (case atob s of None \<Rightarrow> persistence_invalid | Some binary \<Rightarrow> Inr (map char_byte binary))"

fun requireContentBase64 :: "jsval \<Rightarrow> string res" where
  "requireContentBase64 (JStr s) = Inr s"
| "requireContentBase64 v = persistence_invalid"

definition js_content :: "stored_content \<Rightarrow> jsval" where
  "js_content f = JObj [(''path'', JStr (fst f)), (''contentBase64'', JStr (snd f))]"

definition encodeWorkspaceSnapshot :: "workspace_snapshot \<Rightarrow> jsval" where
  "encodeWorkspaceSnapshot snapshot =
     js_stored_workspace 1 js_content (stored_of (\<lambda>path content. (path, encodeBase64 content)) snapshot)"

definition parseStoredContent :: "jsval \<Rightarrow> stored_content res" where
  "parseStoredContent v = andThen (requireRecord v) (\<lambda>item.
     andThen (requireString (js_get item ''path'')) (\<lambda>path.
     andThen (requireContentBase64 (js_get item ''contentBase64'')) (\<lambda>content. Inr (path, content))))"

definition decodeContents :: "stored_content list \<Rightarrow> (path \<times> bytes) list res" where
  "decodeContents = map_res (\<lambda>(path, s). andThen (decodeBase64 s) (\<lambda>content. Inr (path, content)))"

definition decodeWorkspaceSnapshot :: "jsval \<Rightarrow> workspace_snapshot res" where
  "decodeWorkspaceSnapshot v =
     andThen (parseStoredWorkspace v 1 parseStoredContent) (toWorkspaceSnapshot decodeContents)"

subsection \<open>Memento storage\<close>

record 'd memento =
  me_get :: "string \<Rightarrow> 'd \<Rightarrow> jsval"
  me_update :: "string \<Rightarrow> jsval \<Rightarrow> ('d, unit) st"

definition memento_key :: "string \<Rightarrow> repository_id \<Rightarrow> string" where
  "memento_key namespace repositoryId =
     ''remotish.workspace.'' @ encodeURIComponent namespace @ ''.'' @ encodeURIComponent repositoryId"

definition memento_storage :: "'d memento \<Rightarrow> string \<Rightarrow> 'd storage" where
  "memento_storage memento namespace = \<lparr>
     so_load = (\<lambda>repositoryId. askS (\<lambda>d.
       let v = me_get memento (memento_key namespace repositoryId) d in
       if v = JUndefined then Inr None
       else andThen (decodeWorkspaceSnapshot v) (\<lambda>snapshot. Inr (Some snapshot)))),
     so_save = (\<lambda>repositoryId snapshot.
       me_update memento (memento_key namespace repositoryId) (encodeWorkspaceSnapshot snapshot)),
     so_delete = (\<lambda>repositoryId. me_update memento (memento_key namespace repositoryId) JUndefined)\<rparr>"

text \<open>
  What the storage relies on: an update that succeeds changes its key to the value, one that fails
  may have changed it, and no other key is touched.
\<close>

definition memento_laws :: "'d memento \<Rightarrow> bool" where
  "memento_laws memento \<longleftrightarrow> (\<forall>k v d r d'. me_update memento k v d = (r, d') \<longrightarrow>
     (\<forall>q. q \<noteq> k \<longrightarrow> me_get memento q d' = me_get memento q d) \<and>
     (case r of Inr _ \<Rightarrow> me_get memento k d' = v
      | Inl _ \<Rightarrow> me_get memento k d' = v \<or> me_get memento k d' = me_get memento k d))"

subsection \<open>What the codec stores it reads back\<close>

definition content_ok :: "stored_content \<Rightarrow> bool" where
  "content_ok f \<longleftrightarrow> fst f \<noteq> []"

lemma decode_encode_base64 [simp]: "decodeBase64 (encodeBase64 content) = Inr content"
  by (simp add: decodeBase64_def encodeBase64_def atob_btoa comp_def)

lemma requireContentBase64_Inr [simp]: "requireContentBase64 v = Inr s \<longleftrightarrow> v = JStr s"
  by (cases v) auto

lemma parse_js_content: "parseStoredContent (js_content f) = Inr g \<longleftrightarrow> content_ok f \<and> g = f"
  by (cases f; cases g) (auto simp: parseStoredContent_def js_content_def content_ok_def)

lemma decodeContents_encoded:
  "decodeContents (map (\<lambda>(path, content). (path, encodeBase64 content)) files) = Inr files"
  unfolding decodeContents_def by (induction files) auto

text \<open>Reading back the files of a stored snapshot gives the snapshot.\<close>

lemma toWorkspaceSnapshot_stored:
  assumes "\<And>files. decodeFiles (map (\<lambda>(p, c). form p c) files) = Inr files"
  shows "toWorkspaceSnapshot decodeFiles (stored_of form s) = Inr s"
proof -
  have "toBranchSnapshot decodeFiles (stored_of_branch form t) = Inr t" for t
    by (simp add: toBranchSnapshot_def stored_of_branch_def assms)
  then have "map_res (\<lambda>(name, branch). andThen (toBranchSnapshot decodeFiles branch) (\<lambda>b. Inr (name, b)))
      (map (\<lambda>(name, t). (name, stored_of_branch form t)) bs) = Inr bs" for bs
    by (induction bs) auto
  from this [of "sp_branches s"] show ?thesis by (simp add: toWorkspaceSnapshot_def stored_of_def)
qed

text \<open>A snapshot that both formats can store: what they require is that no name is empty.\<close>

definition storable_branch :: "working_tree_snapshot \<Rightarrow> bool" where
  "storable_branch t \<longleftrightarrow> ws_baseRevision t \<noteq> [] \<and>
     list_all (\<lambda>f. fst f \<noteq> []) (sn_files (ws_overlay t)) \<and>
     [] \<notin> set (sn_directories (ws_overlay t)) \<and> [] \<notin> set (sn_deletedPaths (ws_overlay t)) \<and>
     list_all (\<lambda>r. rn_from r \<noteq> [] \<and> rn_to r \<noteq> []) (sn_renames (ws_overlay t))"

definition storable :: "workspace_snapshot \<Rightarrow> bool" where
  "storable s \<longleftrightarrow> sp_selectedBranch s \<noteq> [] \<and> sp_selectedBranch s \<in> set (keys (sp_branches s)) \<and>
     distinct (keys (sp_branches s)) \<and> list_all (\<lambda>(_, t). storable_branch t) (sp_branches s) \<and>
     pending_ok (sp_selectedBranch s) (sp_pending s)"

lemma keys_stored_of [simp]: "keys (sw_branches (stored_of form s)) = keys (sp_branches s)"
  by (simp add: stored_of_def case_prod_unfold comp_def)

lemma stored_ok_iff:
  assumes "\<And>p c. ok (form p c) \<longleftrightarrow> p \<noteq> []"
  shows "stored_workspace_ok ok (stored_of form s) \<longleftrightarrow> storable s"
proof -
  have "stored_branch_ok ok (stored_of_branch form t) \<longleftrightarrow> storable_branch t" for t
    by (simp add: stored_branch_ok_def stored_of_branch_def storable_branch_def list.pred_map comp_def
        case_prod_unfold assms)
  then show ?thesis
    by (simp add: stored_workspace_ok_def storable_def stored_of_def list.pred_map comp_def case_prod_unfold)
qed

theorem decode_encode_snapshot:
  assumes "distinct (keys (sp_branches s))"
  shows "decodeWorkspaceSnapshot (encodeWorkspaceSnapshot s) = Inr t \<longleftrightarrow> storable s \<and> t = s"
proof -
  let ?form = "\<lambda>path content. (path, encodeBase64 content)"
  have ok: "stored_workspace_ok content_ok (stored_of ?form s) \<longleftrightarrow> storable s"
    by (rule stored_ok_iff) (simp add: content_ok_def)
  have "parseStoredWorkspace (encodeWorkspaceSnapshot s) 1 parseStoredContent = Inr x \<longleftrightarrow>
      storable s \<and> x = stored_of ?form s" for x
    unfolding encodeWorkspaceSnapshot_def
    using parse_js_workspace [OF parse_js_content, of "stored_of ?form s" 1 x] assms ok by simp
  moreover have "toWorkspaceSnapshot decodeContents (stored_of ?form s) = Inr s"
    by (rule toWorkspaceSnapshot_stored) (rule decodeContents_encoded)
  ultimately show ?thesis by (auto simp: decodeWorkspaceSnapshot_def)
qed

text \<open>Whatever the decoder lets through can be stored again.\<close>

lemma parseStoredContent_ok: "parseStoredContent v = Inr f \<Longrightarrow> content_ok f"
  by (auto simp: parseStoredContent_def content_ok_def)

lemma decoded_storable:
  assumes "decodeWorkspaceSnapshot v = Inr s"
  shows "storable s"
proof -
  obtain w where w: "parseStoredWorkspace v 1 parseStoredContent = Inr w"
    and s: "toWorkspaceSnapshot decodeContents w = Inr s"
    using assms by (auto simp: decodeWorkspaceSnapshot_def)
  have ok: "stored_workspace_ok content_ok w"
    using w parseStoredContent_ok by (rule parseStoredWorkspace_ok)
  obtain bs where bs: "map_res (\<lambda>(name, branch). andThen (toBranchSnapshot decodeContents branch) (\<lambda>b. Inr (name, b)))
      (sw_branches w) = Inr bs"
    and s_eq: "s = \<lparr>sp_selectedBranch = sw_selectedBranch w, sp_branches = bs, sp_pending = sw_pending w\<rparr>"
    using s by (auto simp: toWorkspaceSnapshot_def)
  have "list_all2 (\<lambda>f g. fst f = fst g) fs gs" if "decodeContents fs = Inr gs" for fs gs
    using that unfolding decodeContents_def map_res_Inr_iff by (rule list_all2_mono) auto
  then have "list_all (\<lambda>f. fst f \<noteq> []) gs" if "decodeContents fs = Inr gs" "list_all content_ok fs" for fs gs
    using that by (fastforce simp: content_ok_def list_all_length list_all2_conv_all_nth)
  then have branch: "stored_branch_ok content_ok b \<Longrightarrow> toBranchSnapshot decodeContents b = Inr t \<Longrightarrow> storable_branch t" for b t
    by (auto simp: toBranchSnapshot_def stored_branch_ok_def storable_branch_def)
  have "list_all2 (\<lambda>x y. (case x of (name, branch) \<Rightarrow>
      andThen (toBranchSnapshot decodeContents branch) (\<lambda>b. Inr (name, b))) = Inr y) us vs \<Longrightarrow>
    list_all (\<lambda>(_, b). stored_branch_ok content_ok b) us \<Longrightarrow>
    keys vs = keys us \<and> list_all (\<lambda>(_, t). storable_branch t) vs" for us vs
    by (induction us vs rule: list_all2_induct) (auto intro: branch)
  from this [OF bs [unfolded map_res_Inr_iff]] ok
  have "keys bs = keys (sw_branches w) \<and> list_all (\<lambda>(_, t). storable_branch t) bs"
    by (simp add: stored_workspace_ok_def)
  with ok show ?thesis by (simp add: storable_def s_eq stored_workspace_ok_def)
qed

subsection \<open>The encoding is injective\<close>

lemma map_inject: "(\<And>x y. f x = f y \<longleftrightarrow> x = y) \<Longrightarrow> map f xs = map f ys \<longleftrightarrow> xs = ys"
  by (induction xs arbitrary: ys) (case_tac ys; auto)+

lemma js_pending_inject: "js_pending p = js_pending q \<longleftrightarrow> p = q"
  by (cases p; cases q) auto

lemma js_branch_inject: "js_stored_branch js_content a = js_stored_branch js_content b \<longleftrightarrow> a = b"
proof -
  have "js_content f = js_content g \<longleftrightarrow> f = g" for f g by (cases f; cases g) (simp add: js_content_def)
  moreover have "js_rename q = js_rename r \<longleftrightarrow> q = r" for q r by (cases q; cases r) (simp add: js_rename_def)
  moreover have "JStr p = JStr q \<longleftrightarrow> p = q" for p q by simp
  ultimately show ?thesis
    by (cases a; cases b) (simp add: js_stored_branch_def map_inject)
qed

lemma stored_of_branch_inject:
  "stored_of_branch (\<lambda>path content. (path, encodeBase64 content)) s =
     stored_of_branch (\<lambda>path content. (path, encodeBase64 content)) t \<longleftrightarrow> s = t"
proof -
  have "inj byte_char" by (rule inj_on_inverseI [of _ char_byte]) simp
  then have "encodeBase64 a = encodeBase64 b \<longleftrightarrow> a = b" for a b
    by (simp add: encodeBase64_def btoa_inject inj_map_eq_map)
  then have "(case f of (p, c) \<Rightarrow> (p, encodeBase64 c)) = (case g of (p, c) \<Rightarrow> (p, encodeBase64 c)) \<longleftrightarrow> f = g"
    for f g :: "path \<times> bytes" by (cases f; cases g) simp
  from map_inject [where f = "\<lambda>f. case f of (p, c) \<Rightarrow> (p, encodeBase64 c)", OF this] show ?thesis
    by (cases s; cases t; cases "ws_overlay s"; cases "ws_overlay t") (auto simp: stored_of_branch_def)
qed

lemma encode_inject: "encodeWorkspaceSnapshot s = encodeWorkspaceSnapshot t \<longleftrightarrow> s = t"
proof -
  let ?form = "\<lambda>path content. (path, encodeBase64 content)"
  have "(case x of (n, b) \<Rightarrow> (n, js_stored_branch js_content (stored_of_branch ?form b))) =
      (case y of (n, b) \<Rightarrow> (n, js_stored_branch js_content (stored_of_branch ?form b))) \<longleftrightarrow> x = y" for x y
    by (cases x; cases y) (simp add: js_branch_inject stored_of_branch_inject)
  note bs = map_inject [where f = "\<lambda>x. case x of (n, b) \<Rightarrow> (n, js_stored_branch js_content (stored_of_branch ?form b))",
      OF this]
  show ?thesis
    by (cases s; cases t) (auto simp: encodeWorkspaceSnapshot_def js_stored_workspace_def stored_of_def comp_def
        case_prod_unfold bs [unfolded case_prod_unfold] js_pending_inject split: option.splits)
qed

subsection \<open>The Memento storage keeps the contract of a workspace\<close>

text \<open>What the Memento stores for a repository, whether or not it can be read back.\<close>

definition memento_stored :: "'d memento \<Rightarrow> string \<Rightarrow> 'd \<Rightarrow> repository_id \<Rightarrow> workspace_snapshot option" where
  "memento_stored memento namespace d repositoryId =
     (let v = me_get memento (memento_key namespace repositoryId) d in
      if v = JUndefined then None
      else if v \<in> encodeWorkspaceSnapshot ` {s. distinct (keys (sp_branches s))} then Some (inv encodeWorkspaceSnapshot v)
      else (case decodeWorkspaceSnapshot v of Inr s \<Rightarrow> Some s | Inl _ \<Rightarrow> None))"

lemma encoded_defined: "encodeWorkspaceSnapshot s \<noteq> JUndefined"
  by (simp add: encodeWorkspaceSnapshot_def js_stored_workspace_def)

lemma memento_stored_encoded:
  assumes "me_get memento (memento_key namespace r) d = encodeWorkspaceSnapshot s" "distinct (keys (sp_branches s))"
  shows "memento_stored memento namespace d r = Some s"
proof -
  have "inj encodeWorkspaceSnapshot" by (rule injI) (simp add: encode_inject)
  with assms show ?thesis by (auto simp: memento_stored_def Let_def encoded_defined)
qed

lemma memento_stored_decoded:
  assumes "me_get memento (memento_key namespace r) d = v" "v \<noteq> JUndefined" "decodeWorkspaceSnapshot v = Inr s"
  shows "memento_stored memento namespace d r = Some s"
proof (cases "v \<in> encodeWorkspaceSnapshot ` {s. distinct (keys (sp_branches s))}")
  case True
  then obtain t where t: "v = encodeWorkspaceSnapshot t" "distinct (keys (sp_branches t))" by blast
  with assms(3) have "s = t" by (simp add: decode_encode_snapshot)
  with memento_stored_encoded [of memento namespace r d t] t assms(1) show ?thesis by simp
qed (use assms in \<open>simp add: memento_stored_def\<close>)

lemma memento_key_inject: "memento_key n q = memento_key n r \<longleftrightarrow> q = r"
  by (simp add: memento_key_def encodeURIComponent_inject)

lemma memento_stored_cong:
  "me_get memento (memento_key namespace r) d' = me_get memento (memento_key namespace r) d \<Longrightarrow>
    memento_stored memento namespace d' r = memento_stored memento namespace d r"
  by (simp add: memento_stored_def)

theorem memento_workspace_storage:
  assumes laws: "memento_laws memento"
  shows "workspace_storage (memento_storage memento namespace) (memento_stored memento namespace)"
proof
  let ?stored = "memento_stored memento namespace" and ?so = "memento_storage memento namespace"
  show "v = ?stored s r" if "so_load ?so r s = (Inr v, s')" for r s v s'
    using that memento_stored_decoded [OF refl, of memento namespace r s]
    by (auto simp: memento_storage_def Let_def memento_stored_def split: if_splits)
  show "?stored s' = ?stored s" if "so_load ?so r s = (res, s')" for r s res s'
    using that by (simp add: memento_storage_def)
  have update: "so_save ?so r x s = (res, s') \<Longrightarrow>
      (\<forall>q. q \<noteq> memento_key namespace r \<longrightarrow> me_get memento q s' = me_get memento q s) \<and>
      (case res of Inr _ \<Rightarrow> me_get memento (memento_key namespace r) s' = encodeWorkspaceSnapshot x
       | Inl _ \<Rightarrow> me_get memento (memento_key namespace r) s' = encodeWorkspaceSnapshot x \<or>
           me_get memento (memento_key namespace r) s' = me_get memento (memento_key namespace r) s)" for r x s res s'
    using laws by (simp add: memento_laws_def memento_storage_def)
  show other: "?stored s' q = ?stored s q" if "so_save ?so r x s = (res', s')" "q \<noteq> r" for r x s s' q res'
    using update [OF that(1)] that(2) by (intro memento_stored_cong) (simp add: memento_key_inject)
  have changed: "?stored s' = (?stored s)(r \<mapsto> x)"
    if "so_save ?so r x s = (res, s')" "me_get memento (memento_key namespace r) s' = encodeWorkspaceSnapshot x"
      "distinct (keys (sp_branches x))" for r x s s' res
    using other [OF that(1)] memento_stored_encoded [OF that(2,3)] by (intro ext) simp
  show "?stored s' = (?stored s)(r \<mapsto> x)"
    if "distinct (keys (sp_branches x))" "so_save ?so r x s = (Inr u, s')" for r x s s' u
    using update [OF that(2)] by (intro changed [OF that(2) _ that(1)]) simp
  show "?stored s' = ?stored s \<or> ?stored s' = (?stored s)(r \<mapsto> x)"
    if d: "distinct (keys (sp_branches x))" and save: "so_save ?so r x s = (Inl e, s')" for r x s s' e
  proof (cases "me_get memento (memento_key namespace r) s' = encodeWorkspaceSnapshot x")
    case False
    with update [OF save] have "me_get memento (memento_key namespace r) s' = me_get memento (memento_key namespace r) s"
      by simp
    then have "?stored s' r = ?stored s r" by (rule memento_stored_cong)
    then have "?stored s' q = ?stored s q" for q using other [OF save, of q] by (cases "q = r") simp_all
    then show ?thesis by (intro disjI1 ext)
  qed (use changed [OF save _ d] in blast)
qed

text \<open>A Memento that keeps its values in a map.\<close>

definition map_memento :: "(string \<Rightarrow> jsval) memento" where
  "map_memento = \<lparr>me_get = (\<lambda>k d. d k), me_update = (\<lambda>k v d. (Inr (), d(k := v)))\<rparr>"

lemma map_memento_laws: "memento_laws map_memento"
  by (simp add: memento_laws_def map_memento_def)

interpretation in_memento: workspace_storage "memento_storage map_memento namespace" "memento_stored map_memento namespace"
  for namespace by (rule memento_workspace_storage [OF map_memento_laws])

end
