(* ===== verification/EditorFiles.thy ===== *)
theory EditorFiles
  imports JsValue
begin

section \<open>The file system of the editor and the platform\<close>

text \<open>
  \<open>vscode.workspace.fs\<close> and \<open>vscode.Uri.joinPath\<close> belong to the editor, \<open>JSON\<close>, the text encoders and
  \<open>crypto.subtle\<close> to the platform; the storage under \<open>storageUri\<close> takes them as parameters. Any operation
  may fail at any time. The laws the storage relies on are named here, with a file system that has
  them: reading changes nothing, an operation changes no file but those it names, one that succeeds has
  done what it is for. A write or a rename that fails may leave anything in the files it names.
\<close>

datatype file_type = FtFile | FtDirectory | FtOther

record ('u, 'd) file_system =
  fs_join :: "'u \<Rightarrow> string \<Rightarrow> 'u"
  fs_createDirectory :: "'u \<Rightarrow> ('d, unit) st"
  fs_stat :: "'u \<Rightarrow> ('d, nat) st"
  fs_readFile :: "'u \<Rightarrow> ('d, bytes) st"
  fs_writeFile :: "'u \<Rightarrow> bytes \<Rightarrow> ('d, unit) st"
  fs_rename :: "'u \<Rightarrow> 'u \<Rightarrow> ('d, unit) st"
  fs_delete :: "'u \<Rightarrow> bool \<Rightarrow> ('d, unit) st"
  fs_readDirectory :: "'u \<Rightarrow> ('d, (string \<times> file_type) list) st"

text \<open>\<open>JSON.stringify\<close> and \<open>TextEncoder\<close>, \<open>TextDecoder\<close> and \<open>JSON.parse\<close>, and the SHA-256 digest.\<close>

record platform =
  pl_stringify :: "jsval \<Rightarrow> bytes"
  pl_parse :: "bytes \<Rightarrow> jsval option"
  pl_digest :: "bytes \<Rightarrow> bytes"

subsection \<open>Laws\<close>

text \<open>A name that denotes an entry of a directory.\<close>

definition plain_name :: "string \<Rightarrow> bool" where
  "plain_name n \<longleftrightarrow> n \<notin> {[], ''.'', ''..''} \<and> CHR ''/'' \<notin> set n"

text \<open>
  What a disk holds, seen through the file system: the contents of the regular files, the directories,
  and how deep a location is.
\<close>

record ('u, 'd) disk_view =
  dv_file :: "'d \<Rightarrow> 'u \<Rightarrow> bytes option"
  dv_directory :: "'d \<Rightarrow> 'u \<Rightarrow> bool"
  dv_depth :: "'u \<Rightarrow> nat"

definition join_laws :: "('u, 'd) file_system \<Rightarrow> ('u, 'd) disk_view \<Rightarrow> bool" where
  "join_laws fs dv \<longleftrightarrow> (\<forall>u n. plain_name n \<longrightarrow> dv_depth dv (fs_join fs u n) = Suc (dv_depth dv u)) \<and>
     (\<forall>u v n m. plain_name n \<longrightarrow> plain_name m \<longrightarrow> fs_join fs u n = fs_join fs v m \<longrightarrow> u = v \<and> n = m)"

text \<open>Reading operations leave the files and the directories as they are.\<close>

definition reads_only :: "('u, 'd) disk_view \<Rightarrow> ('d, 'a) st \<Rightarrow> bool" where
  "reads_only dv m \<longleftrightarrow> (\<forall>d r d'. m d = (r, d') \<longrightarrow>
     dv_file dv d' = dv_file dv d \<and> dv_directory dv d' = dv_directory dv d)"

text \<open>An operation on one location: no file elsewhere changes, a new directory is that one or above it.\<close>

definition touches :: "('u, 'd) disk_view \<Rightarrow> 'u set \<Rightarrow> 'u \<Rightarrow> ('d, 'a) st \<Rightarrow> bool" where
  "touches dv us u m \<longleftrightarrow> (\<forall>d r d'. m d = (r, d') \<longrightarrow>
     (\<forall>v. v \<notin> us \<longrightarrow> dv_file dv d' v = dv_file dv d v) \<and>
     (\<forall>v. dv_directory dv d' v \<longrightarrow> dv_directory dv d v \<or> v = u \<or> dv_depth dv v < dv_depth dv u))"

definition file_system_laws :: "('u, 'd) file_system \<Rightarrow> ('u, 'd) disk_view \<Rightarrow> bool" where
  "file_system_laws fs dv \<longleftrightarrow> join_laws fs dv \<and>
     (\<forall>u. reads_only dv (fs_stat fs u) \<and> reads_only dv (fs_readFile fs u) \<and> reads_only dv (fs_readDirectory fs u)) \<and>
     (\<forall>u. touches dv {} u (fs_createDirectory fs u)) \<and>
     (\<forall>u c. touches dv {u} u (fs_writeFile fs u c)) \<and>
     (\<forall>u v. touches dv {u, v} v (fs_rename fs u v)) \<and>
     (\<forall>u. touches dv {u} u (fs_delete fs u False)) \<and>
     (\<forall>u d n d'. fs_stat fs u d = (Inr n, d') \<longrightarrow> dv_file dv d u \<noteq> None \<or> dv_directory dv d u) \<and>
     (\<forall>u d d'. fs_stat fs u d = (Inl FileNotFound, d') \<longrightarrow> dv_file dv d u = None) \<and>
     (\<forall>u d c d'. fs_readFile fs u d = (Inr c, d') \<longrightarrow> dv_file dv d u = Some c) \<and>
     (\<forall>u d d'. fs_readFile fs u d = (Inl FileNotFound, d') \<longrightarrow> dv_file dv d u = None) \<and>
     (\<forall>u c d d'. fs_writeFile fs u c d = (Inr (), d') \<longrightarrow>
        dv_file dv d' u = Some c \<and> \<not> dv_directory dv d' u) \<and>
     (\<forall>u v d d'. u \<noteq> v \<longrightarrow> fs_rename fs u v d = (Inr (), d') \<longrightarrow> dv_file dv d' v = dv_file dv d u) \<and>
     (\<forall>u d es d'. fs_readDirectory fs u d = (Inr es, d') \<longrightarrow> list_all (\<lambda>e. plain_name (fst e)) es)"

text \<open>A file system whose reads never fail on a regular file.\<close>

definition reads_work :: "('u, 'd) file_system \<Rightarrow> ('u, 'd) disk_view \<Rightarrow> bool" where
  "reads_work fs dv \<longleftrightarrow> (\<forall>u d. fs_readFile fs u d =
     ((case dv_file dv d u of None \<Rightarrow> Inl FileNotFound | Some c \<Rightarrow> Inr c), d))"

subsection \<open>A file system in memory\<close>

text \<open>A location is a list of names, the last one first; a directory exists when it has a file.\<close>

type_synonym mem_disk = "(string list \<times> bytes) list"

definition mem_entry :: "string list \<Rightarrow> string list \<times> bytes \<Rightarrow> (string \<times> file_type) list" where
  "mem_entry u f = (case fst f of [] \<Rightarrow> [] | n # v \<Rightarrow> if v = u \<and> plain_name n then [(n, FtFile)] else [])"

definition mem_files :: "(string list, mem_disk) file_system" where
  "mem_files = \<lparr>
     fs_join = (\<lambda>u n. n # u),
     fs_createDirectory = (\<lambda>u. returnS ()),
     fs_stat = (\<lambda>u d. (case map_of d u of None \<Rightarrow> Inl FileNotFound | Some c \<Rightarrow> Inr (length c), d)),
     fs_readFile = (\<lambda>u d. (case map_of d u of None \<Rightarrow> Inl FileNotFound | Some c \<Rightarrow> Inr c, d)),
     fs_writeFile = (\<lambda>u c d. (Inr (), AList.update u c d)),
     fs_rename = (\<lambda>u v d. case map_of d u of None \<Rightarrow> (Inl FileNotFound, d)
       | Some c \<Rightarrow> (Inr (), AList.update v c (AList.delete u d))),
     fs_delete = (\<lambda>u recursive d. (Inr (),
       if recursive then filter (\<lambda>f. \<not> suffix u (fst f)) d else AList.delete u d)),
     fs_readDirectory = (\<lambda>u d. (Inr (concat (map (mem_entry u) d)), d))\<rparr>"

definition mem_view :: "(string list, mem_disk) disk_view" where
  "mem_view = \<lparr>dv_file = map_of, dv_directory = (\<lambda>_ _. False), dv_depth = length\<rparr>"

lemma mem_files_laws: "file_system_laws mem_files mem_view" "reads_work mem_files mem_view"
proof -
  have "list_all (\<lambda>e. plain_name (fst e)) (concat (map (mem_entry u) d))" for u d
    by (induction d) (auto simp: mem_entry_def split: list.split)
  then show "file_system_laws mem_files mem_view"
    unfolding file_system_laws_def join_laws_def reads_only_def touches_def
    by (intro conjI allI impI) (auto simp: mem_files_def mem_view_def update_conv' split: option.splits)
  show "reads_work mem_files mem_view" by (simp add: reads_work_def mem_files_def mem_view_def)
qed

text \<open>The same file system with renames that fail and leave other bytes at their target.\<close>

definition torn_files :: "bytes \<Rightarrow> (string list, mem_disk) file_system" where
  "torn_files bs = mem_files\<lparr>fs_rename := (\<lambda>u v d. (Inl OtherError, AList.update v bs d))\<rparr>"

lemma torn_files_laws: "file_system_laws (torn_files bs) mem_view"
proof -
  have "touches mem_view {u, v} v (fs_rename (torn_files bs) u v)" for u v
    by (simp add: touches_def torn_files_def mem_view_def update_conv')
  moreover have "fst (fs_rename (torn_files bs) u v d) = Inl OtherError" for u v d
    by (simp add: torn_files_def)
  then have "fs_rename (torn_files bs) u v d \<noteq> (Inr (), d')" for u v d d'
    by (metis Inl_not_Inr fst_conv)
  moreover have "fs_join (torn_files bs) = fs_join mem_files" "fs_stat (torn_files bs) = fs_stat mem_files"
    "fs_createDirectory (torn_files bs) = fs_createDirectory mem_files"
    "fs_readFile (torn_files bs) = fs_readFile mem_files" "fs_writeFile (torn_files bs) = fs_writeFile mem_files"
    "fs_delete (torn_files bs) = fs_delete mem_files" "fs_readDirectory (torn_files bs) = fs_readDirectory mem_files"
    by (simp_all add: torn_files_def)
  ultimately show ?thesis
    using mem_files_laws(1) unfolding file_system_laws_def join_laws_def
    by (elim conjE) (intro conjI; (simp only: simp_thms | assumption))
qed

end
