(* ===== verification/StorageUri.thy ===== *)
theory StorageUri
  imports SnapshotCodec EditorFiles
begin

section \<open>Workspaces under the storage directory of the extension\<close>

text \<open>
  \<open>packages/vscode/src/persistence/storage-uri-workspace-codec.ts\<close> and
  \<open>storage-uri-workspace-storage.ts\<close>: the contents of the overlay files are blobs named by their hash, a
  generation of a workspace is a manifest named by the hash of its text, and two pointer files name the
  current and the previous generation. The writes of one \<open>Promise.all\<close> run in order here, each to its
  end. Exceptions keep their kind only; \<open>getDiagnostics\<close>, which changes nothing, is not modelled.
\<close>

record blob_ref =
  br_sha256 :: string
  br_size :: nat

type_synonym stored_blob = "path \<times> blob_ref"

subsection \<open>Hashes\<close>

definition hex_lower :: "nat \<Rightarrow> char" where
  "hex_lower n = char_of (if n < 10 then 48 + n else 87 + n)"

text \<open>\<open>byte.toString(16).padStart(2, '0')\<close> for every byte of the digest.\<close>

definition hashBytes :: "platform \<Rightarrow> bytes \<Rightarrow> string" where
  "hashBytes pl content =
     concat (map (\<lambda>b. [hex_lower (unat b div 16), hex_lower (unat b mod 16)]) (pl_digest pl content))"

definition is_hash :: "string \<Rightarrow> bool" where
  "is_hash s \<longleftrightarrow> length s = 64 \<and> list_all (\<lambda>c. let n = (of_char c :: nat) in (97 \<le> n \<and> n \<le> 102) \<or> (48 \<le> n \<and> n \<le> 57)) s"

fun isHash :: "jsval \<Rightarrow> bool" where
  "isHash (JStr s) = is_hash s"
| "isHash v = False"

subsection \<open>Manifests\<close>

definition js_blob :: "stored_blob \<Rightarrow> jsval" where
  "js_blob f = JObj [(''path'', JStr (fst f)),
     (''blob'', JObj [(''sha256'', JStr (br_sha256 (snd f))), (''size'', jnat (br_size (snd f)))])]"

definition parseStoredBlob :: "jsval \<Rightarrow> stored_blob res" where
  "parseStoredBlob v = andThen (requireRecord v) (\<lambda>item.
     andThen (requireRecord (js_get item ''blob'')) (\<lambda>blob.
     andThen (requireString (js_get blob ''sha256'')) (\<lambda>sha256.
     if \<not> is_hash sha256 then persistence_invalid
     else andThen (requireString (js_get item ''path'')) (\<lambda>path.
     andThen (requireSafeNat (js_get blob ''size'')) (\<lambda>size.
       Inr (path, \<lparr>br_sha256 = sha256, br_size = size\<rparr>))))))"

definition requireStorageUriWorkspaceManifest :: "jsval \<Rightarrow> stored_blob stored_workspace res" where
  "requireStorageUriWorkspaceManifest v = parseStoredWorkspace v 2 parseStoredBlob"

definition encodeBranchManifest ::
  "(bytes \<Rightarrow> ('d, blob_ref) st) \<Rightarrow> working_tree_snapshot \<Rightarrow> ('d, stored_blob stored_branch) st" where
  "encodeBranchManifest storeBlob t =
     bindS (allS (map (\<lambda>(path, content). bindS (storeBlob content) (\<lambda>blob. returnS (path, blob)))
       (sn_files (ws_overlay t)))) (\<lambda>files.
     returnS \<lparr>sb_baseRevision = ws_baseRevision t, sb_files = files,
       sb_directories = sn_directories (ws_overlay t), sb_deletedPaths = sn_deletedPaths (ws_overlay t),
       sb_renames = sn_renames (ws_overlay t)\<rparr>)"

definition encodeStorageUriWorkspaceManifest ::
  "(bytes \<Rightarrow> ('d, blob_ref) st) \<Rightarrow> workspace_snapshot \<Rightarrow> ('d, stored_blob stored_workspace) st" where
  "encodeStorageUriWorkspaceManifest storeBlob snapshot =
     bindS (mapS (\<lambda>(name, t). bindS (encodeBranchManifest storeBlob t) (\<lambda>b. returnS (name, b)))
       (sp_branches snapshot)) (\<lambda>branches.
     returnS \<lparr>sw_selectedBranch = sp_selectedBranch snapshot, sw_branches = branches,
       sw_pending = sp_pending snapshot\<rparr>)"

definition js_manifest :: "stored_blob stored_workspace \<Rightarrow> jsval" where
  "js_manifest w = js_stored_workspace 2 js_blob w"

definition decodeBranchManifest ::
  "(blob_ref \<Rightarrow> ('d, bytes) st) \<Rightarrow> stored_blob stored_branch \<Rightarrow> ('d, working_tree_snapshot) st" where
  "decodeBranchManifest readBlob b =
     bindS (allS (map (\<lambda>(path, blob). bindS (readBlob blob) (\<lambda>content. returnS (path, content))) (sb_files b))) (\<lambda>files.
     returnS \<lparr>ws_baseRevision = sb_baseRevision b, ws_overlay = \<lparr>sn_files = files,
       sn_directories = sb_directories b, sn_deletedPaths = sb_deletedPaths b, sn_renames = sb_renames b\<rparr>\<rparr>)"

definition decodeStorageUriWorkspaceManifest ::
  "jsval \<Rightarrow> (blob_ref \<Rightarrow> ('d, bytes) st) \<Rightarrow> ('d, workspace_snapshot) st" where
  "decodeStorageUriWorkspaceManifest v readBlob =
     bindS (askS (\<lambda>_. requireStorageUriWorkspaceManifest v)) (\<lambda>stored.
     bindS (mapS (\<lambda>(name, b). bindS (decodeBranchManifest readBlob b) (\<lambda>t. returnS (name, t)))
       (sw_branches stored)) (\<lambda>branches.
     returnS \<lparr>sp_selectedBranch = sw_selectedBranch stored, sp_branches = branches, sp_pending = sw_pending stored\<rparr>))"

definition referencedStorageBlobIds :: "jsval \<Rightarrow> string list res" where
  "referencedStorageBlobIds v = andThen (requireStorageUriWorkspaceManifest v) (\<lambda>stored.
     Inr (remdups (concat (map (\<lambda>(_, b). map (\<lambda>f. br_sha256 (snd f)) (sb_files b)) (sw_branches stored)))))"

subsection \<open>Locations\<close>

record ('u, 'd) store =
  st_files :: "('u, 'd) file_system"
  st_platform :: platform

abbreviation join :: "('u, 'd) store \<Rightarrow> 'u \<Rightarrow> string \<Rightarrow> 'u" where
  "join st \<equiv> fs_join (st_files st)"

definition repositoryRoot :: "('u, 'd) store \<Rightarrow> 'u \<Rightarrow> string \<Rightarrow> repository_id \<Rightarrow> 'u" where
  "repositoryRoot st storageRoot namespace repositoryId =
     join st (join st storageRoot (encodeURIComponent namespace)) (encodeURIComponent repositoryId)"

definition manifestsRoot :: "('u, 'd) store \<Rightarrow> 'u \<Rightarrow> 'u" where
  "manifestsRoot st rr = join st rr ''manifests''"

definition blobsRoot :: "('u, 'd) store \<Rightarrow> 'u \<Rightarrow> 'u" where
  "blobsRoot st rr = join st rr ''blobs''"

definition manifestUri :: "('u, 'd) store \<Rightarrow> 'u \<Rightarrow> string \<Rightarrow> 'u" where
  "manifestUri st rr generation = join st (manifestsRoot st rr) (generation @ ''.json'')"

definition blobUri :: "('u, 'd) store \<Rightarrow> 'u \<Rightarrow> string \<Rightarrow> 'u" where
  "blobUri st rr sha256 = join st (blobsRoot st rr) (sha256 @ ''.bin'')"

subsection \<open>Pointers\<close>

record pointer =
  po_current :: string
  po_previous :: "string option"

definition js_pointer :: "pointer \<Rightarrow> jsval" where
  "js_pointer p = JObj ((''version'', jnat 1) # (''current'', JStr (po_current p)) #
     (case po_previous p of None \<Rightarrow> [] | Some g \<Rightarrow> [(''previous'', JStr g)]))"

definition js_text :: "jsval \<Rightarrow> string" where
  "js_text v = (case v of JStr s \<Rightarrow> s | _ \<Rightarrow> [])"

definition requirePointer :: "jsval \<Rightarrow> pointer res" where
  "requirePointer v =
     (if \<not> is_record v then persistence_invalid
      else if js_get v ''version'' \<noteq> jnat 1 \<or> \<not> isHash (js_get v ''current'') then persistence_invalid
      else if js_get v ''previous'' \<noteq> JUndefined \<and> \<not> isHash (js_get v ''previous'') then persistence_invalid
      else Inr \<lparr>po_current = js_text (js_get v ''current''),
        po_previous = if js_get v ''previous'' = JUndefined then None else Some (js_text (js_get v ''previous''))\<rparr>)"

definition parseJson :: "platform \<Rightarrow> bytes \<Rightarrow> jsval res" where
  "parseJson pl content = (case pl_parse pl content of None \<Rightarrow> persistence_invalid | Some v \<Rightarrow> Inr v)"

definition POINTER_FILE :: string where
  "POINTER_FILE = ''current.json''"

definition BACKUP_POINTER_FILE :: string where
  "BACKUP_POINTER_FILE = ''current.backup.json''"

definition readPointerFile :: "('u, 'd) store \<Rightarrow> 'u \<Rightarrow> string \<Rightarrow> ('d, pointer) st" where
  "readPointerFile st rr fileName =
     bindS (fs_readFile (st_files st) (join st rr fileName)) (\<lambda>content.
     askS (\<lambda>_. andThen (parseJson (st_platform st) content) requirePointer))"

definition readPointer :: "('u, 'd) store \<Rightarrow> 'u \<Rightarrow> ('d, pointer option) st" where
  "readPointer st rr =
     catchS (bindS (readPointerFile st rr POINTER_FILE) (\<lambda>p. returnS (Some p))) (\<lambda>primaryError.
     catchS (bindS (readPointerFile st rr BACKUP_POINTER_FILE) (\<lambda>p. returnS (Some p))) (\<lambda>backupError.
       if primaryError = FileNotFound \<and> backupError = FileNotFound then returnS None
       else throwS OtherError))"

definition temporaryUri :: "('u, 'd) store \<Rightarrow> 'u \<Rightarrow> string \<Rightarrow> string \<Rightarrow> 'u" where
  "temporaryUri st rr fileName generation = join st rr (fileName @ ''.'' @ generation @ ''.tmp'')"

definition writePointerFile :: "('u, 'd) store \<Rightarrow> 'u \<Rightarrow> string \<Rightarrow> pointer \<Rightarrow> ('d, unit) st" where
  "writePointerFile st rr fileName p =
     (let target = join st rr fileName; temporary = temporaryUri st rr fileName (po_current p) in
      bindS (fs_writeFile (st_files st) temporary (pl_stringify (st_platform st) (js_pointer p))) (\<lambda>_.
      onErrorS (fs_rename (st_files st) temporary target) (ignoreS (fs_delete (st_files st) temporary False))))"

definition writePointer :: "('u, 'd) store \<Rightarrow> 'u \<Rightarrow> pointer \<Rightarrow> ('d, unit) st" where
  "writePointer st rr p =
     bindS (fs_createDirectory (st_files st) rr) (\<lambda>_.
     bindS (writePointerFile st rr BACKUP_POINTER_FILE p) (\<lambda>_. writePointerFile st rr POINTER_FILE p))"

subsection \<open>Blobs and generations\<close>

definition writeFileIfMissing :: "('u, 'd) store \<Rightarrow> 'u \<Rightarrow> bytes \<Rightarrow> ('d, unit) st" where
  "writeFileIfMissing st uri content = (\<lambda>d. case fs_stat (st_files st) uri d of
     (Inr _, d') \<Rightarrow> (Inr (), d')
   | (Inl e, d') \<Rightarrow> if e = FileNotFound then fs_writeFile (st_files st) uri content d' else (Inl e, d'))"

definition storeBlob :: "('u, 'd) store \<Rightarrow> 'u \<Rightarrow> bytes \<Rightarrow> ('d, blob_ref) st" where
  "storeBlob st rr content =
     (let sha256 = hashBytes (st_platform st) content in
      bindS (writeFileIfMissing st (blobUri st rr sha256) content) (\<lambda>_.
      returnS \<lparr>br_sha256 = sha256, br_size = length content\<rparr>))"

definition readBlob :: "('u, 'd) store \<Rightarrow> 'u \<Rightarrow> blob_ref \<Rightarrow> ('d, bytes) st" where
  "readBlob st rr blob =
     bindS (fs_readFile (st_files st) (blobUri st rr (br_sha256 blob))) (\<lambda>content.
     if length content \<noteq> br_size blob then throwS OtherError
     else if hashBytes (st_platform st) content \<noteq> br_sha256 blob then throwS OtherError
     else returnS content)"

definition loadGeneration :: "('u, 'd) store \<Rightarrow> 'u \<Rightarrow> string \<Rightarrow> ('d, workspace_snapshot) st" where
  "loadGeneration st rr generation =
     bindS (fs_readFile (st_files st) (manifestUri st rr generation)) (\<lambda>manifestContent.
     if hashBytes (st_platform st) manifestContent \<noteq> generation then throwS OtherError
     else bindS (askS (\<lambda>_. parseJson (st_platform st) manifestContent)) (\<lambda>manifest.
       decodeStorageUriWorkspaceManifest manifest (readBlob st rr)))"

subsection \<open>Removing what is no longer referenced\<close>

text \<open>\<open>name.endsWith(end)\<close> and \<open>name.slice(0, -end.length)\<close>.\<close>

definition endsWith :: "string \<Rightarrow> string \<Rightarrow> bool" where
  "endsWith name ending \<longleftrightarrow> suffix ending name"

definition dropEnd :: "string \<Rightarrow> string \<Rightarrow> string" where
  "dropEnd name ending = take (length name - length ending) name"

definition collectFiles :: "('u, 'd) store \<Rightarrow> 'u \<Rightarrow> string \<Rightarrow> (string \<Rightarrow> bool) \<Rightarrow> ('d, unit) st" where
  "collectFiles st directory ending retained =
     bindS (fs_readDirectory (st_files st) directory) (\<lambda>entries. forS entries (\<lambda>(name, t).
       if t \<noteq> FtFile \<or> \<not> endsWith name ending then returnS ()
       else if retained (dropEnd name ending) then returnS ()
       else fs_delete (st_files st) (join st directory name) False))"

definition previousBlobs :: "('u, 'd) store \<Rightarrow> 'u \<Rightarrow> string \<Rightarrow> ('d, string list) st" where
  "previousBlobs st rr previous =
     bindS (fs_readFile (st_files st) (manifestUri st rr previous)) (\<lambda>content.
     askS (\<lambda>_. andThen (parseJson (st_platform st) content) referencedStorageBlobIds))"

definition garbageCollect :: "('u, 'd) store \<Rightarrow> 'u \<Rightarrow> pointer \<Rightarrow> jsval \<Rightarrow> ('d, unit) st" where
  "garbageCollect st rr p currentManifest =
     bindS (askS (\<lambda>_. referencedStorageBlobIds currentManifest)) (\<lambda>currentBlobs.
     bindS (case po_previous p of
         None \<Rightarrow> returnS (Some [])
       | Some previous \<Rightarrow>
           catchS (bindS (previousBlobs st rr previous) (\<lambda>ids. returnS (Some ids))) (\<lambda>_. returnS None)) (\<lambda>previousIds.
     case previousIds of
       None \<Rightarrow> returnS ()
     | Some ids \<Rightarrow>
         bindS (collectFiles st (manifestsRoot st rr) ''.json'' (\<lambda>g. g = po_current p \<or> po_previous p = Some g)) (\<lambda>_.
         bindS (collectFiles st (blobsRoot st rr) ''.bin'' (\<lambda>h. h \<in> set currentBlobs \<or> h \<in> set ids)) (\<lambda>_.
         collectFiles st rr ''.tmp'' (\<lambda>_. False)))))"

subsection \<open>Loading, saving and deleting\<close>

text \<open>The object: the last valid generation of each repository, and the disk it works on.\<close>

record 'd storage_state =
  su_last :: "(repository_id \<times> string) list"
  su_disk :: 'd

definition diskS :: "('d, 'a) st \<Rightarrow> ('d storage_state, 'a) st" where
  "diskS m = (\<lambda>s. case m (su_disk s) of (r, d) \<Rightarrow> (r, s\<lparr>su_disk := d\<rparr>))"

definition setLast :: "repository_id \<Rightarrow> string \<Rightarrow> ('d storage_state, unit) st" where
  "setLast repositoryId generation = modifyS (\<lambda>s. Inr (s\<lparr>su_last := AList.update repositoryId generation (su_last s)\<rparr>))"

definition su_load :: "('u, 'd) store \<Rightarrow> ('u) \<Rightarrow> repository_id \<Rightarrow> ('d storage_state, workspace_snapshot option) st" where
  "su_load st rr repositoryId =
     bindS (diskS (readPointer st rr)) (\<lambda>found. case found of
       None \<Rightarrow> returnS None
     | Some p \<Rightarrow>
         catchS (bindS (diskS (loadGeneration st rr (po_current p))) (\<lambda>snapshot.
             bindS (setLast repositoryId (po_current p)) (\<lambda>_. returnS (Some snapshot)))) (\<lambda>currentError.
         case po_previous p of
           None \<Rightarrow> throwS currentError
         | Some previous \<Rightarrow>
             catchS (bindS (diskS (loadGeneration st rr previous)) (\<lambda>snapshot.
                 bindS (setLast repositoryId previous) (\<lambda>_.
                 bindS (ignoreS (diskS (writePointer st rr \<lparr>po_current = previous, po_previous = None\<rparr>))) (\<lambda>_.
                 returnS (Some snapshot))))) (\<lambda>_. throwS OtherError)))"

definition su_save :: "('u, 'd) store \<Rightarrow> 'u \<Rightarrow> repository_id \<Rightarrow> workspace_snapshot \<Rightarrow> ('d storage_state, unit) st" where
  "su_save st rr repositoryId snapshot =
     bindS (diskS (allS [fs_createDirectory (st_files st) (manifestsRoot st rr),
       fs_createDirectory (st_files st) (blobsRoot st rr)])) (\<lambda>_.
     bindS (diskS (encodeStorageUriWorkspaceManifest (storeBlob st rr) snapshot)) (\<lambda>manifest.
     let manifestContent = pl_stringify (st_platform st) (js_manifest manifest);
         generation = hashBytes (st_platform st) manifestContent in
     bindS (diskS (writeFileIfMissing st (manifestUri st rr generation) manifestContent)) (\<lambda>_.
     bindS (diskS (readPointer st rr)) (\<lambda>onDiskPointer.
     bindS (askS (\<lambda>s. Inr (case map_of (su_last s) repositoryId of
         Some g \<Rightarrow> Some g | None \<Rightarrow> map_option po_current onDiskPointer))) (\<lambda>previous.
     let p = \<lparr>po_current = generation, po_previous =
         (case previous of None \<Rightarrow> None | Some g \<Rightarrow> if g \<noteq> [] \<and> g \<noteq> generation then Some g else None)\<rparr> in
     bindS (diskS (writePointer st rr p)) (\<lambda>_.
     bindS (setLast repositoryId generation) (\<lambda>_.
     ignoreS (diskS (garbageCollect st rr p (js_manifest manifest))))))))))"

definition su_delete :: "('u, 'd) store \<Rightarrow> 'u \<Rightarrow> repository_id \<Rightarrow> ('d storage_state, unit) st" where
  "su_delete st rr repositoryId =
     catchS (bindS (diskS (fs_delete (st_files st) rr True)) (\<lambda>_.
       modifyS (\<lambda>s. Inr (s\<lparr>su_last := AList.delete repositoryId (su_last s)\<rparr>)))) (\<lambda>e.
     if e = FileNotFound then returnS () else throwS e)"

text \<open>\<open>StorageUriWorkspaceStorage\<close> under a root and a name space.\<close>

definition storage_uri_storage :: "('u, 'd) store \<Rightarrow> 'u \<Rightarrow> string \<Rightarrow> 'd storage_state storage" where
  "storage_uri_storage st storageRoot namespace = \<lparr>
     so_load = (\<lambda>repositoryId. su_load st (repositoryRoot st storageRoot namespace repositoryId) repositoryId),
     so_save = (\<lambda>repositoryId. su_save st (repositoryRoot st storageRoot namespace repositoryId) repositoryId),
     so_delete = (\<lambda>repositoryId. su_delete st (repositoryRoot st storageRoot namespace repositoryId) repositoryId)\<rparr>"

end
