(* ===== verification/Outcomes.thy ===== *)
theory Outcomes
  imports Environment
begin

section \<open>Computations with two outcomes\<close>

text \<open>
  Triples for code that mutates and may throw: from a state with the precondition a value comes with
  the postcondition, and an exception leaves a state with the exceptional one.
\<close>

definition triple :: "('s \<Rightarrow> bool) \<Rightarrow> ('s, 'a) st \<Rightarrow> ('a \<Rightarrow> 's \<Rightarrow> bool) \<Rightarrow> ('s \<Rightarrow> bool) \<Rightarrow> bool" where
  "triple P m Q E \<longleftrightarrow> (\<forall>s r t. P s \<longrightarrow> m s = (r, t) \<longrightarrow> (case r of Inr x \<Rightarrow> Q x t | Inl e \<Rightarrow> E t))"

lemma tripleI:
  "(\<And>s x t. P s \<Longrightarrow> m s = (Inr x, t) \<Longrightarrow> Q x t) \<Longrightarrow> (\<And>s e t. P s \<Longrightarrow> m s = (Inl e, t) \<Longrightarrow> E t) \<Longrightarrow> triple P m Q E"
  by (auto simp: triple_def split: sum.split)

lemma tripleD:
  assumes "triple P m Q E" and "m s = (r, t)" and "P s"
  shows "case r of Inr x \<Rightarrow> Q x t | Inl e \<Rightarrow> E t"
  using assms unfolding triple_def by blast

lemma triple_Inr: "triple P m Q E \<Longrightarrow> m s = (Inr x, t) \<Longrightarrow> P s \<Longrightarrow> Q x t"
  by (drule tripleD, assumption, assumption) simp

lemma triple_Inl: "triple P m Q E \<Longrightarrow> m s = (Inl e, t) \<Longrightarrow> P s \<Longrightarrow> E t"
  by (drule tripleD, assumption, assumption) simp

lemma triple_conseq:
  assumes "triple P m Q E" and "\<And>s. P' s \<Longrightarrow> P s" and "\<And>x s. Q x s \<Longrightarrow> Q' x s" and "\<And>s. E s \<Longrightarrow> E' s"
  shows "triple P' m Q' E'"
  using assms by (intro tripleI) (blast dest: triple_Inr triple_Inl)+

lemma triple_weaken: "triple P m Q E \<Longrightarrow> (\<And>x s. Q x s \<Longrightarrow> Q' x s) \<Longrightarrow> (\<And>s. E s \<Longrightarrow> E' s) \<Longrightarrow> triple P m Q' E'"
  by (rule triple_conseq)

lemma triple_strengthen: "triple P m Q E \<Longrightarrow> (\<And>s. P' s \<Longrightarrow> P s) \<Longrightarrow> triple P' m Q E"
  by (rule triple_conseq)

lemma triple_bind:
  assumes m: "triple P m Q E" and f: "\<And>x. triple (Q x) (f x) R E"
  shows "triple P (bindS m f) R E"
proof -
  have "case r of Inr y \<Rightarrow> R y t | Inl e \<Rightarrow> E t" if "P s" and run: "bindS m f s = (r, t)" for s r t
  proof -
    obtain r1 s1 where s1: "m s = (r1, s1)" by fastforce
    show ?thesis
    proof (cases r1)
      case (Inl e)
      with run s1 triple_Inl [OF m] that(1) show ?thesis by (auto simp: bindS_apply)
    next
      case (Inr x)
      with run s1 have "f x s1 = (r, t)" by (simp add: bindS_apply)
      then show ?thesis using f triple_Inr [OF m] s1 Inr that(1) by (blast intro: tripleD)
    qed
  qed
  then show ?thesis by (simp add: triple_def)
qed

lemma triple_return: "(\<And>s. P s \<Longrightarrow> Q x s) \<Longrightarrow> triple P (returnS x) Q E"
  by (intro tripleI) auto

lemma triple_throw: "(\<And>s. P s \<Longrightarrow> E s) \<Longrightarrow> triple P (throwS e) Q E"
  by (intro tripleI) auto

lemma triple_ask: "(\<And>s x. P s \<Longrightarrow> f s = Inr x \<Longrightarrow> Q x s) \<Longrightarrow> (\<And>s. P s \<Longrightarrow> E s) \<Longrightarrow> triple P (askS f) Q E"
  by (intro tripleI) auto

lemma triple_modify:
  "(\<And>s t. P s \<Longrightarrow> f s = Inr t \<Longrightarrow> Q () t) \<Longrightarrow> (\<And>s. P s \<Longrightarrow> E s) \<Longrightarrow> triple P (modifyS f) Q E"
  by (intro tripleI) (auto simp: modifyS_apply split: sum.splits)

lemma triple_if:
  "(b \<Longrightarrow> triple P m Q E) \<Longrightarrow> (\<not> b \<Longrightarrow> triple P n Q E) \<Longrightarrow> triple P (if b then m else n) Q E"
  by simp

lemma triple_preserves: "preserves P m \<Longrightarrow> triple P m (\<lambda>_. P) P"
  by (auto simp: triple_def preserves_def split: sum.split)

lemma triple_conj:
  "triple P m Q E \<Longrightarrow> triple P' m Q' E' \<Longrightarrow>
    triple (\<lambda>s. P s \<and> P' s) m (\<lambda>x s. Q x s \<and> Q' x s) (\<lambda>s. E s \<and> E' s)"
  by (intro tripleI) (blast dest: triple_Inr triple_Inl)+

lemma triple_const: "(c \<Longrightarrow> triple P m Q E) \<Longrightarrow> triple (\<lambda>s. c \<and> P s) m (\<lambda>x s. c \<and> Q x s) E"
  by (cases c) (simp_all add: tripleI)

lemma triple_assume: "(c \<Longrightarrow> triple P m Q E) \<Longrightarrow> triple (\<lambda>s. c \<and> P s) m Q E"
  by (cases c) (simp_all add: tripleI)

text \<open>What every state keeps goes along.\<close>

lemma triple_frame:
  "triple P m Q E \<Longrightarrow> preserves F m \<Longrightarrow>
    triple (\<lambda>s. P s \<and> F s) m (\<lambda>x s. Q x s \<and> F s) (\<lambda>s. E s \<and> F s)"
  using triple_conj triple_preserves by blast

lemma triple_ignore:
  "triple P m (\<lambda>_. Q) Q \<Longrightarrow> triple P (ignoreS m) (\<lambda>_. Q) E"
proof -
  assume m: "triple P m (\<lambda>_. Q) Q"
  have "Q (snd (m s))" if "P s" for s
    using tripleD [OF m _ that] by (cases "m s"; cases "fst (m s)") fastforce+
  then show ?thesis by (intro tripleI) (auto simp: ignoreS_apply)
qed

text \<open>A clean-up after an exception.\<close>

lemma triple_onError:
  assumes "triple P m Q E" and "triple E cleanup (\<lambda>_. E') E'"
  shows "triple P (onErrorS m cleanup) Q E'"
proof -
  have "case r of Inr y \<Rightarrow> Q y t | Inl e \<Rightarrow> E' t" if "P s" and run: "onErrorS m cleanup s = (r, t)" for s r t
  proof -
    obtain r1 s1 where s1: "m s = (r1, s1)" by fastforce
    obtain r2 s2 where s2: "cleanup s1 = (r2, s2)" by fastforce
    show ?thesis
    proof (cases r1)
      case (Inl e)
      then have "E s1" using triple_Inl [OF assms(1)] s1 that(1) by blast
      then have "E' s2" using tripleD [OF assms(2) s2] by (cases r2) simp_all
      with run s1 s2 Inl show ?thesis by (cases r2) (auto simp: onErrorS_def)
    qed (use run s1 triple_Inr [OF assms(1)] that(1) in \<open>auto simp: onErrorS_def\<close>)
  qed
  then show ?thesis by (simp add: triple_def)
qed

text \<open>\<open>Promise.all\<close>: every computation has run; all of them succeeded when it does.\<close>

lemma triple_all:
  assumes "\<And>x D. x \<in> set xs \<Longrightarrow> triple (P D) (f x) (\<lambda>y s. y = g x \<and> P (insert x D) s) (\<lambda>_. True)"
  shows "triple (P D) (allS (map f xs)) (\<lambda>ys s. ys = map g xs \<and> P (D \<union> set xs) s) (\<lambda>_. True)"
  using assms
proof (induction xs arbitrary: D)
  case Nil
  show ?case by (intro tripleI) auto
next
  case (Cons x xs)
  have head: "triple (P D) (f x) (\<lambda>y s. y = g x \<and> P (insert x D) s) (\<lambda>_. True)" by (rule Cons.prems) simp
  have tail: "triple (P (insert x D)) (allS (map f xs)) (\<lambda>ys s. ys = map g xs \<and> P (insert x D \<union> set xs) s) (\<lambda>_. True)"
    by (rule Cons.IH) (rule Cons.prems, simp)
  have "ys = map g (x # xs) \<and> P (D \<union> set (x # xs)) t"
    if "P D s" "allS (map f (x # xs)) s = (Inr ys, t)" for s ys t
  proof -
    obtain r1 s1 rs s2 where s1: "f x s = (r1, s1)" and s2: "allS (map f xs) s1 = (rs, s2)" by fastforce
    with that(2) obtain y zs where "r1 = Inr y" "rs = Inr zs" "ys = y # zs" "t = s2" by auto
    with s1 s2 triple_Inr [OF head _ that(1)] triple_Inr [OF tail] show ?thesis by fastforce
  qed
  then show ?case by (intro tripleI) (blast, simp)
qed

end
