(* ===== verification/StorageUriFacts.thy ===== *)
theory StorageUriFacts
  imports StorageUri Outcomes
begin

section \<open>Stored generations survive\<close>

text \<open>
  What the files under a repository's directory hold, how loading reads it, and that saving keeps the
  generation of the pointer until the new one is complete. The new generation is assumed to find no
  other file under its names: the hash keeps the contents involved apart and no earlier write of them
  was torn.
\<close>

subsection \<open>The manifest of a snapshot\<close>

definition ref_of :: "platform \<Rightarrow> bytes \<Rightarrow> blob_ref" where
  "ref_of pl content = \<lparr>br_sha256 = hashBytes pl content, br_size = length content\<rparr>"

definition manifest_of :: "platform \<Rightarrow> workspace_snapshot \<Rightarrow> stored_blob stored_workspace" where
  "manifest_of pl s = stored_of (\<lambda>path content. (path, ref_of pl content)) s"

definition manifest_text :: "platform \<Rightarrow> workspace_snapshot \<Rightarrow> bytes" where
  "manifest_text pl s = pl_stringify pl (js_manifest (manifest_of pl s))"

definition generation_of :: "platform \<Rightarrow> workspace_snapshot \<Rightarrow> string" where
  "generation_of pl s = hashBytes pl (manifest_text pl s)"

definition contents_of :: "workspace_snapshot \<Rightarrow> bytes list" where
  "contents_of s = concat (map (\<lambda>(_, t). map snd (sn_files (ws_overlay t))) (sp_branches s))"

text \<open>What the platform does: a digest of 32 bytes, and JSON that can be read again.\<close>

definition json_keeps :: "platform \<Rightarrow> jsval \<Rightarrow> bool" where
  "json_keeps pl v \<longleftrightarrow> pl_parse pl (pl_stringify pl v) = Some v"

definition pointer_ok :: "pointer \<Rightarrow> bool" where
  "pointer_ok p \<longleftrightarrow> is_hash (po_current p) \<and> (case po_previous p of None \<Rightarrow> True | Some g \<Rightarrow> is_hash g)"

definition platform_laws :: "platform \<Rightarrow> bool" where
  "platform_laws pl \<longleftrightarrow> (\<forall>c. length (pl_digest pl c) = 32) \<and>
     (\<forall>p. pointer_ok p \<longrightarrow> json_keeps pl (js_pointer p))"

definition manifest_ok :: "platform \<Rightarrow> workspace_snapshot \<Rightarrow> bool" where
  "manifest_ok pl s \<longleftrightarrow> storable s \<and> list_all (\<lambda>c. int (length c) \<le> max_safe_integer) (contents_of s) \<and>
     json_keeps pl (js_manifest (manifest_of pl s))"

definition blob_ok :: "stored_blob \<Rightarrow> bool" where
  "blob_ok f \<longleftrightarrow> fst f \<noteq> [] \<and> is_hash (br_sha256 (snd f)) \<and> int (br_size (snd f)) \<le> max_safe_integer"

lemma hash_digits: "n < 16 \<Longrightarrow> let k = (of_char (hex_lower n) :: nat) in (97 \<le> k \<and> k \<le> 102) \<or> (48 \<le> k \<and> k \<le> 57)"
  by (auto simp: hex_lower_def Let_def)

lemma hashBytes_hash: "platform_laws pl \<Longrightarrow> is_hash (hashBytes pl c)"
proof -
  assume pl: "platform_laws pl"
  have "length (concat (map (\<lambda>b. [hex_lower (unat b div 16), hex_lower (unat b mod 16)]) bs)) = 2 * length bs"
    for bs :: bytes by (induction bs) simp_all
  moreover have "list_all (\<lambda>c. let n = (of_char c :: nat) in (97 \<le> n \<and> n \<le> 102) \<or> (48 \<le> n \<and> n \<le> 57))
      (concat (map (\<lambda>b. [hex_lower (unat b div 16), hex_lower (unat b mod 16)]) bs))" for bs :: bytes
  proof (induction bs)
    case (Cons b bs)
    have "unat b < 256" using unsigned_less [where w = b] by simp
    then have "unat b div 16 < 16" by linarith
    then show ?case using Cons.IH hash_digits [of "unat b div 16"] hash_digits [of "unat b mod 16"] by simp
  qed simp
  ultimately show ?thesis using pl by (simp add: is_hash_def hashBytes_def platform_laws_def)
qed

lemma requireSafeNat_jnat: "requireSafeNat (jnat n) = Inr m \<longleftrightarrow> int n \<le> max_safe_integer \<and> m = n"
proof (cases "int n \<le> max_safe_integer")
  case False
  have "safe_integer (JFin (of_nat n)) \<noteq> Some i" for i
    using safe_integer_bound [of "JFin (of_nat n)" i] safe_integer_Some [of "JFin (of_nat n)" i] False by auto
  then have "safe_integer (JFin (of_nat n)) = None" by auto
  with False show ?thesis by (simp add: jnat_def)
qed (auto simp: jnat_def)

lemma parse_js_blob: "parseStoredBlob (js_blob f) = Inr g \<longleftrightarrow> blob_ok f \<and> g = f"
proof -
  have "is_hash s \<Longrightarrow> s \<noteq> []" for s by (auto simp: is_hash_def)
  then show ?thesis
    by (cases f; cases "snd f"; cases g)
      (auto simp: parseStoredBlob_def js_blob_def blob_ok_def requireSafeNat_jnat)
qed

lemma require_manifest:
  assumes "distinct (keys (sw_branches w))"
  shows "requireStorageUriWorkspaceManifest (js_manifest w) = Inr x \<longleftrightarrow> stored_workspace_ok blob_ok w \<and> x = w"
  unfolding requireStorageUriWorkspaceManifest_def js_manifest_def
  using parse_js_workspace [OF parse_js_blob assms] .

lemma manifest_of_sel [simp]:
  "sw_selectedBranch (manifest_of pl s) = sp_selectedBranch s" "sw_pending (manifest_of pl s) = sp_pending s"
  "keys (sw_branches (manifest_of pl s)) = keys (sp_branches s)"
  unfolding manifest_of_def by simp_all (simp_all add: stored_of_def)

lemma manifest_branches:
  "sw_branches (manifest_of pl s) = map (\<lambda>(name, t). (name, stored_of_branch (\<lambda>p c. (p, ref_of pl c)) t)) (sp_branches s)"
  by (simp add: manifest_of_def stored_of_def)

lemma contents_of_iff: "c \<in> set (contents_of s) \<longleftrightarrow>
    (\<exists>b \<in> set (sp_branches s). \<exists>f \<in> set (sn_files (ws_overlay (snd b))). c = snd f)"
  by (auto simp: contents_of_def case_prod_unfold)

lemma contents_ofI: "b \<in> set (sp_branches s) \<Longrightarrow> f \<in> set (sn_files (ws_overlay (snd b))) \<Longrightarrow> snd f \<in> set (contents_of s)"
  by (auto simp: contents_of_iff)

lemma manifest_of_ok:
  assumes "platform_laws pl" "manifest_ok pl s"
  shows "requireStorageUriWorkspaceManifest (js_manifest (manifest_of pl s)) = Inr (manifest_of pl s)"
proof -
  have storable: "storable s" and sizes: "\<forall>c \<in> set (contents_of s). int (length c) \<le> max_safe_integer"
    using assms(2) by (auto simp: manifest_ok_def list_all_iff)
  have "stored_branch_ok blob_ok (stored_of_branch (\<lambda>p c. (p, ref_of pl c)) t)"
    if "storable_branch t" "\<forall>f \<in> set (sn_files (ws_overlay t)). int (length (snd f)) \<le> max_safe_integer" for t
    using that hashBytes_hash [OF assms(1)]
    by (auto simp: stored_branch_ok_def stored_of_branch_def storable_branch_def blob_ok_def ref_of_def list_all_iff)
  moreover have "storable_branch (snd b)" if "b \<in> set (sp_branches s)" for b
    using that storable by (auto simp: storable_def list_all_iff)
  moreover have "\<forall>f \<in> set (sn_files (ws_overlay (snd b))). int (length (snd f)) \<le> max_safe_integer"
    if "b \<in> set (sp_branches s)" for b
    using that sizes contents_ofI by blast
  ultimately have "list_all (\<lambda>(_, b). stored_branch_ok blob_ok b) (sw_branches (manifest_of pl s))"
    by (simp add: manifest_branches list_all_iff case_prod_unfold)
  with storable have "stored_workspace_ok blob_ok (manifest_of pl s)"
    by (simp add: stored_workspace_ok_def storable_def)
  with storable show ?thesis by (simp add: require_manifest storable_def)
qed

subsection \<open>Loading a generation\<close>

text \<open>A complete generation: its manifest and every blob it refers to are there.\<close>

definition complete :: "('u, 'd) store \<Rightarrow> 'u \<Rightarrow> ('u \<Rightarrow> bytes option) \<Rightarrow> workspace_snapshot \<Rightarrow> bool" where
  "complete st rr files s \<longleftrightarrow> manifest_ok (st_platform st) s \<and>
     files (manifestUri st rr (generation_of (st_platform st) s)) = Some (manifest_text (st_platform st) s) \<and>
     (\<forall>c \<in> set (contents_of s). files (blobUri st rr (hashBytes (st_platform st) c)) = Some c)"

lemma readFile_works: "reads_work fs dv \<Longrightarrow>
    fs_readFile fs u d = ((case dv_file dv d u of None \<Rightarrow> Inl FileNotFound | Some c \<Rightarrow> Inr c), d)"
  by (simp add: reads_work_def)

lemma readBlob_stored:
  assumes "reads_work (st_files st) dv" "dv_file dv d (blobUri st rr (hashBytes (st_platform st) c)) = Some c"
  shows "readBlob st rr (ref_of (st_platform st) c) d = (Inr c, d)"
  using assms by (simp add: readBlob_def bindS_apply readFile_works ref_of_def)

lemma decode_branch_stored:
  assumes "reads_work (st_files st) dv"
    and "\<forall>f \<in> set (sn_files (ws_overlay t)). dv_file dv d (blobUri st rr (hashBytes (st_platform st) (snd f))) = Some (snd f)"
  shows "decodeBranchManifest (readBlob st rr) (stored_of_branch (\<lambda>p c. (p, ref_of (st_platform st) c)) t) d = (Inr t, d)"
proof -
  have "allS (map (\<lambda>(path, blob). bindS (readBlob st rr blob) (\<lambda>content. returnS (path, content)))
      (map (\<lambda>(p, c). (p, ref_of (st_platform st) c)) fs)) d = (Inr fs, d)"
    if "\<forall>f \<in> set fs. dv_file dv d (blobUri st rr (hashBytes (st_platform st) (snd f))) = Some (snd f)" for fs
    using that by (induction fs) (auto simp: bindS_apply readBlob_stored [OF assms(1)])
  from this [OF assms(2)] show ?thesis
    by (simp add: decodeBranchManifest_def stored_of_branch_def bindS_apply)
qed

lemma load_complete:
  assumes reads: "reads_work (st_files st) dv" and pl: "platform_laws (st_platform st)"
    and complete: "complete st rr (dv_file dv d) s"
  shows "loadGeneration st rr (generation_of (st_platform st) s) d = (Inr s, d)"
proof -
  let ?pl = "st_platform st"
  have ok: "manifest_ok ?pl s" using complete by (simp add: complete_def)
  then have json: "parseJson ?pl (manifest_text ?pl s) = Inr (js_manifest (manifest_of ?pl s))"
    by (simp add: parseJson_def manifest_text_def manifest_ok_def json_keeps_def)
  have "mapS (\<lambda>(name, b). bindS (decodeBranchManifest (readBlob st rr) b) (\<lambda>t. returnS (name, t)))
      (map (\<lambda>(name, t). (name, stored_of_branch (\<lambda>p c. (p, ref_of ?pl c)) t)) bs) d = (Inr bs, d)"
    if "set bs \<subseteq> set (sp_branches s)" for bs
    using that
  proof (induction bs)
    case (Cons b bs)
    then have "\<forall>f \<in> set (sn_files (ws_overlay (snd b))). dv_file dv d (blobUri st rr (hashBytes ?pl (snd f))) = Some (snd f)"
      using complete contents_ofI [of b s] by (simp add: complete_def)
    with Cons show ?case by (cases b) (simp add: bindS_apply decode_branch_stored [OF reads])
  qed simp
  then have "decodeStorageUriWorkspaceManifest (js_manifest (manifest_of ?pl s)) (readBlob st rr) d = (Inr s, d)"
    by (simp add: decodeStorageUriWorkspaceManifest_def bindS_apply manifest_of_ok [OF pl ok] manifest_branches)
  with complete json show ?thesis
    by (simp add: loadGeneration_def bindS_apply readFile_works [OF reads] complete_def generation_of_def)
qed

text \<open>What a disk holds for a repository: nothing, or the generation the primary pointer names.\<close>

definition holds :: "('u, 'd) store \<Rightarrow> 'u \<Rightarrow> ('u \<Rightarrow> bytes option) \<Rightarrow> workspace_snapshot option \<Rightarrow> bool" where
  "holds st rr files s = (case s of
     None \<Rightarrow> files (join st rr POINTER_FILE) = None \<and> files (join st rr BACKUP_POINTER_FILE) = None
   | Some t \<Rightarrow> (\<exists>p. pointer_ok p \<and> po_current p = generation_of (st_platform st) t \<and>
       files (join st rr POINTER_FILE) = Some (pl_stringify (st_platform st) (js_pointer p)) \<and> complete st rr files t))"

text \<open>The bytes of a pointer file as a pointer, and a file without a readable pointer.\<close>

definition pointer_in :: "platform \<Rightarrow> bytes \<Rightarrow> pointer res" where
  "pointer_in pl c = andThen (parseJson pl c) requirePointer"

definition no_pointer :: "platform \<Rightarrow> bytes option \<Rightarrow> bool" where
  "no_pointer pl file \<longleftrightarrow> (case file of None \<Rightarrow> True | Some c \<Rightarrow> (\<exists>e. pointer_in pl c = Inl e))"

text \<open>
  A pointer file of \<open>files\<close> whose bytes are new and read as a pointer to another generation than \<open>g\<close>.
  Nobody writes such bytes during a save of \<open>g\<close>; only a rename that fails could make them up.
\<close>

definition made_up :: "('u, 'd) store \<Rightarrow> 'u \<Rightarrow> string \<Rightarrow> ('u \<Rightarrow> bytes option) \<Rightarrow> ('u \<Rightarrow> bytes option) \<Rightarrow> bool" where
  "made_up st rr g before files \<longleftrightarrow> (\<exists>n \<in> {POINTER_FILE, BACKUP_POINTER_FILE}. \<exists>c p.
     files (join st rr n) = Some c \<and> before (join st rr n) \<noteq> Some c \<and>
     pointer_in (st_platform st) c = Inr p \<and> po_current p \<noteq> g)"

text \<open>
  The names of a snapshot's files are free for it: each is absent or holds what it is to hold, and its
  contents have different hashes.
\<close>

definition room_for :: "('u, 'd) store \<Rightarrow> 'u \<Rightarrow> ('u \<Rightarrow> bytes option) \<Rightarrow> ('u \<Rightarrow> bool) \<Rightarrow> workspace_snapshot \<Rightarrow> bool" where
  "room_for st rr files directory s \<longleftrightarrow>
     (let pl = st_platform st; m = manifestUri st rr (generation_of pl s) in
      inj_on (hashBytes pl) (set (contents_of s)) \<and>
      \<not> directory m \<and> files m \<in> {None, Some (manifest_text pl s)} \<and>
      (\<forall>c \<in> set (contents_of s). \<not> directory (blobUri st rr (hashBytes pl c)) \<and>
        files (blobUri st rr (hashBytes pl c)) \<in> {None, Some c}))"

subsection \<open>Locations do not collide\<close>

lemma hash_plain: "is_hash g \<Longrightarrow> g \<noteq> [] \<and> CHR ''/'' \<notin> set g"
  by (auto simp: is_hash_def list_all_iff)

lemma plain_names:
  "plain_name ''manifests''" "plain_name ''blobs''" "plain_name POINTER_FILE" "plain_name BACKUP_POINTER_FILE"
  by (simp_all add: plain_name_def POINTER_FILE_def BACKUP_POINTER_FILE_def)

lemma plain_append: "CHR ''/'' \<notin> set a \<Longrightarrow> CHR ''/'' \<notin> set b \<Longrightarrow> 2 < length b \<Longrightarrow> plain_name (a @ b)"
proof -
  assume "CHR ''/'' \<notin> set a" "CHR ''/'' \<notin> set b" "2 < length b"
  moreover from this have "length (a @ b) \<noteq> length s" if "s \<in> {[], ''.'', ''..''}" for s :: string
    using that by auto
  then have "a @ b \<notin> {[], ''.'', ''..''}" by metis
  ultimately show ?thesis by (simp add: plain_name_def)
qed

lemma plain_hash_names:
  assumes "is_hash g"
  shows "plain_name (g @ ''.json'')" "plain_name (g @ ''.bin'')"
    "CHR ''/'' \<notin> set f \<Longrightarrow> plain_name (f @ ''.'' @ g @ ''.tmp'')"
  using hash_plain [OF assms] plain_append [of g "''.json''"] plain_append [of g "''.bin''"]
    plain_append [of "f @ ''.'' @ g" "''.tmp''"] by simp_all

locale file_store =
  fixes st :: "('u, 'd) store" and dv :: "('u, 'd) disk_view" and rr :: 'u
  assumes files: "file_system_laws (st_files st) dv" and platform: "platform_laws (st_platform st)"
begin

abbreviation manifest :: "string \<Rightarrow> 'u" where
  "manifest g \<equiv> manifestUri st rr g"

abbreviation blob :: "string \<Rightarrow> 'u" where
  "blob h \<equiv> blobUri st rr h"

abbreviation primary :: 'u where
  "primary \<equiv> join st rr POINTER_FILE"

abbreviation backup :: 'u where
  "backup \<equiv> join st rr BACKUP_POINTER_FILE"

abbreviation hash :: "bytes \<Rightarrow> string" where
  "hash \<equiv> hashBytes (st_platform st)"

lemma joins: "join_laws (st_files st) dv"
  using files by (simp add: file_system_laws_def)

lemma join_eq: "plain_name n \<Longrightarrow> plain_name m \<Longrightarrow> join st u n = join st v m \<longleftrightarrow> u = v \<and> n = m"
  using joins unfolding join_laws_def by blast

lemma join_depth: "plain_name n \<Longrightarrow> dv_depth dv (join st u n) = Suc (dv_depth dv u)"
  using joins unfolding join_laws_def by blast

lemma hash_ok [simp]: "is_hash (hash c)"
  by (rule hashBytes_hash [OF platform])

lemma depths:
  "dv_depth dv (manifestsRoot st rr) = Suc (dv_depth dv rr)" "dv_depth dv (blobsRoot st rr) = Suc (dv_depth dv rr)"
  "is_hash g \<Longrightarrow> dv_depth dv (manifest g) = Suc (Suc (dv_depth dv rr))"
  "is_hash g \<Longrightarrow> dv_depth dv (blob g) = Suc (Suc (dv_depth dv rr))"
  "dv_depth dv primary = Suc (dv_depth dv rr)" "dv_depth dv backup = Suc (dv_depth dv rr)"
  by (simp_all add: manifestsRoot_def blobsRoot_def manifestUri_def blobUri_def join_depth plain_names plain_hash_names)

lemma temporary_depth:
  "is_hash g \<Longrightarrow> CHR ''/'' \<notin> set f \<Longrightarrow> dv_depth dv (temporaryUri st rr f g) = Suc (dv_depth dv rr)"
  unfolding temporaryUri_def by (rule join_depth) (rule plain_hash_names(3))

lemma locations:
  "is_hash g \<Longrightarrow> is_hash h \<Longrightarrow> manifest g \<noteq> blob h"
  "is_hash g \<Longrightarrow> is_hash h \<Longrightarrow> manifest g = manifest h \<longleftrightarrow> g = h"
  "is_hash g \<Longrightarrow> is_hash h \<Longrightarrow> blob g = blob h \<longleftrightarrow> g = h"
  "primary \<noteq> backup"
  "is_hash g \<Longrightarrow> CHR ''/'' \<notin> set f \<Longrightarrow> temporaryUri st rr f g \<noteq> primary"
  "is_hash g \<Longrightarrow> CHR ''/'' \<notin> set f \<Longrightarrow> temporaryUri st rr f g \<noteq> backup"
proof -
  show "is_hash g \<Longrightarrow> is_hash h \<Longrightarrow> manifest g \<noteq> blob h"
    by (simp add: manifestUri_def blobUri_def manifestsRoot_def blobsRoot_def join_eq plain_names plain_hash_names)
  show "is_hash g \<Longrightarrow> is_hash h \<Longrightarrow> manifest g = manifest h \<longleftrightarrow> g = h"
    by (simp add: manifestUri_def join_eq plain_hash_names)
  show "is_hash g \<Longrightarrow> is_hash h \<Longrightarrow> blob g = blob h \<longleftrightarrow> g = h"
    by (simp add: blobUri_def join_eq plain_hash_names)
  show "primary \<noteq> backup" by (simp add: join_eq plain_names) (simp add: POINTER_FILE_def BACKUP_POINTER_FILE_def)
  have "f @ ''.'' @ g @ ''.tmp'' \<noteq> POINTER_FILE \<and> f @ ''.'' @ g @ ''.tmp'' \<noteq> BACKUP_POINTER_FILE"
    using arg_cong [of "f @ ''.'' @ g @ ''.tmp''" _ last] by (auto simp: POINTER_FILE_def BACKUP_POINTER_FILE_def)
  then show "is_hash g \<Longrightarrow> CHR ''/'' \<notin> set f \<Longrightarrow> temporaryUri st rr f g \<noteq> primary"
    and "is_hash g \<Longrightarrow> CHR ''/'' \<notin> set f \<Longrightarrow> temporaryUri st rr f g \<noteq> backup"
    unfolding temporaryUri_def using join_eq [OF plain_hash_names(3) plain_names(3)]
      join_eq [OF plain_hash_names(3) plain_names(4)] by blast+
qed

text \<open>Files that stay as they are, and files that get the contents meant for them.\<close>

abbreviation kept :: "'u set \<Rightarrow> ('u \<Rightarrow> bytes option) \<Rightarrow> 'd \<Rightarrow> bool" where
  "kept us f d \<equiv> \<forall>u \<in> us. dv_file dv d u = f u"

abbreviation arriving :: "'u set \<Rightarrow> ('u \<Rightarrow> bytes option) \<Rightarrow> 'u set \<Rightarrow> 'd \<Rightarrow> bool" where
  "arriving ts target ws d \<equiv> \<forall>u \<in> ts. \<not> dv_directory dv d u \<and>
     (dv_file dv d u = target u \<or> u \<notin> ws \<and> dv_file dv d u = None)"

lemma reads [simp]:
  "reads_only dv (fs_stat (st_files st) u)" "reads_only dv (fs_readFile (st_files st) u)"
  "reads_only dv (fs_readDirectory (st_files st) u)"
  using files by (simp_all add: file_system_laws_def)

lemma writes:
  "touches dv {} u (fs_createDirectory (st_files st) u)" "touches dv {u} u (fs_writeFile (st_files st) u c)"
  "touches dv {u, v} v (fs_rename (st_files st) u v)" "touches dv {u} u (fs_delete (st_files st) u False)"
  using files by (simp_all add: file_system_laws_def)

lemma kept_reads: "reads_only dv m \<Longrightarrow> preserves (kept us f) m"
  unfolding preserves_def reads_only_def by fastforce

lemma arriving_reads: "reads_only dv m \<Longrightarrow> preserves (arriving ts target ws) m"
  unfolding preserves_def reads_only_def by fastforce

lemma kept_touches: "touches dv vs u m \<Longrightarrow> vs \<inter> us = {} \<Longrightarrow> preserves (kept us f) m"
  unfolding preserves_def touches_def by (metis disjoint_iff)

lemma arriving_touches:
  assumes "touches dv vs u m" and "vs \<inter> ts = {}" and "u \<notin> ts" and "\<forall>t \<in> ts. dv_depth dv u \<le> dv_depth dv t"
  shows "preserves (arriving ts target ws) m"
proof -
  have "arriving ts target ws d'" if "arriving ts target ws d" "m d = (r, d')" for d r d'
  proof
    fix t assume t: "t \<in> ts"
    then have "t \<notin> vs" "t \<noteq> u" "\<not> dv_depth dv t < dv_depth dv u" using assms(2-4) by (auto simp: not_less)
    with assms(1) that(2) have "dv_file dv d' t = dv_file dv d t" "dv_directory dv d' t \<longrightarrow> dv_directory dv d t"
      unfolding touches_def by blast+
    with that(1) t show "\<not> dv_directory dv d' t \<and>
      (dv_file dv d' t = target t \<or> t \<notin> ws \<and> dv_file dv d' t = None)" by simp
  qed
  then show ?thesis unfolding preserves_def by blast
qed

lemma stat_found: "fs_stat (st_files st) u d = (Inr n, d') \<Longrightarrow> dv_file dv d u \<noteq> None \<or> dv_directory dv d u"
  and stat_missing: "fs_stat (st_files st) u d = (Inl FileNotFound, d') \<Longrightarrow> dv_file dv d u = None"
  using files by (simp_all add: file_system_laws_def)

lemma stat_same:
  assumes "fs_stat (st_files st) u d = (r, d')"
  shows "dv_file dv d' = dv_file dv d" "dv_directory dv d' = dv_directory dv d"
  using assms reads(1) unfolding reads_only_def by blast+

lemma written: "fs_writeFile (st_files st) u c d = (Inr (), d') \<Longrightarrow> dv_file dv d' u = Some c \<and> \<not> dv_directory dv d' u"
  using files by (auto simp: file_system_laws_def)

lemma renamed: "u \<noteq> v \<Longrightarrow> fs_rename (st_files st) u v d = (Inr (), d') \<Longrightarrow> dv_file dv d' v = dv_file dv d u"
  using files by (simp_all add: file_system_laws_def)

lemma listed: "fs_readDirectory (st_files st) u d = (Inr es, d') \<Longrightarrow> list_all (\<lambda>e. plain_name (fst e)) es"
  using files unfolding file_system_laws_def by blast

text \<open>A file that is there is never written.\<close>

lemma kept_writeFileIfMissing:
  assumes "u \<in> us \<longrightarrow> f u \<noteq> None"
  shows "preserves (kept us f) (writeFileIfMissing st u c)"
proof -
  have "kept us f d'" if kept: "kept us f d" and run: "writeFileIfMissing st u c d = (r, d')" for d r d'
  proof -
    obtain r1 d1 where d1: "fs_stat (st_files st) u d = (r1, d1)" by fastforce
    have kept1: "kept us f d1" using preservesD [OF kept_reads [OF reads(1)] d1 kept] .
    show ?thesis
    proof (cases "r1 = Inl FileNotFound")
      case True
      with d1 stat_missing have "dv_file dv d u = None" by blast
      with assms kept have "u \<notin> us" by auto
      then have "preserves (kept us f) (fs_writeFile (st_files st) u c)" using kept_touches [OF writes(2)] by simp
      moreover have "fs_writeFile (st_files st) u c d1 = (r, d')" using run d1 True by (simp add: writeFileIfMissing_def)
      ultimately show ?thesis using kept1 by (rule preservesD)
    next
      case False
      with run d1 have "d' = d1" by (auto simp: writeFileIfMissing_def split: sum.splits if_splits)
      with kept1 show ?thesis by simp
    qed
  qed
  then show ?thesis unfolding preserves_def by blast
qed

lemma arriving_writeFileIfMissing:
  assumes u: "u \<in> ts" "target u = Some c" and depth: "\<forall>t \<in> ts. dv_depth dv t = dv_depth dv u"
  shows "triple (arriving ts target ws) (writeFileIfMissing st u c) (\<lambda>_. arriving ts target (insert u ws)) (\<lambda>_. True)"
proof (intro tripleI)
  fix d x d' assume pre: "arriving ts target ws d" and run: "writeFileIfMissing st u c d = (Inr x, d')"
  obtain r1 d1 where d1: "fs_stat (st_files st) u d = (r1, d1)" by fastforce
  note same = stat_same [OF d1]
  show "arriving ts target (insert u ws) d'"
  proof (cases r1)
    case (Inr n)
    with stat_found d1 pre u have "dv_file dv d u = target u" by fastforce
    moreover have "d' = d1" using run d1 Inr by (simp add: writeFileIfMissing_def)
    ultimately show ?thesis using pre same by auto
  next
    case (Inl e)
    with run d1 have w: "fs_writeFile (st_files st) u c d1 = (Inr (), d')"
      by (auto simp: writeFileIfMissing_def split: if_splits)
    have "\<not> dv_directory dv d' t \<and> (dv_file dv d' t = target t \<or> t \<notin> insert u ws \<and> dv_file dv d' t = None)"
      if t: "t \<in> ts" for t
    proof (cases "t = u")
      case True
      with written [OF w] u show ?thesis by simp
    next
      case False
      then have "dv_file dv d' t = dv_file dv d1 t" "dv_directory dv d' t \<longrightarrow> dv_directory dv d1 t"
        using writes(2) [of u c] w depth t unfolding touches_def by fastforce+
      with pre t same False show ?thesis by auto
    qed
    then show ?thesis by blast
  qed
qed simp

subsection \<open>The steps of a save\<close>

text \<open>The files of a snapshot and what they are to hold.\<close>

abbreviation targets :: "workspace_snapshot \<Rightarrow> 'u set" where
  "targets s \<equiv> insert (manifest (generation_of (st_platform st) s)) ((\<lambda>c. blob (hash c)) ` set (contents_of s))"

definition target_of :: "workspace_snapshot \<Rightarrow> 'u \<Rightarrow> bytes option" where
  "target_of s u = (if u = manifest (generation_of (st_platform st) s) then Some (manifest_text (st_platform st) s)
     else map_of (map (\<lambda>c. (blob (hash c), c)) (contents_of s)) u)"

lemma generation_hash [simp]: "is_hash (generation_of (st_platform st) s)"
  by (simp add: generation_of_def)

lemma target_blob:
  assumes "inj_on hash (set (contents_of s))" and "c \<in> set (contents_of s)"
  shows "target_of s (blob (hash c)) = Some c"
proof -
  have "map_of (map (\<lambda>c. (blob (hash c), c)) cs) (blob (hash c)) = Some c"
    if "inj_on hash (set cs)" "c \<in> set cs" for cs
    using that by (induction cs) (auto simp: locations(3) inj_on_def)
  from this [OF assms] show ?thesis
    using locations(1) [of "generation_of (st_platform st) s" "hash c"] by (auto simp: target_of_def)
qed

lemma target_depth: "u \<in> targets s \<Longrightarrow> dv_depth dv u = Suc (Suc (dv_depth dv rr))"
  by (auto simp: depths)

lemma storeBlob_triple:
  assumes "inj_on hash (set (contents_of s))" and "c \<in> set (contents_of s)"
  shows "triple (arriving (targets s) (target_of s) ws) (storeBlob st rr c)
    (\<lambda>y d. y = ref_of (st_platform st) c \<and> arriving (targets s) (target_of s) (insert (blob (hash c)) ws) d) (\<lambda>_. True)"
  unfolding storeBlob_def Let_def
proof (rule triple_bind)
  show "triple (arriving (targets s) (target_of s) ws) (writeFileIfMissing st (blob (hash c)) c)
      (\<lambda>_. arriving (targets s) (target_of s) (insert (blob (hash c)) ws)) (\<lambda>_. True)"
    using assms by (intro arriving_writeFileIfMissing) (auto simp: target_blob depths)
qed (rule triple_return, simp add: ref_of_def)

lemma encode_branch_triple:
  assumes "inj_on hash (set (contents_of s))" and b: "b \<in> set (sp_branches s)"
  shows "triple (arriving (targets s) (target_of s) ((\<lambda>c. blob (hash c)) ` cs))
    (encodeBranchManifest (storeBlob st rr) (snd b))
    (\<lambda>y d. y = stored_of_branch (\<lambda>p c. (p, ref_of (st_platform st) c)) (snd b) \<and>
      arriving (targets s) (target_of s) ((\<lambda>c. blob (hash c)) ` (cs \<union> snd ` set (sn_files (ws_overlay (snd b))))) d)
    (\<lambda>_. True)"
proof -
  let ?A = "\<lambda>cs. arriving (targets s) (target_of s) ((\<lambda>c. blob (hash c)) ` cs)"
  let ?fs = "sn_files (ws_overlay (snd b))"
  let ?store = "\<lambda>(path, content). bindS (storeBlob st rr content) (\<lambda>blob. returnS (path, blob))"
  let ?ref = "\<lambda>(p, c). (p, ref_of (st_platform st) c)"
  have one: "triple (?A (cs \<union> snd ` D)) (?store f) (\<lambda>y d. y = ?ref f \<and> ?A (cs \<union> snd ` insert f D) d) (\<lambda>_. True)"
    if f: "f \<in> set ?fs" for f D
  proof -
    obtain p c where pc: "f = (p, c)" by (cases f)
    have "c \<in> set (contents_of s)" using contents_ofI [OF b f] pc by simp
    note store = storeBlob_triple [OF assms(1) this, of "(\<lambda>c. blob (hash c)) ` (cs \<union> snd ` D)"]
    have eq: "insert (blob (hash c)) ((\<lambda>c. blob (hash c)) ` (cs \<union> snd ` D)) =
        (\<lambda>c. blob (hash c)) ` (cs \<union> snd ` insert f D)" by (simp add: pc)
    show ?thesis unfolding pc prod.case
      by (rule triple_bind [OF store], unfold eq [unfolded pc], rule triple_return) simp
  qed
  have all: "triple (?A cs) (allS (map ?store ?fs)) (\<lambda>ys d. ys = map ?ref ?fs \<and> ?A (cs \<union> snd ` set ?fs) d) (\<lambda>_. True)"
    using triple_all [where P = "\<lambda>D. ?A (cs \<union> snd ` D)" and xs = ?fs and D = "{}", OF one]
    by (simp only: image_empty Un_empty_right Un_empty_left)
  show ?thesis
    unfolding encodeBranchManifest_def
    by (rule triple_bind [OF all], rule triple_return) (simp add: stored_of_branch_def)
qed

lemma encode_triple:
  assumes "inj_on hash (set (contents_of s))"
  shows "triple (arriving (targets s) (target_of s) {}) (encodeStorageUriWorkspaceManifest (storeBlob st rr) s)
    (\<lambda>w d. w = manifest_of (st_platform st) s \<and>
      arriving (targets s) (target_of s) ((\<lambda>c. blob (hash c)) ` set (contents_of s)) d) (\<lambda>_. True)"
proof -
  let ?A = "\<lambda>cs. arriving (targets s) (target_of s) ((\<lambda>c. blob (hash c)) ` cs)"
  let ?m = "\<lambda>(name, t). bindS (encodeBranchManifest (storeBlob st rr) t) (\<lambda>b. returnS (name, b))"
  let ?stored = "\<lambda>(name, t). (name, stored_of_branch (\<lambda>p c. (p, ref_of (st_platform st) c)) t)"
  let ?contents = "\<lambda>bs. set (concat (map (\<lambda>(_, t). map snd (sn_files (ws_overlay t))) bs))"
  have loop: "set bs \<subseteq> set (sp_branches s) \<Longrightarrow>
      triple (?A cs) (mapS ?m bs) (\<lambda>ys d. ys = map ?stored bs \<and> ?A (cs \<union> ?contents bs) d) (\<lambda>_. True)" for bs cs
  proof (induction bs arbitrary: cs)
    case Nil
    show ?case by (intro tripleI) auto
  next
    case (Cons b bs)
    obtain n t where b: "b = (n, t)" by (cases b)
    have step: "triple (?A cs) (?m b) (\<lambda>y d. y = ?stored b \<and> ?A (cs \<union> snd ` set (sn_files (ws_overlay t))) d) (\<lambda>_. True)"
      unfolding b prod.case
      by (rule triple_bind [OF encode_branch_triple [OF assms, of "(n, t)", unfolded snd_conv]])
        (use Cons.prems b in simp, rule triple_return, simp)
    have sub: "set bs \<subseteq> set (sp_branches s)" using Cons.prems by simp
    have eq: "cs \<union> snd ` set (sn_files (ws_overlay t)) \<union> ?contents bs = cs \<union> ?contents (b # bs)"
      by (auto simp: b)
    have rest: "triple (?A (cs \<union> snd ` set (sn_files (ws_overlay t)))) (mapS ?m bs)
        (\<lambda>ys d. ys = map ?stored bs \<and> ?A (cs \<union> ?contents (b # bs)) d) (\<lambda>_. True)"
      using Cons.IH [OF sub, of "cs \<union> snd ` set (sn_files (ws_overlay t))"] unfolding eq .
    show ?case
      unfolding mapS.simps
    proof (rule triple_bind [OF step], rule triple_bind)
      show "triple (\<lambda>d. y = ?stored b \<and> ?A (cs \<union> snd ` set (sn_files (ws_overlay t))) d) (mapS ?m bs)
          (\<lambda>ys d. y = ?stored b \<and> ys = map ?stored bs \<and> ?A (cs \<union> ?contents (b # bs)) d) (\<lambda>_. True)" for y
        using rest by (rule triple_const)
    qed (rule triple_return, simp)
  qed
  have "triple (?A {}) (mapS ?m (sp_branches s))
      (\<lambda>ys d. ys = map ?stored (sp_branches s) \<and> ?A (set (contents_of s)) d) (\<lambda>_. True)"
    using loop [of "sp_branches s" "{}"] by (simp add: contents_of_def)
  then show ?thesis
    unfolding encodeStorageUriWorkspaceManifest_def image_empty
    by (rule triple_bind, intro triple_return) (simp add: manifest_of_def stored_of_def)
qed

end

end
