(* ===== verification/StorageUriSaving.thy ===== *)
theory StorageUriSaving
  imports StorageUriFacts
begin

section \<open>Saving a generation\<close>

text \<open>
  The pointer files are replaced one after the other, the collection of garbage spares what the new
  pointer refers to, and so a save leaves the old generation until the new one is complete.
\<close>

lemma preserves_forS_set: "(\<And>x. x \<in> set xs \<Longrightarrow> preserves P (f x)) \<Longrightarrow> preserves P (forS xs f)"
  by (induction xs) (simp_all add: preserves_returnS preserves_bindS)

lemma preserves_triple: "triple P m (\<lambda>_. P) P \<Longrightarrow> preserves P m"
  unfolding preserves_def triple_def by (metis sum.case sum.exhaust)

lemma suffix_dropEnd: "endsWith n e \<Longrightarrow> n = dropEnd n e @ e"
  by (auto simp: endsWith_def dropEnd_def suffix_def)

lemma dropEnd_append [simp]: "dropEnd (a @ e) e = a"
  by (simp add: dropEnd_def)

lemma pointer_text:
  assumes "platform_laws pl" "pointer_ok p"
  shows "pointer_in pl (pl_stringify pl (js_pointer p)) = Inr p"
proof -
  have "json_keeps pl (js_pointer p)" using assms by (simp add: platform_laws_def)
  then have "pointer_in pl (pl_stringify pl (js_pointer p)) = requirePointer (js_pointer p)"
    by (simp add: pointer_in_def parseJson_def json_keeps_def)
  also have "\<dots> = Inr p"
    using assms(2) by (cases p) (auto simp: requirePointer_def js_pointer_def pointer_ok_def js_text_def
        persistence_invalid_def split: option.splits)
  finally show ?thesis .
qed

lemma requirePointer_ok: "requirePointer v = Inr p \<Longrightarrow> pointer_ok p"
proof -
  have "isHash w \<Longrightarrow> is_hash (js_text w)" for w by (cases w) (simp_all add: js_text_def)
  then show "requirePointer v = Inr p \<Longrightarrow> pointer_ok p"
    by (auto simp: requirePointer_def pointer_ok_def split: if_splits)
qed

context file_store
begin

lemma pointer_names [simp]: "CHR ''/'' \<notin> set POINTER_FILE" "CHR ''/'' \<notin> set BACKUP_POINTER_FILE"
  by (simp_all add: POINTER_FILE_def BACKUP_POINTER_FILE_def)

abbreviation pointer_bytes :: "pointer \<Rightarrow> bytes" where
  "pointer_bytes p \<equiv> pl_stringify (st_platform st) (js_pointer p)"

subsection \<open>Pointer files\<close>

lemma cleanup_kept: "u \<notin> us \<Longrightarrow> preserves (kept us f) (ignoreS (fs_delete (st_files st) u False))"
  by (intro preserves_ignoreS kept_touches [OF writes(4)]) simp

lemma pointer_file_kept:
  assumes "temporaryUri st rr n (po_current p) \<notin> us" "join st rr n \<notin> us"
  shows "preserves (kept us f) (writePointerFile st rr n p)"
  unfolding writePointerFile_def Let_def
  by (intro preserves_intro kept_touches [OF writes(2)] kept_touches [OF writes(3)] cleanup_kept)
    (use assms in auto)

lemma pointer_file_done:
  assumes "temporaryUri st rr n (po_current p) \<noteq> join st rr n"
  shows "triple (\<lambda>_. True) (writePointerFile st rr n p)
    (\<lambda>_ d. dv_file dv d (join st rr n) = Some (pointer_bytes p)) (\<lambda>_. True)"
  unfolding writePointerFile_def Let_def
proof (rule triple_bind)
  let ?tmp = "temporaryUri st rr n (po_current p)"
  show "triple (\<lambda>_. True) (fs_writeFile (st_files st) ?tmp (pointer_bytes p))
      (\<lambda>_ d. dv_file dv d ?tmp = Some (pointer_bytes p)) (\<lambda>_. True)"
    using written by (intro tripleI) auto
  have "triple (\<lambda>d. dv_file dv d ?tmp = Some (pointer_bytes p)) (fs_rename (st_files st) ?tmp (join st rr n))
      (\<lambda>_ d. dv_file dv d (join st rr n) = Some (pointer_bytes p)) (\<lambda>_. True)"
    using renamed [OF assms] by (intro tripleI) auto
  then show "triple (\<lambda>d. dv_file dv d ?tmp = Some (pointer_bytes p))
      (onErrorS (fs_rename (st_files st) ?tmp (join st rr n)) (ignoreS (fs_delete (st_files st) ?tmp False)))
      (\<lambda>_ d. dv_file dv d (join st rr n) = Some (pointer_bytes p)) (\<lambda>_. True)"
    by (rule triple_onError) (intro tripleI TrueI)
qed

lemma pointer_file:
  assumes "temporaryUri st rr n (po_current p) \<notin> us" "temporaryUri st rr n (po_current p) \<noteq> join st rr n"
  shows "triple (kept us f) (writePointerFile st rr n p)
    (\<lambda>_ d. dv_file dv d (join st rr n) = Some (pointer_bytes p) \<and> kept (us - {join st rr n}) f d)
    (kept (us - {join st rr n}) f)"
proof -
  have "preserves (kept (us - {join st rr n}) f) (writePointerFile st rr n p)"
    by (rule pointer_file_kept) (use assms(1) in auto)
  from triple_frame [OF pointer_file_done [OF assms(2)] this] show ?thesis
    by (rule triple_conseq) auto
qed

lemma writePointer_triple:
  assumes g: "is_hash (po_current p)" and us: "primary \<in> us" "backup \<in> us"
    and tmp: "temporaryUri st rr POINTER_FILE (po_current p) \<notin> us" "temporaryUri st rr BACKUP_POINTER_FILE (po_current p) \<notin> us"
  shows "triple (kept us f) (writePointer st rr p)
    (\<lambda>_ d. kept (us - {primary, backup}) f d \<and> dv_file dv d primary = Some (pointer_bytes p))
    (\<lambda>d. kept (us - {backup}) f d \<or>
      kept (us - {primary, backup}) f d \<and> dv_file dv d backup = Some (pointer_bytes p))"
    (is "triple _ _ ?Q ?E")
proof -
  have "preserves (kept us f) (fs_createDirectory (st_files st) rr)" by (rule kept_touches [OF writes(1)]) simp
  from triple_preserves [OF this] have create: "triple (kept us f) (fs_createDirectory (st_files st) rr) (\<lambda>_. kept us f) ?E"
    by (rule triple_weaken) (assumption, use us in auto)
  have first: "triple (kept us f) (writePointerFile st rr BACKUP_POINTER_FILE p)
      (\<lambda>_. kept us (f(backup := Some (pointer_bytes p)))) ?E"
    by (rule triple_weaken [OF pointer_file]) (use tmp us g locations in auto)
  have second: "triple (kept us (f(backup := Some (pointer_bytes p)))) (writePointerFile st rr POINTER_FILE p) ?Q ?E"
    by (rule triple_weaken [OF pointer_file]) (use tmp us g locations in auto)
  show ?thesis
    unfolding writePointer_def by (rule triple_bind [OF create triple_bind [OF first second]])
qed

subsection \<open>Reading pointers\<close>

lemma preserves_readPointer:
  assumes "\<And>u. preserves P (fs_readFile (st_files st) u)"
  shows "preserves P (readPointer st rr)"
  unfolding readPointer_def readPointerFile_def by (intro preserves_intro assms)

lemma readPointerFile_ok: "triple (\<lambda>_. True) (readPointerFile st rr n) (\<lambda>p _. pointer_ok p) (\<lambda>_. True)"
  unfolding readPointerFile_def
  by (rule triple_bind [where Q = "\<lambda>_ _. True"], intro tripleI TrueI, rule triple_ask) (auto dest: requirePointer_ok)

lemma readPointer_ok: "readPointer st rr d = (Inr (Some p), d') \<Longrightarrow> pointer_ok p"
  using readPointerFile_ok [of POINTER_FILE] readPointerFile_ok [of BACKUP_POINTER_FILE]
  unfolding triple_def by (fastforce simp: readPointer_def catchS_def bindS_apply split: prod.splits sum.splits if_splits)

subsection \<open>Collecting garbage\<close>

lemma collectFiles_kept:
  assumes "\<And>n. plain_name n \<Longrightarrow> endsWith n ending \<Longrightarrow> join st directory n \<in> us \<Longrightarrow> retained (dropEnd n ending)"
  shows "preserves (kept us f) (collectFiles st directory ending retained)"
  unfolding collectFiles_def
proof (rule preserves_triple, rule triple_bind)
  have "preserves (kept us f) (fs_readDirectory (st_files st) directory)" by (rule kept_reads) simp
  then show "triple (kept us f) (fs_readDirectory (st_files st) directory)
      (\<lambda>es d. list_all (\<lambda>e. plain_name (fst e)) es \<and> kept us f d) (kept us f)"
    using listed by (intro tripleI) (auto dest: preservesD)
  fix es :: "(string \<times> file_type) list"
  let ?step = "\<lambda>(name, t). if t \<noteq> FtFile \<or> \<not> endsWith name ending then returnS ()
      else if retained (dropEnd name ending) then returnS ()
      else fs_delete (st_files st) (join st directory name) False"
  have "preserves (kept us f) (forS es ?step)" if "list_all (\<lambda>e. plain_name (fst e)) es"
  proof (rule preserves_forS_set)
    fix e assume "e \<in> set es"
    then have "plain_name (fst e)" using that by (simp add: list_all_iff)
    then show "preserves (kept us f) (?step e)"
      unfolding case_prod_unfold
      by (intro preserves_if preserves_returnS kept_touches [OF writes(4)]) (use assms in auto)
  qed
  then show "triple (\<lambda>d. list_all (\<lambda>e. plain_name (fst e)) es \<and> kept us f d) (forS es ?step) (\<lambda>_. kept us f) (kept us f)"
    unfolding preserves_def triple_def by (auto split: sum.split)
qed

lemma referenced_blobs:
  assumes "manifest_ok (st_platform st) s"
  shows "\<exists>ids. referencedStorageBlobIds (js_manifest (manifest_of (st_platform st) s)) = Inr ids \<and>
    set ids = hash ` set (contents_of s)"
  using manifest_of_ok [OF platform assms]
  by (auto simp: referencedStorageBlobIds_def manifest_branches contents_of_def stored_of_branch_def ref_of_def
      case_prod_unfold image_iff comp_def) 

lemma garbageCollect_kept:
  assumes "manifest_ok (st_platform st) s" and p: "po_current p = generation_of (st_platform st) s"
  shows "preserves (kept (insert primary (targets s)) f)
    (garbageCollect st rr p (js_manifest (manifest_of (st_platform st) s)))"
proof -
  let ?us = "insert primary (targets s)"
  obtain ids where ids: "referencedStorageBlobIds (js_manifest (manifest_of (st_platform st) s)) = Inr ids"
    "set ids = hash ` set (contents_of s)" using referenced_blobs [OF assms(1)] by blast
  have generation: "is_hash (generation_of (st_platform st) s)" by simp
  have roots: "manifestsRoot st rr \<noteq> rr" "blobsRoot st rr \<noteq> rr" "manifestsRoot st rr \<noteq> blobsRoot st rr"
    using depths(1,2) by (auto simp: manifestsRoot_def blobsRoot_def join_eq plain_names)
  have manifests: "dropEnd n ''.json'' = po_current p"
    if "plain_name n" "join st (manifestsRoot st rr) n \<in> ?us" for n
    using that roots generation by (auto simp: p join_eq manifestUri_def blobUri_def plain_names plain_hash_names)
  have blobs: "dropEnd n ''.bin'' \<in> set ids" if "plain_name n" "join st (blobsRoot st rr) n \<in> ?us" for n
    using that roots generation ids(2) by (auto simp: join_eq manifestUri_def blobUri_def plain_names plain_hash_names)
  have temporary: False if "plain_name n" "endsWith n ''.tmp''" "join st rr n \<in> ?us" for n
  proof -
    have "\<not> endsWith POINTER_FILE ''.tmp''" by (simp add: POINTER_FILE_def endsWith_def suffix_def) 
    with that roots generation show False
      by (auto simp: join_eq manifestUri_def blobUri_def plain_names plain_hash_names)
  qed
  have previous: "preserves (kept ?us f) (previousBlobs st rr g)" for g
    unfolding previousBlobs_def by (intro preserves_intro kept_reads) simp
  have collect: "preserves (kept ?us f) (collectFiles st (manifestsRoot st rr) ''.json'' (\<lambda>g. g = po_current p \<or> po_previous p = Some g))"
    "preserves (kept ?us f) (collectFiles st (blobsRoot st rr) ''.bin'' (\<lambda>h. h \<in> set ids \<or> h \<in> set olds))"
    "preserves (kept ?us f) (collectFiles st rr ''.tmp'' (\<lambda>_. False))" for olds
    by (rule collectFiles_kept, use manifests in blast) (rule collectFiles_kept, use blobs in blast,
        rule collectFiles_kept, use temporary in blast)
  then have sweep: "preserves (kept ?us f) (case previousIds of None \<Rightarrow> returnS () | Some olds \<Rightarrow>
      bindS (collectFiles st (manifestsRoot st rr) ''.json'' (\<lambda>g. g = po_current p \<or> po_previous p = Some g)) (\<lambda>_.
      bindS (collectFiles st (blobsRoot st rr) ''.bin'' (\<lambda>h. h \<in> set ids \<or> h \<in> set olds)) (\<lambda>_.
      collectFiles st rr ''.tmp'' (\<lambda>_. False))))" for previousIds
    by (intro preserves_case_option preserves_bindS preserves_returnS)
  have find: "preserves (kept ?us f) (case po_previous p of None \<Rightarrow> returnS (Some [])
       | Some previous \<Rightarrow>
           catchS (bindS (previousBlobs st rr previous) (\<lambda>ids. returnS (Some ids))) (\<lambda>_. returnS None))"
    by (intro preserves_case_option preserves_catchS preserves_bindS preserves_returnS previous)
  show ?thesis
    unfolding garbageCollect_def ids(1)
  proof (rule preserves_ask_bind)
    fix x and d :: 'd
    assume "Inr ids = Inr x"
    then have "x = ids" by simp
    then show "preserves (kept ?us f) (bindS (case po_previous p of None \<Rightarrow> returnS (Some [])
       | Some previous \<Rightarrow>
           catchS (bindS (previousBlobs st rr previous) (\<lambda>ids. returnS (Some ids))) (\<lambda>_. returnS None)) (\<lambda>previousIds.
      case previousIds of None \<Rightarrow> returnS () | Some olds \<Rightarrow>
      bindS (collectFiles st (manifestsRoot st rr) ''.json'' (\<lambda>g. g = po_current p \<or> po_previous p = Some g)) (\<lambda>_.
      bindS (collectFiles st (blobsRoot st rr) ''.bin'' (\<lambda>h. h \<in> set x \<or> h \<in> set olds)) (\<lambda>_.
      collectFiles st rr ''.tmp'' (\<lambda>_. False)))))"
      using find sweep by (simp only: preserves_bindS)
  qed
qed

subsection \<open>A save from its start to its end\<close>

lemma triple_disk:
  "triple P m Q E \<Longrightarrow> triple (\<lambda>s. P (su_disk s)) (diskS m) (\<lambda>x s. Q x (su_disk s)) (\<lambda>s. E (su_disk s))"
  unfolding triple_def diskS_def by (auto split: prod.splits)

lemma preserves_disk: "preserves P m \<Longrightarrow> preserves (\<lambda>s. P (su_disk s)) (diskS m)"
  unfolding preserves_def diskS_def by (auto split: prod.splits)

lemma disk_last: "preserves (\<lambda>s. F (su_last s)) (diskS m)"
  unfolding preserves_def diskS_def by (auto split: prod.splits)

text \<open>The locations whose files the save must not disturb, and what they hold before it.\<close>

definition guarded :: "workspace_snapshot \<Rightarrow> 'u set \<Rightarrow> ('u \<Rightarrow> bytes option) \<Rightarrow> bool" where
  "guarded s us f \<longleftrightarrow> primary \<in> us \<and> backup \<in> us \<and> (\<forall>u \<in> us. u = primary \<or> u = backup \<or> f u \<noteq> None) \<and>
     temporaryUri st rr POINTER_FILE (generation_of (st_platform st) s) \<notin> us \<and>
     temporaryUri st rr BACKUP_POINTER_FILE (generation_of (st_platform st) s) \<notin> us"

lemma pointers_not_targets: "primary \<notin> targets s" "backup \<notin> targets s"
  using target_depth [of _ s] depths(5,6) by (metis n_not_Suc_n)+

lemma temporaries_not_targets:
  "CHR ''/'' \<notin> set n \<Longrightarrow> temporaryUri st rr n (generation_of (st_platform st) s) \<notin> targets s"
  using target_depth [of _ s] temporary_depth [OF generation_hash, of n s] by (metis n_not_Suc_n)

lemma kept_write_target:
  assumes "guarded s us f" and "u \<in> targets t"
  shows "preserves (kept us f) (writeFileIfMissing st u c)"
proof (rule kept_writeFileIfMissing)
  have "u \<noteq> primary" "u \<noteq> backup" using assms(2) pointers_not_targets [of t] by blast+
  then show "u \<in> us \<longrightarrow> f u \<noteq> None" using assms(1) unfolding guarded_def by blast
qed

lemma kept_write_blob:
  assumes "guarded s us f"
  shows "preserves (kept us f) (writeFileIfMissing st (blob (hash c)) c)"
proof (rule kept_writeFileIfMissing)
  have "blob (hash c) \<noteq> primary" "blob (hash c) \<noteq> backup" using depths(4) [OF hash_ok [of c]] depths(5,6) by auto
  then show "blob (hash c) \<in> us \<longrightarrow> f (blob (hash c)) \<noteq> None" using assms by (auto simp: guarded_def)
qed

lemma kept_encode:
  assumes "guarded s us f"
  shows "preserves (kept us f) (encodeStorageUriWorkspaceManifest (storeBlob st rr) t)"
proof -
  have store: "preserves (kept us f) (storeBlob st rr c)" for c
    unfolding storeBlob_def Let_def by (intro preserves_bindS preserves_returnS kept_write_blob [OF assms])
  have "preserves (kept us f) (encodeBranchManifest (storeBlob st rr) b)" for b
    unfolding encodeBranchManifest_def
    by (intro preserves_bindS preserves_returnS preserves_allS) (auto intro!: preserves_bindS preserves_returnS store)
  then show ?thesis
    unfolding encodeStorageUriWorkspaceManifest_def
    by (intro preserves_bindS preserves_mapS preserves_case_prod preserves_returnS)
qed

lemma arrived: "arriving (targets s) (target_of s) (targets s) d \<Longrightarrow> kept (targets s) (target_of s) d"
  by blast

lemma writePointer_targets:
  assumes "po_current p = generation_of (st_platform st) s"
  shows "preserves (kept (targets s) g) (writePointer st rr p)"
  unfolding writePointer_def
  by (intro preserves_bindS pointer_file_kept kept_touches [OF writes(1)])
    (use pointers_not_targets [of s] temporaries_not_targets [of _ s] assms in simp_all)

text \<open>After a save that failed, and after one that succeeded.\<close>

definition points_to :: "'u \<Rightarrow> string \<Rightarrow> 'd \<Rightarrow> bool" where
  "points_to u g d \<longleftrightarrow> (\<exists>p. pointer_ok p \<and> po_current p = g \<and> dv_file dv d u = Some (pointer_bytes p))"

definition not_saved :: "workspace_snapshot \<Rightarrow> 'u set \<Rightarrow> ('u \<Rightarrow> bytes option) \<Rightarrow> 'd \<Rightarrow> bool" where
  "not_saved s us f d \<longleftrightarrow> kept us f d \<or> kept (targets s) (target_of s) d \<and>
     (kept (us - {backup}) f d \<or>
      kept (us - {primary, backup}) f d \<and> points_to backup (generation_of (st_platform st) s) d)"

definition now_saved :: "workspace_snapshot \<Rightarrow> 'd \<Rightarrow> bool" where
  "now_saved s d \<longleftrightarrow> points_to primary (generation_of (st_platform st) s) d \<and> kept (targets s) (target_of s) d"

lemma publish_triple:
  assumes "guarded s us f" and p: "pointer_ok p" "po_current p = generation_of (st_platform st) s"
  shows "triple (\<lambda>d. kept us f d \<and> kept (targets s) (target_of s) d) (writePointer st rr p)
    (\<lambda>_ d. now_saved s d \<and> dv_file dv d primary = Some (pointer_bytes p)) (not_saved s us f)"
proof -
  have "triple (\<lambda>d. kept us f d \<and> kept (targets s) (target_of s) d) (writePointer st rr p)
      (\<lambda>_ d. (kept (us - {primary, backup}) f d \<and> dv_file dv d primary = Some (pointer_bytes p)) \<and>
        kept (targets s) (target_of s) d)
      (\<lambda>d. (kept (us - {backup}) f d \<or>
          kept (us - {primary, backup}) f d \<and> dv_file dv d backup = Some (pointer_bytes p)) \<and>
        kept (targets s) (target_of s) d)"
    by (rule triple_frame [OF writePointer_triple writePointer_targets [OF p(2)]])
      (use assms in \<open>simp_all add: guarded_def\<close>)
  then show ?thesis
    by (rule triple_weaken) (use p in \<open>auto simp: now_saved_def not_saved_def points_to_def\<close>)
qed

lemma now_saved_collect:
  assumes "manifest_ok (st_platform st) s" "po_current p = generation_of (st_platform st) s"
  shows "preserves (now_saved s) (garbageCollect st rr p (js_manifest (manifest_of (st_platform st) s)))"
proof -
  have "now_saved s d'" if saved: "now_saved s d"
    and run: "garbageCollect st rr p (js_manifest (manifest_of (st_platform st) s)) d = (r, d')" for d r d'
  proof -
    have "kept (insert primary (targets s)) (dv_file dv d) d'"
      using preservesD [OF garbageCollect_kept [OF assms] run] by simp
    with saved show ?thesis by (simp add: now_saved_def points_to_def)
  qed
  then show ?thesis unfolding preserves_def by blast
qed

lemma save_triple:
  assumes g: "guarded s us f" and ok: "manifest_ok (st_platform st) s" and inj: "inj_on hash (set (contents_of s))"
  shows "triple
    (\<lambda>z. kept us f (su_disk z) \<and> arriving (targets s) (target_of s) {} (su_disk z) \<and>
      (\<forall>g. map_of (su_last z) r = Some g \<longrightarrow> is_hash g))
    (su_save st rr r s) (\<lambda>_ z. now_saved s (su_disk z)) (\<lambda>z. not_saved s us f (su_disk z))"
proof -
  let ?T = "targets s" and ?t = "target_of s" and ?g = "generation_of (st_platform st) s"
  let ?H = "\<lambda>z. not_saved s us f (su_disk z)"
  let ?L = "\<lambda>l. \<forall>g. map_of l r = Some g \<longrightarrow> is_hash g"
  let ?B = "(\<lambda>c. blob (hash c)) ` set (contents_of s)"
  let ?I = "\<lambda>ws z. kept us f (su_disk z) \<and> arriving ?T ?t ws (su_disk z) \<and> ?L (su_last z)"
  have half: "kept us f d \<Longrightarrow> not_saved s us f d" for d
    by (simp add: not_saved_def)
  have lift: "triple (?I ws) (diskS m) (\<lambda>x z. R x \<and> ?I vs z) ?H"
    if "preserves (kept us f) m" "triple (arriving ?T ?t ws) m (\<lambda>x d. R x \<and> arriving ?T ?t vs d) (\<lambda>_. True)"
    for m :: "('d, 'x) st" and ws vs R
  proof -
    have "triple (\<lambda>z. (arriving ?T ?t ws (su_disk z) \<and> kept us f (su_disk z)) \<and> ?L (su_last z)) (diskS m)
      (\<lambda>x z. ((R x \<and> arriving ?T ?t vs (su_disk z)) \<and> kept us f (su_disk z)) \<and> ?L (su_last z))
      (\<lambda>z. (True \<and> kept us f (su_disk z)) \<and> ?L (su_last z))"
      by (rule triple_frame [OF triple_frame [OF triple_disk [OF that(2)] preserves_disk [OF that(1)]] disk_last])
    then show ?thesis
    proof (rule triple_conseq, goal_cases)
      case (1 z)
      then show ?case by (elim conjE) (intro conjI; assumption)
    next
      case (2 x z)
      then show ?case by (elim conjE) (intro conjI; assumption)
    next
      case (3 z)
      then show ?case by (elim conjE) (rule half)
    qed
  qed
  have directories: "preserves P (fs_createDirectory (st_files st) (manifestsRoot st rr)) \<Longrightarrow>
      preserves P (fs_createDirectory (st_files st) (blobsRoot st rr)) \<Longrightarrow>
      preserves P (allS [fs_createDirectory (st_files st) (manifestsRoot st rr),
       fs_createDirectory (st_files st) (blobsRoot st rr)])" for P
    by (rule preserves_allS) auto
  have "u \<notin> ?T \<and> (\<forall>t \<in> ?T. dv_depth dv u \<le> dv_depth dv t)"
    if "u = manifestsRoot st rr \<or> u = blobsRoot st rr" for u
    using that target_depth [of _ s] depths(1,2) by (metis Suc_n_not_le_n le_SucI nat_le_linear)
  then have arriving_directories: "preserves (arriving ?T ?t ws) (allS [fs_createDirectory (st_files st) (manifestsRoot st rr),
       fs_createDirectory (st_files st) (blobsRoot st rr)])" for ws
    by (intro directories arriving_touches [OF writes(1)]) simp_all
  have step1: "triple (?I {}) (diskS (allS [fs_createDirectory (st_files st) (manifestsRoot st rr),
       fs_createDirectory (st_files st) (blobsRoot st rr)])) (\<lambda>_ z. True \<and> ?I {} z) ?H"
    by (rule lift [OF directories]) (intro kept_touches [OF writes(1)], simp,
      intro kept_touches [OF writes(1)], simp, rule triple_weaken [OF triple_preserves [OF arriving_directories]], simp_all)
  have step2: "triple (?I {}) (diskS (encodeStorageUriWorkspaceManifest (storeBlob st rr) s))
      (\<lambda>w z. w = manifest_of (st_platform st) s \<and> ?I ?B z) ?H"
    by (rule lift [OF kept_encode [OF g] encode_triple [OF inj]])
  have step3: "triple (?I ?B) (diskS (writeFileIfMissing st (manifest ?g) (manifest_text (st_platform st) s)))
      (\<lambda>_ z. True \<and> ?I ?T z) ?H"
  proof (rule lift [OF kept_write_target [OF g, of _ s]])
    show "triple (arriving ?T ?t ?B) (writeFileIfMissing st (manifest ?g) (manifest_text (st_platform st) s))
        (\<lambda>x d. True \<and> arriving ?T ?t ?T d) (\<lambda>_. True)"
      by (rule triple_weaken [OF arriving_writeFileIfMissing]) (simp_all add: target_of_def depths)
  qed simp
  have step4: "triple (?I ?T) (diskS (readPointer st rr)) (\<lambda>found z. (\<forall>p. found = Some p \<longrightarrow> pointer_ok p) \<and> ?I ?T z) ?H"
  proof (rule lift [OF preserves_readPointer])
    have "triple (arriving ?T ?t ?T) (readPointer st rr) (\<lambda>_. arriving ?T ?t ?T) (arriving ?T ?t ?T)"
      by (rule triple_preserves, rule preserves_readPointer, rule arriving_reads) simp
    moreover have "triple (\<lambda>_. True) (readPointer st rr) (\<lambda>found _. \<forall>p. found = Some p \<longrightarrow> pointer_ok p) (\<lambda>_. True)"
      using readPointer_ok by (intro tripleI) auto
    ultimately have "triple (\<lambda>d. True \<and> arriving ?T ?t ?T d) (readPointer st rr)
      (\<lambda>found d. (\<forall>p. found = Some p \<longrightarrow> pointer_ok p) \<and> arriving ?T ?t ?T d) (\<lambda>d. True \<and> arriving ?T ?t ?T d)"
      by (rule triple_conj [rotated])
    then show "triple (arriving ?T ?t ?T) (readPointer st rr)
        (\<lambda>found d. (\<forall>p. found = Some p \<longrightarrow> pointer_ok p) \<and> arriving ?T ?t ?T d) (\<lambda>_. True)"
      by (rule triple_conseq) simp_all
  qed (rule kept_reads, simp)
  have step5: "triple (?I ?T) (askS (\<lambda>z. Inr (case map_of (su_last z) r of
         Some g \<Rightarrow> Some g | None \<Rightarrow> map_option po_current found)))
      (\<lambda>previous z. (\<forall>g. previous = Some g \<longrightarrow> is_hash g) \<and> ?I ?T z) ?H"
    if "\<forall>p. found = Some p \<longrightarrow> pointer_ok p" for found
  proof (rule triple_ask)
    show "(\<forall>g. x = Some g \<longrightarrow> is_hash g) \<and> ?I ?T z" if "?I ?T z"
      and "Inr (case map_of (su_last z) r of Some g \<Rightarrow> Some g | None \<Rightarrow> map_option po_current found) = Inr x" for z x
    proof (rule conjI)
      show "\<forall>g. x = Some g \<longrightarrow> is_hash g"
        using that \<open>\<forall>p. found = Some p \<longrightarrow> pointer_ok p\<close>
        by (cases "map_of (su_last z) r") (auto simp: pointer_ok_def)
    qed (rule that(1))
  qed (elim conjE, rule half)
  have step6: "triple (?I ?T) (diskS (writePointer st rr p)) (\<lambda>_ z. now_saved s (su_disk z)) ?H"
    if "pointer_ok p" "po_current p = ?g" for p
  proof (rule triple_conseq [OF triple_disk [OF publish_triple [OF g that]]])
    show "kept us f (su_disk z) \<and> kept ?T ?t (su_disk z)" if "?I ?T z" for z
      using that arrived by blast
  qed simp_all
  have step7: "triple (\<lambda>z. now_saved s (su_disk z)) (setLast r ?g) (\<lambda>_ z. now_saved s (su_disk z)) ?H"
    by (intro tripleI) (auto simp: setLast_def modifyS_apply)
  have step8: "triple (\<lambda>z. now_saved s (su_disk z))
      (ignoreS (diskS (garbageCollect st rr p (js_manifest (manifest_of (st_platform st) s)))))
      (\<lambda>_ z. now_saved s (su_disk z)) ?H" if "po_current p = ?g" for p
    by (rule triple_ignore, rule triple_preserves, rule preserves_disk, rule now_saved_collect [OF ok that])
  have names: "pl_stringify (st_platform st) (js_manifest (manifest_of (st_platform st) s)) = manifest_text (st_platform st) s"
    "hash (manifest_text (st_platform st) s) = ?g" by (simp_all add: manifest_text_def generation_of_def)
  have pointer: "pointer_ok \<lparr>po_current = ?g, po_previous =
      (case previous of None \<Rightarrow> None | Some g \<Rightarrow> if g \<noteq> [] \<and> g \<noteq> ?g then Some g else None)\<rparr>"
    if "\<forall>g. previous = Some g \<longrightarrow> is_hash g" for previous
    using that by (auto simp: pointer_ok_def split: option.split)
  show ?thesis
    unfolding su_save_def Let_def
    apply (rule triple_bind [OF step1], rule triple_assume)
    apply (rule triple_bind [OF step2], rule triple_assume, simp only: names)
    apply (rule triple_bind [OF step3], rule triple_assume)
    apply (rule triple_bind [OF step4], rule triple_assume)
    apply (rule triple_bind [OF step5], assumption, rule triple_assume)
    apply (rule triple_bind [OF step6], rule pointer, assumption, simp)
    apply (rule triple_bind [OF step7])
    apply (rule step8, simp)
    done
qed

subsection \<open>Loading afterwards\<close>

lemma kept_complete:
  assumes "manifest_ok (st_platform st) s" "inj_on hash (set (contents_of s))" "kept (targets s) (target_of s) d"
  shows "complete st rr (dv_file dv d) s"
  using assms target_blob [OF assms(2)] by (simp add: complete_def) (simp add: target_of_def)

lemma room_arriving:
  assumes "room_for st rr (dv_file dv d) (dv_directory dv d) s"
  shows "arriving (targets s) (target_of s) {} d \<and> inj_on hash (set (contents_of s))"
  using assms target_blob [of s] by (auto simp: room_for_def Let_def target_of_def)

lemma readPointerFile_at:
  assumes "reads_work (st_files st) dv"
  shows "readPointerFile st rr n d = (case dv_file dv d (join st rr n) of None \<Rightarrow> Inl FileNotFound
    | Some c \<Rightarrow> pointer_in (st_platform st) c, d)"
  by (simp add: readPointerFile_def bindS_apply readFile_works [OF assms] pointer_in_def split: option.split)

text \<open>A file that reads as a pointer to a generation.\<close>

definition leads_to :: "'u \<Rightarrow> string \<Rightarrow> 'd \<Rightarrow> bool" where
  "leads_to u g d \<longleftrightarrow> (\<exists>c p. dv_file dv d u = Some c \<and> pointer_in (st_platform st) c = Inr p \<and> po_current p = g)"

lemma points_leads: "points_to u g d \<Longrightarrow> leads_to u g d"
  unfolding points_to_def leads_to_def using pointer_text [OF platform] by blast

lemma readPointer_primary:
  assumes "reads_work (st_files st) dv" "leads_to primary g d"
  shows "\<exists>p. readPointer st rr d = (Inr (Some p), d) \<and> po_current p = g"
  using assms by (auto simp: leads_to_def readPointer_def catchS_def bindS_apply readPointerFile_at)

lemma readPointer_backup:
  assumes "reads_work (st_files st) dv" "no_pointer (st_platform st) (dv_file dv d primary)" "leads_to backup g d"
  shows "\<exists>p. readPointer st rr d = (Inr (Some p), d) \<and> po_current p = g"
  using assms by (auto simp: leads_to_def no_pointer_def readPointer_def catchS_def bindS_apply readPointerFile_at
      split: option.splits)

lemma readPointer_none:
  assumes "reads_work (st_files st) dv" "dv_file dv d primary = None" "dv_file dv d backup = None"
  shows "readPointer st rr d = (Inr None, d)"
  using assms by (simp add: readPointer_def catchS_def bindS_apply readPointerFile_at)

lemma readPointer_torn:
  assumes "reads_work (st_files st) dv" "dv_file dv d primary = None" "no_pointer (st_platform st) (dv_file dv d backup)"
  shows "readPointer st rr d = (Inr None, d) \<or> (\<exists>e. readPointer st rr d = (Inl e, d))"
  using assms by (auto simp: no_pointer_def readPointer_def catchS_def bindS_apply readPointerFile_at
      split: option.splits if_splits)

lemma load_pointed:
  assumes "reads_work (st_files st) dv" "readPointer st rr d = (Inr (Some p), d)"
    "po_current p = generation_of (st_platform st) s" "complete st rr (dv_file dv d) s"
  shows "fst (su_load st rr r \<lparr>su_last = l, su_disk = d\<rparr>) = Inr (Some s)"
  using assms load_complete [OF assms(1) platform assms(4)]
  by (simp add: su_load_def bindS_apply diskS_def catchS_def setLast_def modifyS_apply)

lemma load_holds:
  assumes "reads_work (st_files st) dv" "holds st rr (dv_file dv d) x"
  shows "fst (su_load st rr r \<lparr>su_last = l, su_disk = d\<rparr>) = Inr x"
proof (cases x)
  case None
  with assms readPointer_none show ?thesis by (simp add: holds_def su_load_def bindS_apply diskS_def)
next
  case (Some s)
  with assms(2) obtain p where "pointer_ok p" "po_current p = generation_of (st_platform st) s"
    "dv_file dv d primary = Some (pointer_bytes p)" "complete st rr (dv_file dv d) s" by (auto simp: holds_def)
  then have "leads_to primary (generation_of (st_platform st) s) d" "complete st rr (dv_file dv d) s"
    using points_leads by (auto simp: points_to_def)
  with Some load_pointed [OF assms(1)] readPointer_primary [OF assms(1)] show ?thesis by blast
qed

text \<open>A disk that a save left behind.\<close>

definition half_way :: "'d \<Rightarrow> workspace_snapshot \<Rightarrow> bool" where
  "half_way d s \<longleftrightarrow> complete st rr (dv_file dv d) s \<and>
     (leads_to primary (generation_of (st_platform st) s) d \<or>
      no_pointer (st_platform st) (dv_file dv d primary) \<and> leads_to backup (generation_of (st_platform st) s) d)"

definition torn :: "'d \<Rightarrow> bool" where
  "torn d \<longleftrightarrow> dv_file dv d primary = None \<and> no_pointer (st_platform st) (dv_file dv d backup)"

lemma load_half_way:
  assumes "reads_work (st_files st) dv" "half_way d s"
  shows "fst (su_load st rr r \<lparr>su_last = l, su_disk = d\<rparr>) = Inr (Some s)"
  using assms load_pointed [OF assms(1)] readPointer_primary [OF assms(1)] readPointer_backup [OF assms(1)]
  unfolding half_way_def by blast

lemma load_torn:
  assumes "reads_work (st_files st) dv" "torn d"
  shows "fst (su_load st rr r \<lparr>su_last = l, su_disk = d\<rparr>) = Inr None \<or>
    (\<exists>e. fst (su_load st rr r \<lparr>su_last = l, su_disk = d\<rparr>) = Inl e)"
  using assms readPointer_torn [of d] by (auto simp: torn_def su_load_def bindS_apply diskS_def)

lemma pointer_file_cases:
  assumes "n \<in> {POINTER_FILE, BACKUP_POINTER_FILE}"
  obtains (before) "dv_file dv d (join st rr n) = old (join st rr n)"
    | (bad) "no_pointer (st_platform st) (dv_file dv d (join st rr n))"
    | (leads) "leads_to (join st rr n) g d"
    | (other) "made_up st rr g old (dv_file dv d)"
proof (cases "dv_file dv d (join st rr n)")
  case None
  then show ?thesis using bad by (simp add: no_pointer_def)
next
  case (Some c)
  show ?thesis
  proof (cases "pointer_in (st_platform st) c")
    case (Inl e)
    with Some bad show ?thesis by (simp add: no_pointer_def)
  next
    case (Inr p)
    show ?thesis
    proof (cases "old (join st rr n) = Some c \<or> po_current p = g")
      case True
      with Some Inr before leads show ?thesis by (auto simp: leads_to_def)
    next
      case False
      with assms Some Inr other show ?thesis unfolding made_up_def by blast
    qed
  qed
qed

lemma held_guarded:
  assumes "holds st rr f x"
  shows "guarded s (insert primary (insert backup (case x of None \<Rightarrow> {} | Some t \<Rightarrow> targets t))) f"
proof -
  have "\<forall>u \<in> targets t. f u \<noteq> None" if "complete st rr f t" for t
    using that by (auto simp: complete_def)
  moreover have "temporaryUri st rr n (generation_of (st_platform st) s) \<notin> targets t" if "CHR ''/'' \<notin> set n" for n t
    using target_depth [of _ t] temporary_depth [OF generation_hash that, of s] by (metis n_not_Suc_n)
  ultimately show ?thesis
    using assms locations(5,6) [OF generation_hash]
    by (cases x) (auto simp: guarded_def holds_def)
qed

lemma not_saved_outcomes:
  assumes held: "holds st rr f x" and arrive: "manifest_ok (st_platform st) s" "inj_on hash (set (contents_of s))"
    and fail: "not_saved s (insert primary (insert backup (case x of None \<Rightarrow> {} | Some t \<Rightarrow> targets t))) f d"
  shows "holds st rr (dv_file dv d) x \<or> half_way d s \<or> x = None \<and> torn d \<or>
    made_up st rr (generation_of (st_platform st) s) f (dv_file dv d)"
proof -
  let ?ts = "case x of None \<Rightarrow> {} | Some t \<Rightarrow> targets t" and ?g = "generation_of (st_platform st) s"
  let ?us = "insert primary (insert backup ?ts)"
  have ts: "primary \<notin> ?ts" "backup \<notin> ?ts" using pointers_not_targets by (simp_all split: option.split)
  have keeps: "holds st rr (dv_file dv d) x" if "kept ?ts f d" "dv_file dv d primary = f primary"
    "x = None \<Longrightarrow> dv_file dv d backup = f backup"
    using held that by (cases x) (simp_all add: holds_def complete_def)
  have complete: "kept (targets s) (target_of s) d \<Longrightarrow> complete st rr (dv_file dv d) s"
    by (rule kept_complete [OF arrive])
  show ?thesis
  proof (cases "kept ?us f d")
    case True
    then show ?thesis using keeps by simp
  next
    case False
    with fail have arrived: "complete st rr (dv_file dv d) s"
      and "kept (?us - {backup}) f d \<or> kept (?us - {primary, backup}) f d \<and> points_to backup ?g d"
      using complete unfolding not_saved_def by blast+
    then show ?thesis
    proof (elim disjE conjE)
      assume kept: "kept (?us - {backup}) f d"
      then have same: "dv_file dv d primary = f primary" "kept ?ts f d" using ts locations(4) by blast+
      show ?thesis
      proof (cases x)
        case None
        with held have "dv_file dv d primary = None" using same by (simp add: holds_def)
        then have "no_pointer (st_platform st) (dv_file dv d primary)" by (simp add: no_pointer_def)
        then show ?thesis
          using same keeps arrived None \<open>dv_file dv d primary = None\<close> pointer_file_cases [where n = BACKUP_POINTER_FILE and d = d and old = f and g = ?g]
          unfolding half_way_def torn_def by blast
      next
        case (Some t)
        with same keeps show ?thesis by blast
      qed
    next
      assume kept: "kept (?us - {primary, backup}) f d" and points: "points_to backup ?g d"
      then have same: "kept ?ts f d" using ts by blast
      note leads = points_leads [OF points]
      consider (before) "dv_file dv d primary = f primary"
        | (bad) "no_pointer (st_platform st) (dv_file dv d primary)" | (leads) "leads_to primary ?g d"
        | (other) "made_up st rr ?g f (dv_file dv d)"
        using pointer_file_cases [where n = POINTER_FILE and d = d and old = f and g = ?g] by blast
      then show ?thesis
      proof cases
        case before
        show ?thesis
        proof (cases x)
          case None
          with held before have "no_pointer (st_platform st) (dv_file dv d primary)"
            by (simp add: holds_def no_pointer_def)
          with leads arrived show ?thesis by (simp add: half_way_def)
        next
          case (Some t)
          with before same keeps show ?thesis by blast
        qed
      qed (use leads arrived in \<open>auto simp: half_way_def\<close>)
    qed
  qed
qed

theorem save_outcomes:
  assumes held: "holds st rr (dv_file dv (su_disk z)) x"
    and room: "room_for st rr (dv_file dv (su_disk z)) (dv_directory dv (su_disk z)) s"
    and ok: "manifest_ok (st_platform st) s" and last: "\<forall>g. map_of (su_last z) r = Some g \<longrightarrow> is_hash g"
    and run: "su_save st rr r s z = (res, z')"
  shows "holds st rr (dv_file dv (su_disk z')) (Some s) \<or> (\<exists>e. res = Inl e) \<and>
    (holds st rr (dv_file dv (su_disk z')) x \<or> half_way (su_disk z') s \<or> x = None \<and> torn (su_disk z') \<or>
     made_up st rr (generation_of (st_platform st) s) (dv_file dv (su_disk z)) (dv_file dv (su_disk z')))"
proof -
  let ?us = "insert primary (insert backup (case x of None \<Rightarrow> {} | Some t \<Rightarrow> targets t))"
  note arrive = room_arriving [OF room]
  have start: "kept ?us (dv_file dv (su_disk z)) (su_disk z)" by blast
  note cases = tripleD [OF save_triple [OF held_guarded [OF held] ok conjunct2 [OF arrive]] run
      conjI [OF start conjI [OF conjunct1 [OF arrive] last]]]
  show ?thesis
  proof (cases res)
    case (Inr u)
    with cases have saved: "now_saved s (su_disk z')" by simp
    then have "complete st rr (dv_file dv (su_disk z')) s" using kept_complete [OF ok] arrive by (simp add: now_saved_def)
    with saved show ?thesis by (auto simp: holds_def now_saved_def points_to_def)
  next
    case (Inl e)
    with cases have "not_saved s ?us (dv_file dv (su_disk z)) (su_disk z')" by simp
    from not_saved_outcomes [OF held ok conjunct2 [OF arrive] this] Inl show ?thesis by blast
  qed
qed

end

text \<open>A store that differs in how its file system behaves, not in where its files are.\<close>

definition same_places :: "('u, 'd) store \<Rightarrow> ('u, 'd) store \<Rightarrow> bool" where
  "same_places st st' \<longleftrightarrow> fs_join (st_files st') = fs_join (st_files st) \<and> st_platform st' = st_platform st"

lemma same_places_holds:
  assumes "same_places st st'"
  shows "complete st' = complete st" "holds st' = holds st"
proof -
  show complete: "complete st' = complete st"
    using assms by (intro ext) (simp add: complete_def same_places_def manifestUri_def blobUri_def
        manifestsRoot_def blobsRoot_def)
  show "holds st' = holds st"
    using assms by (intro ext) (simp add: holds_def same_places_def complete split: option.split)
qed

theorem su_load_after_save:
  assumes st: "file_store st dv" and working: "file_store working dv" "reads_work (st_files working) dv"
    and same: "same_places st working"
    and before_save: "holds st rr (dv_file dv (su_disk z)) x"
      "room_for st rr (dv_file dv (su_disk z)) (dv_directory dv (su_disk z)) s" "manifest_ok (st_platform st) s"
      "\<forall>g. map_of (su_last z) r = Some g \<longrightarrow> is_hash g"
    and run: "su_save st rr r s z = (res, z')"
    and load: "load = fst (su_load working rr r \<lparr>su_last = l, su_disk = su_disk z'\<rparr>)"
  shows "load = Inr (Some s) \<or> (\<exists>e. res = Inl e) \<and>
    (load = Inr x \<or> x = None \<and> (\<exists>e. load = Inl e) \<or>
     made_up st rr (generation_of (st_platform st) s) (dv_file dv (su_disk z)) (dv_file dv (su_disk z')))"
proof -
  have held: "load = Inr y" if "holds st rr (dv_file dv (su_disk z')) y" for y
    using that file_store.load_holds [OF working(1,2)] same_places_holds(2) [OF same] load by metis
  note definitions = file_store.half_way_def file_store.leads_to_def file_store.torn_def
  have "file_store.half_way working dv rr (su_disk z') s" if "file_store.half_way st dv rr (su_disk z') s"
    using that same same_places_holds(1) [OF same]
    unfolding definitions [OF st] definitions [OF working(1)] same_places_def by simp
  then have half: "load = Inr (Some s)" if "file_store.half_way st dv rr (su_disk z') s"
    using that file_store.load_half_way [OF working(1,2)] load by blast
  have "file_store.torn working dv rr (su_disk z')" if "file_store.torn st dv rr (su_disk z')"
    using that same unfolding definitions [OF st] definitions [OF working(1)] same_places_def by simp
  then have torn: "load = Inr None \<or> (\<exists>e. load = Inl e)" if "file_store.torn st dv rr (su_disk z')"
    using that file_store.load_torn [OF working(1,2)] load by blast
  show ?thesis using file_store.save_outcomes [OF st before_save run] held half torn by blast
qed

subsection \<open>A store in memory\<close>

text \<open>
  A platform for one manifest: pointers are written as their hashes, the digest of a content is the
  content filled up to 32 bytes.
\<close>

definition example_platform :: "jsval \<Rightarrow> platform" where
  "example_platform v = \<lparr>
     pl_stringify = (\<lambda>w. case requirePointer w of
         Inr p \<Rightarrow> map char_byte (po_current p @ (case po_previous p of None \<Rightarrow> [] | Some g \<Rightarrow> g))
       | Inl _ \<Rightarrow> [7]),
     pl_parse = (\<lambda>bs. let t = map byte_char bs in
       if length bs = 64 then Some (js_pointer \<lparr>po_current = t, po_previous = None\<rparr>)
       else if length bs = 128 then Some (js_pointer \<lparr>po_current = take 64 t, po_previous = Some (drop 64 t)\<rparr>)
       else if bs = [7] then Some v else None),
     pl_digest = (\<lambda>c. take 32 (c @ replicate 32 0))\<rparr>"

lemma requirePointer_written: "pointer_ok p \<Longrightarrow> requirePointer (js_pointer p) = Inr p"
  by (cases p) (auto simp: requirePointer_def js_pointer_def pointer_ok_def js_text_def
      persistence_invalid_def split: option.splits)

lemma example_platform_laws: "platform_laws (example_platform v)"
proof -
  have "pl_parse (example_platform v) (pl_stringify (example_platform v) (js_pointer p)) = Some (js_pointer p)"
    if "pointer_ok p" for p
  proof (cases p)
    case (fields current previous)
    with that requirePointer_written [OF that] show ?thesis
      by (cases previous) (simp_all add: example_platform_def pointer_ok_def is_hash_def comp_def)
  qed
  moreover have "length (pl_digest (example_platform v) c) = 32" for c
    by (simp add: example_platform_def min_def)
  ultimately show ?thesis by (simp add: platform_laws_def json_keeps_def)
qed

definition example_store :: "jsval \<Rightarrow> (string list, mem_disk) store" where
  "example_store v = \<lparr>st_files = mem_files, st_platform = example_platform v\<rparr>"

interpretation in_memory: file_store "example_store v" mem_view rr for v rr
  by unfold_locales (simp_all add: example_store_def mem_files_laws example_platform_laws)

text \<open>The same with a file system whose renames fail and leave other bytes at their target.\<close>

definition damaging_store :: "jsval \<Rightarrow> bytes \<Rightarrow> (string list, mem_disk) store" where
  "damaging_store v bs = \<lparr>st_files = torn_files bs, st_platform = example_platform v\<rparr>"

interpretation damaging: file_store "damaging_store v bs" mem_view rr for v bs rr
  by unfold_locales (simp_all add: damaging_store_def torn_files_laws example_platform_laws)

text \<open>A snapshot with two files and its manifest.\<close>

definition two_files :: workspace_snapshot where
  "two_files = \<lparr>sp_selectedBranch = ''main'', sp_branches = [(''main'', \<lparr>ws_baseRevision = ''c1'',
     ws_overlay = \<lparr>sn_files = [(''a'', [1]), (''b'', [2, 3])], sn_directories = [''d''], sn_deletedPaths = [],
       sn_renames = []\<rparr>\<rparr>)], sp_pending = None\<rparr>"

definition two_files_store :: "(string list, mem_disk) store" where
  "two_files_store = example_store (js_manifest (manifest_of (example_platform JNull) two_files))"

end
