(* ===== verification/TransportWire.thy ===== *)
theory TransportWire
  imports RpcAdapter PersistenceSchema StorageUri
begin

section \<open>Frames of the browser RPC transport\<close>

text \<open>
  \<open>extensions/browser-rpc-provider/src/transport/wire.ts\<close>: the frames that the tab of the editor and the
  tabs of the endpoints exchange, their validation, and the packets that carry them. The cipher, \<open>JSON\<close>
  and the text encoders belong to the platform and are parameters; the random bytes are arguments.
\<close>

definition malformed :: "'a res" where
  "malformed = Inl (RemotishError INVALID_REQUEST)"

lemma malformed_neq [simp]: "malformed \<noteq> Inr x" "Inr x \<noteq> malformed"
  by (simp_all add: malformed_def)

definition MAX_FRAME_BYTES :: nat where
  "MAX_FRAME_BYTES = 24 * 1024 * 1024"

definition MAX_PACKET_CHARS :: nat where
  "MAX_PACKET_CHARS = 32 * 1024 * 1024"

type_synonym host_id = string
type_synonym endpoint_id = string
type_synonym request_id = string

datatype frame =
    Hello (fr_host: host_id)
  | Register (fr_host: host_id) (fr_endpoint: endpoint_id) (fr_counter: nat) (fr_origin: string)
      (fr_target: string) (fr_session: jsval)
  | Heartbeat (fr_host: host_id) (fr_endpoint: endpoint_id) (fr_counter: nat)
  | Disconnect (fr_host: host_id) (fr_endpoint: endpoint_id) (fr_counter: nat)
  | Request (fr_host: host_id) (fr_endpoint: endpoint_id) (fr_request: request_id) (fr_payload: jsval)
  | Response (fr_host: host_id) (fr_endpoint: endpoint_id) (fr_request: request_id) (fr_payload: jsval)
  | Cancel (fr_host: host_id) (fr_endpoint: endpoint_id) (fr_request: request_id)

subsection \<open>Checks\<close>

definition wire_record :: "jsval \<Rightarrow> string list \<Rightarrow> jsval res" where
  "wire_record v allowed =
     (if \<not> is_record v then malformed
      else if list_ex (\<lambda>k. k \<notin> set allowed) (keys (js_entries v)) then malformed
      else Inr v)"

definition wire_exact :: "jsval \<Rightarrow> string list \<Rightarrow> unit res" where
  "wire_exact v names =
     (if length (js_entries v) \<noteq> length names \<or> list_ex (\<lambda>k. k \<notin> set (keys (js_entries v))) names then malformed
      else Inr ())"

definition is_hex :: "char \<Rightarrow> bool" where
  "is_hex c \<longleftrightarrow> (let n = (of_char c :: nat) in (48 \<le> n \<and> n \<le> 57) \<or> (97 \<le> n \<and> n \<le> 102))"

definition is_transport_id :: "string \<Rightarrow> bool" where
  "is_transport_id s \<longleftrightarrow> length s = 32 \<and> list_all is_hex s"

fun wire_id :: "jsval \<Rightarrow> string res" where
  "wire_id (JStr s) = (if is_transport_id s then Inr s else malformed)"
| "wire_id v = malformed"

fun wire_sequence :: "jsval \<Rightarrow> nat res" where
  "wire_sequence (JNum n) = (case safe_integer n of
       None \<Rightarrow> malformed
     | Some i \<Rightarrow> if i < 1 then malformed else Inr (nat i))"
| "wire_sequence v = malformed"

fun wire_text :: "jsval \<Rightarrow> string res" where
  "wire_text (JStr s) = (if s = [] \<or> 2048 < length s then malformed else Inr s)"
| "wire_text v = malformed"

definition frame_keys :: "string list" where
  "frame_keys = [''version'', ''kind'', ''hostId'', ''endpointId'', ''counter'', ''requestId'', ''origin'',
     ''target'', ''session'', ''request'', ''response'']"

text \<open>The identifiers that most frames start with.\<close>

definition wire_pair :: "(host_id \<Rightarrow> endpoint_id \<Rightarrow> 'a res) \<Rightarrow> jsval \<Rightarrow> 'a res" where
  "wire_pair f v = andThen (wire_id (js_get v ''hostId'')) (\<lambda>h.
     andThen (wire_id (js_get v ''endpointId'')) (\<lambda>e. f h e))"

definition decodeFrame :: "jsval \<Rightarrow> frame res" where
  "decodeFrame v = andThen (wire_record v frame_keys) (\<lambda>base.
     if js_get base ''version'' \<noteq> jnat 1 then malformed
     else let kind = js_get base ''kind'' in
     if kind = JStr ''hello'' then
       andThen (wire_exact base [''version'', ''kind'', ''hostId'']) (\<lambda>_.
       andThen (wire_id (js_get base ''hostId'')) (\<lambda>h. Inr (Hello h)))
     else if kind = JStr ''register'' then
       andThen (wire_exact base [''version'', ''kind'', ''hostId'', ''endpointId'', ''counter'', ''origin'',
         ''target'', ''session'']) (\<lambda>_. wire_pair (\<lambda>h e.
       andThen (wire_sequence (js_get base ''counter'')) (\<lambda>n.
       andThen (wire_text (js_get base ''origin'')) (\<lambda>origin.
       andThen (wire_text (js_get base ''target'')) (\<lambda>target.
         Inr (Register h e n origin target (js_get base ''session'')))))) base)
     else if kind = JStr ''heartbeat'' \<or> kind = JStr ''disconnect'' then
       andThen (wire_exact base [''version'', ''kind'', ''hostId'', ''endpointId'', ''counter'']) (\<lambda>_. wire_pair (\<lambda>h e.
       andThen (wire_sequence (js_get base ''counter'')) (\<lambda>n.
         Inr (if kind = JStr ''heartbeat'' then Heartbeat h e n else Disconnect h e n))) base)
     else if kind = JStr ''request'' then
       andThen (wire_exact base [''version'', ''kind'', ''hostId'', ''endpointId'', ''requestId'', ''request'']) (\<lambda>_.
       wire_pair (\<lambda>h e. andThen (wire_id (js_get base ''requestId'')) (\<lambda>q.
         Inr (Request h e q (js_get base ''request'')))) base)
     else if kind = JStr ''response'' then
       andThen (wire_exact base [''version'', ''kind'', ''hostId'', ''endpointId'', ''requestId'', ''response'']) (\<lambda>_.
       wire_pair (\<lambda>h e. andThen (wire_id (js_get base ''requestId'')) (\<lambda>q.
         Inr (Response h e q (js_get base ''response'')))) base)
     else if kind = JStr ''cancel'' then
       andThen (wire_exact base [''version'', ''kind'', ''hostId'', ''endpointId'', ''requestId'']) (\<lambda>_.
       wire_pair (\<lambda>h e. andThen (wire_id (js_get base ''requestId'')) (\<lambda>q. Inr (Cancel h e q))) base)
     else malformed)"

text \<open>The objects the two sides build.\<close>

definition js_head :: "string \<Rightarrow> host_id \<Rightarrow> (string \<times> jsval) list" where
  "js_head kind h = [(''version'', jnat 1), (''kind'', JStr kind), (''hostId'', JStr h)]"

fun js_frame :: "frame \<Rightarrow> jsval" where
  "js_frame (Hello h) = JObj (js_head ''hello'' h)"
| "js_frame (Register h e n origin target session) = JObj (js_head ''register'' h @ [(''endpointId'', JStr e),
     (''counter'', jnat n), (''origin'', JStr origin), (''target'', JStr target), (''session'', session)])"
| "js_frame (Heartbeat h e n) = JObj (js_head ''heartbeat'' h @ [(''endpointId'', JStr e), (''counter'', jnat n)])"
| "js_frame (Disconnect h e n) = JObj (js_head ''disconnect'' h @ [(''endpointId'', JStr e), (''counter'', jnat n)])"
| "js_frame (Request h e q v) = JObj (js_head ''request'' h @ [(''endpointId'', JStr e), (''requestId'', JStr q),
     (''request'', v)])"
| "js_frame (Response h e q v) = JObj (js_head ''response'' h @ [(''endpointId'', JStr e), (''requestId'', JStr q),
     (''response'', v)])"
| "js_frame (Cancel h e q) = JObj (js_head ''cancel'' h @ [(''endpointId'', JStr e), (''requestId'', JStr q)])"

definition counter_ok :: "nat \<Rightarrow> bool" where
  "counter_ok n \<longleftrightarrow> 1 \<le> n \<and> int n \<le> max_safe_integer"

definition text_ok :: "string \<Rightarrow> bool" where
  "text_ok s \<longleftrightarrow> s \<noteq> [] \<and> length s \<le> 2048"

fun frame_ok :: "frame \<Rightarrow> bool" where
  "frame_ok (Hello h) = is_transport_id h"
| "frame_ok (Register h e n origin target session) = (is_transport_id h \<and> is_transport_id e \<and> counter_ok n \<and>
     text_ok origin \<and> text_ok target)"
| "frame_ok (Heartbeat h e n) = (is_transport_id h \<and> is_transport_id e \<and> counter_ok n)"
| "frame_ok (Disconnect h e n) = (is_transport_id h \<and> is_transport_id e \<and> counter_ok n)"
| "frame_ok (Request h e q v) = (is_transport_id h \<and> is_transport_id e \<and> is_transport_id q)"
| "frame_ok (Response h e q v) = (is_transport_id h \<and> is_transport_id e \<and> is_transport_id q)"
| "frame_ok (Cancel h e q) = (is_transport_id h \<and> is_transport_id e \<and> is_transport_id q)"

lemma wire_id_Inr [simp]: "wire_id v = Inr s \<longleftrightarrow> v = JStr s \<and> is_transport_id s"
  by (cases v) auto

lemma wire_text_Inr [simp]: "wire_text v = Inr s \<longleftrightarrow> v = JStr s \<and> text_ok s"
  by (cases v) (auto simp: text_ok_def)

lemma wire_text_ok: "text_ok s \<Longrightarrow> wire_text (JStr s) = Inr s"
  by (simp add: text_ok_def)

lemma wire_sequence_jnat: "counter_ok n \<Longrightarrow> wire_sequence (jnat n) = Inr n"
  by (simp add: jnat_def counter_ok_def)

lemma wire_sequence_ok: "wire_sequence v = Inr n \<Longrightarrow> counter_ok n"
proof (cases v)
  case (JNum x)
  moreover assume "wire_sequence v = Inr n"
  ultimately show ?thesis using safe_integer_bound [of x] by (auto simp: counter_ok_def split: option.splits if_splits)
qed simp_all

theorem decode_frame: "frame_ok f \<Longrightarrow> decodeFrame (js_frame f) = Inr f"
  by (cases f)
    (simp_all add: decodeFrame_def wire_record_def wire_exact_def frame_keys_def js_head_def wire_pair_def
      wire_sequence_jnat wire_text_ok Let_def del: wire_text.simps)

theorem decodeFrame_ok: "decodeFrame v = Inr f \<Longrightarrow> frame_ok f"
  by (auto simp: decodeFrame_def wire_pair_def Let_def dest: wire_sequence_ok split: if_splits)

subsection \<open>Base64 for URLs\<close>

definition toBase64Url :: "bytes \<Rightarrow> string" where
  "toBase64Url bs = filter (\<lambda>c. c \<noteq> CHR ''='')
     (replaceAll CHR ''/'' CHR ''_'' (replaceAll CHR ''+'' CHR ''-'' (btoa (map byte_char bs))))"

text \<open>\<open>base64.padEnd(Math.ceil(base64.length / 4) * 4, '=')\<close>.\<close>

definition pad_base64 :: "string \<Rightarrow> string" where
  "pad_base64 s = s @ replicate ((length s + 3) div 4 * 4 - length s) CHR ''=''"

definition fromBase64Url :: "string \<Rightarrow> bytes res" where
  "fromBase64Url s =
     (case atob (pad_base64 (replaceAll CHR ''_'' CHR ''/'' (replaceAll CHR ''-'' CHR ''+'' s))) of
        None \<Rightarrow> malformed | Some binary \<Rightarrow> Inr (map char_byte binary))"

text \<open>\<open>/^[A-Za-z0-9_-]*$/\<close>.\<close>

definition base64url_char :: "char \<Rightarrow> bool" where
  "base64url_char c \<longleftrightarrow> (let n = (of_char c :: nat) in (65 \<le> n \<and> n \<le> 90) \<or> (97 \<le> n \<and> n \<le> 122) \<or>
     (48 \<le> n \<and> n \<le> 57) \<or> n = 45 \<or> n = 95)"

lemma sextet_char_cases:
  "n < 64 \<Longrightarrow> sextet_char n \<noteq> CHR ''-'' \<and> sextet_char n \<noteq> CHR ''_'' \<and> sextet_char n \<noteq> CHR ''=''"
proof -
  have "sextet_code n \<noteq> (of_char CHR ''-'' :: nat)" "sextet_code n \<noteq> (of_char CHR ''_'' :: nat)" if "n < 64"
    using that by (auto simp: sextet_code_def)
  then show "n < 64 \<Longrightarrow> ?thesis" using sextet_code [of n] by (metis sextet_char_proper(1))
qed

definition url_char :: "char \<Rightarrow> char" where
  "url_char c = (if c = CHR ''+'' then CHR ''-'' else if c = CHR ''/'' then CHR ''_'' else c)"

definition unurl_char :: "char \<Rightarrow> char" where
  "unurl_char c = (if c = CHR ''-'' then CHR ''+'' else if c = CHR ''_'' then CHR ''/'' else c)"

lemma replace_url: "replaceAll CHR ''/'' CHR ''_'' (replaceAll CHR ''+'' CHR ''-'' s) = map url_char s"
  and replace_unurl: "replaceAll CHR ''_'' CHR ''/'' (replaceAll CHR ''-'' CHR ''+'' s) = map unurl_char s"
  by (auto simp: replaceAll_def url_char_def unurl_char_def)

lemma url_sextet: "n < 64 \<Longrightarrow> unurl_char (url_char (sextet_char n)) = sextet_char n \<and> url_char (sextet_char n) \<noteq> CHR ''=''"
  using sextet_char_cases [of n] by (auto simp: url_char_def unurl_char_def)

lemma sextet_marks: "sextet_char 62 = CHR ''+''" "sextet_char 63 = CHR ''/''"
  by code_simp+

lemma url_sextet_char: "n < 64 \<Longrightarrow> base64url_char (url_char (sextet_char n))"
proof -
  assume n: "n < 64"
  consider "n < 62" | "n = 62" | "n = 63" using n by linarith
  then show ?thesis
  proof cases
    case 1
    then show ?thesis
      using sextet_code [of n] by (auto simp: base64url_char_def url_char_def sextet_code_def Let_def split: if_splits)
  qed (simp_all add: sextet_marks url_char_def base64url_char_def)
qed

text \<open>The text of some bytes: sextets of the base64 text, whose padding is what \<open>padEnd\<close> restores.\<close>

lemma length_base64_octets: "length (base64_octets ts) = length ts * 3 div 4"
  by (induction ts rule: base64_octets.induct) simp_all

lemma base64url_form:
  obtains ts where "\<forall>t \<in> set ts. t < 64" "length ts * 3 div 4 = length bs" "length ts mod 4 \<noteq> 1"
    "toBase64Url bs = map (\<lambda>t. url_char (sextet_char t)) ts" "pad_base64 (map sextet_char ts) = btoa (map byte_char bs)"
proof -
  let ?ns = "map of_char (map byte_char bs) :: nat list"
  have "\<forall>x \<in> set ?ns. x < 256" by auto
  from base64_groups_form [OF this] obtain ts pad where "base64_groups ?ns = map sextet_char ts @ pad \<and>
      (\<forall>t \<in> set ts. t < 64) \<and> base64_octets ts = ?ns \<and> pad \<in> {[], ''='', ''==''} \<and>
      (length ts + length pad) mod 4 = 0" by (elim exE)
  then have form: "btoa (map byte_char bs) = map sextet_char ts @ pad" "\<forall>t \<in> set ts. t < 64"
    "base64_octets ts = ?ns" "pad \<in> {[], ''='', ''==''}" "(length ts + length pad) mod 4 = 0"
    by (simp_all add: btoa_def)
  have "toBase64Url bs = filter (\<lambda>c. c \<noteq> CHR ''='') (map url_char (map sextet_char ts @ pad))"
    by (simp add: toBase64Url_def replace_url form(1))
  also have "\<dots> = map (\<lambda>t. url_char (sextet_char t)) ts"
    using form(2,4) url_sextet by (auto simp: filter_map comp_def filter_id_conv url_char_def)
  finally have url: "toBase64Url bs = map (\<lambda>t. url_char (sextet_char t)) ts" .
  have "(length ts + 3) div 4 * 4 - length ts = length pad" "length ts mod 4 \<noteq> 1"
    using form(4,5) by auto presburger+
  moreover have "pad = replicate (length pad) CHR ''=''" using form(4) by (auto simp: numeral_2_eq_2)
  ultimately have "pad_base64 (map sextet_char ts) = map sextet_char ts @ pad"
    by (simp add: pad_base64_def)
  moreover have "length ts * 3 div 4 = length bs" using length_base64_octets [of ts] form(3) by simp
  ultimately show thesis using form url \<open>length ts mod 4 \<noteq> 1\<close> by (intro that [of ts]) simp_all
qed

theorem base64url_roundtrip: "fromBase64Url (toBase64Url bs) = Inr bs"
proof (rule base64url_form [of bs])
  fix ts
  assume form: "\<forall>t \<in> set ts. t < 64"
    "toBase64Url bs = map (\<lambda>t. url_char (sextet_char t)) ts" "pad_base64 (map sextet_char ts) = btoa (map byte_char bs)"
  have "map unurl_char (toBase64Url bs) = map sextet_char ts"
    using form(1,2) url_sextet by simp
  then show ?thesis by (simp add: fromBase64Url_def replace_unurl form(3) atob_btoa comp_def)
qed

lemma base64url_length: "length bs = 12 \<Longrightarrow> length (toBase64Url bs) = 16" "bs \<noteq> [] \<Longrightarrow> toBase64Url bs \<noteq> []"
proof -
  obtain ts where ts: "length ts * 3 div 4 = length bs" "length ts mod 4 \<noteq> 1"
    "toBase64Url bs = map (\<lambda>t. url_char (sextet_char t)) ts" by (rule base64url_form [of bs])
  show "length bs = 12 \<Longrightarrow> length (toBase64Url bs) = 16" using ts by simp presburger
  show "bs \<noteq> [] \<Longrightarrow> toBase64Url bs \<noteq> []" using ts by auto
qed

lemma base64url_chars: "list_all base64url_char (toBase64Url bs)"
  by (rule base64url_form [of bs]) (simp add: list_all_iff url_sextet_char)

subsection \<open>Packets\<close>

text \<open>
  What the platform provides, for one key: \<open>JSON\<close> text, UTF-8, and authenticated encryption with a
  random initialisation vector.
\<close>

record wire =
  wi_stringify :: "jsval \<Rightarrow> string"
  wi_parse :: "string \<Rightarrow> jsval option"
  wi_encode :: "string \<Rightarrow> bytes"
  wi_decode :: "bytes \<Rightarrow> string option"
  wi_encrypt :: "bytes \<Rightarrow> bytes \<Rightarrow> bytes"
  wi_decrypt :: "bytes \<Rightarrow> bytes \<Rightarrow> bytes option"

definition encryptFrame :: "wire \<Rightarrow> bytes \<Rightarrow> frame \<Rightarrow> string res" where
  "encryptFrame wi iv f =
     (let plaintext = wi_encode wi (wi_stringify wi (js_frame f)) in
      if MAX_FRAME_BYTES < length plaintext then malformed
      else let packet = wi_stringify wi (JObj [(''version'', jnat 1), (''iv'', JStr (toBase64Url iv)),
          (''ciphertext'', JStr (toBase64Url (wi_encrypt wi iv plaintext)))]) in
      if MAX_PACKET_CHARS < length packet then malformed else Inr packet)"

fun packet_text :: "jsval \<Rightarrow> string res" where
  "packet_text (JStr s) = Inr s"
| "packet_text v = malformed"

definition decryptFrame :: "wire \<Rightarrow> jsval \<Rightarrow> frame res" where
  "decryptFrame wi raw = andThen (packet_text raw) (\<lambda>s.
     if MAX_PACKET_CHARS < length s then malformed
     else case wi_parse wi s of
       None \<Rightarrow> malformed
     | Some parsed \<Rightarrow> andThen (wire_record parsed [''version'', ''iv'', ''ciphertext'']) (\<lambda>packet.
         if js_get packet ''version'' \<noteq> jnat 1 then malformed
         else andThen (packet_text (js_get packet ''iv'')) (\<lambda>iv.
           andThen (packet_text (js_get packet ''ciphertext'')) (\<lambda>ciphertext.
             if length iv \<noteq> 16 \<or> \<not> list_all base64url_char iv \<or> ciphertext = [] \<or> \<not> list_all base64url_char ciphertext
             then malformed
             else andThen (fromBase64Url iv) (\<lambda>iv'. andThen (fromBase64Url ciphertext) (\<lambda>ciphertext'.
               case wi_decrypt wi iv' ciphertext' of
                 None \<Rightarrow> malformed
               | Some plaintext \<Rightarrow>
                   if MAX_FRAME_BYTES < length plaintext then malformed
                   else case wi_decode wi plaintext of
                     None \<Rightarrow> malformed
                   | Some text' \<Rightarrow> (case wi_parse wi text' of None \<Rightarrow> malformed | Some v \<Rightarrow> decodeFrame v)))))))"

definition importBridgeKey :: "jsval \<Rightarrow> bytes res" where
  "importBridgeKey v = andThen (packet_text v) (\<lambda>s.
     if length s \<noteq> 43 \<or> \<not> list_all base64url_char s then malformed
     else andThen (fromBase64Url s) (\<lambda>bs.
       if length bs \<noteq> 32 \<or> toBase64Url bs \<noteq> s then malformed else Inr bs))"

definition randomTransportId :: "bytes \<Rightarrow> string" where
  "randomTransportId bs = concat (map (\<lambda>b.
     [hex_lower (unat b div 16), hex_lower (unat b mod 16)]) bs)"

text \<open>The round trip of a frame, for the texts and the bytes involved.\<close>

theorem decrypt_encrypt:
  assumes json: "wi_parse wi (wi_stringify wi (js_frame f)) = Some (js_frame f)"
      "\<And>v. wi_parse wi (wi_stringify wi (JObj [(''version'', jnat 1), (''iv'', JStr (toBase64Url iv)), (''ciphertext'', JStr v)])) =
        Some (JObj [(''version'', jnat 1), (''iv'', JStr (toBase64Url iv)), (''ciphertext'', JStr v)])"
    and utf8: "\<And>s. wi_decode wi (wi_encode wi s) = Some s"
    and cipher: "\<And>bs. wi_decrypt wi iv (wi_encrypt wi iv bs) = Some bs" "\<And>bs. wi_encrypt wi iv bs \<noteq> []" "length iv = 12"
    and "frame_ok f" "encryptFrame wi iv f = Inr packet"
  shows "decryptFrame wi (JStr packet) = Inr f"
proof -
  let ?plaintext = "wi_encode wi (wi_stringify wi (js_frame f))"
  have sizes: "\<not> MAX_FRAME_BYTES < length ?plaintext" "\<not> MAX_PACKET_CHARS < length packet"
    and packet: "packet = wi_stringify wi (JObj [(''version'', jnat 1), (''iv'', JStr (toBase64Url iv)),
      (''ciphertext'', JStr (toBase64Url (wi_encrypt wi iv ?plaintext)))])"
    using assms(8) by (auto simp: encryptFrame_def Let_def split: if_splits)
  have "wi_parse wi packet = Some (JObj [(''version'', jnat 1), (''iv'', JStr (toBase64Url iv)),
      (''ciphertext'', JStr (toBase64Url (wi_encrypt wi iv ?plaintext)))])"
    unfolding packet by (rule json(2))
  then show ?thesis
    using sizes decode_frame [OF assms(7)] base64url_length(1) [OF cipher(3)] base64url_length(2) [OF cipher(2)]
    by (simp add: decryptFrame_def wire_record_def base64url_chars base64url_roundtrip cipher utf8 json(1)
        del: js_frame.simps)
qed

end
