(* ===== verification/EndpointBroker.thy ===== *)
theory EndpointBroker
  imports RpcAdapter
begin

section \<open>Endpoints and their targets\<close>

text \<open>
  \<open>extensions/browser-rpc-provider/src/target.ts\<close> and \<open>broker.ts\<close>: the canonical form of a target and
  the registry that matches the endpoints of other tabs with the targets of repositories. The URL
  parser belongs to the platform: \<open>parse\<close> gives the parts of a URL the sources read. The object
  identity of a registration and of a waiter is a number, and the promises that were settled are
  kept with their outcomes in the order in which they were.
\<close>

subsection \<open>Targets\<close>

record url =
  url_href :: string
  url_origin :: string
  url_protocol :: string
  url_username :: string
  url_password :: string
  url_hostname :: string
  url_pathname :: string
  url_search :: string
  url_hash :: string

type_synonym url_parser = "string \<Rightarrow> url option"

definition invalidTarget :: "'a res" where
  "invalidTarget = Inl (RemotishError INVALID_REQUEST)"

definition isLoopback :: "string \<Rightarrow> bool" where
  "isLoopback hostname \<longleftrightarrow> hostname \<in> {''localhost'', ''127.0.0.1'', ''[::1]''}"

definition plain_url_text :: "string \<Rightarrow> bool" where
  "plain_url_text s \<longleftrightarrow> s \<noteq> [] \<and> CHR 0x5C \<notin> set s \<and> CHR ''?'' \<notin> set s \<and> CHR ''#'' \<notin> set s \<and>
     \<not> list_ex (\<lambda>c. let code = (of_char c :: nat) in code \<le> 32 \<or> code = 127) s"

definition acceptable_url :: "url \<Rightarrow> bool" where
  "acceptable_url u \<longleftrightarrow> \<not> (url_protocol u \<noteq> ''https:'' \<and> url_protocol u \<noteq> ''http:'' \<or>
     url_protocol u = ''http:'' \<and> \<not> isLoopback (url_hostname u) \<or>
     url_username u \<noteq> [] \<or> url_password u \<noteq> [] \<or> url_search u \<noteq> [] \<or> url_hash u \<noteq> [] \<or>
     url_hostname u = [])"

fun normalizeBrowserRpcTarget :: "url_parser \<Rightarrow> jsval \<Rightarrow> string res" where
  "normalizeBrowserRpcTarget parse (JStr s) =
     (if \<not> plain_url_text s then invalidTarget
      else case parse s of
        None \<Rightarrow> invalidTarget
      | Some u \<Rightarrow> if acceptable_url u then Inr (url_href u) else invalidTarget)"
| "normalizeBrowserRpcTarget parse v = invalidTarget"

definition decodeBrowserRpcRepository :: "url_parser \<Rightarrow> jsval \<Rightarrow> string res" where
  "decodeBrowserRpcRepository parse v =
     (case v of JObj kvs \<Rightarrow>
        if keys kvs \<noteq> [''target''] then invalidTarget
        else normalizeBrowserRpcTarget parse (js_get v ''target'')
      | _ \<Rightarrow> invalidTarget)"

text \<open>\<open>new URL(target).origin\<close>, which throws when the text is not a URL.\<close>

definition origin_of :: "url_parser \<Rightarrow> string \<Rightarrow> string res" where
  "origin_of parse s = (case parse s of None \<Rightarrow> Inl OtherError | Some u \<Rightarrow> Inr (url_origin u))"

definition normalizeOrigin :: "url_parser \<Rightarrow> jsval \<Rightarrow> string res" where
  "normalizeOrigin parse v = andThen (normalizeBrowserRpcTarget parse v) (\<lambda>normalized.
     case parse normalized of
       None \<Rightarrow> Inl OtherError
     | Some u \<Rightarrow>
         if url_pathname u \<noteq> ''/'' \<or> (v \<noteq> JStr (url_origin u) \<and> v \<noteq> JStr (url_origin u @ ''/''))
         then invalidTarget else Inr (url_origin u))"

lemma normalizeBrowserRpcTarget_Inr:
  "normalizeBrowserRpcTarget parse v = Inr t \<longleftrightarrow> (\<exists>s u. v = JStr s \<and> plain_url_text s \<and> parse s = Some u \<and>
     acceptable_url u \<and> t = url_href u)"
  by (cases v) (auto simp: invalidTarget_def split: option.splits)

lemma acceptable_url_secure:
  "acceptable_url u \<Longrightarrow> url_protocol u = ''https:'' \<or> (url_protocol u = ''http:'' \<and> isLoopback (url_hostname u))"
  by (auto simp: acceptable_url_def)

lemma normalizeOrigin_Inr:
  assumes "normalizeOrigin parse v = Inr origin"
  shows "v = JStr origin \<or> v = JStr (origin @ ''/'')"
  using assms by (auto simp: normalizeOrigin_def invalidTarget_def split: option.splits if_splits)

subsection \<open>The registry\<close>

record 't endpoint_registration =
  er_target :: string
  er_origin :: string
  er_session :: capabilities
  er_transport :: 't

text \<open>What the caller of \<open>find\<close> gets.\<close>

type_synonym 't registered_endpoint = "capabilities \<times> 't"

record 't broker =
  bk_registrations :: "(nat \<times> 't endpoint_registration) list"
  bk_waiters :: "(nat \<times> string) list"
  bk_scheduled :: bool
  bk_disposed :: bool
  bk_next :: nat
  bk_settled :: "(nat \<times> 't registered_endpoint res) list"

definition new_broker :: "'t broker" where
  "new_broker = \<lparr>bk_registrations = [], bk_waiters = [], bk_scheduled = False, bk_disposed = False,
     bk_next = 0, bk_settled = []\<rparr>"

definition requireActive :: "'t broker \<Rightarrow> unit res" where
  "requireActive bk = (if bk_disposed bk then Inl (RemotishError OFFLINE) else Inr ())"

text \<open>
  The endpoint object a transport registers: its members are data, or something with a function
  \<open>request\<close>.
\<close>

datatype 't member = Datum jsval | Requests 't

definition find_member :: "string \<Rightarrow> (string \<times> 't member) list \<Rightarrow> 't member" where
  "find_member k ms = (case map_of ms k of None \<Rightarrow> Datum JUndefined | Some m \<Rightarrow> m)"

fun datum :: "'t member \<Rightarrow> jsval" where
  "datum (Datum v) = v"
| "datum (Requests t) = JObj []"

definition checkMetadata :: "jsval \<Rightarrow> unit res" where
  "checkMetadata metadata = (case metadata of
     JObj kvs \<Rightarrow> if length kvs \<noteq> 1 \<or> ''origin'' \<notin> set (keys kvs) then invalidTarget else Inr ()
   | _ \<Rightarrow> invalidTarget)"

definition checkEndpoint :: "(string \<times> 't member) list \<Rightarrow> unit res" where
  "checkEndpoint endpoint = (if length endpoint \<noteq> 3 \<or> ''target'' \<notin> set (keys endpoint) \<or>
     ''session'' \<notin> set (keys endpoint) \<or> ''transport'' \<notin> set (keys endpoint) then invalidTarget else Inr ())"

definition readRegistration ::
  "url_parser \<Rightarrow> jsval \<Rightarrow> (string \<times> 't member) list \<Rightarrow> 't endpoint_registration res" where
  "readRegistration parse metadata endpoint =
     andThen (checkMetadata metadata) (\<lambda>_.
     andThen (checkEndpoint endpoint) (\<lambda>_.
     andThen (normalizeOrigin parse (js_get metadata ''origin'')) (\<lambda>origin.
     andThen (normalizeBrowserRpcTarget parse (datum (find_member ''target'' endpoint))) (\<lambda>target.
     andThen (origin_of parse target) (\<lambda>claimed.
       if claimed \<noteq> origin then invalidTarget
       else case find_member ''transport'' endpoint of
         Datum v \<Rightarrow> invalidTarget
       | Requests transport \<Rightarrow> andThen (decodeRpcSession (datum (find_member ''session'' endpoint))) (\<lambda>session.
           Inr \<lparr>er_target = target, er_origin = origin, er_session = session, er_transport = transport\<rparr>))))))"

text \<open>The handle of a registration is its number; \<open>scheduleWaiters\<close> queues one microtask at a time.\<close>

definition broker_register ::
  "url_parser \<Rightarrow> jsval \<Rightarrow> (string \<times> 't member) list \<Rightarrow> ('t broker, nat) st" where
  "broker_register parse metadata endpoint bk =
     (case andThen (requireActive bk) (\<lambda>_. readRegistration parse metadata endpoint) of
        Inl e \<Rightarrow> (Inl e, bk)
      | Inr registration \<Rightarrow> (Inr (bk_next bk), bk\<lparr>
          bk_registrations := bk_registrations bk @ [(bk_next bk, registration)],
          bk_next := Suc (bk_next bk), bk_scheduled := True\<rparr>))"

definition broker_unregister :: "nat \<Rightarrow> 't broker \<Rightarrow> 't broker" where
  "broker_unregister i bk = bk\<lparr>bk_registrations := AList.delete i (bk_registrations bk)\<rparr>"

definition matches :: "string \<Rightarrow> string \<Rightarrow> 't endpoint_registration \<Rightarrow> bool" where
  "matches origin target endpoint \<longleftrightarrow> \<not> (er_origin endpoint \<noteq> origin \<or> er_target endpoint \<noteq> target)"

text \<open>The loop of \<open>find\<close>: a second match makes the endpoints ambiguous.\<close>

fun select_match :: "'t endpoint_registration list \<Rightarrow> 't registered_endpoint option res" where
  "select_match [] = Inr None"
| "select_match [match] = Inr (Some (er_session match, er_transport match))"
| "select_match (match # other # rest) = invalidTarget"

definition broker_find :: "url_parser \<Rightarrow> jsval \<Rightarrow> 't broker \<Rightarrow> 't registered_endpoint option res" where
  "broker_find parse targetValue bk =
     andThen (requireActive bk) (\<lambda>_.
     andThen (normalizeBrowserRpcTarget parse targetValue) (\<lambda>target.
     andThen (origin_of parse target) (\<lambda>origin.
       select_match (filter (matches origin target) (map snd (bk_registrations bk))))))"

subsection \<open>Waiting for an endpoint\<close>

definition DEFAULT_WAIT_MS :: nat where
  "DEFAULT_WAIT_MS = 30000"

text \<open>The promise of a waiter settles once; later outcomes are ignored.\<close>

definition finish_waiter :: "nat \<Rightarrow> 't registered_endpoint res \<Rightarrow> 't broker \<Rightarrow> 't broker" where
  "finish_waiter i outcome bk =
     (if i \<in> set (keys (bk_settled bk)) then bk
      else bk\<lparr>bk_waiters := AList.delete i (bk_waiters bk), bk_settled := bk_settled bk @ [(i, outcome)]\<rparr>)"

definition wait_timeout :: "jsval \<Rightarrow> bool" where
  "wait_timeout v = (case v of
     JUndefined \<Rightarrow> True
   | JNum n \<Rightarrow> (case safe_integer n of None \<Rightarrow> False | Some i \<Rightarrow> 0 \<le> i \<and> i \<le> int DEFAULT_WAIT_MS)
   | _ \<Rightarrow> False)"

text \<open>
  The answer is the promise: settled at once, or pending and known by its number. A signal that had
  not fired when the call began cannot fire before its listener is there.
\<close>

datatype 't wait = Ready "'t registered_endpoint res" | Waits nat

definition broker_waitFor ::
  "url_parser \<Rightarrow> jsval \<Rightarrow> jsval \<Rightarrow> bool \<Rightarrow> 't broker \<Rightarrow> 't wait \<times> 't broker" where
  "broker_waitFor parse targetValue timeoutMs aborted bk =
     (case andThen (requireActive bk) (\<lambda>_. normalizeBrowserRpcTarget parse targetValue) of
        Inl e \<Rightarrow> (Ready (Inl e), bk)
      | Inr target \<Rightarrow>
          if \<not> wait_timeout timeoutMs then (Ready invalidTarget, bk)
          else if aborted then (Ready (Inl (RemotishError CANCELLED)), bk)
          else case broker_find parse (JStr target) bk of
            Inl e \<Rightarrow> (Ready (Inl e), bk)
          | Inr (Some available) \<Rightarrow> (Ready (Inr available), bk)
          | Inr None \<Rightarrow> (Waits (bk_next bk), bk\<lparr>bk_waiters := bk_waiters bk @ [(bk_next bk, target)],
              bk_next := Suc (bk_next bk)\<rparr>))"

definition waiter_aborted :: "nat \<Rightarrow> 't broker \<Rightarrow> 't broker" where
  "waiter_aborted i = finish_waiter i (Inl (RemotishError CANCELLED))"

definition waiter_timed_out :: "nat \<Rightarrow> 't broker \<Rightarrow> 't broker" where
  "waiter_timed_out i = finish_waiter i (Inl (RemotishError OFFLINE))"

text \<open>The microtask of \<open>scheduleWaiters\<close>.\<close>

definition serve_waiter :: "url_parser \<Rightarrow> nat \<times> string \<Rightarrow> 't broker \<Rightarrow> 't broker" where
  "serve_waiter parse w bk = (case broker_find parse (JStr (snd w)) bk of
     Inr (Some endpoint) \<Rightarrow> finish_waiter (fst w) (Inr endpoint) bk
   | Inr None \<Rightarrow> bk
   | Inl (RemotishError c) \<Rightarrow> finish_waiter (fst w) (Inl (RemotishError c)) bk
   | Inl _ \<Rightarrow> finish_waiter (fst w) (Inl (RemotishError UNKNOWN)) bk)"

definition broker_microtask :: "url_parser \<Rightarrow> 't broker \<Rightarrow> 't broker" where
  "broker_microtask parse bk = fold (serve_waiter parse) (bk_waiters bk) (bk\<lparr>bk_scheduled := False\<rparr>)"

definition broker_dispose :: "'t broker \<Rightarrow> 't broker" where
  "broker_dispose bk = (if bk_disposed bk then bk
     else fold (\<lambda>w. finish_waiter (fst w) (Inl (RemotishError OFFLINE))) (bk_waiters bk)
       (bk\<lparr>bk_disposed := True, bk_registrations := []\<rparr>))"

subsection \<open>What the registry guarantees\<close>

text \<open>
  An endpoint is selected only when the origin its transport vouches for is the origin of the target,
  and it is the only one that claims the target.
\<close>

lemma select_match_Some: "select_match rs = Inr (Some endpoint) \<longleftrightarrow> (\<exists>r. rs = [r] \<and> endpoint = (er_session r, er_transport r))"
  by (cases rs rule: select_match.cases) (auto simp: invalidTarget_def)

theorem broker_find_sound:
  assumes "broker_find parse v bk = Inr (Some endpoint)"
  obtains target origin i r where "normalizeBrowserRpcTarget parse v = Inr target"
    "origin_of parse target = Inr origin" "(i, r) \<in> set (bk_registrations bk)"
    "er_origin r = origin" "er_target r = target" "endpoint = (er_session r, er_transport r)"
    "\<forall>(j, s) \<in> set (bk_registrations bk). er_origin s = origin \<and> er_target s = target \<longrightarrow> s = r"
proof -
  from assms obtain target origin r where
    r: "normalizeBrowserRpcTarget parse v = Inr target" "origin_of parse target = Inr origin"
      "filter (matches origin target) (map snd (bk_registrations bk)) = [r]" "endpoint = (er_session r, er_transport r)"
    by (auto simp: broker_find_def select_match_Some)
  have set: "\<And>s. matches origin target s \<and> s \<in> set (map snd (bk_registrations bk)) \<longleftrightarrow> s = r"
    using arg_cong [OF r(3), of set] by (auto simp: set_eq_iff)
  from set [of r] obtain i where i: "(i, r) \<in> set (bk_registrations bk)" and own: "er_origin r = origin" "er_target r = target"
    by (auto simp: matches_def)
  have "\<forall>(j, s) \<in> set (bk_registrations bk). er_origin s = origin \<and> er_target s = target \<longrightarrow> s = r"
  proof (intro ballI, clarify)
    fix j s
    assume "(j, s) \<in> set (bk_registrations bk)" "origin = er_origin s" "target = er_target s"
    then show "s = r" using set [of s] by (force simp: matches_def)
  qed
  with r i own show thesis by (intro that [of target origin i r]) simp_all
qed

lemma readRegistration_Inr:
  assumes "readRegistration parse metadata endpoint = Inr r"
  shows "origin_of parse (er_target r) = Inr (er_origin r)"
    "js_get metadata ''origin'' = JStr (er_origin r) \<or> js_get metadata ''origin'' = JStr (er_origin r @ ''/'')"
    "find_member ''transport'' endpoint = Requests (er_transport r)"
  using assms
  by (auto simp: readRegistration_def invalidTarget_def dest: normalizeOrigin_Inr split: if_splits member.splits)

text \<open>Everything that can happen to the registry.\<close>

inductive broker_step :: "url_parser \<Rightarrow> 't broker \<Rightarrow> 't broker \<Rightarrow> bool" for parse where
  register: "broker_step parse bk (snd (broker_register parse metadata endpoint bk))"
| unregister: "broker_step parse bk (broker_unregister i bk)"
| wait: "broker_step parse bk (snd (broker_waitFor parse v timeout aborted bk))"
| abort: "i \<in> set (keys (bk_waiters bk)) \<Longrightarrow> broker_step parse bk (waiter_aborted i bk)"
| timeout: "i \<in> set (keys (bk_waiters bk)) \<Longrightarrow> broker_step parse bk (waiter_timed_out i bk)"
| microtask: "bk_scheduled bk \<Longrightarrow> broker_step parse bk (broker_microtask parse bk)"
| dispose: "broker_step parse bk (broker_dispose bk)"

definition broker_inv :: "url_parser \<Rightarrow> 't broker \<Rightarrow> bool" where
  "broker_inv parse bk \<longleftrightarrow>
     (\<forall>(i, r) \<in> set (bk_registrations bk). origin_of parse (er_target r) = Inr (er_origin r)) \<and>
     distinct (keys (bk_waiters bk) @ keys (bk_settled bk)) \<and>
     (\<forall>i \<in> set (keys (bk_waiters bk) @ keys (bk_settled bk)). i < bk_next bk) \<and>
     (bk_disposed bk \<longrightarrow> bk_registrations bk = [] \<and> bk_waiters bk = [])"

definition known :: "'t broker \<Rightarrow> nat set" where
  "known bk = set (keys (bk_waiters bk)) \<union> set (keys (bk_settled bk))"

lemma finish_waiter_known [simp]: "i \<in> known bk \<Longrightarrow> known (finish_waiter i outcome bk) = known bk"
  by (auto simp: finish_waiter_def known_def)

lemma finish_waiter_inv:
  assumes "broker_inv parse bk" "i \<in> known bk"
  shows "broker_inv parse (finish_waiter i outcome bk)"
proof -
  have "distinct (keys (AList.delete i (bk_waiters bk)) @ keys (bk_settled bk) @ [i])"
    if "i \<notin> set (keys (bk_settled bk))"
    using assms(1) that by (auto simp: broker_inv_def)
  then show ?thesis
    using assms by (auto simp: broker_inv_def finish_waiter_def known_def)
qed

lemma settled_grows: "prefix (bk_settled bk) (bk_settled (finish_waiter i outcome bk))"
  by (simp add: finish_waiter_def)

lemma serve_waiter_finish:
  "serve_waiter parse w bk = bk \<or> (\<exists>outcome. serve_waiter parse w bk = finish_waiter (fst w) outcome bk)"
  by (auto simp: serve_waiter_def split: sum.split option.split err.split)

lemma fold_finish:
  assumes "\<And>w bk. f w bk = bk \<or> (\<exists>outcome. f w bk = finish_waiter (fst w) outcome bk)"
  shows "broker_inv parse bk \<Longrightarrow> fst ` set ws \<subseteq> known bk \<Longrightarrow>
    broker_inv parse (fold f ws bk) \<and> prefix (bk_settled bk) (bk_settled (fold f ws bk))"
proof (induction ws arbitrary: bk)
  case (Cons w ws)
  have "known (f w bk) = known bk" "broker_inv parse (f w bk)" "prefix (bk_settled bk) (bk_settled (f w bk))"
    using assms [of w bk] Cons.prems settled_grows [of bk "fst w"] by (auto intro: finish_waiter_inv)
  with Cons.IH [of "f w bk"] Cons.prems show ?case by (auto intro: prefix_order.trans)
qed simp

text \<open>Disposal settles every waiter.\<close>

lemma fold_finish_all:
  "bk_waiters bk = ws \<Longrightarrow> distinct (keys ws @ keys (bk_settled bk)) \<Longrightarrow>
    bk_waiters (fold (\<lambda>w. finish_waiter (fst w) outcome) ws bk) = []"
proof (induction ws arbitrary: bk)
  case (Cons w ws)
  then have "bk_waiters (finish_waiter (fst w) outcome bk) = ws"
    by (cases w) (auto simp: finish_waiter_def intro!: delete_id)
  with Cons show ?case by (simp add: finish_waiter_def)
qed simp

lemma fold_finish_frame:
  "bk_registrations (fold (\<lambda>w. finish_waiter (fst w) outcome) ws bk) = bk_registrations bk"
  by (induction ws arbitrary: bk) (simp_all add: finish_waiter_def)

theorem broker_step_inv:
  assumes "broker_step parse bk bk'" "broker_inv parse bk"
  shows "broker_inv parse bk' \<and> prefix (bk_settled bk) (bk_settled bk')"
  using assms
proof (induction rule: broker_step.induct)
  case (register bk metadata endpoint)
  then show ?case
    by (auto simp: broker_register_def broker_inv_def requireActive_def dest: readRegistration_Inr
        intro: less_SucI split: sum.split if_splits)
next
  case (unregister bk i)
  then show ?case
    by (auto simp: broker_unregister_def broker_inv_def AList.delete_eq)
next
  case (wait bk v timeout aborted)
  then show ?case
    by (auto simp: broker_waitFor_def broker_inv_def requireActive_def intro: less_SucI
        split: sum.split option.split if_splits)
next
  case (abort i bk)
  then show ?case
    using finish_waiter_inv [of parse bk i] settled_grows by (simp add: waiter_aborted_def known_def)
next
  case (timeout i bk)
  then show ?case
    using finish_waiter_inv [of parse bk i] settled_grows by (simp add: waiter_timed_out_def known_def)
next
  case (microtask bk)
  have "broker_inv parse (bk\<lparr>bk_scheduled := False\<rparr>)" using microtask(2) by (simp add: broker_inv_def)
  then show ?case
    using fold_finish [where f = "serve_waiter parse" and ws = "bk_waiters bk", OF serve_waiter_finish]
    by (fastforce simp: broker_microtask_def known_def)
next
  case (dispose bk)
  let ?start = "bk\<lparr>bk_registrations := []\<rparr>" and ?f = "\<lambda>w. finish_waiter (fst w) (Inl (RemotishError OFFLINE))"
  have start: "broker_inv parse ?start" using dispose by (simp add: broker_inv_def)
  have inv: "broker_inv parse (fold ?f (bk_waiters bk) ?start)"
    "prefix (bk_settled bk) (bk_settled (fold ?f (bk_waiters bk) ?start))"
    using fold_finish [of ?f parse ?start "bk_waiters bk"] start by (auto simp: known_def)
  have disposed: "fold ?f ws (b\<lparr>bk_disposed := True\<rparr>) = (fold ?f ws b)\<lparr>bk_disposed := True\<rparr>" for ws b
  proof (induction ws arbitrary: b)
    case (Cons w ws)
    have "?f w (b\<lparr>bk_disposed := True\<rparr>) = (?f w b)\<lparr>bk_disposed := True\<rparr>" by (simp add: finish_waiter_def)
    then show ?case by (simp only: fold.simps comp_apply Cons.IH)
  qed simp
  have "bk\<lparr>bk_disposed := True, bk_registrations := []\<rparr> = ?start\<lparr>bk_disposed := True\<rparr>" by simp
  then have "broker_dispose bk = (if bk_disposed bk then bk else (fold ?f (bk_waiters bk) ?start)\<lparr>bk_disposed := True\<rparr>)"
    by (simp only: broker_dispose_def disposed)
  moreover have "bk_waiters (fold ?f (bk_waiters bk) ?start) = []" "bk_registrations (fold ?f (bk_waiters bk) ?start) = []"
    using fold_finish_all [of ?start "bk_waiters bk"] start by (auto simp: broker_inv_def fold_finish_frame)
  ultimately show ?case using inv dispose by (auto simp: broker_inv_def)
qed

end
