(* ===== verification/TransportEndpoint.thy ===== *)
theory TransportEndpoint
  imports TransportWire EndpointBroker
begin

section \<open>The endpoint of the browser RPC transport\<close>

text \<open>
  The class \<open>BrowserRpcUserscriptEndpoint\<close> of \<open>extensions/browser-rpc-provider/src/transport/userscript.ts\<close>,
  which serves the requests of the hosts it has announced itself to. Code between two suspensions is
  one operation here; what it hands to the cipher and the mailbox is its list of frames, any of which
  may get lost. The clock is an argument. A packet whose decryption has begun is in
  \<open>ue_decrypting\<close>; a run of \<open>handleRequest\<close> that has called the handler is an element of \<open>ue_calls\<close>,
  whose position stands for its abort controller, and stays there with its response when it is over.
\<close>

definition MAX_ACTIVE_REQUESTS :: nat where
  "MAX_ACTIVE_REQUESTS = 32"

definition MAX_HOSTS :: nat where
  "MAX_HOSTS = 32"

definition MAX_REQUEST_IDS :: nat where
  "MAX_REQUEST_IDS = 65536"

definition HOST_STALE_MS :: int where
  "HOST_STALE_MS = 30000"

record host_link =
  hl_counter :: nat
  hl_lastSeen :: int

record served_call =
  cl_host :: host_id
  cl_requestId :: request_id
  cl_request :: rpc_request
  cl_aborted :: bool
  cl_running :: bool
  cl_response :: "jsval option"

record userscript_endpoint =
  ue_endpointId :: endpoint_id
  ue_origin :: string
  ue_target :: string
  ue_session :: capabilities
  ue_active :: "(string \<times> nat) list"
  ue_hosts :: "(host_id \<times> host_link) list"
  ue_seenRequestIds :: "string list"
  ue_heartbeats :: bool
  ue_disposals :: nat
  ue_disposed :: bool
  ue_decrypting :: "frame list"
  ue_calls :: "served_call list"

text \<open>\<open>globalThis.location.origin\<close> and the random identifier are arguments.\<close>

definition newUserscriptEndpoint ::
  "url_parser \<Rightarrow> string \<Rightarrow> endpoint_id \<Rightarrow> jsval \<Rightarrow> jsval \<Rightarrow> userscript_endpoint res" where
  "newUserscriptEndpoint parse origin i targetValue session =
     andThen (normalizeBrowserRpcTarget parse targetValue) (\<lambda>target.
     andThen (origin_of parse target) (\<lambda>claimed.
       if claimed \<noteq> origin then invalidTarget
       else andThen (decodeRpcSession session) (\<lambda>caps.
         Inr \<lparr>ue_endpointId = i, ue_origin = origin, ue_target = target, ue_session = caps, ue_active = [],
           ue_hosts = [], ue_seenRequestIds = [], ue_heartbeats = True, ue_disposals = 0, ue_disposed = False,
           ue_decrypting = [], ue_calls = []\<rparr>)))"

subsection \<open>Frames it sends\<close>

definition endpoint_send :: "userscript_endpoint \<Rightarrow> frame \<Rightarrow> frame list" where
  "endpoint_send ue f = (if ue_disposed ue then [] else [f])"

text \<open>
  \<open>respond\<close>: a response that \<open>encryptFrame\<close> refuses for its size (\<open>fits\<close> is false) is replaced by a
  failure; whether the endpoint is disposed is left to the mailbox.
\<close>

definition respond_frame :: "(frame \<Rightarrow> bool) \<Rightarrow> userscript_endpoint \<Rightarrow> host_id \<Rightarrow> request_id \<Rightarrow> jsval \<Rightarrow> frame" where
  "respond_frame fits ue h q response =
     (let f = Response h (ue_endpointId ue) q response in
      if fits f then f else Response h (ue_endpointId ue) q (encodeRpcFailure INVALID_REQUEST))"

subsection \<open>Hosts\<close>

definition nextCounter :: "int \<Rightarrow> host_id \<Rightarrow> (userscript_endpoint, nat) st" where
  "nextCounter now h ue =
     (let state = map_of (ue_hosts ue) h;
          next' = (case state of None \<Rightarrow> 0 | Some l \<Rightarrow> hl_counter l) + 1 in
      if int next' > max_safe_integer then (Inl (RemotishError RATE_LIMITED), ue)
      else (Inr next', ue\<lparr>ue_hosts := AList.update h
        \<lparr>hl_counter = next', hl_lastSeen = (case state of None \<Rightarrow> now | Some l \<Rightarrow> hl_lastSeen l)\<rparr> (ue_hosts ue)\<rparr>))"

definition sweepHosts :: "int \<Rightarrow> userscript_endpoint \<Rightarrow> userscript_endpoint" where
  "sweepHosts now ue = ue\<lparr>ue_hosts := filter (\<lambda>(h, l). \<not> now - hl_lastSeen l > HOST_STALE_MS) (ue_hosts ue)\<rparr>"

text \<open>
  The loop of the heartbeat and of the disposal: one frame for each host, until a counter is
  exhausted.
\<close>

fun send_all :: "(host_id \<Rightarrow> nat \<Rightarrow> frame) \<Rightarrow> int \<Rightarrow> host_id list \<Rightarrow> userscript_endpoint \<Rightarrow>
  unit res \<times> userscript_endpoint \<times> frame list" where
  "send_all f now [] ue = (Inr (), ue, [])"
| "send_all f now (h # hs) ue =
     (case nextCounter now h ue of
        (Inl e, ue') \<Rightarrow> (Inl e, ue', [])
      | (Inr n, ue') \<Rightarrow> (case send_all f now hs ue' of (r, ue'', fs) \<Rightarrow> (r, ue'', endpoint_send ue' (f h n) @ fs)))"

definition endpoint_heartbeat :: "int \<Rightarrow> userscript_endpoint \<Rightarrow> userscript_endpoint \<times> frame list" where
  "endpoint_heartbeat now ue =
     (let ue' = sweepHosts now ue in
      snd (send_all (\<lambda>h n. Heartbeat h (ue_endpointId ue) n) now (keys (ue_hosts ue')) ue'))"

definition announce :: "int \<Rightarrow> host_id \<Rightarrow> userscript_endpoint \<Rightarrow> userscript_endpoint \<times> frame list" where
  "announce now h ue0 =
     (let ue = sweepHosts now ue0 in
      if h \<notin> set (keys (ue_hosts ue)) \<and> MAX_HOSTS \<le> length (ue_hosts ue) then (ue, [])
      else let ue' = (case map_of (ue_hosts ue) h of
          None \<Rightarrow> ue
        | Some l \<Rightarrow> ue\<lparr>ue_hosts := AList.update h (l\<lparr>hl_lastSeen := now\<rparr>) (ue_hosts ue)\<rparr>) in
      case nextCounter now h ue' of
        (Inl e, ue'') \<Rightarrow> (ue'', [])
      | (Inr n, ue'') \<Rightarrow> (ue'', endpoint_send ue'' (Register h (ue_endpointId ue'') n (ue_origin ue'')
          (ue_target ue'') (js_session (ue_session ue'')))))"

subsection \<open>Requests\<close>

definition requestKey :: "host_id \<Rightarrow> request_id \<Rightarrow> string" where
  "requestKey h q = h @ '':'' @ q"

definition call_key :: "served_call \<Rightarrow> string" where
  "call_key c = requestKey (cl_host c) (cl_requestId c)"

definition abort_call :: "nat \<Rightarrow> userscript_endpoint \<Rightarrow> userscript_endpoint" where
  "abort_call i ue = ue\<lparr>ue_calls := (ue_calls ue)[i := (ue_calls ue ! i)\<lparr>cl_aborted := True\<rparr>]\<rparr>"

text \<open>\<open>handleRequest\<close> until the handler has been called.\<close>

definition handleRequest ::
  "(frame \<Rightarrow> bool) \<Rightarrow> host_id \<Rightarrow> request_id \<Rightarrow> jsval \<Rightarrow> userscript_endpoint \<Rightarrow> userscript_endpoint \<times> frame list" where
  "handleRequest fits h q raw ue =
     (let key = requestKey h q in
      if key \<in> set (ue_seenRequestIds ue) then (ue, [])
      else if MAX_REQUEST_IDS \<le> length (ue_seenRequestIds ue)
      then (ue, [respond_frame fits ue h q (encodeRpcFailure RATE_LIMITED)])
      else let ue' = ue\<lparr>ue_seenRequestIds := set_add key (ue_seenRequestIds ue)\<rparr> in
      if MAX_ACTIVE_REQUESTS \<le> length (ue_active ue')
      then (ue', [respond_frame fits ue' h q (encodeRpcFailure RATE_LIMITED)])
      else case decodeRpcRequest raw of
        Inl e \<Rightarrow> (ue', [respond_frame fits ue' h q (encodeRpcFailure INVALID_REQUEST)])
      | Inr request \<Rightarrow> (ue'\<lparr>ue_active := AList.update key (length (ue_calls ue')) (ue_active ue'),
          ue_calls := ue_calls ue' @ [\<lparr>cl_host = h, cl_requestId = q, cl_request = request, cl_aborted = False,
            cl_running = True, cl_response = None\<rparr>]\<rparr>, []))"

text \<open>
  What wins the race: the outcome of the handler, or its abort signal. The rest of \<open>handleRequest\<close>
  computes the response, frees the slot and responds unless the call was aborted or the endpoint
  disposed.
\<close>

datatype handler_outcome = Handled "jsval res" | AbortFired

definition outcome_response :: "served_call \<Rightarrow> handler_outcome \<Rightarrow> bool \<Rightarrow> jsval option" where
  "outcome_response c outcome disposed =
     (if cl_aborted c \<or> disposed then None
      else case outcome of
        AbortFired \<Rightarrow> None
      | Handled (Inl e) \<Rightarrow> Some (encodeRpcFailure (sent_code e))
      | Handled (Inr result) \<Rightarrow> (case encodeRpcSuccess (rq_operation (cl_request c)) result of
          Inl e \<Rightarrow> Some (encodeRpcFailure (sent_code e))
        | Inr response \<Rightarrow> Some response))"

definition settle_call ::
  "(frame \<Rightarrow> bool) \<Rightarrow> nat \<Rightarrow> handler_outcome \<Rightarrow> userscript_endpoint \<Rightarrow> userscript_endpoint \<times> frame list" where
  "settle_call fits i outcome ue =
     (let c = ue_calls ue ! i; response = outcome_response c outcome (ue_disposed ue);
          ue' = ue\<lparr>ue_active := AList.delete (call_key c) (ue_active ue),
            ue_calls := (ue_calls ue)[i := c\<lparr>cl_running := False, cl_response := response\<rparr>]\<rparr> in
      (ue', case response of None \<Rightarrow> [] | Some v \<Rightarrow> [respond_frame fits ue' (cl_host c) (cl_requestId c) v]))"

subsection \<open>Packets from the mailbox\<close>

definition endpoint_arrive :: "frame \<Rightarrow> userscript_endpoint \<Rightarrow> userscript_endpoint" where
  "endpoint_arrive f ue = (if ue_disposed ue then ue else ue\<lparr>ue_decrypting := ue_decrypting ue @ [f]\<rparr>)"

fun endpoint_frame ::
  "(frame \<Rightarrow> bool) \<Rightarrow> int \<Rightarrow> frame \<Rightarrow> userscript_endpoint \<Rightarrow> userscript_endpoint \<times> frame list" where
  "endpoint_frame fits now (Hello h) ue = announce now h ue"
| "endpoint_frame fits now (Request h e q raw) ue =
     (if e = ue_endpointId ue \<and> h \<in> set (keys (ue_hosts ue)) then handleRequest fits h q raw ue else (ue, []))"
| "endpoint_frame fits now (Cancel h e q) ue =
     (if e = ue_endpointId ue \<and> h \<in> set (keys (ue_hosts ue)) then
        let key = requestKey h q;
            ue' = (if length (ue_seenRequestIds ue) < MAX_REQUEST_IDS
              then ue\<lparr>ue_seenRequestIds := set_add key (ue_seenRequestIds ue)\<rparr> else ue) in
        (case map_of (ue_active ue') key of None \<Rightarrow> ue' | Some i \<Rightarrow> abort_call i ue', [])
      else (ue, []))"
| "endpoint_frame fits now f ue = (ue, [])"

definition endpoint_decrypted ::
  "(frame \<Rightarrow> bool) \<Rightarrow> int \<Rightarrow> frame \<Rightarrow> userscript_endpoint \<Rightarrow> userscript_endpoint \<times> frame list" where
  "endpoint_decrypted fits now f ue =
     endpoint_frame fits now f (ue\<lparr>ue_decrypting := remove1 f (ue_decrypting ue)\<rparr>)"

subsection \<open>Disposal\<close>

definition end_disposal :: "userscript_endpoint \<Rightarrow> userscript_endpoint" where
  "end_disposal ue = ue\<lparr>ue_disposed := True, ue_hosts := [], ue_seenRequestIds := []\<rparr>"

text \<open>\<open>dispose\<close> until it waits for the disconnect frames; \<open>ue_disposals\<close> counts the calls that wait.\<close>

definition endpoint_dispose :: "int \<Rightarrow> userscript_endpoint \<Rightarrow> userscript_endpoint \<times> frame list" where
  "endpoint_dispose now ue =
     (if ue_disposed ue then (ue, [])
      else let aborted = fold (\<lambda>(key, i). abort_call i) (ue_active ue) (ue\<lparr>ue_heartbeats := False\<rparr>) in
      case send_all (\<lambda>h n. Disconnect h (ue_endpointId ue) n) now (keys (ue_hosts ue)) (aborted\<lparr>ue_active := []\<rparr>) of
        (Inl e, ue', fs) \<Rightarrow> (end_disposal ue', fs)
      | (Inr _, ue', fs) \<Rightarrow> (ue'\<lparr>ue_disposals := Suc (ue_disposals ue')\<rparr>, fs))"

definition endpoint_disposed :: "userscript_endpoint \<Rightarrow> userscript_endpoint" where
  "endpoint_disposed ue = end_disposal (ue\<lparr>ue_disposals := ue_disposals ue - 1\<rparr>)"

subsection \<open>The relay\<close>

text \<open>
  The class \<open>BrowserRpcUserscriptHostRelay\<close>, which runs in the tab of the host: it carries packets from
  the channel to the mailbox and back, each kind of frame in its own direction only. The result is
  the packet it passes on.
\<close>

fun from_host :: "frame \<Rightarrow> bool" where
  "from_host (Hello h) = True"
| "from_host (Request h e q v) = True"
| "from_host (Cancel h e q) = True"
| "from_host f = False"

fun from_endpoint :: "frame \<Rightarrow> bool" where
  "from_endpoint (Register h e n origin target session) = True"
| "from_endpoint (Heartbeat h e n) = True"
| "from_endpoint (Disconnect h e n) = True"
| "from_endpoint (Response h e q v) = True"
| "from_endpoint f = False"

definition relay_fromChannel :: "wire \<Rightarrow> bool \<Rightarrow> jsval \<Rightarrow> string option" where
  "relay_fromChannel wi disposed raw =
     (case raw of
        JStr packet \<Rightarrow>
          if disposed \<or> MAX_PACKET_CHARS < length packet then None
          else (case decryptFrame wi raw of Inr f \<Rightarrow> if from_host f then Some packet else None | Inl e \<Rightarrow> None)
      | _ \<Rightarrow> None)"

definition relay_fromMailbox :: "wire \<Rightarrow> bool \<Rightarrow> string \<Rightarrow> string option" where
  "relay_fromMailbox wi disposed packet =
     (if disposed then None
      else case decryptFrame wi (JStr packet) of Inr f \<Rightarrow> if from_endpoint f then Some packet else None | Inl e \<Rightarrow> None)"

text \<open>The relay passes packets on as they are, and none both ways.\<close>

lemma relay_directions:
  "relay_fromChannel wi d (JStr packet) = Some p \<Longrightarrow> p = packet \<and> relay_fromMailbox wi d' packet = None"
proof -
  have "\<not> (from_host f \<and> from_endpoint f)" for f by (cases f) simp_all
  then show "relay_fromChannel wi d (JStr packet) = Some p \<Longrightarrow> ?thesis"
    by (auto simp: relay_fromChannel_def relay_fromMailbox_def split: if_splits sum.splits)
qed

end
