(* ===== verification/TransportHost.thy ===== *)
theory TransportHost
  imports TransportEndpoint
begin

section \<open>The host of the browser RPC transport\<close>

text \<open>
  The class \<open>BrowserRpcHostTransport\<close> of \<open>extensions/browser-rpc-provider/src/transport/host.ts\<close>: the
  endpoints that registered with it, which it offers to the broker, and the requests it has sent
  them. The transport an endpoint registers is known by the identifier of the endpoint. A call of
  \<open>request\<close> that got an identifier is in \<open>ht_requests\<close> with its arguments, and its promise, once settled,
  in \<open>ht_settled\<close>; frames whose encryption has begun are in \<open>ht_encrypting\<close>, a request together with
  the identifier \<open>stillNeeded\<close> looks for.
\<close>

definition MAX_ENDPOINTS :: nat where
  "MAX_ENDPOINTS = 32"

definition MAX_PENDING :: nat where
  "MAX_PENDING = 32"

definition STALE_MS :: int where
  "STALE_MS = 15000"

definition MAX_SESSION_IDS :: nat where
  "MAX_SESSION_IDS = 4096"

record browser_endpoint =
  he_origin :: string
  he_target :: string
  he_session :: string
  he_registration :: nat
  he_counter :: nat
  he_lastSeen :: int

record host_transport =
  ht_hostId :: host_id
  ht_endpoints :: "(endpoint_id \<times> browser_endpoint) list"
  ht_seenEndpointIds :: "endpoint_id list"
  ht_pending :: "(request_id \<times> endpoint_id) list"
  ht_disposed :: bool
  ht_broker :: "endpoint_id broker"
  ht_decrypting :: "frame list"
  ht_encrypting :: "(frame \<times> request_id option) list"
  ht_requests :: "(request_id \<times> endpoint_id \<times> jsval) list"
  ht_settled :: "(request_id \<times> jsval res) list"

definition new_host_transport :: "host_id \<Rightarrow> endpoint_id broker \<Rightarrow> host_transport" where
  "new_host_transport i bk = \<lparr>ht_hostId = i, ht_endpoints = [], ht_seenEndpointIds = [], ht_pending = [],
     ht_disposed = False, ht_broker = bk, ht_decrypting = [], ht_encrypting = [], ht_requests = [],
     ht_settled = []\<rparr>"

subsection \<open>Pending requests\<close>

definition finish_request :: "request_id \<Rightarrow> jsval res \<Rightarrow> host_transport \<Rightarrow> host_transport" where
  "finish_request q outcome ht =
     (if q \<in> set (keys (ht_settled ht)) then ht
      else ht\<lparr>ht_pending := AList.delete q (ht_pending ht), ht_settled := ht_settled ht @ [(q, outcome)]\<rparr>)"

definition host_send :: "frame \<Rightarrow> request_id option \<Rightarrow> host_transport \<Rightarrow> host_transport" where
  "host_send f needed ht =
     (if ht_disposed ht then ht else ht\<lparr>ht_encrypting := ht_encrypting ht @ [(f, needed)]\<rparr>)"

definition host_disconnect :: "endpoint_id \<Rightarrow> host_transport \<Rightarrow> host_transport" where
  "host_disconnect e ht = (case map_of (ht_endpoints ht) e of
     None \<Rightarrow> ht
   | Some endpoint \<Rightarrow> fold (\<lambda>(q, e'). if e' = e then finish_request q (Inl (RemotishError OFFLINE)) else id)
       (ht_pending ht)
       (ht\<lparr>ht_endpoints := AList.delete e (ht_endpoints ht),
         ht_broker := broker_unregister (he_registration endpoint) (ht_broker ht)\<rparr>))"

text \<open>The identifier of a new request is random and an argument; a call without one is refused.\<close>

datatype request_call = Refused err | Pends request_id

definition host_request ::
  "request_id \<Rightarrow> endpoint_id \<Rightarrow> jsval \<Rightarrow> bool \<Rightarrow> host_transport \<Rightarrow> request_call \<times> host_transport" where
  "host_request q e raw aborted ht =
     (if ht_disposed ht \<or> e \<notin> set (keys (ht_endpoints ht)) then (Refused (RemotishError OFFLINE), ht)
      else if MAX_PENDING \<le> length (ht_pending ht) then (Refused (RemotishError RATE_LIMITED), ht)
      else case decodeRpcRequest raw of
        Inl err \<Rightarrow> (Refused err, ht)
      | Inr request \<Rightarrow>
          if aborted then (Refused (RemotishError CANCELLED), ht)
          else (Pends q, host_send (Request (ht_hostId ht) e q raw) (Some q)
            (ht\<lparr>ht_requests := ht_requests ht @ [(q, e, raw)],
              ht_pending := AList.update q e (ht_pending ht)\<rparr>)))"

text \<open>The abort signal and the timer settle a pending request and ask the endpoint to cancel it.\<close>

definition give_up :: "error_code \<Rightarrow> request_id \<Rightarrow> host_transport \<Rightarrow> host_transport" where
  "give_up code q ht = (case map_of (ht_pending ht) q of
     None \<Rightarrow> ht
   | Some e \<Rightarrow> host_send (Cancel (ht_hostId ht) e q) None (finish_request q (Inl (RemotishError code)) ht))"

definition host_aborted :: "request_id \<Rightarrow> host_transport \<Rightarrow> host_transport" where
  "host_aborted = give_up CANCELLED"

definition host_timed_out :: "request_id \<Rightarrow> host_transport \<Rightarrow> host_transport" where
  "host_timed_out = give_up OFFLINE"

subsection \<open>Packets for the channel\<close>

text \<open>
  How the encryption of a frame ends: with a packet that is posted, one whose posting throws, a
  refusal for its size, or another exception.
\<close>

datatype encryption = Posted | PostFailed | Unsendable | CipherFailed

definition unsendable_response :: "jsval \<Rightarrow> jsval res" where
  "unsendable_response raw =
     (if js_get raw ''operation'' = JStr ''commit'' then
        (case encodeRpcSuccess DoCommit (JObj [(''status'', JStr ''rejected''), (''reason'', JStr ''UNSUPPORTED''),
            (''message'', JStr ''Browser RPC commit exceeds the transport size limit.'')]) of
          Inl e \<Rightarrow> Inl (RemotishError OFFLINE) | Inr v \<Rightarrow> Inr v)
      else Inr (encodeRpcFailure INVALID_REQUEST))"

fun request_failed :: "jsval res \<Rightarrow> frame \<Rightarrow> host_transport \<Rightarrow> host_transport" where
  "request_failed outcome (Request h e q raw) ht = finish_request q outcome ht"
| "request_failed outcome f ht = ht"

fun request_unsendable :: "frame \<Rightarrow> host_transport \<Rightarrow> host_transport" where
  "request_unsendable (Request h e q raw) ht = finish_request q (unsendable_response raw) ht"
| "request_unsendable f ht = ht"

definition still_needed :: "request_id option \<Rightarrow> host_transport \<Rightarrow> bool" where
  "still_needed needed ht = (case needed of None \<Rightarrow> True | Some q \<Rightarrow> q \<in> set (keys (ht_pending ht)))"

definition host_encrypted ::
  "frame \<times> request_id option \<Rightarrow> encryption \<Rightarrow> host_transport \<Rightarrow> host_transport \<times> frame list" where
  "host_encrypted p encrypted ht0 =
     (let f = fst p; ht = ht0\<lparr>ht_encrypting := remove1 p (ht_encrypting ht0)\<rparr> in
      case encrypted of
        Unsendable \<Rightarrow> (request_unsendable f ht, [])
      | CipherFailed \<Rightarrow> (request_failed (Inl (RemotishError OFFLINE)) f ht, [])
      | Posted \<Rightarrow> if \<not> ht_disposed ht \<and> still_needed (snd p) ht then (ht, [f]) else (ht, [])
      | PostFailed \<Rightarrow> if \<not> ht_disposed ht \<and> still_needed (snd p) ht
          then (request_failed (Inl (RemotishError OFFLINE)) f ht, []) else (ht, []))"

definition host_hello :: "host_transport \<Rightarrow> host_transport" where
  "host_hello ht = host_send (Hello (ht_hostId ht)) None ht"

subsection \<open>Packets from the channel\<close>

definition host_register :: "(jsval \<Rightarrow> string) \<Rightarrow> url_parser \<Rightarrow> int \<Rightarrow> endpoint_id \<Rightarrow> nat \<Rightarrow> string \<Rightarrow> string \<Rightarrow>
    jsval \<Rightarrow> host_transport \<Rightarrow> host_transport" where
  "host_register stringify parse now e counter origin claimed session0 ht =
     (case andThen (normalizeBrowserRpcTarget parse (JStr claimed)) (\<lambda>target.
         andThen (decodeRpcSession session0) (\<lambda>caps. Inr (target, stringify (js_session caps)))) of
        Inl err \<Rightarrow> ht
      | Inr (target, session) \<Rightarrow> (case map_of (ht_endpoints ht) e of
          Some existing \<Rightarrow>
            if counter \<le> he_counter existing then ht
            else if he_target existing \<noteq> target \<or> he_origin existing \<noteq> origin \<or> he_session existing \<noteq> session
            then host_disconnect e ht
            else ht\<lparr>ht_endpoints := AList.update e (existing\<lparr>he_counter := counter, he_lastSeen := now\<rparr>)
              (ht_endpoints ht)\<rparr>
        | None \<Rightarrow>
            if e \<in> set (ht_seenEndpointIds ht) \<or> MAX_SESSION_IDS \<le> length (ht_seenEndpointIds ht) \<or>
              MAX_ENDPOINTS \<le> length (ht_endpoints ht) then ht
            else (case broker_register parse (JObj [(''origin'', JStr origin)])
                [(''target'', Datum (JStr target)), (''session'', Datum session0), (''transport'', Requests e)]
                (ht_broker ht) of
              (Inl err, bk) \<Rightarrow> ht\<lparr>ht_broker := bk\<rparr>
            | (Inr registration, bk) \<Rightarrow> ht\<lparr>ht_broker := bk,
                ht_endpoints := AList.update e \<lparr>he_origin = origin, he_target = target, he_session = session,
                  he_registration = registration, he_counter = counter, he_lastSeen = now\<rparr> (ht_endpoints ht),
                ht_seenEndpointIds := set_add e (ht_seenEndpointIds ht)\<rparr>)))"

definition touch :: "endpoint_id \<Rightarrow> int \<Rightarrow> host_transport \<Rightarrow> host_transport" where
  "touch e now ht = (case map_of (ht_endpoints ht) e of
     None \<Rightarrow> ht
   | Some endpoint \<Rightarrow> ht\<lparr>ht_endpoints := AList.update e (endpoint\<lparr>he_lastSeen := now\<rparr>) (ht_endpoints ht)\<rparr>)"

fun host_frame :: "(jsval \<Rightarrow> string) \<Rightarrow> url_parser \<Rightarrow> int \<Rightarrow> frame \<Rightarrow> host_transport \<Rightarrow> host_transport" where
  "host_frame stringify parse now (Register h e counter origin target session) ht =
     (if h = ht_hostId ht then host_register stringify parse now e counter origin target session ht else ht)"
| "host_frame stringify parse now (Heartbeat h e counter) ht = (case map_of (ht_endpoints ht) e of
     Some endpoint \<Rightarrow>
       if h = ht_hostId ht \<and> he_counter endpoint < counter
       then ht\<lparr>ht_endpoints := AList.update e (endpoint\<lparr>he_counter := counter, he_lastSeen := now\<rparr>) (ht_endpoints ht)\<rparr>
       else ht
   | None \<Rightarrow> ht)"
| "host_frame stringify parse now (Disconnect h e counter) ht =
     (if h \<noteq> ht_hostId ht then ht
      else case map_of (ht_endpoints ht) e of
        Some endpoint \<Rightarrow> if he_counter endpoint < counter then host_disconnect e ht else ht
      | None \<Rightarrow> if length (ht_seenEndpointIds ht) < MAX_SESSION_IDS
          then ht\<lparr>ht_seenEndpointIds := set_add e (ht_seenEndpointIds ht)\<rparr> else ht)"
| "host_frame stringify parse now (Response h e q response) ht =
     (if h \<noteq> ht_hostId ht \<or> e \<notin> set (keys (ht_endpoints ht)) then ht
      else if map_of (ht_pending ht) q = Some e then finish_request q (Inr response) (touch e now ht)
      else ht)"
| "host_frame stringify parse now f ht = ht"

definition host_arrive :: "frame \<Rightarrow> host_transport \<Rightarrow> host_transport" where
  "host_arrive f ht = (if ht_disposed ht then ht else ht\<lparr>ht_decrypting := ht_decrypting ht @ [f]\<rparr>)"

definition host_decrypted ::
  "(jsval \<Rightarrow> string) \<Rightarrow> url_parser \<Rightarrow> int \<Rightarrow> frame \<Rightarrow> host_transport \<Rightarrow> host_transport" where
  "host_decrypted stringify parse now f ht0 =
     (let ht = ht0\<lparr>ht_decrypting := remove1 f (ht_decrypting ht0)\<rparr> in
      if ht_disposed ht then ht else host_frame stringify parse now f ht)"

subsection \<open>Timer and disposal\<close>

definition sweep_endpoint :: "int \<Rightarrow> endpoint_id \<times> browser_endpoint \<Rightarrow> host_transport \<Rightarrow> host_transport" where
  "sweep_endpoint now p ht =
     (if fst p \<notin> snd ` set (ht_pending ht) \<and> now - he_lastSeen (snd p) > STALE_MS
      then host_disconnect (fst p) ht else ht)"

definition host_sweep :: "int \<Rightarrow> host_transport \<Rightarrow> host_transport" where
  "host_sweep now ht = (if ht_disposed ht then ht else fold (sweep_endpoint now) (ht_endpoints ht) ht)"

definition host_dispose :: "host_transport \<Rightarrow> host_transport" where
  "host_dispose ht = (if ht_disposed ht then ht
     else (fold host_disconnect (keys (ht_endpoints ht)) (ht\<lparr>ht_disposed := True\<rparr>))\<lparr>ht_seenEndpointIds := []\<rparr>)"

end
