(* ===== verification/TransportSystem.thy ===== *)
theory TransportSystem
  imports TransportHost
begin

section \<open>A host and an endpoint over an unreliable network\<close>

text \<open>
  The two classes of the transport together. What the channel, the relay and the mailbox do to packets
  is unconstrained: a packet may be lost, delayed, overtaken and delivered any number of times to
  either side, also the one that sent it. Other tabs hold the same key, so that any well formed frame
  may arrive that does not carry the identifiers of this host and this endpoint; those are random and
  nobody else uses them.
\<close>

record system =
  sy_host :: host_transport
  sy_endpoint :: userscript_endpoint
  sy_frames :: "frame list"

fun frame_endpoint :: "frame \<Rightarrow> endpoint_id option" where
  "frame_endpoint (Hello h) = None"
| "frame_endpoint (Register h e n origin target session) = Some e"
| "frame_endpoint (Heartbeat h e n) = Some e"
| "frame_endpoint (Disconnect h e n) = Some e"
| "frame_endpoint (Request h e q v) = Some e"
| "frame_endpoint (Response h e q v) = Some e"
| "frame_endpoint (Cancel h e q) = Some e"

definition to_endpoint :: "system \<Rightarrow> frame \<Rightarrow> bool" where
  "to_endpoint sy f \<longleftrightarrow> frame_ok f \<and> (fr_host f = ht_hostId (sy_host sy) \<longrightarrow> f \<in> set (sy_frames sy))"

definition to_host :: "system \<Rightarrow> frame \<Rightarrow> bool" where
  "to_host sy f \<longleftrightarrow> frame_ok f \<and>
     (fr_host f = ht_hostId (sy_host sy) \<and> frame_endpoint f = Some (ue_endpointId (sy_endpoint sy)) \<longrightarrow>
       f \<in> set (sy_frames sy))"

text \<open>
  What can happen next, with the time at which it does. The broker is shared with the rest of the
  extension, which may do anything to it.
\<close>

datatype action =
    EndpointArrive frame
  | EndpointDecrypted int frame
  | HandlerSettled nat handler_outcome
  | HandlerTimeout nat
  | EndpointHeartbeat int
  | EndpointDispose int
  | EndpointDisposed
  | HostArrive frame
  | HostDecrypted int frame
  | HostRequest request_id endpoint_id jsval bool
  | HostEncrypted "frame \<times> request_id option" encryption
  | HostAborted request_id
  | HostTimedOut request_id
  | HostHello
  | HostSweep int
  | HostDispose
  | BrokerUsed "endpoint_id broker"

definition on_endpoint :: "userscript_endpoint \<times> frame list \<Rightarrow> system \<Rightarrow> system" where
  "on_endpoint r sy = sy\<lparr>sy_endpoint := fst r, sy_frames := sy_frames sy @ snd r\<rparr>"

definition on_host :: "host_transport \<times> frame list \<Rightarrow> system \<Rightarrow> system" where
  "on_host r sy = sy\<lparr>sy_host := fst r, sy_frames := sy_frames sy @ snd r\<rparr>"

definition can_settle :: "nat \<Rightarrow> userscript_endpoint \<Rightarrow> bool" where
  "can_settle i ue \<longleftrightarrow> i < length (ue_calls ue) \<and> cl_running (ue_calls ue ! i)"

text \<open>When an action is possible, and what it does; the identifier of a new request is fresh.\<close>

fun enabled :: "system \<Rightarrow> action \<Rightarrow> bool" where
  "enabled sy (EndpointArrive f) = to_endpoint sy f"
| "enabled sy (EndpointDecrypted now f) = (f \<in> set (ue_decrypting (sy_endpoint sy)))"
| "enabled sy (HandlerSettled i outcome) = (can_settle i (sy_endpoint sy) \<and>
     (outcome = AbortFired \<longrightarrow> cl_aborted (ue_calls (sy_endpoint sy) ! i)))"
| "enabled sy (HandlerTimeout i) = can_settle i (sy_endpoint sy)"
| "enabled sy (EndpointHeartbeat now) = ue_heartbeats (sy_endpoint sy)"
| "enabled sy (EndpointDispose now) = True"
| "enabled sy EndpointDisposed = (0 < ue_disposals (sy_endpoint sy))"
| "enabled sy (HostArrive f) = to_host sy f"
| "enabled sy (HostDecrypted now f) = (f \<in> set (ht_decrypting (sy_host sy)))"
| "enabled sy (HostRequest q e raw aborted) = (is_transport_id q \<and> q \<notin> set (keys (ht_requests (sy_host sy))))"
| "enabled sy (HostEncrypted p encrypted) = (p \<in> set (ht_encrypting (sy_host sy)))"
| "enabled sy a = True"

fun perform :: "(frame \<Rightarrow> bool) \<Rightarrow> (jsval \<Rightarrow> string) \<Rightarrow> url_parser \<Rightarrow> action \<Rightarrow> system \<Rightarrow> system" where
  "perform fits stringify parse (EndpointArrive f) sy = on_endpoint (endpoint_arrive f (sy_endpoint sy), []) sy"
| "perform fits stringify parse (EndpointDecrypted now f) sy =
     on_endpoint (endpoint_decrypted fits now f (sy_endpoint sy)) sy"
| "perform fits stringify parse (HandlerSettled i outcome) sy =
     on_endpoint (settle_call fits i outcome (sy_endpoint sy)) sy"
| "perform fits stringify parse (HandlerTimeout i) sy = on_endpoint (abort_call i (sy_endpoint sy), []) sy"
| "perform fits stringify parse (EndpointHeartbeat now) sy = on_endpoint (endpoint_heartbeat now (sy_endpoint sy)) sy"
| "perform fits stringify parse (EndpointDispose now) sy = on_endpoint (endpoint_dispose now (sy_endpoint sy)) sy"
| "perform fits stringify parse EndpointDisposed sy = on_endpoint (endpoint_disposed (sy_endpoint sy), []) sy"
| "perform fits stringify parse (HostArrive f) sy = on_host (host_arrive f (sy_host sy), []) sy"
| "perform fits stringify parse (HostDecrypted now f) sy =
     on_host (host_decrypted stringify parse now f (sy_host sy), []) sy"
| "perform fits stringify parse (HostRequest q e raw aborted) sy =
     on_host (snd (host_request q e raw aborted (sy_host sy)), []) sy"
| "perform fits stringify parse (HostEncrypted p encrypted) sy = on_host (host_encrypted p encrypted (sy_host sy)) sy"
| "perform fits stringify parse (HostAborted q) sy = on_host (host_aborted q (sy_host sy), []) sy"
| "perform fits stringify parse (HostTimedOut q) sy = on_host (host_timed_out q (sy_host sy), []) sy"
| "perform fits stringify parse HostHello sy = on_host (host_hello (sy_host sy), []) sy"
| "perform fits stringify parse (HostSweep now) sy = on_host (host_sweep now (sy_host sy), []) sy"
| "perform fits stringify parse HostDispose sy = on_host (host_dispose (sy_host sy), []) sy"
| "perform fits stringify parse (BrokerUsed bk) sy = on_host ((sy_host sy)\<lparr>ht_broker := bk\<rparr>, []) sy"

fun run_system ::
  "(frame \<Rightarrow> bool) \<Rightarrow> (jsval \<Rightarrow> string) \<Rightarrow> url_parser \<Rightarrow> action list \<Rightarrow> system \<Rightarrow> system option" where
  "run_system fits stringify parse [] sy = Some sy"
| "run_system fits stringify parse (a # as) sy =
     (if enabled sy a then run_system fits stringify parse as (perform fits stringify parse a sy) else None)"

definition start_system ::
  "url_parser \<Rightarrow> host_id \<Rightarrow> string \<Rightarrow> endpoint_id \<Rightarrow> jsval \<Rightarrow> jsval \<Rightarrow> system res" where
  "start_system parse h origin e target session =
     andThen (newUserscriptEndpoint parse origin e target session) (\<lambda>ue.
       Inr \<lparr>sy_host = new_host_transport h new_broker, sy_endpoint = ue, sy_frames = []\<rparr>)"

lemma run_system_invariant:
  assumes "run_system fits stringify parse as sy = Some sy'" "P sy"
    and "\<And>a s. P s \<Longrightarrow> enabled s a \<Longrightarrow> P (perform fits stringify parse a s)"
  shows "P sy'"
  using assms(1,2) by (induction as arbitrary: sy) (auto split: if_splits intro: assms(3))

subsection \<open>The endpoint\<close>

text \<open>No two calls of the handler are for one request, and the tables keep their bounds.\<close>

definition endpoint_inv :: "userscript_endpoint \<Rightarrow> bool" where
  "endpoint_inv ue \<longleftrightarrow>
     (\<not> ue_disposed ue \<longrightarrow> distinct (map call_key (ue_calls ue)) \<and>
       (\<forall>c \<in> set (ue_calls ue). call_key c \<in> set (ue_seenRequestIds ue))) \<and>
     length (ue_active ue) \<le> MAX_ACTIVE_REQUESTS \<and> length (ue_seenRequestIds ue) \<le> MAX_REQUEST_IDS \<and>
     distinct (keys (ue_hosts ue)) \<and> length (ue_hosts ue) \<le> MAX_HOSTS \<and>
     (\<forall>c \<in> set (ue_calls ue). cl_running c \<longrightarrow> cl_response c = None)"

definition refusals :: "jsval set" where
  "refusals = {encodeRpcFailure RATE_LIMITED, encodeRpcFailure INVALID_REQUEST}"

definition answered :: "userscript_endpoint \<Rightarrow> host_id \<Rightarrow> request_id \<Rightarrow> jsval \<Rightarrow> bool" where
  "answered ue h q v \<longleftrightarrow> v \<in> refusals \<or>
     (\<exists>c \<in> set (ue_calls ue). cl_host c = h \<and> cl_requestId c = q \<and> cl_response c = Some v)"

definition requested :: "(frame \<Rightarrow> bool) \<Rightarrow> endpoint_id \<Rightarrow> served_call \<Rightarrow> bool" where
  "requested A e c \<longleftrightarrow> (\<exists>raw. A (Request (cl_host c) e (cl_requestId c) raw) \<and> decodeRpcRequest raw = Inr (cl_request c))"

fun endpoint_frame_ok :: "userscript_endpoint \<Rightarrow> frame \<Rightarrow> bool" where
  "endpoint_frame_ok ue (Response h e q v) = (e = ue_endpointId ue \<and> answered ue h q v)"
| "endpoint_frame_ok ue (Register h e n origin target session) = (e = ue_endpointId ue)"
| "endpoint_frame_ok ue (Heartbeat h e n) = (e = ue_endpointId ue)"
| "endpoint_frame_ok ue (Disconnect h e n) = (e = ue_endpointId ue)"
| "endpoint_frame_ok ue f = False"

text \<open>
  One operation: it keeps the invariant, forgets no answer, its new calls are for a request that has
  arrived (\<open>A\<close>), and its responses are answers.
\<close>

definition endpoint_moves ::
  "(frame \<Rightarrow> bool) \<Rightarrow> userscript_endpoint \<Rightarrow> userscript_endpoint \<times> frame list \<Rightarrow> bool" where
  "endpoint_moves A ue r \<longleftrightarrow> endpoint_inv ue \<longrightarrow> endpoint_inv (fst r) \<and>
     ue_endpointId (fst r) = ue_endpointId ue \<and>
     (\<forall>h q v. answered ue h q v \<longrightarrow> answered (fst r) h q v) \<and>
     ((\<forall>c \<in> set (ue_calls ue). requested A (ue_endpointId ue) c) \<longrightarrow>
       (\<forall>c \<in> set (ue_calls (fst r)). requested A (ue_endpointId ue) c)) \<and>
     list_all (endpoint_frame_ok (fst r)) (snd r) \<and>
     set (ue_decrypting (fst r)) \<subseteq> set (ue_decrypting ue)"

lemma endpoint_moves_trans:
  assumes "endpoint_moves A ue (ue', [])" "endpoint_moves A ue' r"
  shows "endpoint_moves A ue r"
  using assms by (auto simp: endpoint_moves_def)

lemma endpoint_moves_refl: "endpoint_moves A ue (ue, [])"
  by (simp add: endpoint_moves_def)

text \<open>Operations that leave the calls alone.\<close>

lemma moves_same_calls:
  assumes "ue_calls ue' = ue_calls ue" "ue_endpointId ue' = ue_endpointId ue" "endpoint_inv ue \<Longrightarrow> endpoint_inv ue'"
    and "list_all (endpoint_frame_ok ue') fs" "set (ue_decrypting ue') \<subseteq> set (ue_decrypting ue)"
  shows "endpoint_moves A ue (ue', fs)"
  using assms by (simp add: endpoint_moves_def answered_def)

text \<open>Counters and hosts.\<close>

lemma map_of_keys: "map_of m k = Some v \<Longrightarrow> k \<in> set (keys m)"
  by (induction m) (auto split: if_splits)

lemma keys_update_present: "k \<in> set (keys m) \<Longrightarrow> keys (AList.update k v m) = keys m"
  by (induction m) auto

lemma length_update_present: "k \<in> set (keys m) \<Longrightarrow> length (AList.update k v m) = length m"
  using keys_update_present [of k m v] by (metis length_map)

lemma length_update: "length (AList.update k v m) \<le> Suc (length m)"
  by (induction m) auto

definition same_but_hosts :: "userscript_endpoint \<Rightarrow> userscript_endpoint \<Rightarrow> bool" where
  "same_but_hosts ue ue' \<longleftrightarrow> (\<exists>hs. ue' = ue\<lparr>ue_hosts := hs\<rparr> \<and>
     (distinct (keys (ue_hosts ue)) \<longrightarrow> distinct (keys hs)))"

lemma same_but_hosts_refl: "same_but_hosts ue ue"
  by (auto simp: same_but_hosts_def intro!: exI [of _ "ue_hosts ue"])

lemma same_but_hosts_trans: "same_but_hosts ue ue' \<Longrightarrow> same_but_hosts ue' ue'' \<Longrightarrow> same_but_hosts ue ue''"
  by (auto simp: same_but_hosts_def)

lemma same_but_hosts_frame:
  "same_but_hosts ue ue' \<Longrightarrow> ue_endpointId ue' = ue_endpointId ue \<and> ue_calls ue' = ue_calls ue \<and>
    ue_decrypting ue' = ue_decrypting ue \<and> ue_disposed ue' = ue_disposed ue"
  by (auto simp: same_but_hosts_def)

lemma same_but_hosts_moves:
  assumes "same_but_hosts ue ue'" "list_all (endpoint_frame_ok ue') fs"
    and "length (ue_hosts ue) \<le> MAX_HOSTS \<Longrightarrow> length (ue_hosts ue') \<le> MAX_HOSTS"
  shows "endpoint_moves A ue (ue', fs)"
  using assms by (intro moves_same_calls) (auto simp: same_but_hosts_def endpoint_inv_def)

lemma nextCounter_hosts:
  assumes "nextCounter now h ue = (r, ue')"
  shows "same_but_hosts ue ue'" "h \<in> set (keys (ue_hosts ue)) \<Longrightarrow> keys (ue_hosts ue') = keys (ue_hosts ue)"
    "length (ue_hosts ue') \<le> Suc (length (ue_hosts ue))"
proof -
  have "ue' = ue \<or> (\<exists>l. ue' = ue\<lparr>ue_hosts := AList.update h l (ue_hosts ue)\<rparr>)"
    using assms by (auto simp: nextCounter_def Let_def split: if_splits)
  then show "same_but_hosts ue ue'" "h \<in> set (keys (ue_hosts ue)) \<Longrightarrow> keys (ue_hosts ue') = keys (ue_hosts ue)"
    "length (ue_hosts ue') \<le> Suc (length (ue_hosts ue))"
    using length_update [of h _ "ue_hosts ue"] keys_update_present [of h "ue_hosts ue"]
    by (fastforce simp: same_but_hosts_refl same_but_hosts_def)+
qed

lemma send_all_hosts:
  assumes "send_all f now hs ue = (r, ue', fs)" "set hs \<subseteq> set (keys (ue_hosts ue))"
  shows "same_but_hosts ue ue' \<and> keys (ue_hosts ue') = keys (ue_hosts ue) \<and> (\<forall>x \<in> set fs. \<exists>h n. x = f h n)"
  using assms
proof (induction hs arbitrary: ue r ue' fs)
  case (Cons h hs)
  obtain r1 ue1 where next1: "nextCounter now h ue = (r1, ue1)" by fastforce
  have keys1: "keys (ue_hosts ue1) = keys (ue_hosts ue)" "same_but_hosts ue ue1"
    using nextCounter_hosts [OF next1] Cons.prems(2) by auto
  show ?case
  proof (cases r1)
    case (Inl e)
    then show ?thesis using Cons.prems(1) next1 keys1 by auto
  next
    case (Inr n)
    obtain r2 ue2 fs2 where rest: "send_all f now hs ue1 = (r2, ue2, fs2)" using prod_cases3 by blast
    have "same_but_hosts ue1 ue2 \<and> keys (ue_hosts ue2) = keys (ue_hosts ue1) \<and> (\<forall>x \<in> set fs2. \<exists>h n. x = f h n)"
      using Cons.prems(2) by (intro Cons.IH [OF rest]) (simp add: keys1)
    moreover have "ue' = ue2" "fs = endpoint_send ue1 (f h n) @ fs2"
      using Cons.prems(1) next1 rest Inr by auto
    ultimately show ?thesis
      using keys1 by (auto simp: endpoint_send_def intro: same_but_hosts_trans)
  qed
qed (auto simp: same_but_hosts_refl)

lemma sweepHosts_hosts:
  "same_but_hosts ue (sweepHosts now ue)" "length (ue_hosts (sweepHosts now ue)) \<le> length (ue_hosts ue)"
  by (auto simp: same_but_hosts_def sweepHosts_def distinct_keys_filter)

lemma heartbeat_moves: "endpoint_moves A ue (endpoint_heartbeat now ue)"
proof -
  let ?ue = "sweepHosts now ue"
  obtain r ue' fs where sent: "send_all (\<lambda>h n. Heartbeat h (ue_endpointId ue) n) now (keys (ue_hosts ?ue)) ?ue = (r, ue', fs)"
    using prod_cases3 by blast
  note hosts = send_all_hosts [OF sent subset_refl]
  have same: "same_but_hosts ue ue'"
    using sweepHosts_hosts(1) hosts by (blast intro: same_but_hosts_trans)
  have "length (ue_hosts ue') \<le> length (ue_hosts ue)"
    using hosts sweepHosts_hosts(2) [of now ue] by (metis length_map)
  then have "endpoint_moves A ue (ue', fs)"
    using hosts same_but_hosts_frame [OF same] by (intro same_but_hosts_moves [OF same]) (auto simp: list_all_iff)
  then show ?thesis by (simp add: endpoint_heartbeat_def Let_def sent)
qed

lemma announce_moves: "endpoint_moves A ue0 (announce now h ue0)"
proof -
  let ?ue = "sweepHosts now ue0"
  let ?touched = "case map_of (ue_hosts ?ue) h of None \<Rightarrow> ?ue
    | Some l \<Rightarrow> ?ue\<lparr>ue_hosts := AList.update h (l\<lparr>hl_lastSeen := now\<rparr>) (ue_hosts ?ue)\<rparr>"
  show ?thesis
  proof (cases "h \<notin> set (keys (ue_hosts ?ue)) \<and> MAX_HOSTS \<le> length (ue_hosts ?ue)")
    case True
    then show ?thesis
      using sweepHosts_hosts(1) [of ue0 now] sweepHosts_hosts(2) [of now ue0]
      by (auto simp: announce_def intro!: same_but_hosts_moves intro: order_trans)
  next
    case False
    obtain r ue' where next': "nextCounter now h ?touched = (r, ue')" by fastforce
    have keys: "keys (ue_hosts ?touched) = keys (ue_hosts ?ue)"
    proof (cases "map_of (ue_hosts ?ue) h")
      case (Some l)
      then have "h \<in> set (keys (ue_hosts ?ue))" by (rule map_of_keys)
      from keys_update_present [OF this] show ?thesis by (simp add: Some)
    qed simp
    have touched: "same_but_hosts ?ue ?touched"
      by (auto simp add: same_but_hosts_refl split: option.split) (auto simp: same_but_hosts_def)
    have same: "same_but_hosts ue0 ue'"
      using sweepHosts_hosts(1) touched nextCounter_hosts(1) [OF next'] by (blast intro: same_but_hosts_trans)
    have "length (ue_hosts ue') \<le> MAX_HOSTS" if "length (ue_hosts ue0) \<le> MAX_HOSTS"
    proof (cases "h \<in> set (keys (ue_hosts ?ue))")
      case True
      then show ?thesis
        using nextCounter_hosts(2) [OF next'] keys sweepHosts_hosts(2) [of now ue0] that by (metis length_map order_trans)
    next
      case absent: False
      have "length (ue_hosts ?touched) = length (ue_hosts ?ue)" using keys by (metis length_map)
      then show ?thesis using False absent nextCounter_hosts(3) [OF next'] by simp
    qed
    moreover have "announce now h ue0 = (case r of Inl e \<Rightarrow> (ue', [])
      | Inr n \<Rightarrow> (ue', endpoint_send ue' (Register h (ue_endpointId ue') n (ue_origin ue') (ue_target ue') (js_session (ue_session ue')))))"
      unfolding announce_def Let_def if_not_P [OF False] next' by (cases r) simp_all
    ultimately show ?thesis
      by (auto split: sum.split simp: endpoint_send_def intro!: same_but_hosts_moves [OF same])
  qed
qed

text \<open>Requests, cancellations and the end of a call.\<close>

lemma respond_frame_ok: "answered ue h q v \<Longrightarrow> endpoint_frame_ok ue (respond_frame fits ue h q v)"
  by (auto simp: respond_frame_def Let_def answered_def refusals_def)

lemma answered_refusal [simp]:
  "answered ue h q (encodeRpcFailure RATE_LIMITED)" "answered ue h q (encodeRpcFailure INVALID_REQUEST)"
  by (simp_all add: answered_def refusals_def)

lemma seen_moves:
  assumes "length seen \<le> MAX_REQUEST_IDS" "set (ue_seenRequestIds ue) \<subseteq> set seen" "list_all (endpoint_frame_ok ue) fs"
  shows "endpoint_moves A ue (ue\<lparr>ue_seenRequestIds := seen\<rparr>, fs)"
proof (rule moves_same_calls)
  show "list_all (endpoint_frame_ok (ue\<lparr>ue_seenRequestIds := seen\<rparr>)) fs"
  proof -
    have "endpoint_frame_ok (ue\<lparr>ue_seenRequestIds := seen\<rparr>) f = endpoint_frame_ok ue f" for f
      by (cases f) (simp_all add: answered_def)
    then show ?thesis using assms(3) by (simp add: list_all_iff)
  qed
qed (use assms in \<open>auto simp: endpoint_inv_def\<close>)

lemma length_set_add: "length (set_add x xs) \<le> Suc (length xs)"
  by (simp add: set_add_def)

lemma handleRequest_moves:
  assumes "A (Request h (ue_endpointId ue) q raw)"
  shows "endpoint_moves A ue (handleRequest fits h q raw ue)"
proof -
  let ?key = "requestKey h q" and ?seen = "set_add (requestKey h q) (ue_seenRequestIds ue)"
  let ?ue = "ue\<lparr>ue_seenRequestIds := ?seen\<rparr>"
  have refused: "endpoint_moves A ue (?ue, [respond_frame fits ?ue h q (encodeRpcFailure code)])"
    if "\<not> MAX_REQUEST_IDS \<le> length (ue_seenRequestIds ue)" "code \<in> {RATE_LIMITED, INVALID_REQUEST}" for code
  proof -
    have "respond_frame fits ?ue h q (encodeRpcFailure code) = respond_frame fits ue h q (encodeRpcFailure code)"
      by (simp add: respond_frame_def Let_def)
    then show ?thesis
      using that length_set_add [of ?key "ue_seenRequestIds ue"] by (auto intro!: seen_moves respond_frame_ok)
  qed
  show ?thesis
  proof (cases "?key \<in> set (ue_seenRequestIds ue) \<or> MAX_REQUEST_IDS \<le> length (ue_seenRequestIds ue) \<or>
      MAX_ACTIVE_REQUESTS \<le> length (ue_active ue) \<or> isl (decodeRpcRequest raw)")
    case True
    then show ?thesis
      using refused endpoint_moves_refl moves_same_calls [of ue ue _ A]
      by (auto simp: handleRequest_def Let_def respond_frame_ok split: sum.split)
  next
    case False
    then obtain request where request: "decodeRpcRequest raw = Inr request" by (auto simp: isl_def split: sum.splits)
       (metis sum.exhaust)
    let ?c = "\<lparr>cl_host = h, cl_requestId = q, cl_request = request, cl_aborted = False, cl_running = True,
      cl_response = None\<rparr>"
    let ?ue' = "?ue\<lparr>ue_active := AList.update ?key (length (ue_calls ue)) (ue_active ue), ue_calls := ue_calls ue @ [?c]\<rparr>"
    have "handleRequest fits h q raw ue = (?ue', [])"
      using False request by (simp add: handleRequest_def Let_def)
    moreover have "endpoint_inv ?ue'" if "endpoint_inv ue"
      using that False length_set_add [of ?key "ue_seenRequestIds ue"] length_update [of ?key "length (ue_calls ue)" "ue_active ue"]
      by (auto simp: endpoint_inv_def call_key_def)
    moreover have "requested A (ue_endpointId ue) ?c"
      using assms request by (auto simp: requested_def)
    ultimately show ?thesis by (auto simp: endpoint_moves_def answered_def)
  qed
qed

text \<open>A change of one call that keeps what identifies it.\<close>

lemma answered_update:
  assumes "answered ue h q v" "ue_calls ue' = (ue_calls ue)[i := c]" "i < length (ue_calls ue)"
    and "cl_host c = cl_host (ue_calls ue ! i)" "cl_requestId c = cl_requestId (ue_calls ue ! i)"
    and "cl_response (ue_calls ue ! i) \<noteq> None \<Longrightarrow> cl_response c = cl_response (ue_calls ue ! i)"
  shows "answered ue' h q v"
proof -
  { fix d
    assume d: "d \<in> set (ue_calls ue)" "cl_host d = h" "cl_requestId d = q" "cl_response d = Some v"
    then obtain j where j: "j < length (ue_calls ue)" "ue_calls ue ! j = d" by (auto simp: in_set_conv_nth)
    then have "(ue_calls ue)[i := c] ! j \<in> set ((ue_calls ue)[i := c])" by (intro nth_mem) simp
    moreover have "cl_host ((ue_calls ue)[i := c] ! j) = h \<and> cl_requestId ((ue_calls ue)[i := c] ! j) = q \<and>
        cl_response ((ue_calls ue)[i := c] ! j) = Some v"
      using d j assms(3-6) by (cases "j = i") auto
    ultimately have "answered ue' h q v" unfolding answered_def assms(2) by blast }
  then show ?thesis using assms(1) by (auto simp: answered_def)
qed

lemma update_call_moves:
  assumes calls: "ue_calls ue' = (ue_calls ue)[i := c]" "i < length (ue_calls ue)"
    and same: "cl_host c = cl_host (ue_calls ue ! i)" "cl_requestId c = cl_requestId (ue_calls ue ! i)"
      "cl_request c = cl_request (ue_calls ue ! i)"
      "endpoint_inv ue \<Longrightarrow> cl_response (ue_calls ue ! i) \<noteq> None \<Longrightarrow> cl_response c = cl_response (ue_calls ue ! i)"
      "endpoint_inv ue \<Longrightarrow> cl_running c \<Longrightarrow> cl_response c = None"
    and others: "ue_endpointId ue' = ue_endpointId ue" "ue_seenRequestIds ue' = ue_seenRequestIds ue"
      "ue_disposed ue' = ue_disposed ue" "ue_decrypting ue' = ue_decrypting ue" "ue_hosts ue' = ue_hosts ue"
      "length (ue_active ue') \<le> length (ue_active ue)" "list_all (endpoint_frame_ok ue') fs"
  shows "endpoint_moves A ue (ue', fs)"
proof -
  have key: "call_key c = call_key (ue_calls ue ! i)" using same by (simp add: call_key_def)
  have keys: "map call_key (ue_calls ue') = map call_key (ue_calls ue)"
    unfolding calls(1) map_update key using calls(2) by (metis list_update_id map_update)
  have "endpoint_inv ue'" if inv: "endpoint_inv ue"
  proof -
    have "call_key ` set (ue_calls ue') = call_key ` set (ue_calls ue)" using keys by (metis list.set_map)
    then have "\<forall>d \<in> set (ue_calls ue'). \<exists>d0 \<in> set (ue_calls ue). call_key d = call_key d0" by (metis image_iff)
    moreover have "\<forall>d \<in> set (ue_calls ue'). cl_running d \<longrightarrow> cl_response d = None"
      unfolding calls(1) using inv same(5) [OF inv] set_update_subset_insert [of "ue_calls ue" i c]
      by (fastforce simp: endpoint_inv_def)
    ultimately show ?thesis using inv others keys by (fastforce simp: endpoint_inv_def)
  qed
  moreover have "answered ue' h q v" if "endpoint_inv ue" "answered ue h q v" for h q v
    using answered_update [OF that(2) calls same(1,2)] same(4) [OF that(1)] by blast
  moreover have "\<forall>d \<in> set (ue_calls ue'). requested A (ue_endpointId ue) d"
    if "\<forall>d \<in> set (ue_calls ue). requested A (ue_endpointId ue) d"
  proof -
    have "requested A (ue_endpointId ue) c"
      using that nth_mem [OF calls(2)] same by (fastforce simp: requested_def)
    then show ?thesis unfolding calls(1) using that set_update_subset_insert [of "ue_calls ue" i c] by blast
  qed
  ultimately show ?thesis using others by (simp add: endpoint_moves_def)
qed

lemma abort_call_moves: "endpoint_moves A ue (abort_call i ue, [])"
proof (cases "i < length (ue_calls ue)")
  case True
  then show ?thesis
    by (intro update_call_moves [of _ _ i "(ue_calls ue ! i)\<lparr>cl_aborted := True\<rparr>"])
      (auto simp: abort_call_def endpoint_inv_def)
next
  case False
  then show ?thesis by (simp add: abort_call_def endpoint_moves_refl list_update_beyond)
qed

lemma settle_call_moves:
  assumes "can_settle i ue"
  shows "endpoint_moves A ue (settle_call fits i outcome ue)"
proof -
  let ?c = "(ue_calls ue ! i)\<lparr>cl_running := False, cl_response := outcome_response (ue_calls ue ! i) outcome (ue_disposed ue)\<rparr>"
  let ?ue = "ue\<lparr>ue_active := AList.delete (call_key (ue_calls ue ! i)) (ue_active ue), ue_calls := (ue_calls ue)[i := ?c]\<rparr>"
  have i: "i < length (ue_calls ue)" "cl_running (ue_calls ue ! i)" using assms by (simp_all add: can_settle_def)
  have "answered ?ue (cl_host (ue_calls ue ! i)) (cl_requestId (ue_calls ue ! i)) v"
    if "outcome_response (ue_calls ue ! i) outcome (ue_disposed ue) = Some v" for v
    using that set_update_memI [OF i(1), of ?c] by (force simp: answered_def)
  then have frames: "list_all (endpoint_frame_ok ?ue) (case outcome_response (ue_calls ue ! i) outcome (ue_disposed ue) of
      None \<Rightarrow> [] | Some v \<Rightarrow> [respond_frame fits ?ue (cl_host (ue_calls ue ! i)) (cl_requestId (ue_calls ue ! i)) v])"
    by (auto split: option.split intro: respond_frame_ok)
  have "endpoint_inv ue \<Longrightarrow> cl_response (ue_calls ue ! i) = None"
    using i nth_mem [OF i(1)] by (auto simp: endpoint_inv_def)
  then show ?thesis
    unfolding settle_call_def Let_def
    by (intro update_call_moves [OF _ i(1), of _ ?c]) (use frames length_delete_le in auto)
qed

lemma endpoint_frame_moves: "A f \<Longrightarrow> endpoint_moves A ue (endpoint_frame fits now f ue)"
proof (cases f)
  case (Cancel h e q)
  let ?ue = "if length (ue_seenRequestIds ue) < MAX_REQUEST_IDS
    then ue\<lparr>ue_seenRequestIds := set_add (requestKey h q) (ue_seenRequestIds ue)\<rparr> else ue"
  have "endpoint_moves A ue (?ue, [])"
    using length_set_add [of "requestKey h q" "ue_seenRequestIds ue"]
    by (auto intro!: seen_moves endpoint_moves_refl)
  then show ?thesis
    using abort_call_moves endpoint_moves_refl
    by (auto simp: Cancel Let_def split: option.split intro: endpoint_moves_trans)
qed (auto simp: announce_moves endpoint_moves_refl handleRequest_moves)

lemma decrypted_moves:
  assumes "A f"
  shows "endpoint_moves A ue (endpoint_decrypted fits now f ue)"
  unfolding endpoint_decrypted_def
proof (rule endpoint_moves_trans)
  show "endpoint_moves A ue (ue\<lparr>ue_decrypting := remove1 f (ue_decrypting ue)\<rparr>, [])"
    by (rule moves_same_calls) (simp_all add: endpoint_inv_def set_remove1_subset)
qed (use assms in \<open>rule endpoint_frame_moves\<close>)

lemma abort_all_moves: "endpoint_moves A ue (fold (\<lambda>(key, i). abort_call i) ps ue, [])"
proof (induction ps arbitrary: ue)
  case (Cons p ps)
  show ?case
    unfolding fold.simps comp_apply case_prod_beta
    by (rule endpoint_moves_trans [OF abort_call_moves Cons.IH [unfolded case_prod_beta]])
qed (simp add: endpoint_moves_refl)

lemma end_disposal_moves: "list_all (endpoint_frame_ok ue) fs \<Longrightarrow> endpoint_moves A ue (end_disposal ue, fs)"
proof (rule moves_same_calls)
  assume "list_all (endpoint_frame_ok ue) fs"
  moreover have "endpoint_frame_ok (end_disposal ue) f = endpoint_frame_ok ue f" for f
    by (cases f) (simp_all add: answered_def end_disposal_def)
  ultimately show "list_all (endpoint_frame_ok (end_disposal ue)) fs" by (simp add: list_all_iff)
qed (auto simp: end_disposal_def endpoint_inv_def)

lemma abort_all_frame:
  "ue_endpointId (fold (\<lambda>(key, i). abort_call i) ps ue) = ue_endpointId ue"
  "ue_hosts (fold (\<lambda>(key, i). abort_call i) ps ue) = ue_hosts ue"
  by (induction ps arbitrary: ue) (auto simp: abort_call_def)

lemma dispose_moves: "endpoint_moves A ue (endpoint_dispose now ue)"
proof (cases "ue_disposed ue")
  case True
  then show ?thesis by (simp add: endpoint_dispose_def endpoint_moves_refl)
next
  case False
  let ?aborted = "fold (\<lambda>(key, i). abort_call i) (ue_active ue) (ue\<lparr>ue_heartbeats := False\<rparr>)"
  let ?start = "?aborted\<lparr>ue_active := []\<rparr>"
  obtain r ue' fs where sent: "send_all (\<lambda>h n. Disconnect h (ue_endpointId ue) n) now (keys (ue_hosts ue)) ?start = (r, ue', fs)"
    using prod_cases3 by blast
  have hosts: "same_but_hosts ?start ue'" "keys (ue_hosts ue') = keys (ue_hosts ?start)"
      "\<forall>x \<in> set fs. \<exists>h n. x = Disconnect h (ue_endpointId ue) n"
    using send_all_hosts [OF sent] by (simp_all add: abort_all_frame)
  have id: "ue_endpointId ue' = ue_endpointId ue"
    using same_but_hosts_frame [OF hosts(1)] by (simp add: abort_all_frame)
  have stopped: "endpoint_moves A ue (?start, [])"
  proof (rule endpoint_moves_trans)
    show "endpoint_moves A ue (ue\<lparr>ue_heartbeats := False\<rparr>, [])"
      by (rule moves_same_calls) (auto simp: endpoint_inv_def)
    show "endpoint_moves A (ue\<lparr>ue_heartbeats := False\<rparr>) (?start, [])"
      by (rule endpoint_moves_trans [OF abort_all_moves [of A _ "ue_active ue"]], rule moves_same_calls)
        (auto simp: endpoint_inv_def)
  qed
  have "endpoint_moves A ?start (ue', [])"
    using hosts by (intro same_but_hosts_moves) (auto dest: map_eq_imp_length_eq)
  then have reached: "endpoint_moves A ue (ue', [])" by (rule endpoint_moves_trans [OF stopped])
  have frames: "list_all (endpoint_frame_ok ue') fs" using hosts(3) id by (auto simp: list_all_iff)
  have "endpoint_moves A ue' (ue'\<lparr>ue_disposals := Suc (ue_disposals ue')\<rparr>, fs)"
    using hosts(3) id by (intro moves_same_calls) (auto simp: list_all_iff endpoint_inv_def)
  then show ?thesis
    using False sent reached end_disposal_moves [OF frames]
    by (auto simp: endpoint_dispose_def split: sum.split intro: endpoint_moves_trans)
qed

lemma disposed_moves: "endpoint_moves A ue (endpoint_disposed ue, [])"
  unfolding endpoint_disposed_def
  by (rule endpoint_moves_trans [of _ _ "ue\<lparr>ue_disposals := ue_disposals ue - 1\<rparr>"], rule moves_same_calls)
    (auto simp: endpoint_inv_def end_disposal_moves)

subsection \<open>The host\<close>

definition host_inv :: "host_transport \<Rightarrow> bool" where
  "host_inv ht \<longleftrightarrow>
     distinct (keys (ht_pending ht) @ keys (ht_settled ht)) \<and>
     set (keys (ht_requests ht)) = set (keys (ht_pending ht)) \<union> set (keys (ht_settled ht)) \<and>
     distinct (keys (ht_requests ht)) \<and>
     (\<forall>(q, e) \<in> set (ht_pending ht). \<exists>raw. (q, e, raw) \<in> set (ht_requests ht)) \<and>
     length (ht_pending ht) \<le> MAX_PENDING \<and> distinct (keys (ht_endpoints ht)) \<and>
     length (ht_endpoints ht) \<le> MAX_ENDPOINTS \<and> length (ht_seenEndpointIds ht) \<le> MAX_SESSION_IDS"

text \<open>The frames it sends, and the answers it passes on.\<close>

fun host_frame_ok :: "host_transport \<Rightarrow> frame \<Rightarrow> bool" where
  "host_frame_ok ht (Request h e q raw) = (h = ht_hostId ht \<and> (q, e, raw) \<in> set (ht_requests ht))"
| "host_frame_ok ht (Hello h) = (h = ht_hostId ht)"
| "host_frame_ok ht (Cancel h e q) = (h = ht_hostId ht)"
| "host_frame_ok ht f = False"

text \<open>What is being encrypted: a request is posted only while it is pending.\<close>

definition sending_ok :: "host_transport \<Rightarrow> frame \<times> request_id option \<Rightarrow> bool" where
  "sending_ok ht p \<longleftrightarrow> host_frame_ok ht (fst p) \<and> (\<forall>h e q raw. fst p = Request h e q raw \<longrightarrow> snd p = Some q)"

definition result_from :: "(frame \<Rightarrow> bool) \<Rightarrow> host_transport \<Rightarrow> request_id \<times> jsval res \<Rightarrow> bool" where
  "result_from A ht p \<longleftrightarrow> (case p of (q, Inl e) \<Rightarrow> True
     | (q, Inr v) \<Rightarrow> (\<exists>e raw. (q, e, raw) \<in> set (ht_requests ht) \<and>
         (unsendable_response raw = Inr v \<or> A (Response (ht_hostId ht) e q v))))"

definition host_moves :: "(frame \<Rightarrow> bool) \<Rightarrow> host_transport \<Rightarrow> host_transport \<times> frame list \<Rightarrow> bool" where
  "host_moves A ht r \<longleftrightarrow> host_inv ht \<and> (\<forall>p \<in> set (ht_encrypting ht). sending_ok ht p) \<longrightarrow>
     host_inv (fst r) \<and> (\<forall>p \<in> set (ht_encrypting (fst r)). sending_ok (fst r) p) \<and>
     ht_hostId (fst r) = ht_hostId ht \<and> set (ht_requests ht) \<subseteq> set (ht_requests (fst r)) \<and>
     set (ht_settled ht) \<subseteq> set (ht_settled (fst r)) \<and> set (ht_decrypting (fst r)) \<subseteq> set (ht_decrypting ht) \<and>
     (\<forall>p \<in> set (ht_settled (fst r)). p \<in> set (ht_settled ht) \<or> result_from A (fst r) p) \<and>
     list_all (host_frame_ok (fst r)) (snd r)"

lemma host_moves_refl: "host_moves A ht (ht, [])"
  by (simp add: host_moves_def)

lemma result_from_grows:
  "result_from A ht p \<Longrightarrow> ht_hostId ht' = ht_hostId ht \<Longrightarrow> set (ht_requests ht) \<subseteq> set (ht_requests ht') \<Longrightarrow>
    result_from A ht' p"
  by (cases p; cases "snd p") (auto simp: result_from_def)

lemma host_frame_ok_grows:
  "host_frame_ok ht f \<Longrightarrow> ht_hostId ht' = ht_hostId ht \<Longrightarrow> set (ht_requests ht) \<subseteq> set (ht_requests ht') \<Longrightarrow>
    host_frame_ok ht' f"
  by (cases f) auto

lemma host_moves_trans:
  assumes "host_moves A ht (ht', [])" "host_moves A ht' r"
  shows "host_moves A ht r"
  unfolding host_moves_def
proof (intro impI)
  assume start: "host_inv ht \<and> (\<forall>p \<in> set (ht_encrypting ht). sending_ok ht p)"
  have 1: "host_inv ht'" "\<forall>p \<in> set (ht_encrypting ht'). sending_ok ht' p" "ht_hostId ht' = ht_hostId ht"
      "set (ht_requests ht) \<subseteq> set (ht_requests ht')" "set (ht_settled ht) \<subseteq> set (ht_settled ht')"
      "set (ht_decrypting ht') \<subseteq> set (ht_decrypting ht)"
      "\<forall>p \<in> set (ht_settled ht'). p \<in> set (ht_settled ht) \<or> result_from A ht' p"
    using assms(1) start by (simp_all add: host_moves_def)
  have 2: "host_inv (fst r)" "\<forall>p \<in> set (ht_encrypting (fst r)). sending_ok (fst r) p"
      "ht_hostId (fst r) = ht_hostId ht'" "set (ht_requests ht') \<subseteq> set (ht_requests (fst r))"
      "set (ht_settled ht') \<subseteq> set (ht_settled (fst r))"
      "set (ht_decrypting (fst r)) \<subseteq> set (ht_decrypting ht')"
      "\<forall>p \<in> set (ht_settled (fst r)). p \<in> set (ht_settled ht') \<or> result_from A (fst r) p"
      "list_all (host_frame_ok (fst r)) (snd r)"
    using assms(2) 1(1,2) by (simp_all add: host_moves_def)
  have "p \<in> set (ht_settled ht) \<or> result_from A (fst r) p" if "p \<in> set (ht_settled (fst r))" for p
    using that 1(7) 2(7) result_from_grows [OF _ 2(3,4), of A p] by blast
  with 1 2 show "host_inv (fst r) \<and> (\<forall>p \<in> set (ht_encrypting (fst r)). sending_ok (fst r) p) \<and>
     ht_hostId (fst r) = ht_hostId ht \<and> set (ht_requests ht) \<subseteq> set (ht_requests (fst r)) \<and>
     set (ht_settled ht) \<subseteq> set (ht_settled (fst r)) \<and> set (ht_decrypting (fst r)) \<subseteq> set (ht_decrypting ht) \<and>
     (\<forall>p \<in> set (ht_settled (fst r)). p \<in> set (ht_settled ht) \<or> result_from A (fst r) p) \<and>
     list_all (host_frame_ok (fst r)) (snd r)" by auto
qed

lemma host_moves_fold:
  "(\<And>x ht. x \<in> set xs \<Longrightarrow> host_moves A ht (f x ht, [])) \<Longrightarrow> host_moves A ht (fold f xs ht, [])"
  by (induction xs arbitrary: ht) (auto simp: host_moves_refl intro: host_moves_trans)

text \<open>Operations that leave the requests alone.\<close>

lemma moves_same_requests:
  assumes "ht_hostId ht' = ht_hostId ht" "ht_requests ht' = ht_requests ht" "ht_pending ht' = ht_pending ht"
    "ht_settled ht' = ht_settled ht" "set (ht_decrypting ht') \<subseteq> set (ht_decrypting ht)"
    and "host_inv ht \<Longrightarrow> host_inv ht'"
    and "\<And>f n. (f, n) \<in> set (ht_encrypting ht') \<Longrightarrow> (f, n) \<in> set (ht_encrypting ht) \<or> sending_ok ht (f, n)"
    and "(\<And>f n. (f, n) \<in> set (ht_encrypting ht) \<Longrightarrow> sending_ok ht (f, n)) \<Longrightarrow> list_all (host_frame_ok ht) fs"
  shows "host_moves A ht (ht', fs)"
proof -
  have "host_frame_ok ht' f = host_frame_ok ht f" for f
    using assms(1,2) by (cases f) simp_all
  then have "sending_ok ht' p = sending_ok ht p" for p by (simp add: sending_ok_def)
  with \<open>\<And>f. host_frame_ok ht' f = host_frame_ok ht f\<close> assms show ?thesis by (fastforce simp: host_moves_def list_all_iff)
qed

lemma finish_request_moves:
  assumes "q \<in> set (keys (ht_requests ht))" "result_from A ht (q, outcome)"
  shows "host_moves A ht (finish_request q outcome ht, [])"
proof (cases "q \<in> set (keys (ht_settled ht))")
  case True
  then show ?thesis by (simp add: finish_request_def host_moves_refl)
next
  case False
  let ?ht = "ht\<lparr>ht_pending := AList.delete q (ht_pending ht), ht_settled := ht_settled ht @ [(q, outcome)]\<rparr>"
  have "host_inv ?ht" if "host_inv ht"
  proof -
    have "length (AList.delete q (ht_pending ht)) \<le> length (ht_pending ht)" by (rule length_delete_le)
    moreover have "set (AList.delete q (ht_pending ht)) \<subseteq> set (ht_pending ht)" by (auto simp: AList.delete_eq)
    moreover have "q \<in> set (keys (ht_pending ht))" using that assms(1) False by (auto simp: host_inv_def)
    moreover have "distinct (keys (AList.delete q (ht_pending ht)) @ keys (ht_settled ht @ [(q, outcome)]))"
      using that False by (auto simp: host_inv_def)
    ultimately show ?thesis using that unfolding host_inv_def by (auto simp del: distinct_append)
  qed
  moreover have "host_frame_ok ?ht f = host_frame_ok ht f" for f by (cases f) simp_all
  moreover from this have "sending_ok ?ht p = sending_ok ht p" for p by (simp add: sending_ok_def)
  moreover have "result_from A ?ht (q, outcome)" using assms(2) by (rule result_from_grows) simp_all
  ultimately show ?thesis using False by (auto simp: host_moves_def finish_request_def)
qed

lemma host_send_moves: "sending_ok ht (f, n) \<Longrightarrow> host_moves A ht (host_send f n ht, [])"
  by (rule moves_same_requests) (auto simp: host_send_def host_inv_def split: if_splits)

lemma finish_request_requests [simp]:
  "ht_requests (finish_request q outcome ht) = ht_requests ht" "ht_hostId (finish_request q outcome ht) = ht_hostId ht"
  "ht_endpoints (finish_request q outcome ht) = ht_endpoints ht" "ht_disposed (finish_request q outcome ht) = ht_disposed ht"
  by (simp_all add: finish_request_def)

lemma failed_result [simp]: "result_from A ht (q, Inl e)"
  by (simp add: result_from_def)

lemma reject_all_moves:
  "fst ` set ps \<subseteq> set (keys (ht_requests ht)) \<Longrightarrow>
    host_moves A ht (fold (\<lambda>(q, e'). if e' = e then finish_request q (Inl err) else id) ps ht, [])"
proof (induction ps arbitrary: ht)
  case (Cons p ps)
  let ?ht = "(if snd p = e then finish_request (fst p) (Inl err) else id) ht"
  have "fst p \<in> set (keys (ht_requests ht))" using Cons.prems by simp
  then have "host_moves A ht (?ht, [])"
    using finish_request_moves [of "fst p" ht A "Inl err"] by (simp add: host_moves_refl del: set_map)
  moreover have "host_moves A ?ht (fold (\<lambda>(q, e'). if e' = e then finish_request q (Inl err) else id) ps ?ht, [])"
    using Cons.prems by (intro Cons.IH) simp
  ultimately show ?case
    unfolding fold.simps comp_apply case_prod_beta by (rule host_moves_trans)
qed (simp add: host_moves_refl)

lemma host_moves_inv: "(host_inv ht \<Longrightarrow> host_moves A ht r) \<Longrightarrow> host_moves A ht r"
  by (auto simp: host_moves_def)

lemma host_inv_keys: "host_inv ht \<Longrightarrow> map_of (ht_pending ht) q = Some e \<Longrightarrow>
    q \<in> set (keys (ht_requests ht)) \<and> (\<exists>raw. (q, e, raw) \<in> set (ht_requests ht))"
proof -
  assume inv: "host_inv ht" and "map_of (ht_pending ht) q = Some e"
  then have pending: "(q, e) \<in> set (ht_pending ht)" "q \<in> set (keys (ht_pending ht))"
    using map_of_SomeD [of "ht_pending ht" q e] map_of_keys [of "ht_pending ht" q e] by simp_all
  with inv have "q \<in> set (keys (ht_requests ht))" unfolding host_inv_def by blast
  moreover have "\<exists>raw. (q, e, raw) \<in> set (ht_requests ht)" using inv pending(1) unfolding host_inv_def by blast
  ultimately show ?thesis ..
qed

lemma host_disconnect_moves: "host_moves A ht (host_disconnect e ht, [])"
proof (rule host_moves_inv, cases "map_of (ht_endpoints ht) e")
  case None
  then show ?thesis by (simp add: host_disconnect_def host_moves_refl)
next
  case (Some endpoint)
  assume inv: "host_inv ht"
  let ?ht = "ht\<lparr>ht_endpoints := AList.delete e (ht_endpoints ht),
    ht_broker := broker_unregister (he_registration endpoint) (ht_broker ht)\<rparr>"
  have "host_moves A ht (?ht, [])"
    using length_delete_le [of e "ht_endpoints ht"] by (intro moves_same_requests) (auto simp: host_inv_def)
  moreover have "fst ` set (ht_pending ht) \<subseteq> set (keys (ht_requests ?ht))"
    using inv by (auto simp: host_inv_def)
  ultimately show ?thesis
    unfolding host_disconnect_def Some option.case by (intro host_moves_trans [OF _ reject_all_moves])
qed

lemma host_request_moves:
  assumes "q \<notin> set (keys (ht_requests ht))"
  shows "host_moves A ht (snd (host_request q e raw aborted ht), [])"
proof (cases "fst (host_request q e raw aborted ht)")
  case (Refused err)
  then show ?thesis
    by (auto simp: host_request_def host_moves_refl split: if_splits sum.splits)
next
  case (Pends q')
  let ?ht = "ht\<lparr>ht_requests := ht_requests ht @ [(q, e, raw)], ht_pending := AList.update q e (ht_pending ht)\<rparr>"
  have room: "length (ht_pending ht) < MAX_PENDING" "snd (host_request q e raw aborted ht) =
      host_send (Request (ht_hostId ht) e q raw) (Some q) ?ht"
    using Pends by (auto simp: host_request_def split: if_splits sum.splits)
  have "host_inv ?ht" if inv: "host_inv ht"
  proof -
    have "q \<notin> fst ` set (ht_pending ht)" using inv assms by (auto simp: host_inv_def)
    then show ?thesis
      using inv assms room(1) by (auto simp: host_inv_def update_fresh)
  qed
  moreover have "host_frame_ok ht f \<Longrightarrow> host_frame_ok ?ht f" for f by (cases f) auto
  then have "sending_ok ht p \<Longrightarrow> sending_ok ?ht p" for p by (simp add: sending_ok_def)
  ultimately have "host_moves A ht (?ht, [])"
    by (auto simp: host_moves_def)
  then show ?thesis
    unfolding room(2) by (rule host_moves_trans) (rule host_send_moves, simp add: sending_ok_def)
qed

lemma give_up_moves: "host_moves A ht (give_up code q ht, [])"
proof (rule host_moves_inv, cases "map_of (ht_pending ht) q")
  case (Some e)
  assume "host_inv ht"
  then have "q \<in> set (keys (ht_requests ht))" using Some host_inv_keys by blast
  then have "host_moves A ht (finish_request q (Inl (RemotishError code)) ht, [])"
    by (rule finish_request_moves) simp
  then show ?thesis
    unfolding give_up_def Some option.case by (rule host_moves_trans) (rule host_send_moves, simp add: sending_ok_def)
qed (simp add: give_up_def host_moves_refl)

lemma host_encrypted_moves:
  assumes "p \<in> set (ht_encrypting ht)"
  shows "host_moves A ht (host_encrypted p encrypted ht)"
proof -
  obtain f n where p: "p = (f, n)" by fastforce
  let ?ht = "ht\<lparr>ht_encrypting := remove1 p (ht_encrypting ht)\<rparr>"
  have removed: "host_moves A ht (?ht, fs)" if "set fs \<subseteq> {f}" for fs
    using assms p that set_remove1_subset [of p "ht_encrypting ht"]
    by (intro moves_same_requests) (auto simp: host_inv_def list_all_iff sending_ok_def dest: subsetD)
  show ?thesis
  proof (cases f)
    case (Request h e q raw)
    have finished: "host_moves A ht (finish_request q outcome ?ht, [])"
      if "outcome = unsendable_response raw \<or> isl outcome" for outcome
    proof -
      have "host_moves A ?ht (finish_request q outcome ?ht, [])" if "(q, e, raw) \<in> set (ht_requests ht)"
      proof (rule finish_request_moves)
        show "q \<in> set (keys (ht_requests ?ht))" using that by (simp add: rev_image_eqI)
        show "result_from A ?ht (q, outcome)"
        proof (cases outcome)
          case (Inr v)
          then have "unsendable_response raw = Inr v"
            using \<open>outcome = unsendable_response raw \<or> isl outcome\<close> by simp
          then show ?thesis using that unfolding Inr result_from_def by auto
        qed simp
      qed
      then have known: "host_moves A ht (finish_request q outcome ?ht, [])" if "(q, e, raw) \<in> set (ht_requests ht)"
        using that removed [of "[]"] host_moves_trans by simp
      show ?thesis
      proof (cases "\<forall>p \<in> set (ht_encrypting ht). sending_ok ht p")
        case True
        with assms p Request have "host_frame_ok ht (Request h e q raw)" by (auto simp: sending_ok_def)
        then show ?thesis by (intro known) simp
      next
        case False
        then show ?thesis unfolding host_moves_def by blast
      qed
    qed
    have "host_moves A ht (finish_request q (unsendable_response raw) ?ht, [])"
      "host_moves A ht (finish_request q (Inl (RemotishError OFFLINE)) ?ht, [])"
      by (rule finished, simp)+
    then show ?thesis
      using removed [of "[]"] removed [of "[f]"]
      by (simp add: host_encrypted_def Let_def p Request split: encryption.split)
  qed (use removed [of "[]"] removed [of "[f]"] in
      \<open>auto simp: host_encrypted_def Let_def p split: encryption.split\<close>)
qed

lemma host_hello_moves: "host_moves A ht (host_hello ht, [])"
  unfolding host_hello_def by (rule host_send_moves) (simp add: sending_ok_def)

text \<open>Registrations.\<close>

lemma endpoints_moves:
  assumes "distinct (keys (ht_endpoints ht)) \<Longrightarrow> distinct (keys es)"
    and "length (ht_endpoints ht) \<le> MAX_ENDPOINTS \<Longrightarrow> length es \<le> MAX_ENDPOINTS"
    and "length (ht_seenEndpointIds ht) \<le> MAX_SESSION_IDS \<Longrightarrow> length seen \<le> MAX_SESSION_IDS"
  shows "host_moves A ht (ht\<lparr>ht_broker := bk, ht_endpoints := es, ht_seenEndpointIds := seen\<rparr>, [])"
  using assms by (intro moves_same_requests) (auto simp: host_inv_def)

lemma update_endpoint_moves:
  assumes "map_of (ht_endpoints ht) e = Some endpoint"
  shows "host_moves A ht (ht\<lparr>ht_endpoints := AList.update e endpoint' (ht_endpoints ht)\<rparr>, [])"
proof -
  have "e \<in> set (keys (ht_endpoints ht))" using assms by (rule map_of_keys)
  then have "length (AList.update e endpoint' (ht_endpoints ht)) = length (ht_endpoints ht)"
    by (rule length_update_present)
  then show ?thesis
    using endpoints_moves [of ht "AList.update e endpoint' (ht_endpoints ht)" "ht_seenEndpointIds ht" A "ht_broker ht"]
    by simp
qed

lemma host_register_moves: "host_moves A ht (host_register stringify parse now e counter origin claimed session0 ht, [])"
proof (cases "andThen (normalizeBrowserRpcTarget parse (JStr claimed)) (\<lambda>target.
    andThen (decodeRpcSession session0) (\<lambda>caps. Inr (target, stringify (js_session caps))))")
  case (Inl err)
  then show ?thesis by (simp add: host_register_def host_moves_refl)
next
  case (Inr p)
  obtain target session where p: "p = (target, session)" by fastforce
  show ?thesis
  proof (cases "map_of (ht_endpoints ht) e")
    case (Some existing)
    then show ?thesis
      unfolding host_register_def Inr p
      by (simp add: host_moves_refl host_disconnect_moves update_endpoint_moves)
  next
    case None
    show ?thesis
    proof (cases "e \<in> set (ht_seenEndpointIds ht) \<or> MAX_SESSION_IDS \<le> length (ht_seenEndpointIds ht) \<or>
        MAX_ENDPOINTS \<le> length (ht_endpoints ht)")
      case True
      then show ?thesis unfolding host_register_def Inr p by (simp add: None host_moves_refl)
    next
      case False
      have "host_moves A ht (ht\<lparr>ht_broker := bk, ht_endpoints := AList.update e endpoint (ht_endpoints ht),
          ht_seenEndpointIds := set_add e (ht_seenEndpointIds ht)\<rparr>, [])" for bk endpoint
        using False length_update [of e endpoint "ht_endpoints ht"] length_set_add [of e "ht_seenEndpointIds ht"]
        by (intro endpoints_moves) auto
      moreover have "host_moves A ht (ht\<lparr>ht_broker := bk\<rparr>, [])" for bk
        using endpoints_moves [of ht "ht_endpoints ht" "ht_seenEndpointIds ht" A bk] by simp
      ultimately show ?thesis
        unfolding host_register_def Inr p using False by (simp add: None split: prod.split sum.split)
    qed
  qed
qed

lemma touch_moves: "host_moves A ht (touch e now ht, [])"
  by (auto simp: touch_def host_moves_refl update_endpoint_moves split: option.split)

lemma touch_frame [simp]: "ht_hostId (touch e now ht) = ht_hostId ht" "ht_requests (touch e now ht) = ht_requests ht"
  by (simp_all add: touch_def split: option.split)

lemma host_frame_moves:
  assumes "A f"
  shows "host_moves A ht (host_frame stringify parse now f ht, [])"
proof (cases f)
  case (Response h e q v)
  show ?thesis
  proof (rule host_moves_inv, cases "h = ht_hostId ht \<and> map_of (ht_pending ht) q = Some e \<and> e \<in> set (keys (ht_endpoints ht))")
    case False
    then show ?thesis by (auto simp: Response host_moves_refl)
  next
    case True
    assume "host_inv ht"
    then obtain raw where raw: "(q, e, raw) \<in> set (ht_requests ht)" using host_inv_keys True by blast
    have "host_moves A (touch e now ht) (finish_request q (Inr v) (touch e now ht), [])"
    proof (rule finish_request_moves)
      show "q \<in> set (keys (ht_requests (touch e now ht)))" using raw by (simp add: rev_image_eqI)
      show "result_from A (touch e now ht) (q, Inr v)"
        using raw assms True Response by (auto simp: result_from_def)
    qed
    then show ?thesis using True host_moves_trans [OF touch_moves] by (simp add: Response)
  qed
next
  case (Disconnect h e n)
  have "host_moves A ht (ht\<lparr>ht_seenEndpointIds := set_add e (ht_seenEndpointIds ht)\<rparr>, [])"
    if "length (ht_seenEndpointIds ht) < MAX_SESSION_IDS"
    using endpoints_moves [of ht "ht_endpoints ht" "set_add e (ht_seenEndpointIds ht)" A "ht_broker ht"]
      length_set_add [of e "ht_seenEndpointIds ht"] that by simp
  then show ?thesis
    by (simp add: Disconnect host_moves_refl host_disconnect_moves split: option.split)
qed (auto simp: host_moves_refl host_register_moves update_endpoint_moves split: option.split)

lemma host_decrypted_moves:
  assumes "A f"
  shows "host_moves A ht (host_decrypted stringify parse now f ht, [])"
proof -
  have "host_moves A ht (ht\<lparr>ht_decrypting := remove1 f (ht_decrypting ht)\<rparr>, [])"
    by (rule moves_same_requests) (simp_all add: host_inv_def set_remove1_subset)
  then show ?thesis
    using host_moves_trans [OF _ host_frame_moves [of A f, OF assms]] by (simp add: host_decrypted_def Let_def)
qed

lemma host_sweep_moves: "host_moves A ht (host_sweep now ht, [])"
  by (auto simp: host_sweep_def sweep_endpoint_def host_moves_refl host_disconnect_moves intro!: host_moves_fold)

lemma host_dispose_moves: "host_moves A ht (host_dispose ht, [])"
proof (cases "ht_disposed ht")
  case False
  let ?start = "ht\<lparr>ht_disposed := True\<rparr>"
  have "host_moves A ht (?start, [])" by (rule moves_same_requests) (auto simp: host_inv_def)
  then have "host_moves A ht (fold host_disconnect (keys (ht_endpoints ht)) ?start, [])"
    by (rule host_moves_trans) (intro host_moves_fold host_disconnect_moves)
  then show ?thesis
    unfolding host_dispose_def using False
    by (simp only: if_False) (erule host_moves_trans, rule moves_same_requests, auto simp: host_inv_def)
qed (simp add: host_dispose_def host_moves_refl)

end
