(* ===== verification/TransportSafety.thy ===== *)
theory TransportSafety
  imports TransportSystem
begin

section \<open>What the browser RPC transport guarantees\<close>

text \<open>
  The invariant of a host and an endpoint over the unreliable network of \<open>TransportSystem\<close>, and what it
  gives: a request is handled at most once, its promise settles at most once, and an answer that
  arrives is the one the handler gave.
\<close>

definition system_inv :: "system \<Rightarrow> bool" where
  "system_inv sy \<longleftrightarrow> endpoint_inv (sy_endpoint sy) \<and> host_inv (sy_host sy) \<and>
     (\<forall>p \<in> set (ht_encrypting (sy_host sy)). sending_ok (sy_host sy) p) \<and>
     (\<forall>f \<in> set (ue_decrypting (sy_endpoint sy)). to_endpoint sy f) \<and>
     (\<forall>f \<in> set (ht_decrypting (sy_host sy)). to_host sy f) \<and>
     (\<forall>c \<in> set (ue_calls (sy_endpoint sy)). requested (to_endpoint sy) (ue_endpointId (sy_endpoint sy)) c) \<and>
     (\<forall>p \<in> set (ht_settled (sy_host sy)). result_from (to_host sy) (sy_host sy) p) \<and>
     (\<forall>f \<in> set (sy_frames sy). host_frame_ok (sy_host sy) f \<or> endpoint_frame_ok (sy_endpoint sy) f)"

lemma on_simps [simp]:
  "sy_endpoint (on_endpoint r sy) = fst r" "sy_host (on_endpoint r sy) = sy_host sy"
  "sy_frames (on_endpoint r sy) = sy_frames sy @ snd r" "sy_endpoint (on_host r' sy) = sy_endpoint sy"
  "sy_host (on_host r' sy) = fst r'" "sy_frames (on_host r' sy) = sy_frames sy @ snd r'"
  by (simp_all add: on_endpoint_def on_host_def)

lemma requested_mono: "(\<And>f. A f \<Longrightarrow> B f) \<Longrightarrow> requested A e c \<Longrightarrow> requested B e c"
  by (auto simp: requested_def)

lemma result_from_mono: "(\<And>f. A f \<Longrightarrow> B f) \<Longrightarrow> result_from A ht p \<Longrightarrow> result_from B ht p"
  by (cases p; cases "snd p") (auto simp: result_from_def)

lemma endpoint_frame_ok_mono:
  "endpoint_frame_ok ue f \<Longrightarrow> ue_endpointId ue' = ue_endpointId ue \<Longrightarrow>
    (\<And>h q v. answered ue h q v \<Longrightarrow> answered ue' h q v) \<Longrightarrow> endpoint_frame_ok ue' f"
  by (cases f) auto

lemma on_endpoint_inv:
  assumes inv: "system_inv sy" and moves: "endpoint_moves (to_endpoint sy) (sy_endpoint sy) r"
  shows "system_inv (on_endpoint r sy)"
proof -
  let ?ue = "sy_endpoint sy" and ?sy = "on_endpoint r sy"
  have calls: "\<forall>c \<in> set (ue_calls ?ue). requested (to_endpoint sy) (ue_endpointId ?ue) c" and "endpoint_inv ?ue"
    using inv by (simp_all add: system_inv_def)
  then have new: "endpoint_inv (fst r)" "ue_endpointId (fst r) = ue_endpointId ?ue"
    "\<And>h q v. answered ?ue h q v \<Longrightarrow> answered (fst r) h q v"
    "\<forall>c \<in> set (ue_calls (fst r)). requested (to_endpoint sy) (ue_endpointId ?ue) c"
    "list_all (endpoint_frame_ok (fst r)) (snd r)" "set (ue_decrypting (fst r)) \<subseteq> set (ue_decrypting ?ue)"
    using moves by (simp_all add: endpoint_moves_def)
  have grows: "to_endpoint ?sy f" if "to_endpoint sy f" for f
    using that by (auto simp: to_endpoint_def)
  have grows': "to_host ?sy f" if "to_host sy f" for f
    using that new(2) by (auto simp: to_host_def)
  have "\<forall>f \<in> set (sy_frames ?sy). host_frame_ok (sy_host ?sy) f \<or> endpoint_frame_ok (sy_endpoint ?sy) f"
    using inv new(5) endpoint_frame_ok_mono [OF _ new(2,3)]
    by (auto simp: system_inv_def list_all_iff)
  moreover have "\<forall>c \<in> set (ue_calls (sy_endpoint ?sy)). requested (to_endpoint ?sy) (ue_endpointId (sy_endpoint ?sy)) c"
    using new(2,4) requested_mono [of "to_endpoint sy" "to_endpoint ?sy", OF grows] by simp
  moreover have "\<forall>p \<in> set (ht_settled (sy_host ?sy)). result_from (to_host ?sy) (sy_host ?sy) p"
    using inv result_from_mono [of "to_host sy" "to_host ?sy", OF grows'] by (simp add: system_inv_def)
  moreover have "\<forall>f \<in> set (ue_decrypting (sy_endpoint ?sy)). to_endpoint ?sy f"
    using inv new(6) grows by (fastforce simp: system_inv_def)
  moreover have "\<forall>f \<in> set (ht_decrypting (sy_host ?sy)). to_host ?sy f"
    using inv grows' by (simp add: system_inv_def)
  ultimately show ?thesis
    using inv new(1) by (simp add: system_inv_def)
qed

lemma on_host_inv:
  assumes inv: "system_inv sy" and moves: "host_moves (to_host sy) (sy_host sy) r"
  shows "system_inv (on_host r sy)"
proof -
  let ?ht = "sy_host sy" and ?sy = "on_host r sy"
  have "host_inv ?ht \<and> (\<forall>p \<in> set (ht_encrypting ?ht). sending_ok ?ht p)"
    and settled: "\<forall>p \<in> set (ht_settled ?ht). result_from (to_host sy) ?ht p"
    using inv by (simp_all add: system_inv_def)
  then have new: "host_inv (fst r)" "\<forall>p \<in> set (ht_encrypting (fst r)). sending_ok (fst r) p"
    "ht_hostId (fst r) = ht_hostId ?ht" "set (ht_requests ?ht) \<subseteq> set (ht_requests (fst r))"
    "set (ht_decrypting (fst r)) \<subseteq> set (ht_decrypting ?ht)"
    "\<forall>p \<in> set (ht_settled (fst r)). p \<in> set (ht_settled ?ht) \<or> result_from (to_host sy) (fst r) p"
    "list_all (host_frame_ok (fst r)) (snd r)"
    using moves by (simp_all add: host_moves_def)
  have grows: "to_endpoint ?sy f" if "to_endpoint sy f" for f
    using that new(3) by (auto simp: to_endpoint_def)
  have grows': "to_host ?sy f" if "to_host sy f" for f
    using that new(3) by (auto simp: to_host_def)
  have "result_from (to_host ?sy) (sy_host ?sy) p" if "p \<in> set (ht_settled (sy_host ?sy))" for p
  proof -
    have "result_from (to_host sy) (fst r) p"
      using that new(6) settled result_from_grows [OF _ new(3,4), of "to_host sy" p] by auto
    then show ?thesis using result_from_mono [of "to_host sy" "to_host ?sy", OF grows'] by simp
  qed
  moreover have "\<forall>f \<in> set (sy_frames ?sy). host_frame_ok (sy_host ?sy) f \<or> endpoint_frame_ok (sy_endpoint ?sy) f"
    using inv new(7) host_frame_ok_grows [OF _ new(3,4)]
    by (auto simp: system_inv_def list_all_iff)
  moreover have "\<forall>c \<in> set (ue_calls (sy_endpoint ?sy)). requested (to_endpoint ?sy) (ue_endpointId (sy_endpoint ?sy)) c"
    using inv requested_mono [of "to_endpoint sy" "to_endpoint ?sy", OF grows] by (simp add: system_inv_def)
  moreover have "\<forall>f \<in> set (ue_decrypting (sy_endpoint ?sy)). to_endpoint ?sy f"
    using inv grows by (simp add: system_inv_def)
  moreover have "\<forall>f \<in> set (ht_decrypting (sy_host ?sy)). to_host ?sy f"
    using inv new(5) grows' by (fastforce simp: system_inv_def)
  ultimately show ?thesis
    using inv new(1,2) by (simp add: system_inv_def)
qed

lemma endpoint_arrive_inv:
  assumes "system_inv sy" "to_endpoint sy f"
  shows "system_inv (on_endpoint (endpoint_arrive f (sy_endpoint sy), []) sy)"
proof -
  have same: "to_endpoint (on_endpoint (endpoint_arrive f (sy_endpoint sy), []) sy) = to_endpoint sy"
    "to_host (on_endpoint (endpoint_arrive f (sy_endpoint sy), []) sy) = to_host sy"
    by (auto simp: fun_eq_iff to_endpoint_def to_host_def endpoint_arrive_def)
  have "endpoint_frame_ok (endpoint_arrive f (sy_endpoint sy)) g = endpoint_frame_ok (sy_endpoint sy) g" for g
    by (cases g) (simp_all add: endpoint_arrive_def answered_def)
  with assms show ?thesis
    unfolding system_inv_def same by (auto simp: endpoint_arrive_def endpoint_inv_def)
qed

lemma host_arrive_inv:
  assumes "system_inv sy" "to_host sy f"
  shows "system_inv (on_host (host_arrive f (sy_host sy), []) sy)"
proof -
  have same: "to_endpoint (on_host (host_arrive f (sy_host sy), []) sy) = to_endpoint sy"
    "to_host (on_host (host_arrive f (sy_host sy), []) sy) = to_host sy"
    by (auto simp: fun_eq_iff to_endpoint_def to_host_def host_arrive_def)
  have "host_frame_ok (host_arrive f (sy_host sy)) g = host_frame_ok (sy_host sy) g" for g
    by (cases g) (simp_all add: host_arrive_def)
  moreover from this have "sending_ok (host_arrive f (sy_host sy)) p = sending_ok (sy_host sy) p" for p
    by (simp add: sending_ok_def)
  moreover have "result_from A (host_arrive f (sy_host sy)) p = result_from A (sy_host sy) p" for A p
    by (auto simp: result_from_def host_arrive_def split: sum.split)
  ultimately show ?thesis
    using assms unfolding system_inv_def same by (auto simp: host_arrive_def host_inv_def)
qed

theorem perform_inv:
  assumes "system_inv sy" "enabled sy a"
  shows "system_inv (perform fits stringify parse a sy)"
proof -
  have decrypting: "\<And>f. f \<in> set (ue_decrypting (sy_endpoint sy)) \<Longrightarrow> to_endpoint sy f"
    "\<And>f. f \<in> set (ht_decrypting (sy_host sy)) \<Longrightarrow> to_host sy f"
    using assms(1) by (auto simp: system_inv_def)
  have "host_moves (to_host sy) (sy_host sy) ((sy_host sy)\<lparr>ht_broker := bk\<rparr>, [])" for bk
    using endpoints_moves [of "sy_host sy" "ht_endpoints (sy_host sy)" "ht_seenEndpointIds (sy_host sy)" _ bk] by simp
  with assms show ?thesis
    by (cases a)
      (simp_all add: endpoint_arrive_inv host_arrive_inv on_endpoint_inv on_host_inv decrypted_moves decrypting
        settle_call_moves abort_call_moves heartbeat_moves dispose_moves disposed_moves host_decrypted_moves
        host_request_moves host_encrypted_moves give_up_moves host_hello_moves host_sweep_moves host_dispose_moves
        host_aborted_def host_timed_out_def del: set_map)
qed

lemma start_system_inv:
  assumes "start_system parse h origin e target session = Inr sy"
  shows "system_inv sy"
  using assms
  by (auto simp: start_system_def newUserscriptEndpoint_def system_inv_def endpoint_inv_def host_inv_def
      new_host_transport_def invalidTarget_def split: if_splits)

theorem reachable_inv:
  "start_system parse h origin e target session = Inr sy0 \<Longrightarrow> run_system fits stringify parse as sy0 = Some sy \<Longrightarrow>
    system_inv sy"
  by (rule run_system_invariant [of fits stringify parse as sy0]) (simp_all add: start_system_inv perform_inv)

subsection \<open>What the invariant says\<close>

lemma calls_distinct:
  "system_inv sy \<Longrightarrow> \<not> ue_disposed (sy_endpoint sy) \<Longrightarrow>
    distinct (map (\<lambda>c. (cl_host c, cl_requestId c)) (ue_calls (sy_endpoint sy)))"
  by (auto simp: system_inv_def endpoint_inv_def call_key_def distinct_map inj_on_def)

lemma calls_requested:
  assumes "system_inv sy" "c \<in> set (ue_calls (sy_endpoint sy))" "cl_host c = ht_hostId (sy_host sy)"
  shows "\<exists>raw. (cl_requestId c, ue_endpointId (sy_endpoint sy), raw) \<in> set (ht_requests (sy_host sy)) \<and>
    decodeRpcRequest raw = Inr (cl_request c)"
proof -
  from assms(1,2) obtain raw where raw: "to_endpoint sy (Request (cl_host c) (ue_endpointId (sy_endpoint sy)) (cl_requestId c) raw)"
    "decodeRpcRequest raw = Inr (cl_request c)" by (auto simp: system_inv_def requested_def)
  with assms(3) have "Request (cl_host c) (ue_endpointId (sy_endpoint sy)) (cl_requestId c) raw \<in> set (sy_frames sy)"
    by (simp add: to_endpoint_def)
  with assms(1) raw(2) show ?thesis by (force simp: system_inv_def)
qed

lemma results_answered:
  assumes inv: "system_inv sy" and settled: "(q, Inr v) \<in> set (ht_settled (sy_host sy))"
    and request: "(q, ue_endpointId (sy_endpoint sy), raw) \<in> set (ht_requests (sy_host sy))"
  shows "unsendable_response raw = Inr v \<or> answered (sy_endpoint sy) (ht_hostId (sy_host sy)) q v"
proof -
  from inv settled obtain e raw' where r: "(q, e, raw') \<in> set (ht_requests (sy_host sy))"
    "unsendable_response raw' = Inr v \<or> to_host sy (Response (ht_hostId (sy_host sy)) e q v)"
    by (fastforce simp: system_inv_def result_from_def)
  have "distinct (keys (ht_requests (sy_host sy)))" using inv by (simp add: system_inv_def host_inv_def)
  then have same: "e = ue_endpointId (sy_endpoint sy)" "raw' = raw"
    using r(1) request by (auto dest: eq_key_imp_eq_value)
  show ?thesis
  proof (cases "unsendable_response raw = Inr v")
    case False
    then have "Response (ht_hostId (sy_host sy)) e q v \<in> set (sy_frames sy)"
      using r(2) same by (simp add: to_host_def)
    then show ?thesis using inv by (force simp: system_inv_def)
  qed simp
qed

subsection \<open>Requests that were given up\<close>

text \<open>
  A request that settles before its packet is posted is never posted, and so never handled.
\<close>

definition unsent :: "request_id \<Rightarrow> system \<Rightarrow> bool" where
  "unsent q sy \<longleftrightarrow> q \<in> set (keys (ht_settled (sy_host sy))) \<and>
     (\<forall>e raw. Request (ht_hostId (sy_host sy)) e q raw \<notin> set (sy_frames sy))"

lemma on_endpoint_unsent:
  assumes "system_inv sy" "endpoint_moves (to_endpoint sy) (sy_endpoint sy) r" "unsent q sy"
  shows "unsent q (on_endpoint r sy)"
proof -
  have "list_all (endpoint_frame_ok (fst r)) (snd r)"
    using assms(1,2) by (simp add: system_inv_def endpoint_moves_def)
  then have "Request h e q raw \<notin> set (snd r)" for h e raw by (force simp: list_all_iff)
  then show ?thesis using assms(3) by (simp add: unsent_def)
qed

lemma on_host_unsent:
  assumes "system_inv sy" "host_moves (to_host sy) (sy_host sy) r" "unsent q sy"
    and "\<And>h e raw. Request h e q raw \<notin> set (snd r)"
  shows "unsent q (on_host r sy)"
proof -
  have "ht_hostId (fst r) = ht_hostId (sy_host sy)" "set (ht_settled (sy_host sy)) \<subseteq> set (ht_settled (fst r))"
    using assms(1,2) by (simp_all add: system_inv_def host_moves_def)
  then show ?thesis using assms(3,4) by (auto simp: unsent_def)
qed

lemma perform_unsent:
  assumes "system_inv sy" "enabled sy a" "unsent q sy"
  shows "unsent q (perform fits stringify parse a sy)"
proof -
  have decrypting: "\<And>f. f \<in> set (ue_decrypting (sy_endpoint sy)) \<Longrightarrow> to_endpoint sy f"
    "\<And>f. f \<in> set (ht_decrypting (sy_host sy)) \<Longrightarrow> to_host sy f"
    using assms(1) by (auto simp: system_inv_def)
  have broker: "host_moves (to_host sy) (sy_host sy) ((sy_host sy)\<lparr>ht_broker := bk\<rparr>, [])" for bk
    using endpoints_moves [of "sy_host sy" "ht_endpoints (sy_host sy)" "ht_seenEndpointIds (sy_host sy)" _ bk] by simp
  have "Request h e q raw \<notin> set (snd (host_encrypted p encrypted (sy_host sy)))"
    if "p \<in> set (ht_encrypting (sy_host sy))" for p encrypted h e raw
  proof
    assume "Request h e q raw \<in> set (snd (host_encrypted p encrypted (sy_host sy)))"
    then have "fst p = Request h e q raw" "still_needed (snd p) (sy_host sy)"
      by (auto simp: host_encrypted_def Let_def still_needed_def split: encryption.splits if_splits option.splits)
    moreover have "sending_ok (sy_host sy) p" using that assms(1) by (simp add: system_inv_def)
    ultimately have "q \<in> set (keys (ht_pending (sy_host sy)))" by (simp add: sending_ok_def still_needed_def)
    moreover have "q \<in> set (keys (ht_settled (sy_host sy)))" using assms(3) by (simp add: unsent_def)
    moreover have "distinct (keys (ht_pending (sy_host sy)) @ keys (ht_settled (sy_host sy)))"
      using assms(1) by (simp add: system_inv_def host_inv_def)
    ultimately show False by auto
  qed
  moreover have "unsent q (on_endpoint (endpoint_arrive f (sy_endpoint sy), []) sy)"
    "unsent q (on_host (host_arrive f (sy_host sy), []) sy)" for f
    using assms(3) by (simp_all add: unsent_def host_arrive_def)
  ultimately show ?thesis
    using assms broker
    by (cases a)
      (simp_all add: on_endpoint_unsent on_host_unsent decrypted_moves decrypting
        settle_call_moves abort_call_moves heartbeat_moves dispose_moves disposed_moves host_decrypted_moves
        host_request_moves host_encrypted_moves give_up_moves host_hello_moves host_sweep_moves host_dispose_moves
        host_aborted_def host_timed_out_def del: set_map)
qed

theorem unsent_request_never_handled:
  assumes "system_inv sy" "unsent q sy" "run_system fits stringify parse as sy = Some sy'"
    and "c \<in> set (ue_calls (sy_endpoint sy'))" "cl_host c = ht_hostId (sy_host sy')"
  shows "cl_requestId c \<noteq> q"
proof
  assume "cl_requestId c = q"
  have inv: "system_inv sy' \<and> unsent q sy'"
    by (rule run_system_invariant [OF assms(3), where P = "\<lambda>s. system_inv s \<and> unsent q s"])
      (simp_all add: assms(1,2) perform_inv perform_unsent)
  then obtain raw where "to_endpoint sy' (Request (cl_host c) (ue_endpointId (sy_endpoint sy')) (cl_requestId c) raw)"
    using assms(4) by (auto simp: system_inv_def requested_def)
  with inv assms(5) \<open>cl_requestId c = q\<close> show False by (simp add: to_endpoint_def unsent_def)
qed

text \<open>
  A cancellation that overtakes its request leaves its key behind, and a key that is there never
  starts a call, as long as the endpoint is not disposed.
\<close>

definition barred :: "string \<Rightarrow> userscript_endpoint \<Rightarrow> bool" where
  "barred k ue \<longleftrightarrow> ue_disposed ue \<or> (k \<in> set (ue_seenRequestIds ue) \<and> k \<notin> call_key ` set (ue_calls ue))"

lemma barred_same:
  "barred k ue \<Longrightarrow> (ue_disposed ue \<Longrightarrow> ue_disposed ue') \<Longrightarrow>
    set (ue_seenRequestIds ue) \<subseteq> set (ue_seenRequestIds ue') \<Longrightarrow>
    map call_key (ue_calls ue') = map call_key (ue_calls ue) \<Longrightarrow> barred k ue'"
  unfolding barred_def by (metis list.set_map subsetD)

lemma same_but_hosts_barred: "same_but_hosts ue ue' \<Longrightarrow> barred k ue \<Longrightarrow> barred k ue'"
  by (auto simp: same_but_hosts_def barred_def)

lemma call_key_update:
  "call_key c = call_key (cs ! i) \<Longrightarrow> map call_key (cs[i := c]) = map call_key cs"
  by (cases "i < length cs") (auto simp: map_update list_update_beyond intro: list_update_id [THEN trans] nth_equalityI
      simp: nth_list_update)

lemma abort_call_barred: "barred k ue \<Longrightarrow> barred k (abort_call i ue)"
  by (erule barred_same) (simp_all add: abort_call_def call_key_update call_key_def)

lemma abort_all_barred: "barred k ue \<Longrightarrow> barred k (fold (\<lambda>(key, i). abort_call i) ps ue)"
  by (induction ps arbitrary: ue) (auto simp: abort_call_barred)

lemma settle_call_barred: "barred k ue \<Longrightarrow> barred k (fst (settle_call fits i outcome ue))"
  by (erule barred_same) (simp_all add: settle_call_def Let_def call_key_update call_key_def)

lemma announce_hosts: "same_but_hosts ue (fst (announce now h ue))"
proof -
  have counted: "same_but_hosts ue (snd (nextCounter now h ue))" for ue
    using nextCounter_hosts(1) [of now h ue] by (cases "nextCounter now h ue") simp
  have touched: "same_but_hosts ue (ue\<lparr>ue_hosts := AList.update h l (ue_hosts ue)\<rparr>)" for ue l
    by (auto simp: same_but_hosts_def)
  have "fst (announce now h ue) = sweepHosts now ue \<or>
    (\<exists>ue'. same_but_hosts (sweepHosts now ue) ue' \<and> fst (announce now h ue) = snd (nextCounter now h ue'))"
    using touched same_but_hosts_refl
    by (auto simp: announce_def Let_def split: option.split prod.split sum.split) (metis snd_conv)+
  then show ?thesis
    using sweepHosts_hosts(1) counted same_but_hosts_trans by metis
qed

lemma endpoint_frame_barred: "barred k ue \<Longrightarrow> barred k (fst (endpoint_frame fits now f ue))"
proof (cases f)
  case (Hello h)
  then show "barred k ue \<Longrightarrow> ?thesis" using same_but_hosts_barred [OF announce_hosts] by simp
next
  case (Request h e q raw)
  then show "barred k ue \<Longrightarrow> ?thesis"
    by (auto simp: handleRequest_def Let_def barred_def call_key_def split: sum.split)
next
  case (Cancel h e q)
  let ?ue = "if length (ue_seenRequestIds ue) < MAX_REQUEST_IDS
    then ue\<lparr>ue_seenRequestIds := set_add (requestKey h q) (ue_seenRequestIds ue)\<rparr> else ue"
  assume "barred k ue"
  then have "barred k ?ue" by (auto simp: barred_def)
  then have "barred k (case map_of (ue_active ?ue) (requestKey h q) of None \<Rightarrow> ?ue | Some i \<Rightarrow> abort_call i ?ue)"
    by (cases "map_of (ue_active ?ue) (requestKey h q)") (simp_all only: option.case abort_call_barred)
  then show ?thesis
    using \<open>barred k ue\<close> by (simp only: Cancel endpoint_frame.simps Let_def fst_conv split: if_split) simp
qed simp_all

lemma endpoint_decrypted_barred: "barred k ue \<Longrightarrow> barred k (fst (endpoint_decrypted fits now f ue))"
  unfolding endpoint_decrypted_def by (rule endpoint_frame_barred) (simp add: barred_def)

lemma heartbeat_barred: "barred k ue \<Longrightarrow> barred k (fst (endpoint_heartbeat now ue))"
proof -
  let ?ue = "sweepHosts now ue"
  obtain r ue' fs where sent: "send_all (\<lambda>h n. Heartbeat h (ue_endpointId ue) n) now (keys (ue_hosts ?ue)) ?ue = (r, ue', fs)"
    using prod_cases3 by blast
  have "same_but_hosts ue ue'"
    using send_all_hosts [OF sent subset_refl] sweepHosts_hosts(1) by (blast intro: same_but_hosts_trans)
  then show "barred k ue \<Longrightarrow> ?thesis"
    by (auto simp: endpoint_heartbeat_def Let_def sent intro: same_but_hosts_barred)
qed

lemma end_disposal_barred: "barred k (end_disposal ue)"
  by (simp add: end_disposal_def barred_def)

lemma dispose_barred:
  assumes "barred k ue"
  shows "barred k (fst (endpoint_dispose now ue))"
proof (cases "ue_disposed ue")
  case False
  let ?start = "(fold (\<lambda>(key, i). abort_call i) (ue_active ue) (ue\<lparr>ue_heartbeats := False\<rparr>))\<lparr>ue_active := []\<rparr>"
  obtain r ue' fs where sent: "send_all (\<lambda>h n. Disconnect h (ue_endpointId ue) n) now (keys (ue_hosts ue)) ?start = (r, ue', fs)"
    using prod_cases3 by blast
  have "barred k (ue\<lparr>ue_heartbeats := False\<rparr>)" using assms by (simp add: barred_def)
  then have "barred k ?start"
    using abort_all_barred [of k "ue\<lparr>ue_heartbeats := False\<rparr>" "ue_active ue"] by (simp add: barred_def)
  moreover have "same_but_hosts ?start ue'" using send_all_hosts [OF sent] by (simp add: abort_all_frame)
  ultimately have "barred k ue'" by (rule same_but_hosts_barred [rotated])
  then have "barred k (ue'\<lparr>ue_disposals := Suc (ue_disposals ue')\<rparr>)" by (simp add: barred_def)
  then show ?thesis using False sent end_disposal_barred by (simp add: endpoint_dispose_def split: sum.split)
qed (use assms in \<open>simp add: endpoint_dispose_def\<close>)

lemma perform_barred:
  "barred k (sy_endpoint sy) \<Longrightarrow> barred k (sy_endpoint (perform fits stringify parse a sy))"
  by (cases a) (auto simp: endpoint_arrive_def endpoint_disposed_def end_disposal_barred abort_call_barred
      settle_call_barred heartbeat_barred dispose_barred endpoint_decrypted_barred barred_def [of k "_\<lparr>ue_decrypting := _\<rparr>"]
      simp: barred_def [of k "sy_endpoint sy"])

theorem cancelled_request_never_handled:
  assumes "h \<in> set (keys (ue_hosts ue))" "length (ue_seenRequestIds ue) < MAX_REQUEST_IDS"
    and "requestKey h q \<notin> call_key ` set (ue_calls ue)"
    and "sy_endpoint sy = fst (endpoint_frame fits now (Cancel h (ue_endpointId ue) q) ue)"
    and "run_system fits stringify parse as sy = Some sy'" "\<not> ue_disposed (sy_endpoint sy')"
  shows "requestKey h q \<notin> call_key ` set (ue_calls (sy_endpoint sy'))"
proof -
  have "barred (requestKey h q) (ue\<lparr>ue_seenRequestIds := set_add (requestKey h q) (ue_seenRequestIds ue)\<rparr>)"
    using assms(3) by (simp add: barred_def)
  then have "barred (requestKey h q) (sy_endpoint sy)"
    using assms(1,2,4) by (simp add: Let_def abort_call_barred split: option.split)
  then have "barred (requestKey h q) (sy_endpoint sy')"
    by (rule run_system_invariant [OF assms(5), where P = "\<lambda>s. barred (requestKey h q) (sy_endpoint s)"])
      (rule perform_barred)
  then show ?thesis using assms(6) by (simp add: barred_def)
qed

text \<open>The key of a request tells it from every other.\<close>

lemma requestKey_inject:
  "is_transport_id h \<Longrightarrow> is_transport_id h' \<Longrightarrow> requestKey h q = requestKey h' q' \<longleftrightarrow> h = h' \<and> q = q'"
  by (auto simp: requestKey_def is_transport_id_def append_eq_append_conv)

subsection \<open>After disposal\<close>

text \<open>
  \<open>receive\<close> looks at \<open>disposed\<close> before the decryption only, and disposal forgets the requests that were
  seen: when the decryption of a greeting and of a request was under way, the handler is called,
  whether or not it was called for the same request before.
\<close>

lemma handled_after_disposal:
  assumes "ue_disposed ue" "ue_hosts ue = []" "ue_seenRequestIds ue = []" "ue_active ue = []"
    and "decodeRpcRequest raw = Inr request"
  shows "ue_calls (fst (endpoint_frame fits t (Request h (ue_endpointId ue) q raw)
      (fst (endpoint_frame fits s (Hello h) ue)))) =
    ue_calls ue @ [\<lparr>cl_host = h, cl_requestId = q, cl_request = request, cl_aborted = False, cl_running = True,
      cl_response = None\<rparr>]"
  using assms
  by (simp add: announce_def sweepHosts_def nextCounter_def handleRequest_def MAX_HOSTS_def max_safe_integer_def
      MAX_REQUEST_IDS_def MAX_ACTIVE_REQUESTS_def Let_def)

end
