(* ===== verification/TransportExample.thy ===== *)
theory TransportExample
  imports TransportSafety
begin

section \<open>A run of the browser RPC transport\<close>

text \<open>
  A host announces itself, an endpoint registers, and one request goes there and back although its
  packet is delivered twice.
\<close>

definition demo_url :: url where
  "demo_url = \<lparr>url_href = ''https://a/'', url_origin = ''https://a'', url_protocol = ''https:'', url_username = [],
     url_password = [], url_hostname = ''a'', url_pathname = ''/'', url_search = [], url_hash = []\<rparr>"

definition demo_parse :: url_parser where
  "demo_parse s = (if s \<in> {''https://a'', ''https://a/''} then Some demo_url else None)"

definition demo_host :: host_id where
  "demo_host = replicate 32 CHR ''a''"

definition demo_endpoint :: endpoint_id where
  "demo_endpoint = replicate 32 CHR ''b''"

definition demo_id :: request_id where
  "demo_id = replicate 32 CHR ''c''"

definition demo_caps :: capabilities where
  "demo_caps = \<lparr>cap_commits = False, cap_localEdits = None, cap_forceWithLease = None, cap_amend = None,
     cap_createBranch = None, cap_deleteBranch = None\<rparr>"

definition demo_session :: jsval where
  "demo_session = js_session demo_caps"

definition demo_raw :: jsval where
  "demo_raw = js_request \<lparr>rq_operation = GetBranches, rq_payload = EmptyPayload\<rparr>"

definition demo_register :: frame where
  "demo_register = Register demo_host demo_endpoint 1 ''https://a'' ''https://a/'' demo_session"

definition demo_request :: frame where
  "demo_request = Request demo_host demo_endpoint demo_id demo_raw"

definition demo_answer :: jsval where
  "demo_answer = JObj [(''version'', jnat REMOTISH_RPC_VERSION), (''status'', JStr ''ok''), (''result'', JArr [])]"

definition demo_response :: frame where
  "demo_response = Response demo_host demo_endpoint demo_id demo_answer"

definition demo_actions :: "action list" where
  "demo_actions = [HostHello, HostEncrypted (Hello demo_host, None) Posted, EndpointArrive (Hello demo_host),
   EndpointDecrypted 0 (Hello demo_host), HostArrive demo_register, HostDecrypted 0 demo_register,
   HostRequest demo_id demo_endpoint demo_raw False, HostEncrypted (demo_request, Some demo_id) Posted,
   EndpointArrive demo_request, EndpointArrive demo_request, EndpointDecrypted 1 demo_request, EndpointDecrypted 2 demo_request,
   HandlerSettled 0 (Handled (Inr (JArr []))), HostArrive demo_response, HostDecrypted 3 demo_response]"

definition demo_start :: "system res" where
  "demo_start = start_system demo_parse demo_host ''https://a'' demo_endpoint (JStr ''https://a/'') demo_session"

text \<open>The texts of the run, checked and decoded.\<close>

lemma demo_ids: "is_transport_id demo_host" "is_transport_id demo_endpoint" "is_transport_id demo_id"
  by code_simp+

lemma demo_texts: "text_ok ''https://a''" "text_ok ''https://a/''" "counter_ok 1" "counter_ok (Suc 0)"
  by (simp_all add: text_ok_def counter_ok_def max_safe_integer_def)

lemma demo_frames_ok: "frame_ok demo_register" "frame_ok demo_request" "frame_ok demo_response" "frame_ok (Hello demo_host)"
  by (simp_all add: demo_register_def demo_request_def demo_response_def demo_ids demo_texts del: One_nat_def)

lemma demo_decoded: "decodeRpcRequest demo_raw = Inr \<lparr>rq_operation = GetBranches, rq_payload = EmptyPayload\<rparr>"
  unfolding demo_raw_def by (rule decode_request) (simp add: request_ok_def)

lemma demo_session_decoded: "decodeRpcSession demo_session = Inr demo_caps"
  unfolding demo_session_def demo_caps_def by (simp add: decode_js_session flag_def)

lemma demo_target: "demo_parse ''https://a/'' = Some demo_url" "demo_parse ''https://a'' = Some demo_url"
  by (simp_all add: demo_parse_def)

lemma demo_normal: "normalizeBrowserRpcTarget demo_parse (JStr ''https://a/'') = Inr ''https://a/''"
    "normalizeBrowserRpcTarget demo_parse (JStr ''https://a'') = Inr ''https://a/''"
  by (simp_all add: demo_target plain_url_text_def acceptable_url_def demo_url_def Let_def)

lemma demo_origin: "origin_of demo_parse ''https://a/'' = Inr ''https://a''"
    "normalizeOrigin demo_parse (JStr ''https://a'') = Inr ''https://a''"
  by (simp_all add: origin_of_def normalizeOrigin_def demo_normal demo_target demo_url_def
      del: normalizeBrowserRpcTarget.simps)

lemma demo_encoded: "encodeRpcSuccess GetBranches (JArr []) = Inr demo_answer"
  by (simp add: encodeRpcSuccess_def wire_result_def demo_answer_def)

definition demo_endpoint_start :: userscript_endpoint where
  "demo_endpoint_start = \<lparr>ue_endpointId = demo_endpoint, ue_origin = ''https://a'', ue_target = ''https://a/'',
     ue_session = demo_caps, ue_active = [], ue_hosts = [], ue_seenRequestIds = [], ue_heartbeats = True,
     ue_disposals = 0, ue_disposed = False, ue_decrypting = [], ue_calls = []\<rparr>"

definition demo_initial :: system where
  "demo_initial = \<lparr>sy_host = new_host_transport demo_host new_broker, sy_endpoint = demo_endpoint_start,
     sy_frames = []\<rparr>"

lemma demo_started: "demo_start = Inr demo_initial"
  by (simp del: normalizeBrowserRpcTarget.simps add: demo_start_def start_system_def newUserscriptEndpoint_def
      demo_normal demo_origin demo_session_decoded demo_endpoint_start_def demo_initial_def)

lemma demo_registered: "readRegistration demo_parse (JObj [(''origin'', JStr ''https://a'')])
    [(''target'', Datum (JStr ''https://a/'')), (''session'', Datum demo_session), (''transport'', Requests demo_endpoint)] =
  Inr \<lparr>er_target = ''https://a/'', er_origin = ''https://a'', er_session = demo_caps, er_transport = demo_endpoint\<rparr>"
  by (simp add: readRegistration_def checkMetadata_def checkEndpoint_def find_member_def demo_origin demo_normal
      demo_session_decoded del: normalizeBrowserRpcTarget.simps)

lemmas demo_facts = demo_texts demo_frames_ok demo_decoded demo_session_decoded demo_normal
  demo_registered demo_encoded demo_ids

lemmas endpoint_defs = endpoint_arrive_def endpoint_decrypted_def announce_def sweepHosts_def nextCounter_def
  endpoint_send_def MAX_HOSTS_def handleRequest_def MAX_REQUEST_IDS_def MAX_ACTIVE_REQUESTS_def can_settle_def
  settle_call_def outcome_response_def respond_frame_def call_key_def

lemmas host_defs = host_hello_def host_send_def host_encrypted_def still_needed_def host_arrive_def host_decrypted_def
  host_register_def MAX_SESSION_IDS_def MAX_ENDPOINTS_def host_request_def MAX_PENDING_def finish_request_def touch_def

text \<open>The handler runs once, and its answer settles the promise.\<close>

lemma demo_run:
  obtains sy where "demo_start = Inr demo_initial"
    "run_system (\<lambda>f. True) (\<lambda>v. []) demo_parse demo_actions demo_initial = Some sy"
    "length (ue_calls (sy_endpoint sy)) = 1" "\<not> ue_disposed (sy_endpoint sy)"
    "ht_settled (sy_host sy) = [(demo_id, Inr demo_answer)]"
proof -
  have "\<exists>sy. run_system (\<lambda>f. True) (\<lambda>v. []) demo_parse demo_actions demo_initial = Some sy \<and>
      length (ue_calls (sy_endpoint sy)) = 1 \<and> \<not> ue_disposed (sy_endpoint sy) \<and>
      ht_settled (sy_host sy) = [(demo_id, Inr demo_answer)]"
    unfolding demo_actions_def demo_initial_def
    by (simp del: normalizeBrowserRpcTarget.simps add: demo_facts new_host_transport_def new_broker_def
      demo_endpoint_start_def on_endpoint_def on_host_def to_endpoint_def to_host_def endpoint_defs host_defs
      broker_register_def requireActive_def set_add_def demo_register_def demo_request_def demo_response_def
      demo_session_def [symmetric] max_safe_integer_def Let_def)
  then show thesis using demo_started that by blast
qed

end
