(* ===== verification/Spec2Isabelle.thy ===== *)
theory Spec2Isabelle
  imports SeedWorkspace WorkspaceLifecycle SerialExecutor EventSource RpcAdapter StorageUriSaving TransportExample
begin

text \<open>
  A model of Remotish, which lets an editor work on a remote repository without a clone: the working
  tree of a branch is an overlay over a pinned revision, the repository is behind an adapter, and a
  commit publishes the visible tree. The sources are under \<open>src/\<close> of the repository.

  \<^bold>\<open>Parts and theories.\<close> Each theory follows the files it names and imports the parts its code calls.

  \<^item> Vocabulary. \<open>Prelude\<close>: errors, results, the computations of code that mutates and may throw
    (\<open>('s, 'a) st\<close>), insertion-ordered maps and sets. \<open>JsText\<close>, \<open>JsValue\<close>, \<open>Base64\<close>, \<open>UriText\<close>: what the
    sources use of JavaScript strings, values of type \<open>unknown\<close>, numbers, \<open>btoa\<close> and
    \<open>encodeURIComponent\<close>. \<open>RepoPath\<close>: repository paths (\<open>adapter-sdk/src/path.ts\<close>,
    \<open>core/src/util/path.ts\<close>). \<open>AdapterSdk\<close>: the types of \<open>packages/adapter-sdk\<close>; an adapter is a record of
    its operations.
  \<^item> Working tree (\<open>packages/core/src\<close>). \<open>Overlay\<close> (\<open>overlay/\<close>), \<open>RevisionCache\<close>, \<open>RepositoryReader\<close>,
    \<open>CachedReader\<close> (\<open>repository/\<close>), \<open>ServedRevision\<close>, \<open>WorkingTree\<close>, \<open>Mutations\<close> with \<open>MutationSafety\<close>,
    \<open>MutationFacts\<close> and \<open>MutationOutcome\<close>, \<open>ChangeSet\<close>, \<open>PublishedRevision\<close> (\<open>working-tree/\<close>).
  \<^item> Workspace. \<open>Environment\<close> (what a workspace can touch, and the interface of its storage, of
    \<open>persistence/\<close>), \<open>BranchWorkspaces\<close>, \<open>Workspace\<close> (\<open>workspace/\<close>, \<open>commit/\<close>), with
    \<open>WorkspaceFacts\<close>, \<open>WorkspaceInvariant\<close>, \<open>WorkspaceLifecycle\<close>, \<open>WorkspaceOperations\<close>, \<open>CommitJournal\<close>,
    \<open>BranchOperations\<close> and \<open>Recovery\<close> about it; \<open>SerialExecutor\<close> (\<open>util/\<close>), \<open>EventSource\<close> (\<open>events/\<close>).
  \<^item> The in-memory repository (\<open>packages/adapter-fixture/src\<close>): \<open>FixtureFiles\<close>, \<open>Fixture\<close>, with
    \<open>FixtureEngine\<close> and \<open>FixtureServing\<close> about it. \<open>Publication\<close> and \<open>EndToEnd\<close> put it behind a workspace,
    \<open>SeedExamples\<close> and \<open>SeedWorkspace\<close> evaluate concrete instances.
  \<^item> The RPC adapter (\<open>adapters/rpc/src\<close>): \<open>RpcPrimitives\<close>, \<open>RpcRequest\<close>, \<open>RpcResult\<close>, \<open>RpcAdapter\<close>.
  \<^item> Persistence in the editor (\<open>packages/vscode/src/persistence\<close>): \<open>PersistenceSchema\<close>, \<open>SnapshotCodec\<close>
    (with the Memento storage), \<open>EditorFiles\<close> (the file system the editor provides), \<open>StorageUri\<close> with
    \<open>StorageUriFacts\<close> and \<open>StorageUriSaving\<close>; \<open>Outcomes\<close> holds the triples its proofs are written in.
  \<^item> The browser RPC transport (\<open>extensions/browser-rpc-provider/src\<close>): \<open>TransportWire\<close>
    (\<open>transport/wire.ts\<close>), \<open>EndpointBroker\<close> (\<open>target.ts\<close>, \<open>broker.ts\<close>), \<open>TransportEndpoint\<close>
    (\<open>transport/userscript.ts\<close>), \<open>TransportHost\<close> (\<open>transport/host.ts\<close>), \<open>TransportSystem\<close> (one of each and
    the network), \<open>TransportSafety\<close> and \<open>TransportExample\<close>.

  \<^bold>\<open>Correspondence.\<close> A class is a record of its fields and its methods are functions on it; a record of
  \<open>readonly\<close> data is a record; a union is a datatype. A method that only fails is a function to
  \<open>'a res\<close>, one that also changes its object a computation in \<open>('s, 'a) st\<close>, whose state after an
  exception is what the code leaves behind. Adapters, storages, hosts and file systems are
  parameters; what is relied on of them is a locale (\<open>listed_tree\<close>, \<open>served_revision\<close>,
  \<open>workspace_storage\<close>, \<open>file_store\<close>), interpreted on the in-memory repository, the in-memory storage, the
  Memento storage, an in-memory file system and one whose renames damage their target. A comparator, a URL parser, a cipher, \<open>JSON\<close> and the
  text encoders of the platform are parameters with their laws as hypotheses.

  \<^bold>\<open>What the lemmas show.\<close> C1 to C14 are about the workspace: publishing, the journal of a publication
  and its recovery, edits that happen as a whole or not at all, branches, and the invariant that makes
  every stored state one that opens again. C15 and C16 are about commits as sets of changes and the
  rebase after a partial one. C17 to C24 give each edit of a working tree its exact condition of
  success and its effect on the visible tree, and the shape of the overlay. C25 to C28 are about reads:
  validation, traversals, the cache. C29 to C32 are about the in-memory repository, C33 and C34 about
  the serial executor and events, C35 to C37 about the RPC codecs and the adapter over them, C38 and
  C39 about persistence, C40 about the transport. The other theorems of the theories carry these:
  among them that a request of the transport that was given up before it was sent, or cancelled before it
  arrived, is never handled, that an endpoint is selected only for the origin its transport vouches for,
  and that frames, packets and keys survive their encoding.

  \<^bold>\<open>Bounds.\<close> A traversal stops with an error at 100000 nodes, 256 levels or 50000 entries of one directory, as the
  code does; the recursion of the model descends the levels, so that it ends without fuel. The walk over first parents has the number of commits as fuel, which C31 shows to be enough.
  Counters, sizes and timeouts are compared as in the code; safe integers are those up to 2^53 - 1.

  \<^bold>\<open>Not modelled.\<close> The mailbox over GM storage, which is an unreliable network to the transport. Real time and cancellation inside the core, except as the outcome of a call; sharing
  one pending request between concurrent readers; texts of error messages and diagnostics. Operations of a
  workspace run alone, which the serial executor guarantees and C33 shows. The order
  \<open>Object.entries\<close> gives to keys that look like integers. The rest of \<open>packages/vscode\<close> and
  \<open>packages/vscode-history\<close>, which presents the workspace through the interface of the editor, the
  GitHub, Git and example HTTP adapters, which are about services and libraries that are not in the
  repository, the extensions that configure them, and the examples and the demonstration application.
\<close>

section \<open>Publishing from a workspace\<close>

text \<open>C1. A normal commit of everything, from the call of the user to the repository: over the fixture
  repository and the in-memory storage, when the remote branch still points to the pinned base, the
  commit succeeds, the branch moves to one new commit whose files are the visible tree, the working
  tree is empty and pinned to that commit, no journal is left and the stored snapshot is the new
  state.\<close>

theorem workspace_commit_publishes:
  fixes env :: "(fixture, (repository_id \<times> workspace_snapshot) list) env"
  assumes "bw_ok (en_branches env)" "en_pending env = None" "bw_current (en_branches env) = Inr tree"
    and "fixture_inv (en_remote env)" "healthy (en_remote env)"
    and "map_of (fx_commits (en_remote env)) (wt_baseRevision tree) = Some c" "servable (sc_files c)"
    and "overlay_ok (map_of (sc_files c)) (wt_overlay tree)"
    and "map_of (fx_branches (en_remote env)) (bw_selected (en_branches env)) = Some (wt_baseRevision tree)"
    and "wt_buildCommitChanges (fixture_host collate (en_remote env)) None tree = Inr cs" "cs \<noteq> []"
    and "js_trim message \<noteq> []"
  shows "\<exists>files r i env'. ws_commitAndPush (fixture_services collate) message None None env =
      (Inr (CommitSuccess r i), env') \<and>
    published_commit (en_remote env) (bw_selected (en_branches env)) [wt_baseRevision tree] files (CommitSuccess r i)
      (en_remote env') \<and>
    map_of files = visible (map_of (sc_files c)) (wt_overlay tree) \<and>
    en_branches env' = en_branches (put_tree (bw_selected (en_branches env))
      \<lparr>wt_baseRevision = r, wt_overlay = empty_overlay\<rparr> env) \<and>
    en_pending env' = None \<and>
    map_of (en_store env') (ri_id (en_info env)) = Some (bw_snapshot collate (en_branches env'))"
  using assms by (rule workspace_commit)

theorem workspace_commit_publishes_witness:
  "\<exists>files r i env'. ws_commitAndPush seed_services ''Add'' None None (seed_env seed_edit None) =
      (Inr (CommitSuccess r i), env') \<and> map_of files = seed_tree(''src/new.ts'' \<mapsto> [7]) \<and>
    published_commit createFixtureRepository ''main'' [''C3''] files (CommitSuccess r i) (en_remote env') \<and>
    en_pending env' = None"
proof -
  let ?env = "seed_env seed_edit None"
  obtain cs where cs: "wt_buildCommitChanges seed_host None \<lparr>wt_baseRevision = ''C3'', wt_overlay = seed_edit\<rparr> = Inr cs"
    "cs \<noteq> []" using seed_edit_changes by (auto simp: wt_buildCommitChanges_def)
  have "servable (sc_files (seedCommit ''C3'' [''C2''] ''Update README and add utility'' c3Files))"
    using c3_servable unfolding seed_files .
  from workspace_commit_publishes [of ?env, OF seed_bw_ok [OF overlay_okD(1) [OF seed_edit_ok(1)]] _ _ _ _ _ this,
      unfolded seed_env_sel, OF refl refl seed_inv seed_healthy, unfolded working_tree.simps,
      OF seed_commit _ seed_head cs seed_message] seed_edit_ok seed_files
  show ?thesis by auto
qed



text \<open>C3. A commit that the adapter accepts: its request was built from the current tree and sent only after
  a save of its journal had succeeded. Then the journal says published, and that is saved, whether or not
  this works. If everything was committed the tree becomes empty and pinned to the published
  revision; if a selection was committed it is rebased onto that revision, as the adapter serves it
  after the commit. Only when that rebase fails the journal stays, with the published revision, and the
  tree is as it was. At last the state is saved once more, a failure of that is ignored, and one
  event is sent; no other branch changes.\<close>

theorem successful_commit_settles:
  assumes "workspace_storage (sv_storage sv) stored" "env_ok stored env" "en_pending env = None"
    and "bw_current (en_branches env) = Inr tree"
    and "run_commit sv kind message sel expectedState env = (Inr (CommitSuccess r i), env')"
  shows "\<exists>commit changes request s env1 env2 res tree'. ad_commit (sv_adapter sv) = Some commit \<and>
    wt_buildCommitChanges (sv_host sv env) sel tree = Inr changes \<and>
    request = build_request (bw_selected (en_branches env)) (wt_baseRevision tree) (js_trim message) changes
      (kind_operation kind tree) \<and>
    so_save (sv_storage sv) (ri_id (en_info env)) (journal_snapshot sv env request) (en_store env) = (Inr (), s) \<and>
    stored s = (stored (en_store env))(ri_id (en_info env) \<mapsto> journal_snapshot sv env request) \<and>
    commit request (en_remote env) = (Inr (CommitSuccess r i), en_remote env') \<and>
    env1 = publish_journal sv (Published (bw_selected (en_branches env)) (expected_remote request) r)
      (env\<lparr>en_remote := en_remote env', en_store := s\<rparr>) \<and>
    (res, tree') = (case sel of None \<Rightarrow> (Inr (), \<lparr>wt_baseRevision = r, wt_overlay = empty_overlay\<rparr>)
      | Some _ \<Rightarrow> acceptPartiallyPublishedRevision (sv_host sv env1) r tree) \<and>
    (if res = Inr () then en_pending env' = None
     else en_pending env' = Some (Published (bw_selected (en_branches env)) (expected_remote request) r) \<and> tree' = tree) \<and>
    env2 = (put_tree (bw_selected (en_branches env)) tree' env1)\<lparr>en_pending := en_pending env'\<rparr> \<and>
    env' = changed_env sv (snd (save_call sv env2)) env2 \<and>
    en_branches env' = en_branches (put_tree (bw_selected (en_branches env)) tree' env) \<and>
    length (en_events env') = Suc (length (en_events env))"
proof -
  from assms(2-5) obtain changes request s w env1 env2 res tree' where
    facts: "wt_buildCommitChanges (sv_host sv env) sel tree = Inr changes"
      "request = build_request (bw_selected (en_branches env)) (wt_baseRevision tree) (js_trim message) changes
         (kind_operation kind tree)"
    and sent: "sent sv request env s (Inr (CommitSuccess r i)) w"
    and env1: "env1 = publish_journal sv (Published (bw_selected (en_branches env)) (expected_remote request) r)
       (env\<lparr>en_remote := w, en_store := s\<rparr>)"
    and res: "(res, tree') = (case sel of None \<Rightarrow> (Inr (), acceptPublishedRevision r tree)
       | Some _ \<Rightarrow> acceptPartiallyPublishedRevision (sv_host sv env1) r tree)"
    and env2: "env2 = (put_tree (bw_selected (en_branches env)) tree' env1)
       \<lparr>en_pending := if res = Inr () then None else en_pending env1\<rparr>"
    and env': "env' = changed_env sv (snd (save_call sv env2)) env2" by (rule commit_published)
  have wf: "overlay_wf (wt_overlay tree)" using assms(2,4) current_wf by (auto simp: env_ok_def)
  have remote: "en_remote env' = w" by (simp add: env' env2 env1 changed_env_def)
  have kept: "tree' = tree" if "res \<noteq> Inr ()"
    using res that accept_failed_same [OF wf] by (cases res; cases sel) (auto, metis)
  have pending: "en_pending env' = (if res = Inr () then None else
      Some (Published (bw_selected (en_branches env)) (expected_remote request) r))"
    by (simp add: env' env2 env1 changed_env_def)
  then have "env2 = (put_tree (bw_selected (en_branches env)) tree' env1)\<lparr>en_pending := en_pending env'\<rparr>"
    by (simp add: env2 env1)
  moreover have "(res, tree') = (case sel of None \<Rightarrow> (Inr (), \<lparr>wt_baseRevision = r, wt_overlay = empty_overlay\<rparr>)
      | Some _ \<Rightarrow> acceptPartiallyPublishedRevision (sv_host sv env1) r tree)"
    using res by (simp add: acceptPublishedRevision_def overlay_clear_def split: option.splits)
  moreover have "en_branches env' = en_branches (put_tree (bw_selected (en_branches env)) tree' env)"
    "length (en_events env') = Suc (length (en_events env))"
    by (simp_all add: env' env2 env1 changed_env_def put_tree_def)
  moreover obtain commit where "ad_commit (sv_adapter sv) = Some commit"
    "commit request (en_remote env) = (Inr (CommitSuccess r i), en_remote env')"
    "so_save (sv_storage sv) (ri_id (en_info env)) (journal_snapshot sv env request) (en_store env) = (Inr (), s)"
    using sent by (auto simp: sent_def remote split: option.splits)
  ultimately show ?thesis
    using facts env1 [folded remote] env' pending kept sent_stored [OF assms(1) env_okD [OF assms(2)] sent]
    by (intro exI [of _ commit] exI [of _ changes] exI [of _ request] exI [of _ s] exI [of _ env1] exI [of _ env2]
        exI [of _ res] exI [of _ tree']) simp
qed

theorem successful_commit_settles_witness:
  "\<exists>r i env'. run_commit seed_services NormalPush ''Add'' None None (seed_env seed_edit None) =
      (Inr (CommitSuccess r i), env') \<and> length (en_events env') = 1"
proof -
  let ?env = "seed_env seed_edit None" and ?tree = "\<lparr>wt_baseRevision = ''C3'', wt_overlay = seed_edit\<rparr>"
  note ok = overlay_okD(1) [OF seed_edit_ok(1)]
  obtain cs where cs: "wt_buildCommitChanges seed_host None ?tree = Inr cs" "cs \<noteq> []"
    using seed_edit_changes by (auto simp: wt_buildCommitChanges_def)
  have "servable (sc_files (seedCommit ''C3'' [''C2''] ''Update README and add utility'' c3Files))"
    using c3_servable unfolding seed_files .
  from workspace_commit [of ?env, OF seed_bw_ok [OF ok] _ _ _ _ _ this,
      unfolded seed_env_sel, OF refl refl seed_inv seed_healthy, unfolded working_tree.simps,
      OF seed_commit _ seed_head cs seed_message] seed_edit_ok seed_files
  obtain r i env' where run: "ws_commitAndPush seed_services ''Add'' None None ?env = (Inr (CommitSuccess r i), env')"
    by auto
  have "env_ok map_of ?env" by (rule seed_env_ok [OF ok]) (simp add: journal_ok_def)
  from successful_commit_settles [OF seed_storage this _ _ _, of ?tree NormalPush "''Add''" None None r i env'] run
  show ?thesis by auto
qed

text \<open>C4. An edit of the working tree happens as a whole or not at all. It fails exactly when a journal is
  unresolved, its guard does not hold, the working tree refuses it or the new state cannot be saved;
  then every working tree is as it was, and nothing else changed but perhaps the store: a refused edit
  saves nothing, and otherwise the save of the edited state failed with the error of the edit and left the
  store it left, in which the own snapshot may be the edited one. If the edit succeeds the current tree is the
  edited one, the save succeeded, the snapshot is stored and one event is sent.\<close>

theorem edit_all_or_nothing:
  assumes "workspace_storage (sv_storage sv) stored" "env_ok stored env"
  shows "case run_edit sv e env of
      (Inr _, env') \<Rightarrow> \<not> edit_refused sv e env \<and> (\<exists>tree tree' s. bw_current (en_branches env) = Inr tree \<and>
        tree_edit e (sv_host sv env) tree = (Inr (), tree') \<and>
        save_call sv (put_tree (bw_selected (en_branches env)) tree' env) = (Inr (), s) \<and>
        env' = changed_env sv s (put_tree (bw_selected (en_branches env)) tree' env) \<and>
        stored s = (stored (en_store env))(ri_id (en_info env) \<mapsto> bw_snapshot (sv_collate sv) (en_branches env')))
    | (Inl x, env') \<Rightarrow> edit_refused sv e env \<and> same_branches (en_branches env') (en_branches env) \<and>
        env' = env\<lparr>en_branches := en_branches env', en_store := en_store env'\<rparr> \<and>
        (if edit_rejected sv e env then en_store env' = en_store env
         else (\<exists>tree tree'. bw_current (en_branches env) = Inr tree \<and>
             tree_edit e (sv_host sv env) tree = (Inr (), tree') \<and>
             save_call sv (put_tree (bw_selected (en_branches env)) tree' env) = (Inl x, en_store env'))) \<and>
        (\<forall>r. r \<noteq> ri_id (en_info env) \<longrightarrow> stored (en_store env') r = stored (en_store env) r)"
  using assms by (rule run_edit_outcome)

theorem edit_all_or_nothing_witness:
  "\<exists>env' ov'. run_edit seed_services (WriteFile ''/src/new.ts'' [7] True False) (seed_env empty_overlay None) =
      (Inr (), env') \<and> bw_current (en_branches env') = Inr \<lparr>wt_baseRevision = ''C3'', wt_overlay = ov'\<rparr> \<and>
    visible seed_tree ov' = seed_tree(''src/new.ts'' \<mapsto> [7])"
proof -
  let ?env = "seed_env empty_overlay None" and ?e = "WriteFile ''/src/new.ts'' [7] True False"
  let ?tree = "\<lparr>wt_baseRevision = ''C3'', wt_overlay = empty_overlay\<rparr>"
  obtain ov' where ov': "mu_writeFile seed_host ''C3'' ''/src/new.ts'' [7] True False empty_overlay = (Inr (), ov')"
    "visible seed_tree ov' = seed_tree(''src/new.ts'' \<mapsto> [7])"
    using served_revision.writeFile_outcome [OF seed_served overlay_ok_empty seed_paths_canonical(1) new_path(2), of "[7]" True False]
      served_revision.writeFile_effect [OF seed_served overlay_ok_empty seed_paths_canonical(1) seed_new_file(4)]
      seed_new_file
    by (cases "mu_writeFile seed_host ''C3'' ''/src/new.ts'' [7] True False empty_overlay") auto
  have edit: "tree_edit ?e seed_host ?tree = (Inr (), \<lparr>wt_baseRevision = ''C3'', wt_overlay = ov'\<rparr>)"
    using ov' by (simp add: wt_writeFile_def wt_mutate_def)
  have "\<not> edit_refused seed_services ?e ?env"
    using edit by (simp add: edit_refused_def memory_save requireWritable_def fixture_adapter_def fixture_capabilities_def)
  moreover have "env_ok map_of ?env" by (rule seed_env_ok) (simp_all add: journal_ok_def)
  ultimately obtain env' s where "run_edit seed_services ?e ?env = (Inr (), env')"
    "env' = changed_env seed_services s (put_tree ''main'' \<lparr>wt_baseRevision = ''C3'', wt_overlay = ov'\<rparr> ?env)"
    using edit_all_or_nothing [OF seed_storage, of ?env ?e] edit by (auto split: prod.splits sum.splits)
  then show ?thesis using ov'(2) by (auto simp: changed_env_def put_tree_def bw_current_def)
qed

text \<open>C5. The invariant of a workspace: from a well-formed state, over any sequence of its public
  operations with any adapter, any storage that honours its contract and any changes other clients
  make, every branch keeps exactly one working tree with a well-formed overlay, the selected branch
  has one, a journal always names the selected branch, and whatever is stored is the snapshot of such
  a state.\<close>

theorem workspace_invariant:
  assumes "workspace_storage (sv_storage sv) stored" "(ws_step sv)\<^sup>*\<^sup>* env env'" "env_ok stored env"
  shows "env_ok stored env'"
  using workspace_storage.steps_ok [OF assms(1) refl assms(2,3)] .

theorem workspace_invariant_witness:
  "env_ok map_of (snd (ws_switchBranch seed_services ''feature/test'' (seed_env seed_edit None)))"
proof -
  let ?env = "seed_env seed_edit None"
  obtain r env' where run: "ws_switchBranch seed_services ''feature/test'' ?env = (r, env')" by fastforce
  have "env_ok map_of ?env" by (rule seed_env_ok [OF overlay_okD(1) [OF seed_edit_ok(1)]]) (simp add: journal_ok_def)
  moreover have "(ws_step seed_services)\<^sup>*\<^sup>* ?env env'" using step_switch [OF run] by blast
  ultimately show ?thesis using workspace_invariant [OF seed_storage] run by simp
qed

text \<open>C6. What a workspace stored can be opened again: in every state reachable from a well-formed one,
  \<open>open\<close> succeeds when the adapter passes its contract check and answers, the snapshot can be loaded
  and there is one; no stored overlay, selection or journal can make it fail.\<close>

theorem stored_workspace_reopens:
  assumes "workspace_storage (sv_storage sv) stored" "(ws_step sv)\<^sup>*\<^sup>* env0 env" "env_ok stored env0"
    and "validateAdapterContract (sv_adapter sv) = Inr ()"
    and "ad_getRepository (sv_adapter sv) (en_remote env) = (Inr info, w)"
    and "so_load (sv_storage sv) (ri_id info) (en_store env) = (Inr p, s)"
    and "stored (en_store env) (ri_id info) = Some snapshot"
  shows "\<exists>env'. ws_open sv env = (Inr (), env') \<and> env_ok stored env'"
proof -
  have store: "store_ok stored (en_store env)"
    using workspace_storage.steps_ok [OF assms(1) refl assms(2,3)] by (rule env_ok_store)
  from workspace_storage.reopen [OF assms(1) refl store assms(4-7)] obtain env' where
    "ws_open sv env = (Inr (), env')" ..
  with workspace_storage.open_ok [OF assms(1) refl store] show ?thesis by blast
qed

theorem stored_workspace_reopens_witness:
  "\<exists>env'. ws_open seed_services (snd (ws_persist seed_services (seed_env seed_edit None))) = (Inr (), env')"
proof -
  let ?env = "seed_env seed_edit None"
  let ?info = "fx_info createFixtureRepository"
  obtain s where persist: "ws_persist seed_services ?env = (Inr (), ?env\<lparr>en_store := s\<rparr>)"
      "map_of s (ri_id ?info) = Some (bw_snapshot code_unit_compare (en_branches ?env))"
    by (simp add: ws_persist_def saveSnapshot_apply memory_save bw_snapshot_def)
  have ok: "env_ok map_of ?env"
    by (rule seed_env_ok [OF overlay_okD(1) [OF seed_edit_ok(1)]]) (simp add: journal_ok_def)
  have step: "(ws_step seed_services)\<^sup>*\<^sup>* ?env (?env\<lparr>en_store := s\<rparr>)" using step_persist [OF persist(1)] by blast
  from stored_workspace_reopens [OF seed_storage step ok, where info = ?info and w = createFixtureRepository and s = s
      and p = "map_of s (ri_id ?info)"] seed_contract seed_repository memory_load persist
  show ?thesis by auto
qed

text \<open>C7. Opening with a journal whose publication is unknown: the stored work is restored; the journal
  is removed exactly when the remote branch still points where the request expected it, so that
  nothing was published; otherwise it stays and blocks changes.\<close>

theorem open_with_prepared_journal:
  assumes "workspace_storage (sv_storage sv) stored" "store_ok stored (en_store env)"
    and "validateAdapterContract (sv_adapter sv) = Inr ()"
    and "ad_getRepository (sv_adapter sv) (en_remote env) = (Inr info, w)"
    and "so_load (sv_storage sv) (ri_id info) (en_store env) = (Inr p, s)"
    and "stored (en_store env) (ri_id info) = Some snapshot" "sp_pending snapshot = Some (Prepared b expected)"
    and "ad_getBranches (sv_adapter sv) w = (branches, w')"
  shows "\<exists>env'. ws_open sv env = (Inr (), env') \<and> en_branches env' = restored snapshot \<and> en_remote env' = w' \<and>
    en_pending env' = (if \<exists>bs remote. branches = Inr bs \<and> remote_branch b bs = Some remote \<and>
      br_revision remote = expected then None else Some (Prepared b expected))"
proof -
  let ?env = "loaded_env info snapshot (env\<lparr>en_remote := w, en_store := s\<rparr>)"
  note loaded = open_loaded [OF assms(1-6)]
  have "bw_selected (restored snapshot) = b" using loaded(3) assms(7) by (simp add: journal_ok_def)
  with recover_prepared_outcome [of ?env b expected sv branches w'] assms(7,8) show ?thesis
    unfolding loaded(1) by (auto simp: loaded_env_def)
qed

theorem open_with_prepared_journal_witness:
  "\<exists>env'. ws_open seed_services ((seed_env seed_edit None)\<lparr>en_store := [(ri_id (fx_info createFixtureRepository),
        (bw_snapshot code_unit_compare (en_branches (seed_env seed_edit None)))
          \<lparr>sp_pending := Some (Prepared ''main'' ''C3'')\<rparr>)]\<rparr>) = (Inr (), env') \<and> en_pending env' = None"
proof -
  let ?env = "seed_env seed_edit None" and ?info = "fx_info createFixtureRepository"
  let ?snapshot = "(bw_snapshot code_unit_compare (en_branches ?env))\<lparr>sp_pending := Some (Prepared ''main'' ''C3'')\<rparr>"
  let ?store = "[(ri_id ?info, ?snapshot)]"
  have "stored_snapshot_ok ?snapshot"
    by (rule snapshot_ok [OF seed_bw_ok [OF overlay_okD(1) [OF seed_edit_ok(1)]]]) (simp add: journal_ok_def)
  then have ok: "store_ok map_of (en_store (?env\<lparr>en_store := ?store\<rparr>))" by (simp add: store_ok_def)
  have load: "so_load memory_storage (ri_id ?info) ?store = (Inr (Some ?snapshot), ?store)" by (simp add: memory_load)
  have "\<exists>env'. ws_open seed_services (?env\<lparr>en_store := ?store\<rparr>) = (Inr (), env') \<and>
    en_branches env' = restored ?snapshot \<and> en_remote env' = createFixtureRepository \<and>
    en_pending env' = (if \<exists>bs remote. (Inr (view_getBranches code_unit_compare createFixtureRepository) :: branch list res) =
      Inr bs \<and> remote_branch ''main'' bs = Some remote \<and> br_revision remote = ''C3'' then None
      else Some (Prepared ''main'' ''C3''))"
    by (rule open_with_prepared_journal [OF seed_storage ok, where info = ?info and w = createFixtureRepository
        and s = ?store and p = "Some ?snapshot"])
      (simp_all add: seed_contract seed_repository load seed_branches(1))
  then show ?thesis using seed_branches(2) [of code_unit_compare] by auto
qed

text \<open>C8. Opening with a journal of a known publication: the stored working tree is rebased onto the
  published revision and the journal removed; when the revision cannot be read or the rebase fails,
  the stored tree and the journal stay.\<close>

theorem open_with_published_journal:
  assumes "workspace_storage (sv_storage sv) stored" "store_ok stored (en_store env)"
    and "validateAdapterContract (sv_adapter sv) = Inr ()"
    and "ad_getRepository (sv_adapter sv) (en_remote env) = (Inr info, w)"
    and "so_load (sv_storage sv) (ri_id info) (en_store env) = (Inr p, s)"
    and "stored (en_store env) (ri_id info) = Some snapshot" "sp_pending snapshot = Some (Published b expected r)"
    and "bw_current (restored snapshot) = Inr tree"
  shows "\<exists>env' res tree'. ws_open sv env = (Inr (), env') \<and>
    acceptPartiallyPublishedRevision (adapter_host (sv_collate sv) (sv_adapter sv) w) r tree = (res, tree') \<and>
    bw_current (en_branches env') = Inr tree' \<and> en_remote env' = w \<and>
    (if res = Inr () then wt_baseRevision tree' = r \<and> en_pending env' = None
     else tree' = tree \<and> en_branches env' = restored snapshot \<and> en_pending env' = Some (Published b expected r))"
proof -
  let ?env = "loaded_env info snapshot (env\<lparr>en_remote := w, en_store := s\<rparr>)"
  note loaded = open_loaded [OF assms(1-6)]
  have b: "bw_selected (en_branches ?env) = b" using loaded(3) assms(7) by (simp add: journal_ok_def loaded_env_def)
  have pending: "en_pending ?env = Some (Published b expected r)" and ok: "bw_ok (en_branches ?env)"
    and tree: "bw_current (en_branches ?env) = Inr tree" using assms(7,8) loaded(2) by (simp_all add: loaded_env_def)
  have host: "sv_host sv ?env = adapter_host (sv_collate sv) (sv_adapter sv) w" by (simp add: sv_host_def loaded_env_def)
  from recover_published_outcome [OF pending b ok tree, of sv] obtain env' res tree' where
    run: "recoverPendingCommitPublication sv ?env = (Inr (), env')"
    and accept: "acceptPartiallyPublishedRevision (sv_host sv ?env) r tree = (res, tree')"
    and env': "en_branches env' = en_branches (put_tree b tree' ?env)" "res \<noteq> Inr () \<longrightarrow> en_branches env' = en_branches ?env"
      "en_remote env' = en_remote ?env" "en_pending env' = (if res = Inr () then None else Some (Published b expected r))"
    by blast
  have remote: "en_remote env' = w" using env'(3) by (simp add: loaded_env_def)
  have "bw_current (en_branches env') = Inr tree'" using env'(1) b by (simp add: bw_current_def put_tree_def)
  moreover have "wt_baseRevision tree' = r" if "res = Inr ()"
    using accept that by (auto simp: acceptPartiallyPublishedRevision_def split: sum.splits prod.splits)
  moreover have "tree' = tree" if "res \<noteq> Inr ()"
    using accept that accept_failed_same [OF current_wf [OF ok tree]] by (cases res) auto
  moreover have "en_branches env' = restored snapshot" if "res \<noteq> Inr ()"
    using env'(2) that by (simp add: loaded_env_def)
  ultimately show ?thesis
    unfolding loaded(1) using run accept [unfolded host] remote env'(4)
    by (intro exI [of _ env'] exI [of _ res] exI [of _ tree']) simp
qed

theorem open_with_published_journal_witness:
  "\<exists>env' tree'. ws_open seed_services ((seed_env seed_edit None)\<lparr>en_store := [(ri_id (fx_info createFixtureRepository),
        (bw_snapshot code_unit_compare (en_branches (seed_env seed_edit None)))
          \<lparr>sp_pending := Some (Published ''main'' ''C2'' ''C3'')\<rparr>)]\<rparr>) = (Inr (), env') \<and>
    bw_current (en_branches env') = Inr tree'"
proof -
  let ?env = "seed_env seed_edit None" and ?info = "fx_info createFixtureRepository"
  let ?snapshot = "(bw_snapshot code_unit_compare (en_branches ?env))\<lparr>sp_pending := Some (Published ''main'' ''C2'' ''C3'')\<rparr>"
  let ?store = "[(ri_id ?info, ?snapshot)]"
  have sok: "stored_snapshot_ok ?snapshot"
    by (rule snapshot_ok [OF seed_bw_ok [OF overlay_okD(1) [OF seed_edit_ok(1)]]]) (simp add: journal_ok_def)
  then have ok: "store_ok map_of (en_store (?env\<lparr>en_store := ?store\<rparr>))" by (simp add: store_ok_def)
  obtain tree where "bw_current (restored ?snapshot) = Inr tree" using current_ok [OF restored_ok [OF sok]] ..
  then have "\<exists>env' res tree'. ws_open seed_services (?env\<lparr>en_store := ?store\<rparr>) = (Inr (), env') \<and>
    acceptPartiallyPublishedRevision (adapter_host (sv_collate seed_services) (sv_adapter seed_services)
      createFixtureRepository) ''C3'' tree = (res, tree') \<and>
    bw_current (en_branches env') = Inr tree' \<and> en_remote env' = createFixtureRepository \<and>
    (if res = Inr () then wt_baseRevision tree' = ''C3'' \<and> en_pending env' = None
     else tree' = tree \<and> en_branches env' = restored ?snapshot \<and> en_pending env' = Some (Published ''main'' ''C2'' ''C3''))"
    by (intro open_with_published_journal [OF seed_storage ok, where info = ?info
        and s = ?store and p = "Some ?snapshot"])
      (simp_all add: seed_contract seed_repository memory_load)
  then show ?thesis by blast
qed

text \<open>C9. Resolving a journal by hand either does what it says, has saved the result and removes the journal, or
  fails and leaves the working trees, the journal and the repository as they were: \<open>not-published\<close> is refused for a
  publication that is known to have succeeded, a blank revision and one that differs from the known
  one are refused, and the rebase onto the given revision is undone when it cannot be saved. A
  failure leaves the store alone, unless it is the failure of that save.\<close>

theorem resolve_publication_spec:
  assumes "bw_ok (en_branches env)" "bw_current (en_branches env) = Inr tree" "en_pending env = Some p"
  shows "case ws_resolvePendingCommitPublication sv resolution env of
      (Inr _, env') \<Rightarrow> en_pending env' = None \<and> (\<exists>s. case resolution of
          NotPublished \<Rightarrow> (\<exists>b expected. p = Prepared b expected) \<and>
            save_call sv (env\<lparr>en_pending := None\<rparr>) = (Inr (), s) \<and> env' = changed_env sv s (env\<lparr>en_pending := None\<rparr>)
        | PublishedAs r \<Rightarrow> js_trim r \<noteq> [] \<and> (case p of Published _ _ q \<Rightarrow> q = r | Prepared _ _ \<Rightarrow> True) \<and>
            (\<exists>tree'. acceptPartiallyPublishedRevision (sv_host sv env) r tree = (Inr (), tree') \<and>
              save_call sv ((put_tree (bw_selected (en_branches env)) tree' env)\<lparr>en_pending := None\<rparr>) = (Inr (), s) \<and>
              env' = changed_env sv s ((put_tree (bw_selected (en_branches env)) tree' env)\<lparr>en_pending := None\<rparr>)))
    | (Inl e, env') \<Rightarrow> same_branches (en_branches env') (en_branches env) \<and> en_pending env' = Some p \<and>
        en_events env' = en_events env \<and> en_remote env' = en_remote env \<and>
        (en_store env' = en_store env \<or> (case resolution of
           NotPublished \<Rightarrow> (\<exists>b expected. p = Prepared b expected) \<and>
             save_call sv (env\<lparr>en_pending := None\<rparr>) = (Inl e, en_store env')
         | PublishedAs r \<Rightarrow> js_trim r \<noteq> [] \<and> (case p of Published _ _ q \<Rightarrow> q = r | Prepared _ _ \<Rightarrow> True) \<and>
             (\<exists>tree'. acceptPartiallyPublishedRevision (sv_host sv env) r tree = (Inr (), tree') \<and>
               save_call sv ((put_tree (bw_selected (en_branches env)) tree' env)\<lparr>en_pending := None\<rparr>) =
                 (Inl e, en_store env'))))"
  using assms by (rule resolve_outcome)

theorem resolve_publication_spec_witness:
  "en_pending (snd (ws_resolvePendingCommitPublication seed_services NotPublished
     (seed_env seed_edit (Some (Published ''main'' ''C2'' ''C3''))))) = Some (Published ''main'' ''C2'' ''C3'')"
  using resolve_publication_spec [of "seed_env seed_edit (Some (Published ''main'' ''C2'' ''C3''))" _ _ seed_services
      NotPublished, OF seed_bw_ok [OF overlay_okD(1) [OF seed_edit_ok(1)]] seed_env_sel(7) seed_env_sel(1)]
  by (auto split: prod.splits sum.splits)

text \<open>C10. While a journal is unresolved every operation that would change the workspace or the remote
  repository, edits, commits of every kind and the operations on branches, is refused and has no effect
  at all.\<close>

theorem pending_publication_blocks:
  assumes "en_pending env \<noteq> None"
  shows "run_operation sv operation env = (Inl invalid_request, env)"
  using assms by (rule pending_blocks)

theorem pending_publication_blocks_witness:
  "run_operation seed_services (Commit ''Add'' None None) (seed_env seed_edit (Some (Prepared ''main'' ''C3''))) =
     (Inl invalid_request, seed_env seed_edit (Some (Prepared ''main'' ''C3'')))"
  by (rule pending_publication_blocks) simp

text \<open>C11. In a repository that supports neither commits nor local edits, writing, creating a directory,
  deleting and renaming are forbidden and no working tree changes.\<close>

theorem read_only_repository:
  assumes "bw_ok (en_branches env)" "en_pending env = None"
    and "\<not> cap_commits (ad_capabilities (sv_adapter sv))" "cap_localEdits (ad_capabilities (sv_adapter sv)) \<noteq> Some True"
    and "case e of Revert _ _ \<Rightarrow> False | RevertAll _ \<Rightarrow> False | _ \<Rightarrow> True"
  shows "\<exists>env'. run_edit sv e env = (Inl (RemotishError FORBIDDEN), env') \<and>
    env' = env\<lparr>en_branches := en_branches env'\<rparr> \<and> same_branches (en_branches env') (en_branches env)"
  using assms by (rule read_only_forbids)

theorem read_only_repository_witness:
  "fst (run_edit (seed_services\<lparr>sv_adapter := (fixture_adapter code_unit_compare)
      \<lparr>ad_capabilities := fixture_capabilities\<lparr>cap_commits := False\<rparr>\<rparr>\<rparr>) (CreateDirectory ''docs'')
    (seed_env seed_edit None)) = Inl (RemotishError FORBIDDEN)"
  using read_only_repository [of "seed_env seed_edit None" "seed_services\<lparr>sv_adapter := (fixture_adapter code_unit_compare)
      \<lparr>ad_capabilities := fixture_capabilities\<lparr>cap_commits := False\<rparr>\<rparr>\<rparr>" "CreateDirectory ''docs''"]
    seed_bw_ok [OF overlay_okD(1) [OF seed_edit_ok(1)], of None]
  by (auto simp: fixture_capabilities_def)

section \<open>Branches of a workspace\<close>

text \<open>C12. Refreshing the head of the remote branch moves only a clean working tree: with local changes
  the base stays pinned, an unchanged head changes nothing, and a failure leaves every working tree as
  it was.\<close>

theorem refresh_moves_clean_trees_only:
  assumes "bw_ok (en_branches env)" "en_pending env = None" "bw_current (en_branches env) = Inr tree"
  shows "case ws_refreshRemoteHead sv env of
      (Inr head, env') \<Rightarrow> (\<exists>branches remote. ad_getBranches (sv_adapter sv) (en_remote env) =
            (Inr branches, en_remote env') \<and>
          remote_branch (bw_selected (en_branches env)) branches = Some remote \<and> hr_remote head = br_revision remote \<and>
          (case head of
             HeadCurrent b r \<Rightarrow> b = wt_baseRevision tree \<and> r = b \<and> env' = env\<lparr>en_remote := en_remote env'\<rparr>
           | HeadPinned b r \<Rightarrow> b = wt_baseRevision tree \<and> r \<noteq> b \<and> wt_hasChanges tree \<and>
               env' = env\<lparr>en_remote := en_remote env'\<rparr>
           | HeadUpdated b r \<Rightarrow> b = r \<and> r \<noteq> wt_baseRevision tree \<and> \<not> wt_hasChanges tree \<and>
               (\<exists>s. env' = changed_env sv s (put_tree (bw_selected (en_branches env))
                  (tree\<lparr>wt_baseRevision := r\<rparr>) (env\<lparr>en_remote := en_remote env'\<rparr>)))))
    | (Inl _, env') \<Rightarrow> same_branches (en_branches env') (en_branches env) \<and> en_pending env' = None \<and>
        en_events env' = en_events env"
  using assms by (rule refresh_outcome)

theorem refresh_moves_clean_trees_only_witness:
  "\<exists>env'. ws_refreshRemoteHead seed_services (seed_env seed_edit None) = (Inr (HeadCurrent ''C3'' ''C3''), env')"
proof -
  let ?env = "seed_env seed_edit None" and ?tree = "\<lparr>wt_baseRevision = ''C3'', wt_overlay = seed_edit\<rparr>"
  obtain remote where remote: "remote_branch ''main'' (view_getBranches code_unit_compare createFixtureRepository) = Some remote"
    "br_revision remote = ''C3''" using seed_branches(2) by blast
  have "bs_refresh seed_services ?env = (Inr (HeadCurrent ''C3'' ''C3''), ?env\<lparr>en_remote := createFixtureRepository\<rparr>)"
    using refresh_apply [of ?env ?tree seed_services "Inr (view_getBranches code_unit_compare createFixtureRepository)"
        createFixtureRepository] remote by (simp add: seed_branches(1))
  then have "fst (ws_refreshRemoteHead seed_services ?env) = Inr (HeadCurrent ''C3'' ''C3'')"
    unfolding ws_refreshRemoteHead_def
    by (simp add: bindS_guard runLocalMutation_unchanged [where m = "bs_refresh seed_services"])
  then show ?thesis
    using refresh_moves_clean_trees_only [of ?env, OF seed_bw_ok [OF overlay_okD(1) [OF seed_edit_ok(1)]]
        seed_env_sel(1) seed_env_sel(7), of seed_services]
    by (cases "ws_refreshRemoteHead seed_services ?env") auto
qed

text \<open>C13. Deleting a branch is refused for the selected branch and for one with local changes. The remote
  branch is deleted only after the state without it has been saved; when saving or the remote deletion
  fails the local working trees are as before. After a success the local tree is gone and one event is
  sent.\<close>

theorem delete_branch_spec:
  assumes "bw_ok (en_branches env)" "en_pending env = None"
  shows "case ws_deleteBranch sv name env of
      (Inr _, env') \<Rightarrow> name \<noteq> bw_selected (en_branches env) \<and> \<not> bw_hasChanges name (en_branches env) \<and>
        (\<exists>deleteBranch s. ad_deleteBranch (sv_adapter sv) = Some deleteBranch \<and>
          save_call sv (without_branch name env) = (Inr (), s) \<and>
          deleteBranch name (en_remote env) = (Inr (), en_remote env') \<and>
          env' = changed_env sv s (without_branch name (env\<lparr>en_remote := en_remote env'\<rparr>)))
    | (Inl e, env') \<Rightarrow> same_branches (en_branches env') (en_branches env) \<and> en_pending env' = None \<and>
        en_events env' = en_events env \<and>
        (en_remote env' = en_remote env \<or> (\<exists>deleteBranch s. ad_deleteBranch (sv_adapter sv) = Some deleteBranch \<and>
          save_call sv (without_branch name env) = (Inr (), s) \<and>
          deleteBranch name (en_remote env) = (Inl e, en_remote env')))"
  using assms by (rule deleteBranch_outcome)

theorem delete_branch_spec_witness:
  "same_branches (en_branches (snd (ws_deleteBranch seed_services ''main'' (seed_env seed_edit None))))
     (en_branches (seed_env seed_edit None))"
  using delete_branch_spec [of "seed_env seed_edit None", OF seed_bw_ok [OF overlay_okD(1) [OF seed_edit_ok(1)]]
      seed_env_sel(1), of seed_services "''main''"]
  by (auto split: prod.splits sum.splits)

text \<open>C14. A new branch starts at the pinned base of the current working tree with an empty overlay and is
  selected when asked for. The new state is passed to one save and announced; because the remote branch
  exists by then, a save that fails is ignored, so that the store is whatever that save left. A working tree
  kept under the same name is replaced without a check for local changes.\<close>

theorem create_branch_spec:
  assumes "bw_ok (en_branches env)" "en_pending env = None" "bw_current (en_branches env) = Inr tree"
    and "ad_createBranch (sv_adapter sv) = Some createBranch" "flag (cap_createBranch (ad_capabilities (sv_adapter sv)))"
    and "createBranch name (wt_baseRevision tree) (en_remote env) = (Inr b, w)"
  shows "ws_createBranch sv name switchTo None env = (Inr b,
    (let env1 = put_tree (br_name b) \<lparr>wt_baseRevision = br_revision b, wt_overlay = empty_overlay\<rparr> (env\<lparr>en_remote := w\<rparr>);
       env2 = (if switchTo then env1\<lparr>en_branches := (en_branches env1)\<lparr>bw_selected := br_name b\<rparr>\<rparr> else env1)
     in changed_env sv (snd (save_call sv env2)) env2))"
  using assms by (rule createBranch_effect)

theorem create_branch_spec_witness:
  "\<exists>env'. ws_createBranch seed_services ''topic'' True None (seed_env seed_edit None) =
     (Inr \<lparr>br_name = ''topic'', br_revision = ''C3'', br_isDefault = None\<rparr>, env') \<and>
   bw_current (en_branches env') = Inr \<lparr>wt_baseRevision = ''C3'', wt_overlay = empty_overlay\<rparr>"
proof -
  let ?env = "seed_env seed_edit None"
  let ?f = "\<lambda>name revision. bindS (askS (fault_before M_createBranch)) (\<lambda>_. fixture_createBranch name revision)"
  have name: "validateBranchName ''topic'' = Inr ''topic''" by code_simp
  have "fx_branches createFixtureRepository = [(''main'', ''C3''), (''feature/test'', ''F2'')]"
    by (simp add: createFixtureRepository_def)
  moreover have "requireCommit createFixtureRepository ''C3'' = Inr (seedCommit ''C3'' [''C2''] ''Update README and add utility'' c3Files)"
    using seed_commit by simp
  ultimately have "\<exists>w. ?f ''topic'' ''C3'' createFixtureRepository =
      (Inr \<lparr>br_name = ''topic'', br_revision = ''C3'', br_isDefault = None\<rparr>, w)"
    using name seed_healthy
    by (simp add: fault_before_def healthy_def fixture_createBranch_def requireCommit_def bindS_apply modifyS_apply)
  moreover have "ad_createBranch (fixture_adapter code_unit_compare) = Some ?f" by (simp add: fixture_adapter_def)
  ultimately obtain f w where f: "ad_createBranch (fixture_adapter code_unit_compare) = Some f"
    "f ''topic'' ''C3'' createFixtureRepository = (Inr \<lparr>br_name = ''topic'', br_revision = ''C3'', br_isDefault = None\<rparr>, w)"
    by blast
  have "ws_createBranch seed_services ''topic'' True None ?env =
     (Inr \<lparr>br_name = ''topic'', br_revision = ''C3'', br_isDefault = None\<rparr>,
    (let env1 = put_tree ''topic'' \<lparr>wt_baseRevision = ''C3'', wt_overlay = empty_overlay\<rparr> (?env\<lparr>en_remote := w\<rparr>);
       env2 = env1\<lparr>en_branches := (en_branches env1)\<lparr>bw_selected := ''topic''\<rparr>\<rparr>
     in changed_env seed_services (snd (save_call seed_services env2)) env2))"
    using create_branch_spec [of ?env, OF seed_bw_ok [OF overlay_okD(1) [OF seed_edit_ok(1)]] seed_env_sel(1,7),
        of seed_services f "''topic''" "\<lparr>br_name = ''topic'', br_revision = ''C3'', br_isDefault = None\<rparr>" w True] f
    by (simp add: fixture_adapter_def fixture_capabilities_def)
  then show ?thesis by (auto simp: changed_env_def Let_def put_tree_def bw_current_def)
qed

section \<open>The working tree and its publication\<close>

text \<open>C15. A normal commit of everything: when the branch still points to the base commit, the engine
  of the fixture repository accepts the change set of a working tree, the branch moves to one new
  commit with the base as its parent, and the files of that commit are the visible tree.\<close>

theorem commit_publishes_visible_tree:
  assumes "fixture_inv fx" "healthy fx" "map_of (fx_commits fx) rv = Some c" "servable (sc_files c)"
    and "overlay_ok (map_of (sc_files c)) ov"
    and "buildCommitChanges (fixture_host collate fx) rv ov None = Inr cs"
    and "map_of (fx_branches fx) b = Some rv" "cs \<noteq> []" "js_trim message \<noteq> []"
  shows "\<exists>files result fx'. engine_execute (commit_of b rv message cs) fx = (Inr result, fx') \<and>
    published_commit fx b [rv] files result fx' \<and> map_of files = visible (map_of (sc_files c)) ov"
  using assms by (rule commit_succeeds)

theorem commit_publishes_visible_tree_witness:
  "\<exists>cs files result fx'. engine_execute (commit_of ''main'' ''C3'' ''Add'' cs) createFixtureRepository =
      (Inr result, fx') \<and> map_of files = seed_tree(''src/new.ts'' \<mapsto> [7]) \<and>
    published_commit createFixtureRepository ''main'' [''C3''] files result fx'"
proof -
  obtain cs where cs: "buildCommitChanges seed_host ''C3'' seed_edit None = Inr cs" "cs \<noteq> []"
    using seed_edit_changes by blast
  have head: "map_of (fx_branches createFixtureRepository) ''main'' = Some ''C3''"
    by (simp add: createFixtureRepository_def)
  have msg: "js_trim ''Add'' \<noteq> []" by code_simp
  have "servable (sc_files (seedCommit ''C3'' [''C2''] ''Update README and add utility'' c3Files))"
    using c3_servable unfolding seed_files .
  from commit_publishes_visible_tree [OF seed_inv seed_healthy seed_commit this, unfolded seed_files,
      OF seed_edit_ok(1) cs(1) head cs(2) msg] seed_edit_ok(2)
  show ?thesis by auto
qed

text \<open>C16. Rebasing the overlay after a partial publication, over a host that serves the new revision, for a
  well-formed overlay with no file at or below one of its deletions (both part of the overlay's invariant):
  when every path of the new revision holds its old base content or what was visible there, a rebase that
  succeeds makes the new revision the base and the visible tree is what it was; one that fails leaves
  the working tree as it was. It succeeds when no path of the overlay lies directly below a file of
  the new revision; where a file \<open>a\<close> was published and the
  deletion of \<open>a/b\<close> was not, one does.\<close>

theorem partial_publish_keeps_view:
  assumes "served_revision h rv F" and "overlay_wf (wt_overlay wt)" and "files_live (wt_overlay wt)"
    and "\<And>q. F q = F0 q \<or> F q = visible F0 (wt_overlay wt) q"
  shows "case acceptPartiallyPublishedRevision h rv wt of
      (Inr _, wt') \<Rightarrow> wt_baseRevision wt' = rv \<and> visible F (wt_overlay wt') = visible F0 (wt_overlay wt)
    | (Inl _, wt') \<Rightarrow> wt' = wt \<and> \<not> (\<forall>p \<in> own_paths (wt_overlay wt). F (parent_of p) = None)"
proof (cases "acceptPartiallyPublishedRevision h rv wt")
  case (Pair r wt')
  note effect = served_revision.acceptPartially_effect [OF assms]
  note total = served_revision.acceptPartially_total [OF assms(1), of wt]
  show ?thesis
  proof (cases r)
    case (Inl e)
    with Pair have "wt' = wt" using accept_failed_same [OF assms(2)] by blast
    moreover have "\<not> settled F (wt_overlay wt)" using total Pair Inl by auto
    ultimately show ?thesis using Pair Inl assms(2) by (simp add: settled_def)
  next
    case (Inr u)
    with Pair show ?thesis using effect(1,3) [of u wt'] by simp
  qed
qed

theorem partial_publish_keeps_view_witness:
  "\<exists>wt'. acceptPartiallyPublishedRevision seed_host ''C3'' \<lparr>wt_baseRevision = ''C2'', wt_overlay = seed_edit\<rparr>
      = (Inr (), wt') \<and> visible seed_tree (wt_overlay wt') = seed_tree(''src/new.ts'' \<mapsto> [7])"
proof -
  let ?wt = "\<lparr>wt_baseRevision = ''C2'', wt_overlay = seed_edit\<rparr>"
  have "seed_tree ''src'' = None" unfolding seed_none by code_simp
  then have "\<forall>p \<in> own_paths (wt_overlay ?wt). seed_tree (parent_of p) = None"
    by (simp add: own_paths_def seed_edit_sel)
  moreover have "overlay_wf (wt_overlay ?wt)" using overlay_okD(1) [OF seed_edit_ok(1)] by simp
  moreover have "files_live (wt_overlay ?wt)" using overlay_ok_live [OF seed_edit_ok(1)] by simp
  ultimately show ?thesis
    using partial_publish_keeps_view [OF seed_served, of ?wt seed_tree] seed_edit_ok(2)
    by (auto split: prod.splits sum.splits)
qed

text \<open>C17. \<open>writeFile\<close> of a path other than the root, over a host that serves the base revision and an overlay
  that satisfies its invariant: it succeeds exactly when the parent is a visible directory, the path
  is not one, and the options allow creating or overwriting; otherwise the overlay is untouched. After a
  success, if the base has no directory at the path, the file has the content, nothing else
  visible changes and the invariant of the overlay holds. Nothing is claimed about the effect of
  writing a file over a deleted directory of the base: it clears the tombstone of the directory, which breaks
  the invariant.\<close>

theorem writeFile_spec:
  assumes "served_revision h rv F" "overlay_ok F ov" "normalizeRepoPath path = Inr p" "p \<noteq> []"
  shows "case mu_writeFile h rv path content create overwrite ov of
      (Inr _, ov') \<Rightarrow> kind_at F ov (parent_of p) = Some DirEntry \<and> kind_at F ov p \<noteq> Some DirEntry \<and>
        (if kind_at F ov p = None then create else overwrite) \<and>
        (\<not> is_dir F p \<longrightarrow> overlay_ok F ov' \<and> visible F ov' = (visible F ov)(p \<mapsto> content))
    | (Inl _, ov') \<Rightarrow> ov' = ov \<and> \<not> (kind_at F ov (parent_of p) = Some DirEntry \<and>
        kind_at F ov p \<noteq> Some DirEntry \<and> (if kind_at F ov p = None then create else overwrite))"
proof (cases "mu_writeFile h rv path content create overwrite ov")
  case (Pair r ov')
  note out = served_revision.writeFile_outcome [OF assms(1-4), of content create overwrite]
  show ?thesis
  proof (cases r)
    case (Inl e)
    with Pair out writeFile_atomic [OF overlay_okD(1) [OF assms(2)]] show ?thesis by auto
  next
    case (Inr u)
    with Pair served_revision.writeFile_effect [OF assms(1,2,3)] out show ?thesis by simp
  qed
qed

theorem writeFile_spec_witness:
  "\<exists>ov'. mu_writeFile seed_host ''C3'' ''/src/new.ts'' [7] True False empty_overlay = (Inr (), ov') \<and>
    visible seed_tree ov' = seed_tree(''src/new.ts'' \<mapsto> [7])"
  using writeFile_spec [OF seed_served overlay_ok_empty seed_paths_canonical(1) new_path(2),
      where content = "[7]" and create = True and overwrite = False] seed_new_file
  by (auto split: prod.splits sum.splits)

text \<open>C18. \<open>createDirectory\<close> succeeds exactly at a free path of a visible directory (no base file
  lying there below a tombstone); then the path is a visible directory and no file changes.
  Otherwise the overlay is untouched.\<close>

theorem createDirectory_spec:
  assumes "served_revision h rv F" "overlay_ok F ov" "normalizeRepoPath path = Inr p" "p \<noteq> []"
    and "F p = None"
  shows "case mu_createDirectory h rv path ov of
      (Inr _, ov') \<Rightarrow> kind_at F ov (parent_of p) = Some DirEntry \<and> kind_at F ov p = None \<and>
        kind_at F ov' p = Some DirEntry \<and> overlay_ok F ov' \<and> visible F ov' = visible F ov
    | (Inl _, ov') \<Rightarrow> ov' = ov \<and>
        \<not> (kind_at F ov (parent_of p) = Some DirEntry \<and> kind_at F ov p = None)"
proof (cases "mu_createDirectory h rv path ov")
  case (Pair r ov')
  note out = served_revision.createDirectory_outcome [OF assms(1-4)]
  show ?thesis
  proof (cases r)
    case (Inl e)
    with Pair out createDirectory_atomic show ?thesis by auto
  next
    case (Inr u)
    with Pair served_revision.createDirectory_effect [OF assms(1,2,3,5)] out show ?thesis by simp
  qed
qed

theorem createDirectory_spec_witness:
  "\<exists>ov'. mu_createDirectory seed_host ''C3'' ''/src/new.ts'' empty_overlay = (Inr (), ov') \<and>
    kind_at seed_tree ov' ''src/new.ts'' = Some DirEntry \<and> visible seed_tree ov' = seed_tree"
proof -
  have "seed_tree ''src/new.ts'' = None" unfolding seed_none by code_simp
  from createDirectory_spec [OF seed_served overlay_ok_empty seed_paths_canonical(1) new_path(2) this]
  show ?thesis using seed_new_file by (auto split: prod.splits sum.splits)
qed

text \<open>C19. \<open>delete\<close> of a visible file always succeeds; of a visible directory it succeeds when it is
  recursive or the directory shows nothing, provided the traversal stays within its budget; of
  nothing it fails. A deletion that succeeds removes the path and everything below it from the
  visible tree, and nothing else.\<close>

theorem delete_spec:
  assumes "served_revision h rv F" "overlay_ok F ov" "normalizeRepoPath path = Inr p" "p \<noteq> []"
  shows "let deletable = (case kind_at F ov p of None \<Rightarrow> False | Some FileEntry \<Rightarrow> True
       | Some DirEntry \<Rightarrow> (recursive \<or> (\<forall>n. segment n \<longrightarrow> kind_at F ov (child_path p n) = None)) \<and>
           (\<exists>files. listVisibleFiles (wt_stat h rv ov) (wt_readDirectory h rv ov) p = Inr files)) in
    case mu_delete h rv path recursive ov of
      (Inr _, ov') \<Rightarrow> deletable \<and> overlay_ok F ov' \<and>
        visible F ov' = (\<lambda>q. if same_or_child q p then None else visible F ov q)
    | (Inl _, _) \<Rightarrow> \<not> deletable"
proof -
  have "canonical p" using assms(3) normalize_result by blast
  moreover have "requireNonRoot path = Inr p" using assms(3,4) by (simp add: requireNonRoot_def)
  ultimately have "fst (mu_delete h rv path recursive ov) = fst (mu_deleteInternal h rv p recursive ov)"
    by (simp add: mu_delete_def bindS_apply)
  with \<open>canonical p\<close> served_revision.deleteInternal_outcome [OF assms(1,2), of p recursive] assms(4)
    served_revision.delete_effect [OF assms(1-3), of recursive]
  show ?thesis
    by (cases "mu_delete h rv path recursive ov"; cases "fst (mu_delete h rv path recursive ov)")
      (simp_all add: Let_def)
qed

theorem delete_spec_witness:
  "\<exists>ov'. mu_delete seed_host ''C3'' ''src/util.ts'' False empty_overlay = (Inr (), ov') \<and>
    visible seed_tree ov' = (\<lambda>q. if same_or_child q ''src/util.ts'' then None else seed_tree q)"
  using delete_spec [OF seed_served overlay_ok_empty seed_paths_canonical(3), of False, unfolded visible_empty]
    seed_new_file
  by (auto simp: Let_def split: prod.splits sum.splits)

text \<open>C20. \<open>rename\<close> of a visible file to a path apart from it in a visible directory, neither of them the root,
  over a host that serves the base revision and an overlay that satisfies its invariant: it succeeds
  exactly when the target is free, or may be overwritten and can be deleted. After a success, if the base
  has no directory at the target, the content is at the target, what was at the target is gone, nothing else
  visible changes and the invariant holds. Nothing is claimed about the effect of renaming a file
  over a directory of the base: it clears the tombstone of that directory, and former subdirectories are
  visible again.\<close>

theorem rename_file_spec:
  assumes "served_revision h rv F" "overlay_ok F ov"
    and "normalizeRepoPath source = Inr src" "normalizeRepoPath target = Inr dst" "src \<noteq> []" "dst \<noteq> []"
    and "visible F ov src = Some c" "\<not> same_or_child dst src" "\<not> same_or_child src dst"
    and "kind_at F ov (parent_of dst) = Some DirEntry"
  shows "case mu_rename h rv source target overwrite ov of
      (Inr _, ov') \<Rightarrow>
        (kind_at F ov dst = None \<or> overwrite \<and> fst (mu_deleteInternal h rv dst True ov) = Inr ()) \<and>
        (\<not> is_dir F dst \<longrightarrow> overlay_ok F ov' \<and> visible F ov' = (\<lambda>q. if q = dst then Some c
          else if q = src \<or> same_or_child q dst then None else visible F ov q))
    | (Inl _, _) \<Rightarrow> kind_at F ov dst \<noteq> None \<and>
        (overwrite \<longrightarrow> fst (mu_deleteInternal h rv dst True ov) \<noteq> Inr ())"
proof -
  have ne: "src \<noteq> dst" using assms(8) by auto
  note out = served_revision.rename_file_outcome [OF assms(1-6) ne assms(7-10), of overwrite]
  obtain r ov' where run: "mu_rename h rv source target overwrite ov = (r, ov')" by fastforce
  show ?thesis
  proof (cases r)
    case (Inl e)
    with out run show ?thesis by simp
  next
    case (Inr u)
    with run served_revision.rename_file_effect [OF assms(1-4) ne assms(7), of overwrite u ov'] out
    show ?thesis by simp
  qed
qed

theorem rename_file_spec_witness:
  "\<exists>ov' c. mu_rename seed_host ''C3'' ''src/util.ts'' ''/src/new.ts'' False empty_overlay = (Inr (), ov') \<and>
    visible seed_tree ov' = (\<lambda>q. if q = ''src/new.ts'' then Some c
      else if q = ''src/util.ts'' \<or> same_or_child q ''src/new.ts'' then None else seed_tree q)"
proof -
  obtain c where c: "seed_tree ''src/util.ts'' = Some c"
    using seed_new_file(3,5) seed_kind [of "''src/util.ts''"] by (cases "seed_tree ''src/util.ts''") auto
  have apart: "\<not> same_or_child ''src/new.ts'' ''src/util.ts''" "\<not> same_or_child ''src/util.ts'' ''src/new.ts''"
    by code_simp+
  show ?thesis
    using rename_file_spec [OF seed_served overlay_ok_empty seed_paths_canonical(3,1) _ new_path(2) _ apart
        _, of c False, unfolded visible_empty] c seed_new_file
    by (auto split: prod.splits sum.splits)
qed

text \<open>C21. \<open>revert\<close> of a path that no rename leads to and that lies below no base file gives the base
  content back at the path; below it local files are gone and only base files deleted one by one
  stay deleted; nothing else visible changes.\<close>

theorem revert_spec:
  assumes "overlay_ok F ov" "file_tree F" "normalizeRepoPath path = Inr p" "p \<noteq> []"
    and "\<And>q. F q \<noteq> None \<Longrightarrow> same_or_child p q \<Longrightarrow> q = p" "p \<notin> rn_to ` set (ov_renames ov)"
  shows "\<exists>ov'. mu_revert path ov = (Inr (), ov') \<and> overlay_ok F ov' \<and>
    visible F ov' = (\<lambda>q. if q = p then F p
      else if same_or_child q p then (if deleted_at ov q then None else F q) else visible F ov q)"
  using assms by (rule revert_effect)

theorem revert_spec_witness:
  "\<exists>ov'. mu_revert ''/src/new.ts'' seed_edit = (Inr (), ov') \<and>
    visible seed_tree ov' ''src/new.ts'' = None"
proof -
  have "q = ''src/new.ts''" if "seed_tree q \<noteq> None" "same_or_child ''src/new.ts'' q" for q
  proof -
    have "list_all (\<lambda>q. \<not> same_or_child ''src/new.ts'' q)
      [''README.md'', ''src/index.ts'', ''assets/sample.bin'', ''package.json'', ''src/util.ts'']"
      by code_simp
    with that show ?thesis by (auto simp: seed_none)
  qed
  moreover have "seed_tree ''src/new.ts'' = None" unfolding seed_none by code_simp
  ultimately show ?thesis
    using revert_spec [OF seed_edit_ok(1) seed_tree_ok seed_paths_canonical(1) new_path(2)]
    by (auto simp: seed_edit_sel)
qed

section \<open>Reading and editing a working tree\<close>

text \<open>C22. What a working tree shows: \<open>readFile\<close> returns exactly the visible contents, \<open>stat\<close> exactly the
  visible kinds, and \<open>readDirectory\<close> of a visible directory lists its visible children, each once and
  under its own path.\<close>

theorem working_tree_reads:
  assumes "served_revision h rv F" "overlay_ok F ov" "canonical p"
  shows "(wt_readFile h rv ov p = Inr c \<longleftrightarrow> visible F ov p = Some c) \<and>
    ((\<exists>s. wt_stat h rv ov p = Inr s \<and> st_type s = t) \<longleftrightarrow> kind_at F ov p = Some t) \<and>
    (kind_at F ov p = Some DirEntry \<longrightarrow> (\<exists>es. wt_readDirectory h rv ov p = Inr es \<and>
       lists (\<lambda>q. kind_at F ov q = Some FileEntry) (\<lambda>q. kind_at F ov q = Some DirEntry) p es))"
  using served_revision.wt_readFile_visible [OF assms(1) overlay_okD(1) [OF assms(2)] assms(3)]
    served_revision.wt_stat_kind [OF assms(1) overlay_okD(1) [OF assms(2)] assms(3)]
    served_revision.wt_readDirectory_lists [OF assms]
  by blast

theorem working_tree_reads_witness:
  "wt_readFile seed_host ''C3'' seed_edit ''src/new.ts'' = Inr [7]"
  using working_tree_reads [OF seed_served seed_edit_ok(1) new_path(1)] seed_edit_ok(2) by simp

text \<open>C23. Every editing operation, whatever the host answers and whatever path it is given, leaves an
  overlay well formed, also when it fails half way.\<close>

theorem edits_keep_overlay_wf:
  assumes "overlay_wf ov"
  shows "overlay_wf (snd (mu_writeFile h rv path content create overwrite ov)) \<and>
    overlay_wf (snd (mu_createDirectory h rv path ov)) \<and>
    overlay_wf (snd (mu_delete h rv path recursive ov)) \<and>
    overlay_wf (snd (mu_rename h rv path target overwrite ov)) \<and>
    overlay_wf (snd (mu_revert path ov)) \<and> overlay_wf (snd (mu_revertAll ov))"
  using wf_mutations [THEN preservesD] assms by (intro conjI) (metis prod.collapse)+

theorem edits_keep_overlay_wf_witness:
  "overlay_wf (snd (mu_rename seed_host ''C3'' ''README.md'' ''src/../x'' True seed_edit))"
  using edits_keep_overlay_wf [OF overlay_okD(1) [OF seed_edit_ok(1)], of seed_host "''C3''"] by blast

text \<open>C24. The overlay of a branch survives its snapshot: restoring what \<open>snapshot\<close> saved gives a well
  formed overlay with the same files, directories, deletions and renames.\<close>

theorem overlay_snapshot_roundtrip:
  assumes "overlay_wf ov"
  shows "\<exists>ov'. overlay_fromSnapshot (Some (overlay_snapshot_of collate ov)) = Inr ov' \<and> overlay_wf ov' \<and>
    same_overlay ov' ov"
  using assms fromSnapshot_wf of_snapshot_wf of_snapshot_same by simp

theorem overlay_snapshot_roundtrip_witness:
  "\<exists>ov'. overlay_fromSnapshot (Some (overlay_snapshot_of code_unit_compare seed_edit)) = Inr ov' \<and>
    map_of (ov_files ov') = [''src/new.ts'' \<mapsto> [7]]"
  using overlay_snapshot_roundtrip [OF overlay_okD(1) [OF seed_edit_ok(1)], of code_unit_compare] seed_edit_sel
  by (auto simp: same_overlay_def)

section \<open>Reading a repository\<close>

text \<open>C25. A directory listing of an adapter is passed on only when it is a list of direct children of the
  directory with distinct proper names, and it is never longer than the limit.\<close>

theorem directory_listing_checked:
  assumes "rr_readDirectory h rv d = Inr es" "canonical d"
  shows "distinct (map de_name es) \<and> (\<forall>e \<in> set es. segment (de_name e) \<and> de_path e = child_path d (de_name e)) \<and>
    length es \<le> MAX_DIRECTORY_ENTRIES"
proof -
  have "length es \<le> MAX_DIRECTORY_ENTRIES"
    using assms validateDirectoryEntries_Inr by (auto simp: rr_readDirectory_def pure_form)
  with readDirectory_listing_ok [OF assms] show ?thesis by (simp add: listing_ok_def list_all_iff)
qed

theorem directory_listing_checked_witness:
  "\<exists>es. rr_readDirectory seed_host ''C3'' ''src'' = Inr es \<and> distinct (map de_name es) \<and>
    length es \<le> MAX_DIRECTORY_ENTRIES"
proof -
  have d: "canonical ''src''" "is_dir seed_tree ''src''" unfolding seed_is_dir by code_simp+
  obtain es where "rr_readDirectory seed_host ''C3'' ''src'' = Inr es"
    using served_revision.list_directory [OF seed_served d] by blast
  with directory_listing_checked [OF this d(1)] show ?thesis by blast
qed



text \<open>C27. Reading from a revision whose name contains no NUL character, through a cache that earlier hosts
  filled: a result is what the revision holds, a failure is a failure of the present host, and the cache
  keeps its accounting and holds nothing but the truth. The cache joins revision and path with a NUL
  to a key, so that for other revisions two keys can collide. A host may fail at any time, but what it
  answers is the truth.\<close>

theorem cached_reads_truthful:
  assumes "cache_true truth c" "agrees h truth" "nul_free rv"
  shows "served truth (rr_readFile truth rv path) (rr_readFile h rv path) (reader_readFile h rv path c) \<and>
    served truth (rr_readDirectory truth rv path) (rr_readDirectory h rv path) (reader_readDirectory h rv path c)"
  using reader_readFile_served [OF assms] reader_readDirectory_served [OF assms] by blast

theorem cached_reads_truthful_witness:
  "\<exists>c. newRevisionCache None None = Inr c \<and>
     fst (reader_readFile seed_host ''C3'' ''src/util.ts'' c) = rr_readFile seed_host ''C3'' ''src/util.ts'' \<and>
     cache_true seed_host (snd (reader_readFile seed_host ''C3'' ''src/util.ts'' c))"
proof -
  obtain c where c: "newRevisionCache None None = Inr c" "rc_entries c = []"
    by (simp add: newRevisionCache_def requireNonNegativeFinite_def default_cache_max_bytes_def)
  then have "cache_true seed_host c"
    using cache_reachable_inv [OF cache_reachable.new] by (simp add: cache_true_def)
  from cached_reads_truthful [OF this agrees_refl, of "''C3''" "''src/util.ts''"] c(1) show ?thesis
    by (force simp: served_def nul_free_def split: sum.splits)
qed

text \<open>C28. Every cache the program can build accounts for its entries, holds each key once, and never
  exceeds its byte budget nor its number of entries.\<close>

theorem cache_within_budget:
  assumes "cache_reachable c"
  shows "distinct (keys (rc_entries c)) \<and> rc_retainedBytes c = total_weight (rc_entries c) \<and>
    of_int (rc_retainedBytes c) \<le> rc_maxBytes c \<and>
    (case rc_maxEntries c of None \<Rightarrow> True | Some m \<Rightarrow> int (length (rc_entries c)) \<le> m)"
  using cache_reachable_inv [OF assms]
  by (auto simp: cache_inv_def cache_accounts_def over_budget_def split: option.splits)

theorem cache_within_budget_witness:
  "\<exists>c. newRevisionCache (Some (JFin 100)) (Some (JFin 2)) = Inr c \<and>
     of_int (rc_retainedBytes c) \<le> rc_maxBytes c"
proof -
  let ?c = "\<lparr>rc_entries = [], rc_maxBytes = 100, rc_maxEntries = Some 2, rc_retainedBytes = 0\<rparr>"
  have c: "newRevisionCache (Some (JFin 100)) (Some (JFin 2)) = Inr ?c"
    by (simp add: newRevisionCache_def requireNonNegativeFinite_def requireNonNegativeInteger_def)
  from cache_within_budget [OF cache_reachable.new [OF c]] c show ?thesis by blast
qed

section \<open>The fixture repository\<close>

text \<open>C29. The commit engine compares and swaps: it publishes only when the branch points to the revision
  the request names, as one new commit on top of its base that the branch then points to; when it
  rejects or fails the repository is what it was, and a rejection reports the head it found.\<close>

theorem engine_compare_and_swap:
  assumes "fixture_inv fx" "engine_execute request fx = (r, fx')"
  shows "case r of
      Inl e \<Rightarrow> fx' = fx
    | Inr (CommitRejected reason remote text') \<Rightarrow> fx' = fx \<and> reason = REMOTE_CHANGED \<and>
        map_of (fx_branches fx) (cb_branch (cr_base request)) = remote \<and> remote \<noteq> Some (expected_head request)
    | Inr (CommitSuccess rv c) \<Rightarrow> \<exists>existing files.
        map_of (fx_branches fx) (cb_branch (cr_base request)) = Some (expected_head request) \<and>
        map_of (fx_commits fx) (cb_baseRevision (cr_base request)) = Some existing \<and>
        applyChanges (sc_files existing) (cb_changes (cr_base request)) = Inr files \<and>
        published_commit fx (cb_branch (cr_base request)) (new_parents request existing) files
          (CommitSuccess rv c) fx'"
proof (cases r)
  case (Inl e)
  with assms(2) engine_execute_Inl show ?thesis by simp
next
  case (Inr result)
  show ?thesis
  proof (cases result)
    case (CommitSuccess rv c)
    with assms Inr show ?thesis using engine_execute_success [OF assms(1), of request rv c fx'] by simp
  next
    case (CommitRejected reason remote text')
    with assms(2) Inr have "engine_execute request fx = (Inr (CommitRejected reason remote text'), fx')" by simp
    from engine_execute_rejected [OF this] show ?thesis by (simp add: Inr CommitRejected)
  qed
qed

theorem engine_compare_and_swap_witness:
  "\<exists>r. engine_execute (commit_of ''main'' ''C1'' ''Add'' []) createFixtureRepository = (r, createFixtureRepository)"
proof -
  let ?request = "commit_of ''main'' ''C1'' ''Add'' []"
  obtain r fx' where run: "engine_execute ?request createFixtureRepository = (r, fx')" by fastforce
  have "expected_head ?request = ''C1''" "cb_branch (cr_base ?request) = ''main''"
    by (simp_all add: commit_of_def expected_head_def)
  with engine_compare_and_swap [OF seed_inv run] seed_head have "fx' = createFixtureRepository"
    by (auto split: sum.splits commit_result.splits)
  with run show ?thesis by blast
qed

text \<open>C30. Whatever commits and branch operations are done, with whatever arguments, the repository keeps its
  invariant and no commit it holds is ever changed or lost.\<close>

theorem history_append_only:
  assumes "fixture_step\<^sup>*\<^sup>* fx fx'" "fixture_inv fx"
  shows "fixture_inv fx' \<and> map_of (fx_commits fx) \<subseteq>\<^sub>m map_of (fx_commits fx')"
  using assms by (rule fixture_steps_inv)

theorem history_append_only_witness:
  "\<exists>r fx'. fixture_deleteBranch ''feature/test'' createFixtureRepository = (r, fx') \<and> fixture_inv fx' \<and>
    map_of (fx_commits fx') ''C3'' = map_of (fx_commits createFixtureRepository) ''C3''"
proof -
  obtain r fx' where step: "fixture_deleteBranch ''feature/test'' createFixtureRepository = (r, fx')" by fastforce
  from history_append_only [OF r_into_rtranclp [where r = fixture_step, OF fixture_step.delete [OF step]] seed_inv]
  have "fixture_inv fx'" "map_of (fx_commits createFixtureRepository) \<subseteq>\<^sub>m map_of (fx_commits fx')" by blast+
  moreover have "''C3'' \<in> dom (map_of (fx_commits createFixtureRepository))" using seed_commit by blast
  ultimately show ?thesis using step by (metis map_le_def)
qed

text \<open>C31. Walking the first parents from any commit of the repository comes to an end within as many
  steps as there are commits, and lists the chain from that commit to a root.\<close>

theorem history_walk_ends:
  assumes "fixture_inv fx" "map_of (fx_commits fx) r = Some c"
  shows "\<exists>history. firstParentHistory (length (fx_commits fx)) fx (Some r) = Inr history \<and>
    first_parent_chain fx r history"
proof -
  have "r \<in> set (keys (take (length (fx_commits fx)) (fx_commits fx)))"
    using assms(2) by (force dest: map_of_SomeD)
  from history_terminates [OF assms(1) this, of 0] show ?thesis by simp
qed

theorem history_walk_ends_witness:
  "\<exists>history. firstParentHistory (length (fx_commits createFixtureRepository)) createFixtureRepository
      (Some ''C3'') = Inr history \<and> first_parent_chain createFixtureRepository ''C3'' history"
  using history_walk_ends [OF seed_inv seed_commit] by blast

text \<open>C32. Following the cursors from the first page of a query gives the whole first-parent history of
  the revision the query resolves to, each commit once and in order.\<close>

theorem history_pages_complete:
  assumes "fixture_inv fx" "resolveQueryRevision fx request = Inr r" "map_of (fx_commits fx) r = Some c"
    and "0 < page_limit (cq_limit request)" "int (length (fx_commits fx)) \<le> max_safe_integer"
  shows "\<exists>history. first_parent_chain fx r history \<and>
    follow_pages (Suc (length history)) fx (request\<lparr>cq_cursor := None\<rparr>) = Inr history"
proof -
  obtain history where walk: "firstParentHistory (length (fx_commits fx)) fx (Some r) = Inr history"
    and chain: "first_parent_chain fx r history"
    using history_terminates [OF assms(1), of r "length (fx_commits fx)" 0] assms(3)
    by (force dest: map_of_SomeD)
  have "int (length history) \<le> max_safe_integer"
    using firstParentHistory_length [OF walk] assms(5) by simp
  from follow_pages_from [OF assms(2) walk this assms(4), of None 0 "Suc (length history)"] chain
  show ?thesis by (auto simp: parseCursor_def)
qed

theorem history_pages_complete_witness:
  "\<exists>history. first_parent_chain createFixtureRepository ''C3'' history \<and>
    follow_pages (Suc (length history)) createFixtureRepository
      \<lparr>cq_branch = None, cq_revision = Some ''C3'', cq_cursor = None, cq_limit = Some (JFin 1)\<rparr> = Inr history"
proof -
  let ?q = "\<lparr>cq_branch = None, cq_revision = Some ''C3'', cq_cursor = None, cq_limit = Some (JFin 1)\<rparr>"
  have "resolveQueryRevision createFixtureRepository ?q = Inr ''C3''"
    using seed_commit by (simp add: resolveQueryRevision_def requireCommit_def)
  moreover have "0 < page_limit (cq_limit ?q)" by (simp add: page_limit_def)
  moreover have "int (length (fx_commits createFixtureRepository)) \<le> max_safe_integer"
    by (simp add: createFixtureRepository_def seed_commits_def max_safe_integer_def)
  ultimately show ?thesis
    using history_pages_complete [OF seed_inv _ seed_commit, of ?q] by simp
qed

section \<open>Operations that wait their turn\<close>

text \<open>C33. The serial executor: however the pieces of the operations and further calls interleave, once
  every task is settled their results and the shared state are those of running the operations one
  after the other in the order of the calls; and as long as a task is not settled, one can move.\<close>

theorem serial_executor_serialises:
  assumes "se_step\<^sup>*\<^sup>* (new_executor, s0) (ex, s)"
  shows "if list_all (\<lambda>t. is_settled (tk_status t)) (se_tasks ex)
    then (map tk_status (se_tasks ex), s) =
      map_prod (map status.Settled) id (run_sequence (map tk_operation (se_tasks ex)) s0)
    else \<exists>c. se_internal (ex, s) c"
proof (cases "list_all (\<lambda>t. is_settled (tk_status t)) (se_tasks ex)")
  case True
  have inv: "serial_inv s0 (ex, s)" using serial_steps [OF assms] .
  then obtain k where at: "serial_at k s0 (ex, s)" by (auto simp: serial_inv_def)
  have "k = length (se_tasks ex)"
  proof (rule ccontr)
    assume "k \<noteq> length (se_tasks ex)"
    with at have k: "k < length (se_tasks ex)" by (auto simp: serial_at_def Let_def)
    with True have "is_settled (tk_status (se_tasks ex ! k))" by (simp add: list_all_length)
    with at k show False by (auto simp: serial_at_def Let_def is_settled_def split: status.splits)
  qed
  with at have "map tk_status (se_tasks ex) = map status.Settled (fst (run_sequence (map tk_operation (se_tasks ex)) s0))"
    "s = snd (run_sequence (map tk_operation (se_tasks ex)) s0)"
    by (auto simp: serial_at_def Let_def)
  with True show ?thesis by (simp add: map_prod_def case_prod_beta)
next
  case False
  then have "\<exists>i < length (se_tasks ex). \<not> is_settled (tk_status (se_tasks ex ! i))"
    by (auto simp: list_all_length)
  with serial_progress [OF serial_steps [OF assms]] False show ?thesis by simp
qed

theorem serial_executor_serialises_witness:
  "\<exists>c. se_internal (se_run (Piece (\<lambda>n. (Suc n, Finish (Inr n)))) (new_executor :: (nat, nat) serial_executor), 0) c"
proof -
  let ?ex = "se_run (Piece (\<lambda>n. (Suc n, Finish (Inr n)))) (new_executor :: (nat, nat) serial_executor)"
  have "se_step\<^sup>*\<^sup>* (new_executor, 0) (?ex, 0)" by (intro r_into_rtranclp se_step.call)
  from serial_executor_serialises [OF this] show ?thesis
    by (simp add: se_run_def new_executor_def is_settled_def)
qed



section \<open>The RPC protocol\<close>

text \<open>C35. Requests survive the wire: the object the adapter sends for a well formed request decodes to that
  request, and whatever the decoder accepts is well formed, with canonical paths, non-empty names and
  revisions, and a lease where the commit needs one; what it refuses it refuses with one error.\<close>

theorem rpc_request_roundtrip:
  "(request_ok request \<longrightarrow> decodeRpcRequest (js_request request) = Inr request) \<and>
   (case decodeRpcRequest v of Inr decoded \<Rightarrow> request_ok decoded | Inl e \<Rightarrow> e = RemotishError UNKNOWN)"
  using decode_request decodeRpcRequest_ok fails_closedD [OF decodeRpcRequest_closed] by (auto split: sum.splits)

theorem rpc_request_roundtrip_witness:
  "let request = \<lparr>rq_operation = DoCommit, rq_payload = CommitPayload (AmendCommitRequest
       \<lparr>cb_branch = ''main'', cb_baseRevision = ''C3'', cb_message = [], cb_changes = [AddChange ''a/b'' [0, 255]]\<rparr> ''C3'')\<rparr>
   in decodeRpcRequest (js_request request) = Inr request"
proof -
  have "canonical ''a/b''" by code_simp
  then show ?thesis unfolding Let_def
    by (intro rpc_request_roundtrip [THEN conjunct1, rule_format]) (simp add: request_ok_def commit_ok_def)
qed

text \<open>C36. Results survive the wire: a well formed result is accepted for sending and the receiver decodes it
  to the same result, byte for byte; the code of a failure arrives; and whatever a receiver accepts
  from any sender is well formed.\<close>

theorem rpc_response_roundtrip:
  "(result_ok op r \<longrightarrow> (\<exists>response. encodeRpcSuccess op (js_result r) = Inr response \<and>
      decodeRpcResponse op response = Inr r)) \<and>
   decodeRpcResponse op (encodeRpcFailure code) = Inl (RemotishError code) \<and>
   (decodeRpcResponse op v = Inr r' \<longrightarrow> result_ok op r')"
  using decode_response decode_failure decodeRpcResponse_ok by metis

theorem rpc_response_roundtrip_witness:
  "\<exists>response. encodeRpcSuccess ReadFile (JBytes [0, 255, 10]) = Inr response \<and>
     decodeRpcResponse ReadFile response = Inr (FileResult [0, 255, 10])"
  using rpc_response_roundtrip [of ReadFile "FileResult [0, 255, 10]" NOT_FOUND JNull "NoResult"] by simp

text \<open>C37. The RPC adapter in front of an endpoint that serves an adapter is that adapter: an adapter that
  honours its contract can be reached, with its capabilities; and as far as its results are well
  formed, its branches, its files and its commits come through with the same effect on the remote and
  the same result, and its failures with their code.\<close>

theorem rpc_adapter_transparent:
  assumes "validateAdapterContract ad = Inr ()"
  shows "\<exists>rpc. newRpcAdapter (serve (serve_adapter ad)) (js_session (ad_capabilities ad)) = Inr rpc \<and>
    ad_capabilities rpc = ad_capabilities ad \<and>
    ((\<forall>bs w'. ad_getBranches ad w = (Inr bs, w') \<longrightarrow> list_all branch_ok bs) \<longrightarrow>
       ad_getBranches rpc w = relayed (ad_getBranches ad w)) \<and>
    (r \<noteq> [] \<and> canonical p \<and> ad_readFile ad w r p = race.Settled x \<longrightarrow>
       ad_readFile rpc w r p = race.Settled (fst (relayed (x, w)))) \<and>
    (cap_commits (ad_capabilities ad) \<and> ad_commit ad = Some commit \<and> commit_ok request \<and>
       push_supported (ad_capabilities ad) request \<and>
       (\<forall>r w'. commit request w = (Inr r, w') \<longrightarrow> commit_result_ok r) \<longrightarrow>
       (\<exists>send. ad_commit rpc = Some send \<and> send request w = relayed (commit request w)))"
proof -
  obtain rpc where rpc: "newRpcAdapter (serve (serve_adapter ad)) (js_session (ad_capabilities ad)) = Inr rpc"
    using assms by (rule newRpcAdapter_session)
  note sel = newRpcAdapter_sel [OF rpc decode_session_of_contract [OF assms]]
  show ?thesis
    using relayed_getBranches [of ad w] relayed_readFile [of r p ad w x]
      relayed_commit [of request ad commit w "ad_capabilities ad"]
    by (intro exI [of _ rpc] conjI rpc) (simp_all add: sel push_supported_def)
qed

theorem rpc_adapter_transparent_witness:
  "\<exists>rpc. newRpcAdapter (serve (serve_adapter (fixture_adapter code_unit_compare)))
      (js_session fixture_capabilities) = Inr rpc \<and>
    ad_readFile rpc createFixtureRepository ''C3'' ''src/util.ts'' =
      ad_readFile (fixture_adapter code_unit_compare) createFixtureRepository ''C3'' ''src/util.ts''"
proof -
  let ?read = "ad_readFile (fixture_adapter code_unit_compare) createFixtureRepository ''C3'' ''src/util.ts''"
  have p: "canonical ''src/util.ts''" by code_simp
  obtain content where "seed_tree ''src/util.ts'' = Some content"
    using seed_new_file(3) by (auto simp: seed_kind split: if_splits)
  then have "rr_readFile seed_host ''C3'' ''src/util.ts'' = Inr content"
    by (rule served_revision.read_file [OF seed_served])
  moreover obtain x where x: "?read = race.Settled x"
    using seed_healthy by (simp add: fixture_adapter_def fixture_read_def fault_before_def healthy_def)
  ultimately have "?read = race.Settled (Inr content)"
    using p by (simp add: rr_readFile_def pure_form adapter_host_def withReadDeadline_def)
  moreover have "ad_capabilities (fixture_adapter code_unit_compare) = fixture_capabilities"
    by (simp add: fixture_adapter_def)
  ultimately show ?thesis
    using rpc_adapter_transparent [OF seed_contract [of code_unit_compare], where r = "''C3''" and
      p = "''src/util.ts''" and x = "Inr content" and w = createFixtureRepository] p
    by (auto simp: relayed_def)
qed

section \<open>Stored workspaces of the editor\<close>

lemma storable_snapshot:
  assumes "bw_ok bw" "pending_ok (bw_selected bw) journal"
    and "list_all (\<lambda>(b, t). b \<noteq> [] \<and> wt_baseRevision t \<noteq> []) (bw_trees bw)"
  shows "storable ((bw_snapshot collate bw)\<lparr>sp_pending := journal\<rparr>)"
proof -
  let ?s = "(bw_snapshot collate bw)\<lparr>sp_pending := journal\<rparr>"
  have s: "stored_snapshot_ok (bw_snapshot collate bw)"
    using snapshot_ok [OF assms(1), of None collate] by (simp add: journal_ok_def bw_snapshot_def)
  have stored: "storable_branch (wt_snapshot collate t)" if "(b, t) \<in> set (bw_trees bw)" for b t
  proof -
    have "snapshot_wf (ws_overlay (wt_snapshot collate t))"
      using s that by (auto simp: stored_snapshot_ok_def bw_snapshot_def list_all_iff)
    moreover have "wt_baseRevision t \<noteq> []" using assms(3) that by (auto simp: list_all_iff)
    moreover have "ws_baseRevision (wt_snapshot collate t) = wt_baseRevision t" by (simp add: wt_snapshot_def)
    ultimately show ?thesis
      unfolding snapshot_wf_def overlay_wf_def storable_branch_def by (auto simp: list_all_iff stored_path_def)
  qed
  have selected: "bw_selected bw \<in> set (keys (bw_trees bw))" using assms(1) by (simp add: bw_ok_def)
  then have "bw_selected bw \<noteq> []" using assms(3) by (auto simp: list_all_iff)
  moreover have "list_all (\<lambda>(_, t). storable_branch t) (sp_branches ?s)"
    using stored by (auto simp: bw_snapshot_def list_all_iff)
  ultimately show ?thesis
    using selected assms(1,2) by (simp add: storable_def bw_ok_keys bw_snapshot_def case_prod_unfold comp_def)
qed

text \<open>C38. What the Memento storage saves it loads: a workspace in a state that keeps its invariant, whose
  branch names and revisions are not empty, comes back exactly as it was saved, what is loaded for other
  repositories does not change, and whatever the decoder accepts can be saved and loaded again.\<close>

theorem memento_restores_workspace:
  assumes "memento_laws memento" "bw_ok bw" "pending_ok (bw_selected bw) journal"
    and "list_all (\<lambda>(b, t). b \<noteq> [] \<and> wt_baseRevision t \<noteq> []) (bw_trees bw)"
    and "s = (bw_snapshot collate bw)\<lparr>sp_pending := journal\<rparr>"
    and "so_save (memento_storage memento namespace) r s d = (Inr u, d')"
  shows "so_load (memento_storage memento namespace) r d' = (Inr (Some s), d') \<and>
    (q \<noteq> r \<longrightarrow> fst (so_load (memento_storage memento namespace) q d') =
       fst (so_load (memento_storage memento namespace) q d)) \<and>
    (decodeWorkspaceSnapshot v = Inr x \<longrightarrow> decodeWorkspaceSnapshot (encodeWorkspaceSnapshot x) = Inr x)"
proof -
  have "storable s" using storable_snapshot [OF assms(2-4)] assms(5) by simp
  then have decoded: "decodeWorkspaceSnapshot (encodeWorkspaceSnapshot s) = Inr s"
    by (simp add: decode_encode_snapshot storable_def)
  have saved: "me_get memento (memento_key namespace r) d' = encodeWorkspaceSnapshot s \<and>
      (q \<noteq> r \<longrightarrow> me_get memento (memento_key namespace q) d' = me_get memento (memento_key namespace q) d)"
    using assms(1,6) by (auto simp: memento_laws_def memento_storage_def memento_key_inject dest!: spec)
  have "decodeWorkspaceSnapshot v = Inr x \<Longrightarrow> decodeWorkspaceSnapshot (encodeWorkspaceSnapshot x) = Inr x"
    using decoded_storable [of v x] by (simp add: decode_encode_snapshot storable_def)
  with saved decoded show ?thesis by (simp add: memento_storage_def Let_def encoded_defined)
qed

theorem memento_restores_workspace_witness:
  "let bw = \<lparr>bw_trees = [(''main'', \<lparr>wt_baseRevision = ''c1'', wt_overlay = empty_overlay\<lparr>ov_files := [(''a'', [0, 255])]\<rparr>\<rparr>)],
       bw_selected = ''main''\<rparr>;
     s = (bw_snapshot code_unit_compare bw)\<lparr>sp_pending := Some (Prepared ''main'' ''c1'')\<rparr>;
     storage = memento_storage map_memento ''default''; d' = snd (so_save storage ''r'' s (\<lambda>_. JUndefined)) in
   so_load storage ''r'' d' = (Inr (Some s), d')"
proof -
  define bw where "bw = \<lparr>bw_trees = [(''main'', \<lparr>wt_baseRevision = ''c1'', wt_overlay = empty_overlay\<lparr>ov_files := [(''a'', [0, 255])]\<rparr>\<rparr>)],
       bw_selected = ''main''\<rparr>"
  define s where "s = (bw_snapshot code_unit_compare bw)\<lparr>sp_pending := Some (Prepared ''main'' ''c1'')\<rparr>"
  let ?storage = "memento_storage map_memento ''default''"
  have "canonical ''a''" by code_simp
  then have ok: "bw_ok bw" by (simp add: bw_ok_def bw_def overlay_wf_def stored_path_def empty_overlay_def)
  have journal: "pending_ok (bw_selected bw) (Some (Prepared ''main'' ''c1''))"
    and names: "list_all (\<lambda>(b, t). b \<noteq> [] \<and> wt_baseRevision t \<noteq> []) (bw_trees bw)"
    by (simp_all add: bw_def)
  obtain u d' where save: "so_save ?storage ''r'' s (\<lambda>_. JUndefined) = (Inr u, d')"
    by (simp add: memento_storage_def map_memento_def)
  have "so_load ?storage ''r'' d' = (Inr (Some s), d')"
    using memento_restores_workspace [OF map_memento_laws ok journal names s_def save] by blast
  then show ?thesis
    unfolding bw_def [symmetric] Let_def s_def [symmetric] save by simp
qed



section \<open>The browser RPC transport\<close>

text \<open>C40. A host and an endpoint of the browser RPC transport, over a network that may lose, delay, reorder
  and repeat packets, among other tabs with the same key: as long as the endpoint is not disposed,
  no two calls of its handler are for one request; every call for this host is for a request it
  issued to this endpoint, decoded; the promise of a request settles once, and not while it is
  pending; a response it settles with is the refusal of a packet that is too large to send, the
  refusal of the endpoint, or what the endpoint answered for its one call; and the tables of calls,
  requests and endpoints keep their bounds.\<close>

theorem browser_rpc_at_most_once:
  assumes "start_system parse h origin e target session = Inr sy0"
    and "run_system fits stringify parse as sy0 = Some sy"
  shows "(\<not> ue_disposed (sy_endpoint sy) \<longrightarrow>
      distinct (map (\<lambda>c. (cl_host c, cl_requestId c)) (ue_calls (sy_endpoint sy)))) \<and>
    (\<forall>c \<in> set (ue_calls (sy_endpoint sy)). cl_host c = ht_hostId (sy_host sy) \<longrightarrow>
      (\<exists>raw. (cl_requestId c, ue_endpointId (sy_endpoint sy), raw) \<in> set (ht_requests (sy_host sy)) \<and>
        decodeRpcRequest raw = Inr (cl_request c))) \<and>
    distinct (map fst (ht_pending (sy_host sy)) @ map fst (ht_settled (sy_host sy))) \<and>
    (\<forall>q raw v. (q, ue_endpointId (sy_endpoint sy), raw) \<in> set (ht_requests (sy_host sy)) \<and>
        (q, Inr v) \<in> set (ht_settled (sy_host sy)) \<longrightarrow>
      unsendable_response raw = Inr v \<or> v \<in> {encodeRpcFailure RATE_LIMITED, encodeRpcFailure INVALID_REQUEST} \<or>
      (\<exists>c \<in> set (ue_calls (sy_endpoint sy)). cl_host c = ht_hostId (sy_host sy) \<and> cl_requestId c = q \<and>
        cl_response c = Some v)) \<and>
    length (ue_active (sy_endpoint sy)) \<le> 32 \<and> length (ht_pending (sy_host sy)) \<le> 32 \<and>
    length (ht_endpoints (sy_host sy)) \<le> 32"
proof -
  have inv: "system_inv sy" by (rule reachable_inv [OF assms])
  then have tables: "endpoint_inv (sy_endpoint sy)" "host_inv (sy_host sy)" by (simp_all add: system_inv_def)
  show ?thesis
  proof (intro conjI)
    show "\<forall>q raw v. (q, ue_endpointId (sy_endpoint sy), raw) \<in> set (ht_requests (sy_host sy)) \<and>
        (q, Inr v) \<in> set (ht_settled (sy_host sy)) \<longrightarrow>
      unsendable_response raw = Inr v \<or> v \<in> {encodeRpcFailure RATE_LIMITED, encodeRpcFailure INVALID_REQUEST} \<or>
      (\<exists>c \<in> set (ue_calls (sy_endpoint sy)). cl_host c = ht_hostId (sy_host sy) \<and> cl_requestId c = q \<and>
        cl_response c = Some v)"
      using results_answered [OF inv] unfolding answered_def refusals_def by blast
  qed (use calls_distinct [OF inv] calls_requested [OF inv] tables in
    \<open>simp_all only: endpoint_inv_def host_inv_def MAX_ACTIVE_REQUESTS_def MAX_PENDING_def MAX_ENDPOINTS_def, blast+\<close>)
qed

theorem browser_rpc_at_most_once_witness:
  "\<exists>sy0 sy. demo_start = Inr sy0 \<and> run_system (\<lambda>f. True) (\<lambda>v. []) demo_parse demo_actions sy0 = Some sy \<and>
    length (ue_calls (sy_endpoint sy)) = 1 \<and> ht_settled (sy_host sy) = [(demo_id, Inr demo_answer)] \<and>
    distinct (map (\<lambda>c. (cl_host c, cl_requestId c)) (ue_calls (sy_endpoint sy))) \<and>
    distinct (map fst (ht_pending (sy_host sy)) @ map fst (ht_settled (sy_host sy))) \<and>
    length (ue_active (sy_endpoint sy)) \<le> 32"
proof -
  obtain sy where run: "demo_start = Inr demo_initial"
    "run_system (\<lambda>f. True) (\<lambda>v. []) demo_parse demo_actions demo_initial = Some sy"
    "length (ue_calls (sy_endpoint sy)) = 1" "\<not> ue_disposed (sy_endpoint sy)"
    "ht_settled (sy_host sy) = [(demo_id, Inr demo_answer)]"
    by (rule demo_run)
  note safe = browser_rpc_at_most_once [OF run(1) [unfolded demo_start_def] run(2)]
  show ?thesis
  proof (rule exI [of _ demo_initial], rule exI [of _ sy], intro conjI)
    show "distinct (map (\<lambda>c. (cl_host c, cl_requestId c)) (ue_calls (sy_endpoint sy)))"
      by (rule mp [OF conjunct1 [OF safe] run(4)])
    show "distinct (map fst (ht_pending (sy_host sy)) @ map fst (ht_settled (sy_host sy)))"
      by (rule conjunct1 [OF conjunct2 [OF conjunct2 [OF safe]]])
    show "length (ue_active (sy_endpoint sy)) \<le> 32"
      by (rule conjunct1 [OF conjunct2 [OF conjunct2 [OF conjunct2 [OF conjunct2 [OF safe]]]]])
  qed (rule run)+
qed

end
